(* ===== verification/Atlas_Prelude.thy ===== *)
theory Atlas_Prelude
  imports Main "HOL-Library.AList" "HOL-Library.Char_ord" "HOL-Library.List_Lexorder"
    "HOL-Library.Product_Lexorder"
begin

text \<open>
  Shared vocabulary of the development: identifiers and time, results with errors, Python's
  insertion-ordered dictionaries and sets as lists, relational tables as lists of rows, and the
  string operations of the standard library that the sources use.

  A UUID is a natural number: \<open>str(uuid)\<close> is a fixed-width lower-case hexadecimal numeral, so
  the string order of two UUIDs is the order of the numbers.  A \<open>datetime\<close> is the number of
  microseconds since the epoch.  Text is ASCII text.
\<close>

named_theorems store_simps \<open>how the store operations act on the tables\<close>
named_theorems inv_intros \<open>preservation of store invariants\<close>

type_synonym uuid = nat
type_synonym time = int

section \<open>Results\<close>

text \<open>A raised exception is \<open>Inl\<close>; a normal return is \<open>Inr\<close>.\<close>

fun rbind :: "'e + 'a \<Rightarrow> ('a \<Rightarrow> 'e + 'b) \<Rightarrow> 'e + 'b" where
  "rbind (Inl e) f = Inl e"
| "rbind (Inr x) f = f x"

lemma rbind_Inr_iff [simp]: "rbind m f = Inr y \<longleftrightarrow> (\<exists>x. m = Inr x \<and> f x = Inr y)"
  by (cases m) auto

lemma rbind_Inl_iff: "rbind m f = Inl e \<longleftrightarrow> m = Inl e \<or> (\<exists>x. m = Inr x \<and> f x = Inl e)"
  by (cases m) auto

text \<open>A \<open>for\<close> loop whose body may raise, threading a state.\<close>

fun rfold :: "('a \<Rightarrow> 's \<Rightarrow> 'e + 's) \<Rightarrow> 'a list \<Rightarrow> 's \<Rightarrow> 'e + 's" where
  "rfold f [] s = Inr s"
| "rfold f (x # xs) s = rbind (f x s) (rfold f xs)"

lemma rfold_append: "rfold f (xs @ ys) s = rbind (rfold f xs s) (rfold f ys)"
proof (induction xs arbitrary: s)
  case Nil
  show ?case by simp
next
  case (Cons x xs)
  then show ?case by (cases "f x s") auto
qed

text \<open>The Hoare rule of the loop: an invariant indexed by the items already processed.\<close>

lemma rfold_rule:
  assumes "rfold f xs s = Inr t"
    and "P [] s"
    and "\<And>ys y s t. P ys s \<Longrightarrow> y \<in> set xs \<Longrightarrow> f y s = Inr t \<Longrightarrow> P (ys @ [y]) t"
  shows "P xs t"
proof -
  have "P (ys @ zs) t" if "rfold f zs u = Inr t" "P ys u" "set zs \<subseteq> set xs" for ys zs u
    using that
  proof (induction zs arbitrary: ys u)
    case Nil
    then show ?case by simp
  next
    case (Cons z zs)
    then obtain v where "f z u = Inr v" "rfold f zs v = Inr t" by auto
    with Cons.IH [of v "ys @ [z]"] Cons.prems assms(3) show ?case by auto
  qed
  from this [of xs s "[]"] assms(1,2) show ?thesis by simp
qed

lemma rfold_invariant:
  assumes "rfold f xs s = Inr t" and "P s"
    and "\<And>y s t. P s \<Longrightarrow> y \<in> set xs \<Longrightarrow> f y s = Inr t \<Longrightarrow> P t"
  shows "P t"
  using rfold_rule [where P = "\<lambda>_ s. P s", OF assms(1,2)] assms(3) by blast

section \<open>Ordered dictionaries and sets\<close>

text \<open>\<open>list(dict.fromkeys(xs))\<close>: the first occurrence of each element, in order.\<close>

fun dict_fromkeys_from :: "'a list \<Rightarrow> 'a list \<Rightarrow> 'a list" where
  "dict_fromkeys_from seen [] = []"
| "dict_fromkeys_from seen (x # xs) =
     (if x \<in> set seen then dict_fromkeys_from seen xs
      else x # dict_fromkeys_from (x # seen) xs)"

definition dict_fromkeys :: "'a list \<Rightarrow> 'a list" where
  "dict_fromkeys xs = dict_fromkeys_from [] xs"

lemma set_dict_fromkeys_from: "set (dict_fromkeys_from seen xs) = set xs - set seen"
  by (induction seen xs rule: dict_fromkeys_from.induct) auto

lemma distinct_dict_fromkeys_from: "distinct (dict_fromkeys_from seen xs)"
  by (induction seen xs rule: dict_fromkeys_from.induct) (auto simp: set_dict_fromkeys_from)

lemma set_dict_fromkeys [simp]: "set (dict_fromkeys xs) = set xs"
  by (simp add: dict_fromkeys_def set_dict_fromkeys_from)

lemma distinct_dict_fromkeys [simp]: "distinct (dict_fromkeys xs)"
  by (simp add: dict_fromkeys_def distinct_dict_fromkeys_from)

lemma dict_fromkeys_from_distinct:
  "distinct xs \<Longrightarrow> set xs \<inter> set seen = {} \<Longrightarrow> dict_fromkeys_from seen xs = xs"
  by (induction seen xs rule: dict_fromkeys_from.induct) auto

lemma dict_fromkeys_id [simp]: "distinct xs \<Longrightarrow> dict_fromkeys xs = xs"
  by (simp add: dict_fromkeys_def dict_fromkeys_from_distinct)

lemma length_dict_fromkeys: "length (dict_fromkeys xs) = card (set xs)"
  by (metis distinct_card distinct_dict_fromkeys set_dict_fromkeys)

text \<open>
  \<open>d: dict = defaultdict(list); for x in xs: d[key(x)].append(x)\<close>: the groups in the order of
  their first key, each in the order of the list.
\<close>

definition group_by :: "('a \<Rightarrow> 'k) \<Rightarrow> 'a list \<Rightarrow> ('k \<times> 'a list) list" where
  "group_by key xs =
     map (\<lambda>k. (k, filter (\<lambda>x. key x = k) xs)) (dict_fromkeys (map key xs))"

lemma set_group_by:
  "set (group_by key xs) = (\<lambda>k. (k, filter (\<lambda>x. key x = k) xs)) ` key ` set xs"
  by (simp add: group_by_def)

lemma distinct_fst_group_by: "distinct (map fst (group_by key xs))"
  by (simp add: group_by_def comp_def)

lemma map_of_group_by:
  "map_of (group_by key xs) k =
     (if k \<in> key ` set xs then Some (filter (\<lambda>x. key x = k) xs) else None)"
proof (cases "k \<in> key ` set xs")
  case True
  then have "(k, filter (\<lambda>x. key x = k) xs) \<in> set (group_by key xs)"
    by (simp add: set_group_by)
  then show ?thesis
    using True distinct_fst_group_by [of key xs] by (simp add: map_of_eq_Some_iff)
next
  case False
  then have "k \<notin> fst ` set (group_by key xs)"
    by (auto simp: set_group_by)
  then show ?thesis using False by (simp add: map_of_eq_None_iff)
qed

text \<open>\<open>sorted(set(xs))\<close>.\<close>

definition sorted_set :: "'a::linorder list \<Rightarrow> 'a list" where
  "sorted_set xs = sort (remdups xs)"

lemma set_sorted_set [simp]: "set (sorted_set xs) = set xs"
  by (simp add: sorted_set_def)

lemma sorted_sorted_set [simp]: "sorted (sorted_set xs)"
  by (simp add: sorted_set_def)

lemma distinct_sorted_set [simp]: "distinct (sorted_set xs)"
  by (simp add: sorted_set_def)

lemma sorted_set_cong: "set xs = set ys \<Longrightarrow> sorted_set xs = sorted_set ys"
  by (metis distinct_sorted_set set_sorted_set sorted_distinct_set_unique sorted_sorted_set)

section \<open>Python's sort\<close>

text \<open>
  \<open>sorted(xs, key=k)\<close> is the stable sort; with \<open>reverse=True\<close> CPython reverses the list, sorts
  it and reverses the result, which keeps equal elements in their original order.
\<close>

definition py_sorted_rev :: "('a \<Rightarrow> 'b::linorder) \<Rightarrow> 'a list \<Rightarrow> 'a list" where
  "py_sorted_rev k xs = rev (sort_key k (rev xs))"

lemma set_py_sorted_rev [simp]: "set (py_sorted_rev k xs) = set xs"
  by (simp add: py_sorted_rev_def)

lemma py_sorted_rev_Nil_iff [simp]: "py_sorted_rev k xs = [] \<longleftrightarrow> xs = []"
  by (metis set_empty set_py_sorted_rev)

lemma py_sorted_rev_hd_max:
  assumes "x \<in> set xs"
  shows "k x \<le> k (hd (py_sorted_rev k xs))"
proof -
  let ?ys = "sort_key k (rev xs)"
  have ne: "?ys \<noteq> []" using assms by (metis empty_iff list.set(1) set_rev set_sort)
  have s: "sorted (map k ?ys)" by simp
  have "x \<in> set ?ys" using assms by simp
  then obtain i where i: "i < length ?ys" "?ys ! i = x" by (metis in_set_conv_nth)
  have "map k ?ys ! i \<le> map k ?ys ! (length ?ys - 1)"
    using i ne s by (intro sorted_nth_mono) auto
  then have "k x \<le> k (last ?ys)" using i ne by (simp add: last_conv_nth)
  then show ?thesis using ne by (simp add: py_sorted_rev_def hd_rev)
qed

section \<open>Tables\<close>

text \<open>
  A relational table is the list of its rows in insertion order.  \<open>row_get\<close> is a lookup by key;
  \<open>row_update\<close> is \<open>UPDATE ... WHERE\<close>.
\<close>

definition row_get :: "('r \<Rightarrow> 'k) \<Rightarrow> 'k \<Rightarrow> 'r list \<Rightarrow> 'r option" where
  "row_get key k rows = find (\<lambda>r. key r = k) rows"

definition row_update :: "('r \<Rightarrow> bool) \<Rightarrow> ('r \<Rightarrow> 'r) \<Rightarrow> 'r list \<Rightarrow> 'r list" where
  "row_update p f rows = map (\<lambda>r. if p r then f r else r) rows"

lemma row_get_SomeD: "row_get key k rows = Some r \<Longrightarrow> r \<in> set rows \<and> key r = k"
  by (auto simp: row_get_def find_Some_iff)

lemma row_get_None_iff: "row_get key k rows = None \<longleftrightarrow> k \<notin> key ` set rows"
  by (auto simp: row_get_def find_None_iff)

lemma row_get_Some_iff:
  assumes "distinct (map key rows)"
  shows "row_get key k rows = Some r \<longleftrightarrow> r \<in> set rows \<and> key r = k"
proof
  assume "r \<in> set rows \<and> key r = k"
  then obtain r' where r': "row_get key k rows = Some r'"
    by (metis imageI not_Some_eq row_get_None_iff)
  then have "r' \<in> set rows" "key r' = k" by (auto dest: row_get_SomeD)
  with \<open>r \<in> set rows \<and> key r = k\<close> assms have "r' = r"
    by (metis distinct_map inj_onD)
  with r' show "row_get key k rows = Some r" by simp
qed (auto dest: row_get_SomeD)

lemma row_get_append:
  "row_get key k (xs @ ys) =
     (case row_get key k xs of Some r \<Rightarrow> Some r | None \<Rightarrow> row_get key k ys)"
  by (induction xs) (auto simp: row_get_def)

lemma find_append_single:
  "find p xs = None \<Longrightarrow> p x \<Longrightarrow> find p (xs @ x # ys) = Some x"
  by (induction xs) (auto split: if_splits)

lemma row_get_Nil [simp]: "row_get key k [] = None"
  by (simp add: row_get_def)

lemma row_get_Cons [simp]:
  "row_get key k (r # rows) = (if key r = k then Some r else row_get key k rows)"
  by (simp add: row_get_def)

lemma row_get_update:
  assumes "\<And>r. key (f r) = key r"
  shows "row_get key k (row_update p f rows) =
     map_option (\<lambda>r. if p r then f r else r) (row_get key k rows)"
  using assms by (induction rows) (auto simp: row_update_def)

lemma set_row_update: "set (row_update p f rows) = (\<lambda>r. if p r then f r else r) ` set rows"
  by (simp add: row_update_def)

lemma length_row_update [simp]: "length (row_update p f rows) = length rows"
  by (simp add: row_update_def)

lemma map_row_update:
  assumes "\<And>r. g (f r) = g r"
  shows "map g (row_update p f rows) = map g rows"
  using assms by (simp add: row_update_def)

lemma row_update_Nil [simp]: "row_update p f [] = []"
  by (simp add: row_update_def)

lemma row_update_Cons [simp]:
  "row_update p f (r # rows) = (if p r then f r else r) # row_update p f rows"
  by (simp add: row_update_def)

lemma row_update_append [simp]:
  "row_update p f (xs @ ys) = row_update p f xs @ row_update p f ys"
  by (simp add: row_update_def)

lemma row_update_idle: "(\<And>r. r \<in> set rows \<Longrightarrow> \<not> p r) \<Longrightarrow> row_update p f rows = rows"
  by (simp add: row_update_def map_idI)

text \<open>With a unique key, a lookup depends on the rows only, not on their order.\<close>

lemma row_get_cong:
  assumes "set xs = set ys" and "inj_on key (set xs)"
  shows "row_get key k xs = row_get key k ys"
proof (cases "row_get key k xs")
  case None
  then have "row_get key k ys = None" using assms(1) by (simp add: row_get_None_iff)
  then show ?thesis using None by simp
next
  case (Some r)
  then have "row_get key k ys \<noteq> None"
    using row_get_None_iff [of key k xs] row_get_None_iff [of key k ys] assms(1) by simp
  then obtain s where s: "row_get key k ys = Some s" by blast
  have "r = s"
    using row_get_SomeD [OF Some] row_get_SomeD [OF s] assms by (auto dest: inj_onD)
  then show ?thesis using Some s by simp
qed

lemmas find_key_cong = row_get_cong [unfolded row_get_def]

text \<open>
  Primary keys are allocated by \<open>uuid4()\<close>.  The model draws them from a counter kept in the
  store: an identifier below the counter may be in use, the counter itself is fresh.
\<close>

definition ids_below :: "('r \<Rightarrow> uuid) \<Rightarrow> 'r list \<Rightarrow> uuid \<Rightarrow> bool" where
  "ids_below key rows n \<longleftrightarrow> (\<forall>r \<in> set rows. key r < n) \<and> distinct (map key rows)"

lemma ids_below_mono: "ids_below key rows n \<Longrightarrow> n \<le> m \<Longrightarrow> ids_below key rows m"
  by (auto simp: ids_below_def)

lemma ids_below_snoc:
  "ids_below key rows n \<Longrightarrow> key r = n \<Longrightarrow> ids_below key (rows @ [r]) (Suc n)"
  by (auto simp: ids_below_def less_Suc_eq)

lemma ids_below_update:
  assumes "ids_below key rows n" and "\<And>r. key (f r) = key r"
  shows "ids_below key (row_update p f rows) n"
  using assms by (auto simp: ids_below_def map_row_update set_row_update)

lemma ids_below_distinct: "ids_below key rows n \<Longrightarrow> distinct (map key rows)"
  by (simp add: ids_below_def)

lemma ids_below_fresh: "ids_below key rows n \<Longrightarrow> n \<notin> key ` set rows"
  by (auto simp: ids_below_def)

end
