(* ===== verification/Py_Strings.thy ===== *)
theory Py_Strings
  imports Atlas_Prelude
begin

text \<open>
  The \<open>str\<close> methods and regular expressions of the Python standard library that the sources
  use, on ASCII text: \<open>strip\<close>, \<open>split\<close>, \<open>join\<close>, \<open>lower\<close>, \<open>upper\<close>, the whitespace and
  separator substitutions, \<open>str(int)\<close> and \<open>int(str)\<close>.
\<close>

section \<open>Characters\<close>

definition py_space :: "char \<Rightarrow> bool" where
  "py_space c \<longleftrightarrow> (let n = (of_char c :: nat) in (9 \<le> n \<and> n \<le> 13) \<or> (28 \<le> n \<and> n \<le> 32))"

definition py_digit :: "char \<Rightarrow> bool" where
  "py_digit c \<longleftrightarrow> (let n = (of_char c :: nat) in 48 \<le> n \<and> n \<le> 57)"

definition digit_val :: "char \<Rightarrow> nat" where
  "digit_val c = (of_char c :: nat) - 48"

definition py_lower_char :: "char \<Rightarrow> char" where
  "py_lower_char c =
     (let n = (of_char c :: nat) in if 65 \<le> n \<and> n \<le> 90 then char_of (n + 32) else c)"

definition py_upper_char :: "char \<Rightarrow> char" where
  "py_upper_char c =
     (let n = (of_char c :: nat) in if 97 \<le> n \<and> n \<le> 122 then char_of (n - 32) else c)"

section \<open>String methods\<close>

definition py_lower :: "string \<Rightarrow> string" where
  "py_lower s = map py_lower_char s"

definition py_upper :: "string \<Rightarrow> string" where
  "py_upper s = map py_upper_char s"

definition py_lstrip :: "string \<Rightarrow> string" where
  "py_lstrip s = dropWhile py_space s"

definition py_strip :: "string \<Rightarrow> string" where
  "py_strip s = rev (dropWhile py_space (rev (py_lstrip s)))"

text \<open>\<open>s.split()\<close>: the maximal runs of non-space characters.\<close>

fun py_split_acc :: "string \<Rightarrow> string \<Rightarrow> string list" where
  "py_split_acc acc [] = (if acc = [] then [] else [rev acc])"
| "py_split_acc acc (c # cs) =
     (if py_space c then (if acc = [] then [] else [rev acc]) @ py_split_acc [] cs
      else py_split_acc (c # acc) cs)"

definition py_split :: "string \<Rightarrow> string list" where
  "py_split s = py_split_acc [] s"

text \<open>\<open>" ".join(ws)\<close>.\<close>

fun join_space :: "string list \<Rightarrow> string" where
  "join_space [] = []"
| "join_space [w] = w"
| "join_space (w # ws) = w @ '' '' @ join_space ws"

text \<open>\<open>" ".join(s.strip().split())\<close>: collapse runs of white space.\<close>

definition collapse_ws :: "string \<Rightarrow> string" where
  "collapse_ws s = join_space (py_split (py_strip s))"

text \<open>\<open>re.sub(r"\s+", " ", s)\<close>.\<close>

fun sub_spaces_run :: "bool \<Rightarrow> string \<Rightarrow> string" where
  "sub_spaces_run inside [] = []"
| "sub_spaces_run inside (c # cs) =
     (if py_space c then (if inside then [] else '' '') @ sub_spaces_run True cs
      else c # sub_spaces_run False cs)"

definition sub_spaces :: "string \<Rightarrow> string" where
  "sub_spaces s = sub_spaces_run False s"

text \<open>\<open>re.sub(r"[-/\s]", "", s)\<close>.\<close>

definition strip_separators :: "string \<Rightarrow> string" where
  "strip_separators s = filter (\<lambda>c. c \<noteq> CHR ''-'' \<and> c \<noteq> CHR ''/'' \<and> \<not> py_space c) s"

section \<open>Integers and text\<close>

fun str_of_nat :: "nat \<Rightarrow> string" where
  "str_of_nat n =
     (if n < 10 then [char_of (48 + n)] else str_of_nat (n div 10) @ [char_of (48 + n mod 10)])"

declare str_of_nat.simps [simp del]

definition str_of_int :: "int \<Rightarrow> string" where
  "str_of_int i = (if i < 0 then ''-'' @ str_of_nat (nat (- i)) else str_of_nat (nat i))"

definition nat_of_digits :: "nat list \<Rightarrow> nat" where
  "nat_of_digits ds = foldl (\<lambda>a d. 10 * a + d) 0 ds"

text \<open>
  A run of digits in which single underscores may separate two digits, as \<open>int()\<close> and \<open>float()\<close>
  accept: the digits and the rest of the text.
\<close>

fun digits_rest :: "string \<Rightarrow> nat list \<times> string" where
  "digits_rest (c # cs) =
     (if py_digit c then (let (ds, r) = digits_rest cs in (digit_val c # ds, r))
      else if c = CHR ''_''
        then (case cs of
            d # cs' \<Rightarrow> if py_digit d then (let (ds, r) = digits_rest cs' in (digit_val d # ds, r))
                       else ([], c # cs)
          | [] \<Rightarrow> ([], c # cs))
      else ([], c # cs))"
| "digits_rest [] = ([], [])"

definition digit_part :: "string \<Rightarrow> nat list \<times> string" where
  "digit_part s = (case s of c # cs \<Rightarrow> if py_digit c then digits_rest s else ([], s) | [] \<Rightarrow> ([], []))"

definition split_sign :: "string \<Rightarrow> int \<times> string" where
  "split_sign s = (case s of
       c # cs \<Rightarrow> if c = CHR ''-'' then (-1, cs) else if c = CHR ''+'' then (1, cs) else (1, s)
     | [] \<Rightarrow> (1, []))"

text \<open>\<open>int(s)\<close> in base ten; \<open>None\<close> is the \<open>ValueError\<close>.\<close>

definition py_int :: "string \<Rightarrow> int option" where
  "py_int s =
     (let (sg, r) = split_sign (py_strip s); (ds, rest) = digit_part r
      in if ds \<noteq> [] \<and> rest = [] then Some (sg * int (nat_of_digits ds)) else None)"

section \<open>Lemmas\<close>

lemma py_space_space [simp]: "py_space CHR '' ''"
  by (simp add: py_space_def)

lemma dropWhile_head: "dropWhile P xs = y # ys \<Longrightarrow> \<not> P y"
  by (metis dropWhile_eq_Cons_conv)

lemma py_strip_Nil_iff: "py_strip s = [] \<longleftrightarrow> (\<forall>c \<in> set s. py_space c)"
  by (auto simp: py_strip_def py_lstrip_def dropWhile_eq_Nil_conv dest: set_dropWhileD)
    (metis dropWhile_eq_Nil_conv hd_dropWhile list.set_sel(1) list.sel(1) set_dropWhileD)

lemma py_split_acc_words:
  "w \<in> set (py_split_acc acc s) \<Longrightarrow> (\<forall>c \<in> set acc. \<not> py_space c) \<Longrightarrow>
     w \<noteq> [] \<and> (\<forall>c \<in> set w. \<not> py_space c)"
  by (induction acc s rule: py_split_acc.induct) (auto split: if_splits)

lemma py_split_words: "w \<in> set (py_split s) \<Longrightarrow> w \<noteq> [] \<and> (\<forall>c \<in> set w. \<not> py_space c)"
  using py_split_acc_words [of w "[]" s] by (simp add: py_split_def)

lemma py_split_acc_word_append:
  "(\<forall>c \<in> set w. \<not> py_space c) \<Longrightarrow> py_split_acc acc (w @ s) = py_split_acc (rev w @ acc) s"
  by (induction w arbitrary: acc) auto

lemma py_split_acc_join:
  assumes "\<forall>w \<in> set ws. w \<noteq> [] \<and> (\<forall>c \<in> set w. \<not> py_space c)"
  shows "py_split_acc [] (join_space ws) = ws"
  using assms
proof (induction ws rule: join_space.induct)
  case (2 w)
  then show ?case using py_split_acc_word_append [of w "[]" "[]"] by simp
next
  case (3 w v va)
  then show ?case by (simp add: py_split_acc_word_append)
qed simp

lemma strip_join:
  assumes "\<forall>w \<in> set ws. w \<noteq> [] \<and> (\<forall>c \<in> set w. \<not> py_space c)"
  shows "py_strip (join_space ws) = join_space ws"
proof (cases "ws = []")
  case False
  have hd_ok: "join_space ws \<noteq> [] \<and> \<not> py_space (hd (join_space ws))"
    using False assms by (induction ws rule: join_space.induct) (auto simp: hd_append)
  have last_ok: "\<not> py_space (last (join_space ws))"
    using False assms
  proof (induction ws rule: join_space.induct)
    case (3 w v va)
    moreover have "join_space (v # va) \<noteq> []"
      using 3 by (cases va) auto
    ultimately show ?case by (simp add: last_append)
  qed auto
  have "dropWhile py_space (join_space ws) = join_space ws"
    using hd_ok by (cases "join_space ws") auto
  moreover have "dropWhile py_space (rev (join_space ws)) = rev (join_space ws)"
    using hd_ok last_ok by (cases "rev (join_space ws)") (auto simp: hd_rev [symmetric])
  ultimately show ?thesis by (simp add: py_strip_def py_lstrip_def)
qed (simp add: py_strip_def py_lstrip_def)

text \<open>Collapsing white space is idempotent.\<close>

lemma collapse_ws_idem: "collapse_ws (collapse_ws s) = collapse_ws s"
proof -
  let ?ws = "py_split (py_strip s)"
  have ok: "\<forall>w \<in> set ?ws. w \<noteq> [] \<and> (\<forall>c \<in> set w. \<not> py_space c)"
    using py_split_words by blast
  have "py_split (py_strip (join_space ?ws)) = ?ws"
    using strip_join [OF ok] py_split_acc_join [OF ok] by (simp add: py_split_def)
  then show ?thesis by (simp add: collapse_ws_def)
qed

section \<open>UUID text\<close>

definition hex_chars :: string where
  "hex_chars = ''0123456789abcdef''"

fun hex_digits :: "nat \<Rightarrow> nat \<Rightarrow> string" where
  "hex_digits 0 n = []"
| "hex_digits (Suc k) n = hex_digits k (n div 16) @ [hex_chars ! (n mod 16)]"

text \<open>\<open>str(uuid)\<close>: 32 hexadecimal digits in groups of 8, 4, 4, 4 and 12.\<close>

definition str_uuid :: "uuid \<Rightarrow> string" where
  "str_uuid u =
     (let h = hex_digits 32 u
      in take 8 h @ ''-'' @ take 4 (drop 8 h) @ ''-'' @ take 4 (drop 12 h) @ ''-''
         @ take 4 (drop 16 h) @ ''-'' @ drop 20 h)"

end
