(* ===== verification/Py_Float.thy ===== *)
theory Py_Float
  imports Complex_Main Py_Strings
begin

text \<open>
  Python's \<open>float\<close>: IEEE 754 binary64.  A finite float is the rational number it denotes;
  \<open>fl\<close> rounds a rational to the nearest double (ties to even, gradual underflow), so the sum
  \<open>a + b\<close> of the program is \<open>fl (a + b)\<close> here.  \<open>py_float\<close> is \<open>float(str)\<close>, \<open>py_round4\<close> is
  \<open>round(x, 4)\<close>.
\<close>

section \<open>Rounding\<close>

definition half_even :: "rat \<Rightarrow> int" where
  "half_even q =
     (let f = \<lfloor>q\<rfloor>; r = q - of_int f
      in if r < 1 / 2 then f else if r > 1 / 2 then f + 1 else if even f then f else f + 1)"

definition exp2 :: "int \<Rightarrow> rat" where
  "exp2 k = (if 0 \<le> k then 2 ^ nat k else 1 / 2 ^ nat (- k))"

fun bit_length :: "nat \<Rightarrow> nat" where
  "bit_length n = (if n = 0 then 0 else Suc (bit_length (n div 2)))"

declare bit_length.simps [simp del]

text \<open>The binary exponent of a positive rational: the largest \<open>k\<close> with \<open>2 ^ k \<le> q\<close>.\<close>

definition ilog2 :: "rat \<Rightarrow> int" where
  "ilog2 q =
     (let (n, d) = quotient_of q;
          k = int (bit_length (nat n)) - int (bit_length (nat d))
      in if exp2 k \<le> q then k else k - 1)"

definition ulp_exp :: "rat \<Rightarrow> int" where
  "ulp_exp a = max (ilog2 a - 52) (- 1074)"

definition fl :: "rat \<Rightarrow> rat" where
  "fl q =
     (if q = 0 then 0
      else let e = ulp_exp \<bar>q\<bar> in sgn q * of_int (half_even (\<bar>q\<bar> / exp2 e)) * exp2 e)"

text \<open>\<open>round(x, 4)\<close> of a float: correctly rounded to four decimals, then to a double.\<close>

definition py_round4 :: "rat \<Rightarrow> rat" where
  "py_round4 x = fl (of_int (half_even (x * 10000)) / 10000)"

datatype pyfloat = Fin rat | PosInf | NegInf | NaN

definition to_float :: "rat \<Rightarrow> pyfloat" where
  "to_float q =
     (let v = fl q in if v \<ge> 2 ^ 1024 then PosInf else if v \<le> - (2 ^ 1024) then NegInf else Fin v)"

text \<open>\<open>==\<close> on floats: \<open>nan\<close> is equal to nothing.\<close>

fun float_eq :: "pyfloat \<Rightarrow> pyfloat \<Rightarrow> bool" where
  "float_eq NaN _ = False"
| "float_eq _ NaN = False"
| "float_eq a b = (a = b)"

section \<open>Text to float\<close>

definition pow10 :: "int \<Rightarrow> rat" where
  "pow10 k = (if 0 \<le> k then 10 ^ nat k else 1 / 10 ^ nat (- k))"

text \<open>The exponent suffix: \<open>Some 0\<close> when there is none, \<open>None\<close> when it is malformed.\<close>

definition exponent_part :: "string \<Rightarrow> int option" where
  "exponent_part s = (case s of
       [] \<Rightarrow> Some 0
     | c # cs \<Rightarrow>
         if c = CHR ''e'' \<or> c = CHR ''E''
         then (let (sg, r) = split_sign cs; (ds, rest) = digit_part r
               in if ds \<noteq> [] \<and> rest = [] then Some (sg * int (nat_of_digits ds)) else None)
         else None)"

definition unsigned_decimal :: "string \<Rightarrow> rat option" where
  "unsigned_decimal s =
     (let (ip, r) = digit_part s;
          (fp, rest) = (case r of c # cs \<Rightarrow> if c = CHR ''.'' then digit_part cs else ([], r) | [] \<Rightarrow> ([], []))
      in if ip = [] \<and> fp = [] then None
         else (case exponent_part rest of
             None \<Rightarrow> None
           | Some e \<Rightarrow> Some (rat_of_nat (nat_of_digits (ip @ fp)) * pow10 (e - int (length fp)))))"

definition py_float :: "string \<Rightarrow> pyfloat option" where
  "py_float s =
     (let (sg, r) = split_sign (py_strip s); w = py_lower r
      in if w = ''inf'' \<or> w = ''infinity'' then Some (if sg = 1 then PosInf else NegInf)
         else if w = ''nan'' then Some NaN
         else map_option (\<lambda>q. to_float (of_int sg * q)) (unsigned_decimal r))"

section \<open>Correctness of the rounding\<close>

lemma half_even_of_int [simp]: "half_even (of_int i) = i"
  by (simp add: half_even_def)

lemma half_even_error: "\<bar>of_int (half_even q) - q\<bar> \<le> 1 / 2"
proof -
  define f where "f = rat_of_int \<lfloor>q\<rfloor>"
  have "f \<le> q" "q < f + 1"
    using floor_correct [of q] by (simp_all add: f_def)
  moreover have "rat_of_int (half_even q) = (if q - f < 1 / 2 then f
      else if q - f > 1 / 2 then f + 1 else if even \<lfloor>q\<rfloor> then f else f + 1)"
    by (simp add: half_even_def Let_def f_def)
  ultimately show ?thesis by (simp add: abs_le_iff split: if_splits)
qed

lemma half_even_nonneg: "0 \<le> q \<Longrightarrow> 0 \<le> half_even q"
  by (auto simp: half_even_def Let_def)

lemma exp2_pos [simp]: "0 < exp2 k"
  by (simp add: exp2_def)

lemma exp2_nz [simp]: "exp2 k \<noteq> 0"
  using exp2_pos [of k] by linarith

lemma exp2_add: "exp2 (a + b) = exp2 a * exp2 b"
proof -
  have p: "exp2 k = 2 powi k" for k
    by (auto simp: exp2_def power_int_def field_simps)
  show ?thesis by (simp add: p power_int_add)
qed

lemma exp2_mono: "a \<le> b \<Longrightarrow> exp2 a \<le> exp2 b"
proof -
  assume "a \<le> b"
  then have "exp2 b = exp2 a * exp2 (b - a)" using exp2_add [of a "b - a"] by simp
  moreover have "1 \<le> exp2 (b - a)" using \<open>a \<le> b\<close> by (simp add: exp2_def)
  ultimately show ?thesis by simp
qed

lemma bit_length_bounds: "0 < n \<Longrightarrow> 2 ^ (bit_length n - 1) \<le> n \<and> n < 2 ^ bit_length n \<and> 0 < bit_length n"
proof (induction n rule: bit_length.induct)
  case (1 n)
  show ?case
  proof (cases "n = 1")
    case True
    then show ?thesis by (simp add: bit_length.simps)
  next
    case False
    with 1 have IH: "2 ^ (bit_length (n div 2) - 1) \<le> n div 2" "n div 2 < 2 ^ bit_length (n div 2)"
      "0 < bit_length (n div 2)"
      by auto
    have bl: "bit_length n = Suc (bit_length (n div 2))"
      using 1 by (subst bit_length.simps) simp
    have "(2::nat) ^ bit_length (n div 2) = 2 * 2 ^ (bit_length (n div 2) - 1)"
      using IH(3) by (metis Suc_pred' power_Suc)
    moreover have "2 * (n div 2) \<le> n" "n < 2 * (n div 2) + 2" by presburger+
    moreover have "n div 2 + 1 \<le> 2 ^ bit_length (n div 2)" using IH(2) by simp
    moreover have "2 ^ (bit_length n - 1) = (2::nat) ^ bit_length (n div 2)"
      "(2::nat) ^ bit_length n = 2 * 2 ^ bit_length (n div 2)" using bl by simp_all
    ultimately show ?thesis using IH(1) bl by linarith
  qed
qed

lemma ilog2_bounds:
  assumes "0 < q"
  shows "exp2 (ilog2 q) \<le> q \<and> q < exp2 (ilog2 q + 1)"
proof -
  obtain n d where nd: "quotient_of q = (n, d)" by fastforce
  have d: "0 < d" using quotient_of_denom_pos [OF nd] .
  have q: "q = of_int n / of_int d" using quotient_of_div [OF nd] .
  have n: "0 < n" using assms d unfolding q by (simp add: zero_less_divide_iff)
  define a b where "a = bit_length (nat n)" and "b = bit_length (nat d)"
  have A: "2 ^ (a - 1) \<le> nat n" "nat n < 2 ^ a" "0 < a"
    and B: "2 ^ (b - 1) \<le> nat d" "nat d < 2 ^ b" "0 < b"
    using bit_length_bounds [of "nat n"] bit_length_bounds [of "nat d"] n d
    by (auto simp: a_def b_def)
  have An: "rat_of_nat (2 ^ (a - 1)) \<le> rat_of_nat (nat n)" "rat_of_nat (nat n) < rat_of_nat (2 ^ a)"
    using A by (simp_all only: of_nat_le_iff of_nat_less_iff)
  have Bn: "rat_of_nat (2 ^ (b - 1)) \<le> rat_of_nat (nat d)" "rat_of_nat (nat d) < rat_of_nat (2 ^ b)"
    using B by (simp_all only: of_nat_le_iff of_nat_less_iff)
  have e: "exp2 (int k) = 2 ^ k" for k by (simp add: exp2_def)
  have N: "exp2 (int a - 1) \<le> of_int n" "of_int n < exp2 (int a)"
    using An A(3) n e [of "a - 1"] e [of a] by (simp_all add: of_nat_diff)
  have D: "exp2 (int b - 1) \<le> of_int d" "of_int d < exp2 (int b)"
    using Bn B(3) d e [of "b - 1"] e [of b] by (simp_all add: of_nat_diff)
  have hi: "q < exp2 (int a - int b + 1)"
  proof -
    have "exp2 (int a) = exp2 (int a - int b + 1) * exp2 (int b - 1)"
      using exp2_add [of "int a - int b + 1" "int b - 1"] by simp
    also have "\<dots> \<le> exp2 (int a - int b + 1) * of_int d"
      using D(1) by simp
    finally have "of_int n < exp2 (int a - int b + 1) * of_int d" using N(2) by linarith
    then show ?thesis using d by (simp add: q divide_less_eq)
  qed
  have lo: "exp2 (int a - int b - 1) \<le> q"
  proof -
    have "exp2 (int a - int b - 1) * of_int d \<le> exp2 (int a - int b - 1) * exp2 (int b)"
      using D(2) by simp
    also have "\<dots> = exp2 (int a - 1)" using exp2_add [of "int a - int b - 1" "int b"] by simp
    finally have "exp2 (int a - int b - 1) * of_int d \<le> of_int n" using N(1) by linarith
    then show ?thesis using d by (simp add: q le_divide_eq)
  qed
  have il: "ilog2 q = (if exp2 (int a - int b) \<le> q then int a - int b else int a - int b - 1)"
    by (simp add: ilog2_def nd a_def b_def)
  show ?thesis using hi lo by (auto simp: il)
qed

lemma ilog2_le: "0 < q \<Longrightarrow> q < exp2 k \<Longrightarrow> ilog2 q < k"
  using ilog2_bounds [of q] exp2_mono [of k "ilog2 q"] by force

text \<open>The absolute rounding error is at most half a unit in the last place.\<close>

lemma fl_error:
  assumes "\<bar>q\<bar> < exp2 k" and "- 1021 \<le> k"
  shows "\<bar>fl q - q\<bar> \<le> exp2 (k - 54)"
proof (cases "q = 0")
  case False
  define e where "e = ulp_exp \<bar>q\<bar>"
  have "ilog2 \<bar>q\<bar> < k" using assms False by (intro ilog2_le) auto
  then have ek: "e \<le> k - 53" using assms(2) by (simp add: e_def ulp_exp_def)
  have "\<bar>of_int (half_even (\<bar>q\<bar> / exp2 e)) - \<bar>q\<bar> / exp2 e\<bar> \<le> 1 / 2"
    by (rule half_even_error)
  then have "\<bar>of_int (half_even (\<bar>q\<bar> / exp2 e)) - \<bar>q\<bar> / exp2 e\<bar> * exp2 e \<le> 1 / 2 * exp2 e"
    by (intro mult_right_mono) (simp_all add: less_imp_le)
  moreover have "\<bar>of_int (half_even (\<bar>q\<bar> / exp2 e)) - \<bar>q\<bar> / exp2 e\<bar> * exp2 e
      = \<bar>of_int (half_even (\<bar>q\<bar> / exp2 e)) * exp2 e - \<bar>q\<bar>\<bar>"
  proof -
    have "\<bar>x\<bar> * exp2 e = \<bar>x * exp2 e\<bar>" for x by (simp add: abs_mult less_imp_le)
    moreover have "(y - \<bar>q\<bar> / exp2 e) * exp2 e = y * exp2 e - \<bar>q\<bar>" for y
      by (simp add: left_diff_distrib)
    ultimately show ?thesis by simp
  qed
  moreover have "\<bar>fl q - q\<bar> = \<bar>of_int (half_even (\<bar>q\<bar> / exp2 e)) * exp2 e - \<bar>q\<bar>\<bar>"
  proof -
    define h where "h = rat_of_int (half_even (\<bar>q\<bar> / exp2 e)) * exp2 e"
    have "fl q = sgn q * h" using False by (simp add: fl_def e_def Let_def h_def)
    moreover have "q = sgn q * \<bar>q\<bar>" by (simp add: sgn_mult_abs)
    ultimately have "fl q - q = sgn q * (h - \<bar>q\<bar>)" by (simp add: right_diff_distrib)
    then show ?thesis using False by (simp add: abs_mult h_def)
  qed
  moreover have "1 / 2 * exp2 e = exp2 (e - 1)"
    using exp2_add [of "e - 1" 1] by (simp add: exp2_def [of 1])
  moreover have "exp2 (e - 1) \<le> exp2 (k - 54)" using ek by (intro exp2_mono) simp
  ultimately show ?thesis by linarith
qed (simp add: fl_def less_imp_le)

lemma fl_zero [simp]: "fl 0 = 0"
  by (simp add: fl_def)

lemma fl_nonneg: "0 \<le> q \<Longrightarrow> 0 \<le> fl q"
  by (auto simp: fl_def Let_def half_even_nonneg less_imp_le)

text \<open>Integers up to \<open>2 ^ 53\<close> are represented exactly.\<close>

lemma fl_of_int:
  assumes "\<bar>i\<bar> < 2 ^ 53"
  shows "fl (of_int i) = of_int i"
proof (cases "i = 0")
  case False
  define e where "e = ulp_exp \<bar>of_int i\<bar>"
  have "\<bar>rat_of_int i\<bar> < exp2 53"
  proof -
    have "rat_of_int \<bar>i\<bar> < rat_of_int (2 ^ 53)" using assms by (simp only: of_int_less_iff)
    then show ?thesis by (simp add: exp2_def)
  qed
  then have "ilog2 \<bar>rat_of_int i\<bar> < 53" using False by (intro ilog2_le) auto
  then have e0: "e \<le> 0" by (simp add: e_def ulp_exp_def)
  have "\<bar>rat_of_int i\<bar> / exp2 e = of_int (\<bar>i\<bar> * 2 ^ nat (- e))"
    using e0 by (cases "e = 0") (auto simp: exp2_def)
  then have "of_int (half_even (\<bar>rat_of_int i\<bar> / exp2 e)) = \<bar>rat_of_int i\<bar> / exp2 e"
    by (metis half_even_of_int)
  then have "fl (of_int i) = sgn (of_int i) * (\<bar>rat_of_int i\<bar> / exp2 e) * exp2 e"
    using False by (simp only: fl_def e_def [symmetric] Let_def of_int_eq_0_iff if_False)
  also have "\<dots> = of_int i" by (simp add: sgn_mult_abs)
  finally show ?thesis .
qed simp

text \<open>Rounding does not cross an integer bound: here the bound 1.\<close>

lemma half_even_le: "x \<le> of_int n \<Longrightarrow> half_even x \<le> n"
proof -
  assume le: "x \<le> of_int n"
  show ?thesis
  proof (cases "x = of_int n")
    case False
    with le have "\<lfloor>x\<rfloor> < n" by (simp add: floor_less_iff)
    then show ?thesis by (auto simp: half_even_def Let_def)
  qed simp
qed

lemma fl_le_1:
  assumes "0 \<le> q" and "q \<le> 1"
  shows "fl q \<le> 1"
proof (cases "q = 0 \<or> q = 1")
  case True
  then show ?thesis using fl_of_int [of 1] by auto
next
  case False
  define e where "e = ulp_exp q"
  have q: "0 < q" "q < exp2 0" using False assms by (auto simp: exp2_def)
  then have e: "e \<le> 0" using ilog2_le [of q 0] by (simp add: e_def ulp_exp_def)
  have inv: "exp2 (- e) * exp2 e = 1"
    using exp2_add [of "- e" e] by (simp add: exp2_def [of 0])
  have "q / exp2 e = q * exp2 (- e)" using inv by (simp add: field_simps)
  also have "\<dots> \<le> exp2 (- e)" using assms by (simp add: mult_left_le_one_le)
  also have "exp2 (- e) = of_int (2 ^ nat (- e))" using e by (simp add: exp2_def)
  finally have "half_even (q / exp2 e) \<le> 2 ^ nat (- e)" by (rule half_even_le)
  then have "rat_of_int (half_even (q / exp2 e)) \<le> of_int (2 ^ nat (- e))"
    by (simp only: of_int_le_iff)
  also have "\<dots> = exp2 (- e)" using e by (simp add: exp2_def)
  finally have "of_int (half_even (q / exp2 e)) * exp2 e \<le> exp2 (- e) * exp2 e"
    by (intro mult_right_mono) (simp_all add: less_imp_le)
  then have "of_int (half_even (q / exp2 e)) * exp2 e \<le> 1" by (simp only: inv)
  moreover have "fl q = of_int (half_even (q / exp2 e)) * exp2 e"
    using q(1) by (simp add: fl_def e_def Let_def)
  ultimately show ?thesis by (simp only:)
qed

lemma to_float_of_int:
  assumes "\<bar>i\<bar> < 2 ^ 53"
  shows "to_float (of_int i) = Fin (of_int i)"
proof -
  have "rat_of_int \<bar>i\<bar> < 2 ^ 53"
    using assms by (metis of_int_less_iff of_int_numeral of_int_power)
  moreover have "(2::rat) ^ 53 \<le> 2 ^ 1024" by (rule power_increasing) auto
  ultimately have "\<bar>rat_of_int i\<bar> < 2 ^ 1024" by simp
  then show ?thesis using fl_of_int [OF assms] by (auto simp: to_float_def Let_def)
qed

lemma float_eq_iff: "float_eq a b \<longleftrightarrow> a = b \<and> a \<noteq> NaN"
  by (cases "(a, b)" rule: float_eq.cases) auto

end
