(* ===== verification/Atlas_Entities.thy ===== *)
theory Atlas_Entities
  imports Py_Float
begin

text \<open>
  The domain model: the enumerations of \<open>domain/enums.py\<close>, the entities of
  \<open>domain/entities.py\<close> with their methods, the exception hierarchy of \<open>domain/exceptions.py\<close>
  and the data-transfer objects the use cases return.  Field names carry a short prefix of their
  class, since Isabelle's record selectors share one name space.
\<close>

section \<open>Enumerations\<close>

datatype role = ANALYST | REVIEWER | ADMIN

datatype claim_type = RAW | CONFIRMED | MANUAL_OVERRIDE | SUPERSEDED

definition active_values :: "claim_type list" where
  "active_values = filter (\<lambda>t. t \<noteq> SUPERSEDED) [RAW, CONFIRMED, MANUAL_OVERRIDE, SUPERSEDED]"

datatype conflict_status = OPEN | RESOLVED

datatype source_kind = EXTERNAL | INTERNAL

datatype modifier_type = USER | INGESTION | SYSTEM

datatype conflict_modifier_reason =
    INITIAL | NEW_EVIDENCE | EVIDENCE_UPDATED | USER_RESOLVED | USER_REOPENED | SYSTEM_AUTO_CLOSED

datatype outbox_status = PENDING | PROCESSING | PROCESSED | FAILED | DEAD_LETTER

text \<open>\<open>DuplicateReviewStatus\<close>, with a prefix where the name is taken.\<close>

datatype duplicate_review_status =
    REVIEW_PENDING | REJECTED | MERGED | AUTO_MERGED | CONFIRMED_DUPLICATE

section \<open>Values\<close>

text \<open>
  Claim values are JSON values; \<open>JFloat\<close> carries the rational a finite float denotes.
\<close>

datatype json =
    JNull
  | JBool bool
  | JInt int
  | JFloat rat
  | JStr string
  | JList "json list"
  | JDict "(string \<times> json) list"

definition DISPUTED_MARKER :: string where
  "DISPUTED_MARKER = ''__DISPUTED__''"

definition MAX_REGISTRATION_ALIASES :: nat where
  "MAX_REGISTRATION_ALIASES = 5"

text \<open>
  A projected field holds a JSON value or the singleton \<open>DISPUTED\<close> object; serialization turns
  the latter into the marker string.
\<close>

datatype pvalue = DISPUTED | PVal json

fun replace_disputed :: "pvalue \<Rightarrow> json" where
  "replace_disputed DISPUTED = JStr DISPUTED_MARKER"
| "replace_disputed (PVal v) = v"

section \<open>Entities\<close>

record source =
  src_id :: uuid
  src_name :: string
  src_kind :: source_kind
  src_reliability_tier :: int
  src_field_mapping_json :: "(string \<times> string) list"
  src_created_at :: time

record accident_event =
  ev_id :: uuid
  ev_created_at :: time
  ev_merged_into_event_id :: "uuid option"

definition is_merged :: "accident_event \<Rightarrow> bool" where
  "is_merged e \<longleftrightarrow> ev_merged_into_event_id e \<noteq> None"

record claim =
  cl_id :: uuid
  cl_event_id :: uuid
  cl_source_id :: uuid
  cl_raw_snapshot_id :: "uuid option"
  cl_field_name :: string
  cl_field_value :: json
  cl_claim_type :: claim_type
  cl_created_at :: time
  cl_created_by :: "uuid option"
  cl_superseded_by_claim_id :: "uuid option"

definition can_win :: "claim \<Rightarrow> bool" where
  "can_win c \<longleftrightarrow> cl_claim_type c \<in> {MANUAL_OVERRIDE, CONFIRMED, RAW}"

definition is_active :: "claim \<Rightarrow> bool" where
  "is_active c \<longleftrightarrow> cl_claim_type c \<in> set active_values"

definition supersede :: "uuid \<Rightarrow> claim \<Rightarrow> claim" where
  "supersede by_claim_id c =
     c\<lparr>cl_claim_type := SUPERSEDED, cl_superseded_by_claim_id := Some by_claim_id\<rparr>"

record claim_history =
  ch_id :: uuid
  ch_claim_id :: uuid
  ch_event_id :: uuid
  ch_from_value :: "json option"
  ch_to_value :: "json option"
  ch_from_claim_type :: "claim_type option"
  ch_to_claim_type :: claim_type
  ch_action :: string
  ch_reason :: string
  ch_modifier_type :: modifier_type
  ch_modifier_id :: "uuid option"
  ch_created_at :: time

record claim_conflict =
  cc_id :: uuid
  cc_event_id :: uuid
  cc_field_name :: string
  cc_status :: conflict_status
  cc_version :: int
  cc_last_modified_reason :: conflict_modifier_reason
  cc_last_modified_note :: "string option"
  cc_winning_claim_id :: "uuid option"
  cc_resolved_at :: "time option"
  cc_resolved_by :: "uuid option"
  cc_created_at :: time
  cc_updated_at :: time
  cc_claim_ids :: "uuid list"

record conflict_activity_log_entry =
  al_id :: uuid
  al_conflict_id :: uuid
  al_event_id :: uuid
  al_sequence :: int
  al_from_status :: "conflict_status option"
  al_to_status :: conflict_status
  al_modifier_type :: modifier_type
  al_modifier_id :: "uuid option"
  al_reason :: string
  al_version_at_moment :: int
  al_claims_snapshot :: "(string \<times> uuid list) list"
  al_created_at :: time

record projected_accident_record =
  pr_event_id :: uuid
  pr_projection_version :: int
  pr_fields :: "(string \<times> pvalue) list"
  pr_completeness_score :: rat
  pr_unresolved_conflict_fields :: "string list"
  pr_updated_at :: time

text \<open>The JSON snapshot of a projection kept in the audit history.\<close>

record projection_snapshot =
  ps_fields :: "(string \<times> json) list"
  ps_unresolved_conflict_fields :: "string list"
  ps_completeness_score :: rat
  ps_version :: int

record accident_projection_history =
  ph_id :: uuid
  ph_accident_event_id :: uuid
  ph_projection_version :: int
  ph_caused_by_conflict_id :: "uuid option"
  ph_caused_by_ingestion_run_id :: "uuid option"
  ph_caused_by_outbox_event_id :: "uuid option"
  ph_projected_record_snapshot :: projection_snapshot
  ph_projected_record_hash :: string
  ph_changed_fields :: "string list"
  ph_created_at :: time

text \<open>The payload of an outbox event maps names to the UUIDs whose strings it stores.\<close>

record outbox_event =
  ob_id :: uuid
  ob_event_type :: string
  ob_aggregate_id :: uuid
  ob_payload :: "(string \<times> uuid) list"
  ob_status :: outbox_status
  ob_attempt_count :: nat
  ob_locked_at :: "time option"
  ob_locked_by :: "string option"
  ob_last_error :: "string option"
  ob_next_attempt_at :: "time option"
  ob_created_at :: time
  ob_processed_at :: "time option"

record event_identity_index =
  ii_event_id :: uuid
  ii_event_date_norm :: "string option"
  ii_registration_norm :: "string option"
  ii_operator_norm :: "string option"
  ii_location_norm :: "string option"
  ii_aircraft_type_norm :: "string option"
  ii_source_record_ids :: "string list"
  ii_registration_norms :: "string list"
  ii_updated_at :: time

record pending_duplicate_review =
  rv_id :: uuid
  rv_event_id_a :: uuid
  rv_event_id_b :: uuid
  rv_status :: duplicate_review_status
  rv_match_score :: rat
  rv_matched_fields :: "string list"
  rv_created_at :: time
  rv_resolved_at :: "time option"
  rv_resolved_by :: "uuid option"
  rv_resolution_note :: "string option"

record raw_snapshot =
  sn_id :: uuid
  sn_source_id :: uuid
  sn_ingestion_run_id :: uuid
  sn_payload_hash :: string
  sn_payload_json :: json
  sn_schema_version :: int
  sn_captured_at :: time
  sn_created_at :: time
  sn_source_record_id :: "string option"
  sn_raw_payload_hash :: "string option"
  sn_submission_hash :: "string option"
  sn_submission_fingerprint_json :: "json option"
  sn_ingestion_result_json :: "json option"

record ingestion_run =
  ru_id :: uuid
  ru_source_id :: uuid
  ru_status :: string
  ru_started_at :: time
  ru_finished_at :: "time option"

section \<open>Exceptions\<close>

text \<open>
  One constructor per exception class the modelled code raises, with the data its constructor
  takes.  Messages are dropped.  \<open>ValueError\<close>, \<open>RuntimeError\<close>, \<open>KeyError\<close> and
  \<open>OverflowError\<close> are Python's own;
  \<open>IntegrityError\<close> is the violation of a unique index or a foreign key of the schema.
\<close>

datatype atlas_error =
    SourceNotFoundError uuid
  | EventNotFoundError uuid
  | ConflictNotFoundError uuid
  | ClaimNotFoundError uuid
  | DomainValidationError
  | PayloadTooLargeError
  | TooManyClaimsError
  | ConflictAlreadyResolvedError uuid
  | ClaimNotInConflictError uuid uuid
  | ConflictModifiedError uuid int "claim_conflict option" "projected_accident_record option"
      "conflict_activity_log_entry option" "conflict_modifier_reason option"
  | ClaimNotEligibleError uuid claim_type
  | EventAlreadyMergedError uuid
  | SourceRecordEventMismatchError uuid uuid
  | CannotMergeIntoSelfError uuid
  | DuplicateClaimFieldError "string list"
  | ReviewNotFoundError uuid
  | ReviewAlreadyResolvedError uuid
  | ConflictReconciliationError uuid string nat
  | PersistenceCorruptionError
  | InvariantViolationError
  | IngestionRunSourceMismatchError uuid uuid uuid
  | IdempotencyKeyPayloadMismatchError
  | IngestionInProgressError
  | NormalizationError
  | ValueError
  | RuntimeError
  | KeyError
  | OverflowError
  | IntegrityError

section \<open>Methods of \<open>ClaimConflict\<close>\<close>

text \<open>\<open>(reason or None) and reason[:255]\<close>: an empty reason is stored as null.\<close>

definition note_of :: "string \<Rightarrow> string option" where
  "note_of reason = (if reason = [] then None else Some (take 255 reason))"

text \<open>The model validator: a resolved conflict names its winner unless the system closed it.\<close>

definition check_resolved_fields :: "claim_conflict \<Rightarrow> atlas_error + claim_conflict" where
  "check_resolved_fields c =
     (if cc_status c = RESOLVED \<and> cc_winning_claim_id c = None
         \<and> cc_last_modified_reason c \<noteq> SYSTEM_AUTO_CLOSED
      then Inl ValueError else Inr c)"

definition conflict_resolve ::
  "time \<Rightarrow> claim_conflict \<Rightarrow> uuid \<Rightarrow> uuid \<Rightarrow> string \<Rightarrow> atlas_error + claim_conflict" where
  "conflict_resolve now c winning_claim_id resolved_by reason =
     (if cc_status c \<noteq> OPEN then Inl (ConflictAlreadyResolvedError (cc_id c))
      else if cc_claim_ids c \<noteq> [] \<and> winning_claim_id \<notin> set (cc_claim_ids c)
        then Inl (ClaimNotInConflictError winning_claim_id (cc_id c))
      else Inr (c\<lparr>cc_status := RESOLVED, cc_winning_claim_id := Some winning_claim_id,
                  cc_resolved_by := Some resolved_by, cc_resolved_at := Some now,
                  cc_version := cc_version c + 1,
                  cc_last_modified_reason := USER_RESOLVED,
                  cc_last_modified_note := note_of reason, cc_updated_at := now\<rparr>))"

definition reopen_for_new_evidence :: "time \<Rightarrow> claim_conflict \<Rightarrow> string \<Rightarrow> claim_conflict" where
  "reopen_for_new_evidence now c reason =
     c\<lparr>cc_status := OPEN, cc_winning_claim_id := None, cc_resolved_by := None,
       cc_resolved_at := None, cc_version := cc_version c + 1,
       cc_last_modified_reason := NEW_EVIDENCE,
       cc_last_modified_note := note_of reason, cc_updated_at := now\<rparr>"

definition reopen_by_user ::
  "time \<Rightarrow> claim_conflict \<Rightarrow> string \<Rightarrow> atlas_error + claim_conflict" where
  "reopen_by_user now c reason =
     (if cc_status c \<noteq> RESOLVED then Inl ValueError
      else Inr (c\<lparr>cc_status := OPEN, cc_winning_claim_id := None, cc_resolved_by := None,
                  cc_resolved_at := None, cc_version := cc_version c + 1,
                  cc_last_modified_reason := USER_REOPENED,
                  cc_last_modified_note := note_of reason, cc_updated_at := now\<rparr>))"

definition add_claim_id :: "uuid \<Rightarrow> claim_conflict \<Rightarrow> claim_conflict" where
  "add_claim_id i c =
     (if i \<in> set (cc_claim_ids c) then c else c\<lparr>cc_claim_ids := cc_claim_ids c @ [i]\<rparr>)"

definition add_evidence ::
  "time \<Rightarrow> conflict_modifier_reason \<Rightarrow> claim_conflict \<Rightarrow> claim_conflict" where
  "add_evidence now reason c =
     c\<lparr>cc_version := cc_version c + 1, cc_last_modified_reason := reason, cc_updated_at := now\<rparr>"

section \<open>Methods of \<open>EventIdentityIndex\<close>\<close>

text \<open>
  The loop of \<open>cap_registration_norms\<close> over the reversed list: \<open>seen\<close> and the capped list in
  reversed order, stopping when the cap is reached.
\<close>

fun cap_loop :: "string list \<Rightarrow> string list \<Rightarrow> string list" where
  "cap_loop capped [] = capped"
| "cap_loop capped (x # xs) =
     (if x \<in> set capped then cap_loop capped xs
      else if length (capped @ [x]) \<ge> MAX_REGISTRATION_ALIASES then capped @ [x]
      else cap_loop (capped @ [x]) xs)"

definition cap_registration_norms :: "string list \<Rightarrow> string list" where
  "cap_registration_norms value = rev (cap_loop [] (rev value))"

text \<open>The matcher's view of an identity row: scalar fields and the historical aliases.\<close>

record identity_fields =
  if_scalars :: "(string \<times> string) list"
  if_registration_norms :: "string list"

definition truthy_field :: "string \<Rightarrow> string option \<Rightarrow> (string \<times> string) list" where
  "truthy_field name v = (case v of Some s \<Rightarrow> if s = [] then [] else [(name, s)] | None \<Rightarrow> [])"

definition identity_fields_of :: "event_identity_index \<Rightarrow> identity_fields" where
  "identity_fields_of r =
     \<lparr>if_scalars =
        truthy_field ''event_date'' (ii_event_date_norm r)
        @ truthy_field ''registration'' (ii_registration_norm r)
        @ truthy_field ''operator'' (ii_operator_norm r)
        @ truthy_field ''location'' (ii_location_norm r)
        @ truthy_field ''aircraft_type'' (ii_aircraft_type_norm r),
      if_registration_norms =
        filter (\<lambda>a. Some a \<noteq> ii_registration_norm r) (ii_registration_norms r)\<rparr>"

section \<open>Lemmas on the entities\<close>

lemma set_active_values [simp]: "set active_values = {RAW, CONFIRMED, MANUAL_OVERRIDE}"
  by (auto simp: active_values_def)

lemma is_active_iff: "is_active c \<longleftrightarrow> cl_claim_type c \<noteq> SUPERSEDED"
  by (cases "cl_claim_type c") (auto simp: is_active_def)

text \<open>The two predicates the code keeps apart agree.\<close>

lemma can_win_iff: "can_win c \<longleftrightarrow> cl_claim_type c \<noteq> SUPERSEDED"
  by (cases "cl_claim_type c") (auto simp: can_win_def)

lemma can_win_is_active: "can_win c = is_active c"
  by (simp add: can_win_iff is_active_iff)

lemma supersede_simps [simp]:
  "cl_id (supersede w c) = cl_id c"
  "cl_event_id (supersede w c) = cl_event_id c"
  "cl_field_name (supersede w c) = cl_field_name c"
  "cl_field_value (supersede w c) = cl_field_value c"
  "cl_source_id (supersede w c) = cl_source_id c"
  "cl_raw_snapshot_id (supersede w c) = cl_raw_snapshot_id c"
  "cl_created_at (supersede w c) = cl_created_at c"
  "cl_claim_type (supersede w c) = SUPERSEDED"
  "cl_superseded_by_claim_id (supersede w c) = Some w"
  "\<not> is_active (supersede w c)"
  by (simp_all add: supersede_def is_active_iff)

lemma note_of_bounded: "note_of r = Some n \<Longrightarrow> 0 < length n \<and> length n \<le> 255"
  by (auto simp: note_of_def split: if_splits)

lemma cap_loop_bound:
  "length capped < MAX_REGISTRATION_ALIASES \<Longrightarrow>
     length (cap_loop capped xs) \<le> MAX_REGISTRATION_ALIASES"
  by (induction capped xs rule: cap_loop.induct) auto

lemma cap_loop_distinct: "distinct capped \<Longrightarrow> distinct (cap_loop capped xs)"
  by (induction capped xs rule: cap_loop.induct) auto

lemma cap_loop_subset: "set (cap_loop capped xs) \<subseteq> set capped \<union> set xs"
  by (induction capped xs rule: cap_loop.induct) auto

lemma cap_loop_mono: "set capped \<subseteq> set (cap_loop capped xs)"
  by (induction capped xs rule: cap_loop.induct) auto

lemma cap_loop_id:
  "distinct (capped @ xs) \<Longrightarrow> length (capped @ xs) \<le> MAX_REGISTRATION_ALIASES \<Longrightarrow>
     cap_loop capped xs = capped @ xs"
proof (induction capped xs rule: cap_loop.induct)
  case (2 capped x xs)
  show ?case
  proof (cases "MAX_REGISTRATION_ALIASES \<le> length (capped @ [x])")
    case True
    then have "length xs = 0" using "2.prems"(2) by (simp del: length_0_conv)
    then show ?thesis using 2 by auto
  next
    case False
    then show ?thesis using 2 by auto
  qed
qed simp

lemma cap_registration_norms_idem:
  "cap_registration_norms (cap_registration_norms v) = cap_registration_norms v"
proof -
  have "distinct (cap_loop [] (rev v))" by (simp add: cap_loop_distinct)
  moreover have "length (cap_loop [] (rev v)) \<le> MAX_REGISTRATION_ALIASES"
    by (rule cap_loop_bound) (simp add: MAX_REGISTRATION_ALIASES_def)
  ultimately have "cap_loop [] (cap_loop [] (rev v)) = cap_loop [] (rev v)"
    using cap_loop_id [of "[]"] by simp
  then show ?thesis by (simp add: cap_registration_norms_def)
qed

end
