(* ===== verification/Claim_Values.thy ===== *)
theory Claim_Values
  imports Atlas_Entities
begin

text \<open>
  The value comparison of \<open>domain/services/conflict_detector.py\<close>: \<open>_coerce_numeric\<close>,
  \<open>normalize_value\<close>, \<open>_make_hashable\<close> and \<open>unique_normalised_values\<close>, with Python's \<open>==\<close> on
  the values they build (numbers compare across \<open>int\<close>, \<open>float\<close> and \<open>bool\<close>; \<open>nan\<close> is equal
  to nothing, so a set of two \<open>nan\<close>s has two elements).
\<close>

section \<open>Normalised values\<close>

text \<open>\<open>NBool b\<close> is the tuple \<open>("__bool__", b)\<close> that \<open>normalize_value\<close> makes of a boolean.\<close>

datatype nval =
    NNone
  | NBool bool
  | NInt int
  | NFloat pyfloat
  | NStr string
  | NDict "(string \<times> nval) list"
  | NList "nval list"

definition coerce_numeric :: "string \<Rightarrow> nval" where
  "coerce_numeric value =
     (let stripped = py_strip value;
          try_float = (case py_float stripped of Some f \<Rightarrow> NFloat f | None \<Rightarrow> NStr value)
      in case py_int stripped of
          Some as_int \<Rightarrow>
            if str_of_int as_int = stripped
               \<and> (stripped = ''0'' \<or> \<not> (stripped \<noteq> [] \<and> hd stripped = CHR ''0''))
            then NInt as_int else try_float
        | None \<Rightarrow> try_float)"

text \<open>\<open>sorted(value.items())\<close>: by key, which is unique in a dictionary.\<close>

fun normalize_value :: "json \<Rightarrow> nval" where
  "normalize_value JNull = NNone"
| "normalize_value (JBool b) = NBool b"
| "normalize_value (JInt i) = NInt i"
| "normalize_value (JFloat q) = NFloat (Fin q)"
| "normalize_value (JStr s) = coerce_numeric (join_space (py_split (py_lower (py_strip s))))"
| "normalize_value (JDict kvs) = NDict (sort_key fst (map (\<lambda>(k, v). (k, normalize_value v)) kvs))"
| "normalize_value (JList vs) = NList (map normalize_value vs)"

section \<open>Hashable values\<close>

datatype hval = HNone | HBool bool | HInt int | HFloat pyfloat | HStr string | HTuple "hval list"

fun make_hashable :: "nval \<Rightarrow> hval" where
  "make_hashable NNone = HNone"
| "make_hashable (NBool b) = HTuple [HStr ''__bool__'', HBool b]"
| "make_hashable (NInt i) = HInt i"
| "make_hashable (NFloat f) = HFloat f"
| "make_hashable (NStr s) = HStr s"
| "make_hashable (NDict kvs) =
     HTuple (map (\<lambda>(k, v). HTuple [HStr k, v])
       (sort_key fst (map (\<lambda>(k, v). (k, make_hashable v)) kvs)))"
| "make_hashable (NList vs) = HTuple (map make_hashable vs)"

text \<open>Python's \<open>==\<close> on these values.  Numbers compare by the value they denote.\<close>

fun num_of :: "hval \<Rightarrow> pyfloat option" where
  "num_of (HInt i) = Some (Fin (of_int i))"
| "num_of (HBool b) = Some (Fin (if b then 1 else 0))"
| "num_of (HFloat f) = Some f"
| "num_of _ = None"

fun hash_eq :: "hval \<Rightarrow> hval \<Rightarrow> bool" where
  "hash_eq HNone HNone = True"
| "hash_eq (HStr a) (HStr b) = (a = b)"
| "hash_eq (HTuple xs) (HTuple ys) = list_all2 hash_eq xs ys"
| "hash_eq a b = (case (num_of a, num_of b) of (Some x, Some y) \<Rightarrow> float_eq x y | _ \<Rightarrow> False)"

text \<open>A Python set built from a list: an element joins unless an equal one is present.\<close>

fun py_set_from :: "hval list \<Rightarrow> hval list \<Rightarrow> hval list" where
  "py_set_from acc [] = acc"
| "py_set_from acc (x # xs) =
     (if list_ex (\<lambda>y. hash_eq y x) acc then py_set_from acc xs else py_set_from (acc @ [x]) xs)"

definition claim_key :: "claim \<Rightarrow> hval" where
  "claim_key c = make_hashable (normalize_value (cl_field_value c))"

definition unique_normalised_values :: "claim list \<Rightarrow> hval list" where
  "unique_normalised_values claims = py_set_from [] (map claim_key claims)"

text \<open>
  \<open>normalize_value(a) != normalize_value(b)\<close>, compared without \<open>_make_hashable\<close>: a list is
  never equal to a dictionary or to the boolean tuple.
\<close>

fun nval_num :: "nval \<Rightarrow> pyfloat option" where
  "nval_num (NInt i) = Some (Fin (of_int i))"
| "nval_num (NFloat f) = Some f"
| "nval_num _ = None"

fun nval_eq :: "nval \<Rightarrow> nval \<Rightarrow> bool" where
  "nval_eq NNone NNone = True"
| "nval_eq (NBool a) (NBool b) = (a = b)"
| "nval_eq (NStr a) (NStr b) = (a = b)"
| "nval_eq (NList xs) (NList ys) = list_all2 nval_eq xs ys"
| "nval_eq (NDict xs) (NDict ys) =
     list_all2 (\<lambda>p q. fst p = fst q \<and> nval_eq (snd p) (snd q)) xs ys"
| "nval_eq a b = (case (nval_num a, nval_num b) of (Some x, Some y) \<Rightarrow> float_eq x y | _ \<Rightarrow> False)"

section \<open>Equality of keys\<close>

text \<open>The canonical form of a key: every number as the float it is equal to.\<close>

fun canon :: "hval \<Rightarrow> hval" where
  "canon (HInt i) = HFloat (Fin (of_int i))"
| "canon (HBool b) = HFloat (Fin (if b then 1 else 0))"
| "canon (HTuple xs) = HTuple (map canon xs)"
| "canon v = v"

fun nan_free :: "hval \<Rightarrow> bool" where
  "nan_free (HFloat f) = (f \<noteq> NaN)"
| "nan_free (HTuple xs) = list_all nan_free xs"
| "nan_free _ = True"

lemma list_all2_canon:
  assumes "\<And>x y. x \<in> set xs \<Longrightarrow> hash_eq x y \<longleftrightarrow> canon x = canon y \<and> nan_free x"
  shows "list_all2 hash_eq xs ys \<longleftrightarrow> map canon xs = map canon ys \<and> list_all nan_free xs"
  using assms
proof (induction xs arbitrary: ys)
  case Nil
  then show ?case by (cases ys) auto
next
  case (Cons x xs)
  then show ?case by (cases ys) auto
qed

lemma hash_eq_canon: "hash_eq a b \<longleftrightarrow> canon a = canon b \<and> nan_free a"
proof (induction a arbitrary: b)
  case (HTuple xs)
  then show ?case by (cases b) (simp_all add: list_all2_canon)
qed (case_tac b; simp add: float_eq_iff; fail)+

lemma py_set_from_not_less: "length acc \<le> length (py_set_from acc xs)"
  by (induction acc xs rule: py_set_from.induct) (auto split: if_splits)

lemma canon_nan_free: "canon a = canon b \<Longrightarrow> nan_free a = nan_free b"
proof -
  have "nan_free (canon a) = nan_free a" for a by (induction a) (auto simp: list_all_iff)
  from this [of a] this [of b] show "canon a = canon b \<Longrightarrow> nan_free a = nan_free b" by simp
qed

lemma hash_eq_sym: "hash_eq a b = hash_eq b a"
  using canon_nan_free [of a b] by (auto simp: hash_eq_canon)

lemma hash_eq_trans: "hash_eq a b \<Longrightarrow> hash_eq b c \<Longrightarrow> hash_eq a c"
  by (simp add: hash_eq_canon)

section \<open>Agreement\<close>

text \<open>
  Two claims state the same value, and a list of claims agrees: any two of its members do.  As in Python a
  value with a NaN is the same as no value, not even as its own text claimed again.
\<close>

definition same_value :: "claim \<Rightarrow> claim \<Rightarrow> bool" where
  "same_value a b \<longleftrightarrow> hash_eq (claim_key a) (claim_key b)"

definition claims_agree :: "claim list \<Rightarrow> bool" where
  "claims_agree cs \<longleftrightarrow> sorted_wrt same_value cs"

lemma same_value_sym: "same_value a b = same_value b a"
  by (simp add: same_value_def hash_eq_sym)

lemma same_value_trans: "same_value a b \<Longrightarrow> same_value b c \<Longrightarrow> same_value a c"
  unfolding same_value_def by (rule hash_eq_trans)

text \<open>A set that starts with one element keeps one element if and only if all others are equal to it.\<close>

lemma py_set_from_one: "length (py_set_from [x] ys) \<le> Suc 0 \<longleftrightarrow> list_all (hash_eq x) ys"
proof (induction ys)
  case (Cons y ys)
  have "length [x, y] \<le> length (py_set_from [x, y] ys)" by (rule py_set_from_not_less)
  then show ?case using Cons by auto
qed simp

lemma unique_values_le_1_iff: "length (unique_normalised_values cs) \<le> 1 \<longleftrightarrow> claims_agree cs"
proof (cases cs)
  case (Cons c cs')
  have "sorted_wrt same_value xs" if "list_all (same_value c) xs" for xs
    using that by (induction xs) (auto simp: list_all_iff intro: same_value_trans same_value_sym [THEN iffD1])
  then have "claims_agree cs \<longleftrightarrow> list_all (same_value c) cs'" using Cons by (auto simp: claims_agree_def list_all_iff)
  also have "\<dots> \<longleftrightarrow> length (unique_normalised_values cs) \<le> 1"
    using Cons by (simp add: unique_normalised_values_def py_set_from_one list_all_iff same_value_def)
  finally show ?thesis by (rule sym)
qed (simp add: unique_normalised_values_def claims_agree_def)

lemma claims_agree_same: "claims_agree cs \<Longrightarrow> a \<in> set cs \<Longrightarrow> b \<in> set cs \<Longrightarrow> a \<noteq> b \<Longrightarrow> same_value a b"
  unfolding claims_agree_def by (induction cs) (auto intro: same_value_sym [THEN iffD1])

lemma claims_agree_iff:
  assumes "distinct cs"
  shows "claims_agree cs \<longleftrightarrow> (\<forall>a \<in> set cs. \<forall>b \<in> set cs. a \<noteq> b \<longrightarrow> same_value a b)"
proof
  assume "\<forall>a \<in> set cs. \<forall>b \<in> set cs. a \<noteq> b \<longrightarrow> same_value a b"
  then show "claims_agree cs" using assms unfolding claims_agree_def by (induction cs) auto
qed (use claims_agree_same in blast)

lemma unique_values_Nil_iff [simp]: "unique_normalised_values cs = [] \<longleftrightarrow> cs = []"
proof (cases cs)
  case (Cons c cs')
  then show ?thesis
    using py_set_from_not_less [of "[claim_key c]" "map claim_key cs'"]
    by (auto simp: unique_normalised_values_def)
qed (simp add: unique_normalised_values_def)

end
