(* ===== verification/Conflict_Detection.thy ===== *)
theory Conflict_Detection
  imports Claim_Values
begin

text \<open>
  \<open>ConflictDetector.detect\<close> (\<open>domain/services/conflict_detector.py\<close>) and
  \<open>latest_resolved_conflicts_by_field\<close> (\<open>domain/services/conflict_utils.py\<close>).
\<close>

section \<open>The detector\<close>

definition new_conflict :: "time \<Rightarrow> uuid \<Rightarrow> uuid \<Rightarrow> string \<Rightarrow> uuid list \<Rightarrow> claim_conflict" where
  "new_conflict now i event_id field_name ids =
     \<lparr>cc_id = i, cc_event_id = event_id, cc_field_name = field_name, cc_status = OPEN,
      cc_version = 1, cc_last_modified_reason = INITIAL, cc_last_modified_note = None,
      cc_winning_claim_id = None, cc_resolved_at = None, cc_resolved_by = None,
      cc_created_at = now, cc_updated_at = now, cc_claim_ids = ids\<rparr>"

text \<open>
  The loop over the groups; \<open>n\<close> is the supply of fresh identifiers, which it returns advanced.
\<close>

fun detect_loop ::
  "bool \<Rightarrow> time \<Rightarrow> uuid \<Rightarrow> ((uuid \<times> string) \<times> claim list) list \<Rightarrow> claim_conflict list \<times> uuid" where
  "detect_loop multi now n [] = ([], n)"
| "detect_loop multi now n (((event_id, field_name), field_claims) # groups) =
     (if length (unique_normalised_values field_claims) \<le> 1 then detect_loop multi now n groups
      else if multi \<and> length (dict_fromkeys (map cl_source_id field_claims)) < 2
        then detect_loop multi now n groups
      else let (rest, n') = detect_loop multi now (Suc n) groups
           in (new_conflict now n event_id field_name (map cl_id field_claims) # rest, n'))"

definition event_field :: "claim \<Rightarrow> uuid \<times> string" where
  "event_field c = (cl_event_id c, cl_field_name c)"

definition detect :: "bool \<Rightarrow> time \<Rightarrow> uuid \<Rightarrow> claim list \<Rightarrow> claim_conflict list \<times> uuid" where
  "detect multi now n claims = detect_loop multi now n (group_by event_field (filter is_active claims))"

section \<open>The authoritative resolved conflict of a field\<close>

definition newer_conflict :: "claim_conflict \<Rightarrow> claim_conflict \<Rightarrow> bool" where
  "newer_conflict c existing \<longleftrightarrow>
     (cc_version c, cc_updated_at c) > (cc_version existing, cc_updated_at existing)"

fun latest_resolved_from ::
  "(string \<rightharpoonup> claim_conflict) \<Rightarrow> claim_conflict list \<Rightarrow> (string \<rightharpoonup> claim_conflict)" where
  "latest_resolved_from resolved [] = resolved"
| "latest_resolved_from resolved (c # cs) =
     (if cc_status c \<noteq> RESOLVED then latest_resolved_from resolved cs
      else case resolved (cc_field_name c) of
          None \<Rightarrow> latest_resolved_from (resolved(cc_field_name c \<mapsto> c)) cs
        | Some existing \<Rightarrow>
            if newer_conflict c existing
            then latest_resolved_from (resolved(cc_field_name c \<mapsto> c)) cs
            else latest_resolved_from resolved cs)"

definition latest_resolved_conflicts_by_field ::
  "claim_conflict list \<Rightarrow> (string \<rightharpoonup> claim_conflict)" where
  "latest_resolved_conflicts_by_field conflicts = latest_resolved_from Map.empty conflicts"

section \<open>Lemmas\<close>

text \<open>Which groups become conflicts.\<close>

definition group_conflicts :: "bool \<Rightarrow> claim list \<Rightarrow> bool" where
  "group_conflicts multi cs \<longleftrightarrow>
     length (unique_normalised_values cs) > 1
     \<and> (multi \<longrightarrow> length (dict_fromkeys (map cl_source_id cs)) \<ge> 2)"

lemma detect_loop_eq:
  "detect_loop multi now n groups =
     (let gs = filter (\<lambda>g. group_conflicts multi (snd g)) groups
      in (map (\<lambda>(i, ((e, f), cs)). new_conflict now i e f (map cl_id cs)) (zip [n..<n + length gs] gs),
          n + length gs))"
proof (induction multi now n groups rule: detect_loop.induct)
  case (2 multi now n event_id field_name field_claims groups)
  let ?k = "length (filter (\<lambda>g. group_conflicts multi (snd g)) groups)"
  have "[n..<n + Suc ?k] = n # [Suc n..<Suc n + ?k]"
    by (subst upt_conv_Cons) simp_all
  with 2 show ?case
    by (auto simp: group_conflicts_def Let_def not_le not_less split: prod.splits)
qed simp

text \<open>The active claims of one event and field.\<close>

definition field_group :: "uuid \<Rightarrow> string \<Rightarrow> claim list \<Rightarrow> claim list" where
  "field_group e f claims =
     filter (\<lambda>c. event_field c = (e, f)) (filter is_active claims)"

lemma set_field_group:
  "c \<in> set (field_group e f claims) \<longleftrightarrow>
     c \<in> set claims \<and> is_active c \<and> cl_event_id c = e \<and> cl_field_name c = f"
  by (auto simp: field_group_def event_field_def)

lemma detect_filtered_groups:
  "filter (\<lambda>g. group_conflicts multi (snd g)) (group_by event_field (filter is_active claims)) =
     map (\<lambda>(e, f). ((e, f), field_group e f claims))
       (filter (\<lambda>(e, f). group_conflicts multi (field_group e f claims))
         (dict_fromkeys (map event_field (filter is_active claims))))"
  unfolding group_by_def field_group_def
  by (simp add: filter_map comp_def case_prod_unfold)

lemma detect_eq:
  "detect multi now n claims =
     (let ks = filter (\<lambda>(e, f). group_conflicts multi (field_group e f claims))
                 (dict_fromkeys (map event_field (filter is_active claims)))
      in (map (\<lambda>(i, (e, f)). new_conflict now i e f (map cl_id (field_group e f claims)))
            (zip [n..<n + length ks] ks), n + length ks))"
  unfolding detect_def detect_loop_eq detect_filtered_groups Let_def
  by (auto simp: zip_map2 case_prod_unfold)

lemma group_conflicts_Nil [simp]: "\<not> group_conflicts multi []"
  by (simp add: group_conflicts_def unique_normalised_values_def)

lemma group_conflicts_event_field:
  assumes "group_conflicts multi (field_group e f claims)"
  shows "(e, f) \<in> event_field ` set (filter is_active claims)"
proof -
  obtain c where "c \<in> set (field_group e f claims)"
    using assms by (cases "field_group e f claims") auto
  then show ?thesis by (auto simp: set_field_group event_field_def)
qed

lemma set_detect:
  assumes "k \<in> set (fst (detect multi now n claims))"
  shows "group_conflicts multi (field_group (cc_event_id k) (cc_field_name k) claims)
     \<and> n \<le> cc_id k \<and> cc_id k < snd (detect multi now n claims)
     \<and> k = new_conflict now (cc_id k) (cc_event_id k) (cc_field_name k)
             (map cl_id (field_group (cc_event_id k) (cc_field_name k) claims))"
proof -
  define ks where "ks = filter (\<lambda>(e, f). group_conflicts multi (field_group e f claims))
                 (dict_fromkeys (map event_field (filter is_active claims)))"
  obtain i e f where z: "(i, (e, f)) \<in> set (zip [n..<n + length ks] ks)"
    and k: "k = new_conflict now i e f (map cl_id (field_group e f claims))"
    using assms by (auto simp: detect_eq Let_def ks_def)
  have "i \<in> set [n..<n + length ks]" "(e, f) \<in> set ks"
    using z by (blast dest: set_zip_leftD set_zip_rightD)+
  then show ?thesis
    using k by (auto simp: new_conflict_def detect_eq Let_def ks_def)
qed

lemma detect_keys:
  "map (\<lambda>k. (cc_event_id k, cc_field_name k)) (fst (detect multi now n claims)) =
     filter (\<lambda>(e, f). group_conflicts multi (field_group e f claims))
       (dict_fromkeys (map event_field (filter is_active claims)))"
  by (simp add: detect_eq Let_def new_conflict_def comp_def case_prod_unfold)

lemma detect_ids:
  "map cc_id (fst (detect multi now n claims)) = [n..<snd (detect multi now n claims)]"
  by (simp add: detect_eq Let_def new_conflict_def comp_def case_prod_unfold)

lemma detect_supply: "n \<le> snd (detect multi now n claims)"
  by (simp add: detect_eq Let_def)

lemma detect_distinct_keys:
  "distinct (map (\<lambda>k. (cc_event_id k, cc_field_name k)) (fst (detect multi now n claims)))"
  by (simp add: detect_keys)

lemma detect_mem_iff:
  "(\<exists>k \<in> set (fst (detect multi now n claims)). cc_event_id k = e \<and> cc_field_name k = f) \<longleftrightarrow>
     group_conflicts multi (field_group e f claims)"
proof -
  have "(\<exists>k \<in> set (fst (detect multi now n claims)). cc_event_id k = e \<and> cc_field_name k = f)
      \<longleftrightarrow> (e, f) \<in> set (map (\<lambda>k. (cc_event_id k, cc_field_name k)) (fst (detect multi now n claims)))"
    by auto
  also have "\<dots> \<longleftrightarrow> group_conflicts multi (field_group e f claims)"
    unfolding detect_keys using group_conflicts_event_field by auto
  finally show ?thesis .
qed

text \<open>
  Two values and two sources in one group give two claims of different sources with different
  values; two rows of different sources are two rows, so no condition on NaN is needed.
\<close>

lemma cross_source_disagreement:
  assumes "a \<in> set cs" and "b \<in> set cs" and "cl_source_id a \<noteq> cl_source_id b"
    and same: "\<And>x y. x \<in> set cs \<Longrightarrow> y \<in> set cs \<Longrightarrow> cl_source_id x \<noteq> cl_source_id y \<Longrightarrow> same_value x y"
  shows "claims_agree cs"
proof -
  have all: "same_value x y" if xy: "x \<in> set cs" "y \<in> set cs" for x y
  proof (cases "cl_source_id x = cl_source_id y")
    case True
    then obtain z where z: "z \<in> set cs" "cl_source_id z \<noteq> cl_source_id x" "cl_source_id z \<noteq> cl_source_id y"
      using assms(1-3) by metis
    then show ?thesis using same [of x z] same [of z y] xy same_value_trans by metis
  qed (use same xy in blast)
  then show ?thesis unfolding claims_agree_def by (induction cs) auto
qed

lemma group_conflicts_cross_source:
  "group_conflicts True cs \<longleftrightarrow>
     (\<exists>a \<in> set cs. \<exists>b \<in> set cs. cl_source_id a \<noteq> cl_source_id b \<and> \<not> same_value a b)"
proof -
  have v: "length (unique_normalised_values cs) > 1 \<longleftrightarrow> \<not> claims_agree cs"
    using unique_values_le_1_iff [of cs] by linarith
  have s: "length (dict_fromkeys (map cl_source_id cs)) \<ge> 2 \<longleftrightarrow>
      (\<exists>a \<in> set cs. \<exists>b \<in> set cs. cl_source_id a \<noteq> cl_source_id b)"
  proof -
    have "card (cl_source_id ` set cs) \<le> Suc 0 \<longleftrightarrow>
        (\<forall>a \<in> set cs. \<forall>b \<in> set cs. cl_source_id a = cl_source_id b)"
      by (auto simp: card_le_Suc0_iff_eq)
    moreover have "2 \<le> m \<longleftrightarrow> \<not> m \<le> Suc 0" for m :: nat by auto
    ultimately show ?thesis by (simp add: length_dict_fromkeys)
  qed
  show ?thesis
    unfolding group_conflicts_def v s using cross_source_disagreement [of _ cs] claims_agree_same [of cs] by metis
qed

text \<open>The fold keeps, for every field, a resolved conflict that no other one is newer than.\<close>

lemma newer_conflict_trans: "newer_conflict a b \<Longrightarrow> newer_conflict b c \<Longrightarrow> newer_conflict a c"
  unfolding newer_conflict_def by (rule less_trans)

lemma newer_conflict_not_trans:
  "\<not> newer_conflict a b \<Longrightarrow> \<not> newer_conflict b c \<Longrightarrow> \<not> newer_conflict a c"
  unfolding newer_conflict_def not_less by (rule order_trans)

lemma latest_resolved_from_sound:
  assumes "latest_resolved_from m cs f = Some c"
  shows "(m f = Some c \<or> c \<in> set cs \<and> cc_status c = RESOLVED \<and> cc_field_name c = f)
    \<and> (\<forall>d \<in> set cs. cc_status d = RESOLVED \<and> cc_field_name d = f \<longrightarrow> \<not> newer_conflict d c)
    \<and> (\<forall>d. m f = Some d \<longrightarrow> \<not> newer_conflict d c)"
  using assms
proof (induction m cs rule: latest_resolved_from.induct)
  case (1 m)
  then show ?case by (auto simp: newer_conflict_def)
next
  case (2 m d cs)
  show ?case
  proof (cases "cc_status d = RESOLVED")
    case False
    then show ?thesis using 2 by auto
  next
    case True
    show ?thesis
    proof (cases "m (cc_field_name d)")
      case None
      then have "latest_resolved_from (m(cc_field_name d \<mapsto> d)) cs f = Some c"
        using True 2 by simp
      from "2.IH"(2) [OF _ None this] True None show ?thesis
        by (cases "cc_field_name d = f") auto
    next
      case (Some e)
      show ?thesis
      proof (cases "newer_conflict d e")
        case new: True
        then have "latest_resolved_from (m(cc_field_name d \<mapsto> d)) cs f = Some c"
          using True Some 2 by simp
        note IH = "2.IH"(3) [OF _ Some new this]
        show ?thesis
        proof (cases "cc_field_name d = f")
          case eq: True
          with IH True have "\<not> newer_conflict d c" by simp
          with new have "\<not> newer_conflict e c" by (metis newer_conflict_trans)
          then show ?thesis using IH True Some eq by auto
        next
          case False
          then show ?thesis using IH True by auto
        qed
      next
        case old: False
        then have "latest_resolved_from m cs f = Some c" using True Some 2 by simp
        note IH = "2.IH"(4) [OF _ Some old this]
        show ?thesis
        proof (cases "cc_field_name d = f")
          case eq: True
          with IH True Some have "\<not> newer_conflict e c" by auto
          with old have "\<not> newer_conflict d c" by (metis newer_conflict_not_trans)
          then show ?thesis using IH True eq by auto
        next
          case False
          then show ?thesis using IH True by auto
        qed
      qed
    qed
  qed
qed

lemma latest_resolved_from_None:
  "latest_resolved_from m cs f = None \<longleftrightarrow>
     m f = None \<and> (\<forall>c \<in> set cs. \<not> (cc_status c = RESOLVED \<and> cc_field_name c = f))"
proof (induction cs arbitrary: m)
  case (Cons c cs)
  then show ?case
    by (cases "cc_field_name c = f"; cases "m (cc_field_name c)") (auto simp del: not_None_eq)
qed simp

lemma latest_resolved_newest:
  assumes "c \<in> set cs" and "cc_status c = RESOLVED" and "cc_field_name c = f"
    and "\<And>r. r \<in> set cs \<Longrightarrow> cc_status r = RESOLVED \<Longrightarrow> cc_field_name r = f \<Longrightarrow> r = c \<or> newer_conflict c r"
  shows "latest_resolved_conflicts_by_field cs f = Some c"
proof (cases "latest_resolved_from Map.empty cs f")
  case None
  then show ?thesis using assms(1-3) by (auto simp: latest_resolved_from_None)
next
  case (Some r)
  then show ?thesis
    using latest_resolved_from_sound [OF Some] assms
    by (fastforce simp: latest_resolved_conflicts_by_field_def)
qed

section \<open>Correctness of detection\<close>

text \<open>C7: Detection is exact: a conflict is raised for an event and field if and only if two active claims of
  different sources carry values that differ after normalisation, as Python compares them: NaN differs from
  every value, from NaN too, so two sources that both report it are in conflict.  It is an open conflict of
  version 1 that lists exactly the active claims of that event and field, and there is one per event and
  field.\<close>

theorem detect_exact:
  "((\<exists>k \<in> set (fst (detect True now n claims)). cc_event_id k = e \<and> cc_field_name k = f) \<longleftrightarrow>
      (\<exists>a \<in> set (field_group e f claims). \<exists>b \<in> set (field_group e f claims).
        cl_source_id a \<noteq> cl_source_id b \<and> \<not> same_value a b))
    \<and> (\<forall>k \<in> set (fst (detect True now n claims)).
        cc_status k = OPEN \<and> cc_version k = 1 \<and> cc_winning_claim_id k = None
        \<and> cc_claim_ids k = map cl_id (field_group (cc_event_id k) (cc_field_name k) claims))
    \<and> distinct (map (\<lambda>k. (cc_event_id k, cc_field_name k)) (fst (detect True now n claims)))"
proof -
  have "(\<exists>k \<in> set (fst (detect True now n claims)). cc_event_id k = e \<and> cc_field_name k = f) \<longleftrightarrow>
      (\<exists>a \<in> set (field_group e f claims). \<exists>b \<in> set (field_group e f claims).
        cl_source_id a \<noteq> cl_source_id b \<and> \<not> same_value a b)"
    unfolding detect_mem_iff by (rule group_conflicts_cross_source)
  moreover have "cc_status k = OPEN \<and> cc_version k = 1 \<and> cc_winning_claim_id k = None
      \<and> cc_claim_ids k = map cl_id (field_group (cc_event_id k) (cc_field_name k) claims)"
    if "k \<in> set (fst (detect True now n claims))" for k
  proof -
    have "k = new_conflict now (cc_id k) (cc_event_id k) (cc_field_name k)
        (map cl_id (field_group (cc_event_id k) (cc_field_name k) claims))"
      using set_detect [OF that] by blast
    then obtain i e' f' where k: "k = new_conflict now i e' f' (map cl_id (field_group e' f' claims))"
      by blast
    show ?thesis unfolding k by (simp add: new_conflict_def)
  qed
  ultimately show ?thesis using detect_distinct_keys by blast
qed

theorem detect_exact_witness:
  "\<exists>a b :: claim. \<exists>k \<in> set (fst (detect True 0 7 [a, b])).
     cc_status k = OPEN \<and> cc_claim_ids k = [cl_id a, cl_id b]"
proof -
  define mk :: "uuid \<Rightarrow> uuid \<Rightarrow> json \<Rightarrow> claim" where
    "mk i s v = \<lparr>cl_id = i, cl_event_id = 1, cl_source_id = s, cl_raw_snapshot_id = None,
       cl_field_name = ''operator'', cl_field_value = v, cl_claim_type = RAW, cl_created_at = 0,
       cl_created_by = None, cl_superseded_by_claim_id = None\<rparr>" for i s v
  let ?a = "mk 5 1 (JBool True)" and ?b = "mk 6 2 (JBool False)"
  have g: "field_group 1 ''operator'' [?a, ?b] = [?a, ?b]"
    by (simp add: field_group_def event_field_def mk_def is_active_iff)
  note D = detect_exact [of 0 7 "[?a, ?b]" 1 "''operator''"]
  have "\<not> same_value ?a ?b" "cl_source_id ?a \<noteq> cl_source_id ?b"
    by (simp_all add: mk_def same_value_def claim_key_def)
  then obtain k where k: "k \<in> set (fst (detect True 0 7 [?a, ?b]))" "cc_event_id k = 1"
    "cc_field_name k = ''operator''"
    using D g by fastforce
  then have "cc_status k = OPEN \<and> cc_claim_ids k = [cl_id ?a, cl_id ?b]" using D g by simp
  then show ?thesis using k(1) by blast
qed

end
