(* ===== verification/Projection.thy ===== *)
theory Projection
  imports Conflict_Detection
begin

text \<open>
  How the public record is computed from the evidence: \<open>WinnerPolicy\<close>
  (\<open>domain/services/winner_policy.py\<close>), \<open>CompletenessCalculator\<close>
  (\<open>domain/services/completeness.py\<close>) and \<open>ProjectionBuilder.build\<close>
  (\<open>domain/services/projection_builder.py\<close>).
\<close>

section \<open>The winner policy\<close>

fun claim_type_rank :: "claim_type \<Rightarrow> int" where
  "claim_type_rank MANUAL_OVERRIDE = 3"
| "claim_type_rank CONFIRMED = 2"
| "claim_type_rank RAW = 1"
| "claim_type_rank SUPERSEDED = 0"

text \<open>
  The age score of the source is minus the float of the timestamp.  Within the range of
  \<open>datetime\<close> values in use, distinct microseconds give distinct floats in the same order.
\<close>

definition winner_sort_key ::
  "(uuid \<rightharpoonup> source) \<Rightarrow> claim \<Rightarrow> int \<times> int \<times> int \<times> uuid" where
  "winner_sort_key sources_by_id c =
     (claim_type_rank (cl_claim_type c),
      - (case sources_by_id (cl_source_id c) of Some s \<Rightarrow> src_reliability_tier s | None \<Rightarrow> 999),
      - cl_created_at c,
      cl_id c)"

definition choose_winner :: "claim list \<Rightarrow> (uuid \<rightharpoonup> source) \<Rightarrow> claim option" where
  "choose_winner claims sources_by_id =
     (let active_claims = filter can_win claims
      in if active_claims = [] then None
         else Some (hd (py_sorted_rev (winner_sort_key sources_by_id) active_claims)))"

section \<open>Completeness\<close>

definition DEFAULT_REQUIRED_FIELDS :: "string list" where
  "DEFAULT_REQUIRED_FIELDS =
     [''event_date'', ''location'', ''aircraft_type'', ''fatalities_total'', ''injuries_total'',
      ''operator'', ''registration'', ''flight_phase'', ''narrative'']"

definition field_present :: "(string \<times> pvalue) list \<Rightarrow> string \<Rightarrow> bool" where
  "field_present flds f =
     (case map_of flds f of
        None \<Rightarrow> False
      | Some DISPUTED \<Rightarrow> False
      | Some (PVal v) \<Rightarrow> v \<noteq> JNull \<and> v \<noteq> JStr DISPUTED_MARKER)"

definition completeness_score :: "string list \<Rightarrow> (string \<times> pvalue) list \<Rightarrow> rat" where
  "completeness_score required_fields flds =
     (if required_fields = [] then 1
      else fl (of_nat (length (filter (field_present flds) required_fields))
               / of_nat (length required_fields)))"

section \<open>The builder\<close>

definition of_type :: "claim_type \<Rightarrow> claim list \<Rightarrow> claim list" where
  "of_type t = filter (\<lambda>c. cl_claim_type c = t)"

text \<open>
  The body of the loop over the field names: the value it stores, if any.  It stores
  \<open>DISPUTED\<close> exactly where it also adds the field to \<open>disputed_fields\<close>.
\<close>

definition tier_value :: "claim list \<Rightarrow> (uuid \<rightharpoonup> source) \<Rightarrow> pvalue option" where
  "tier_value tier_claims sources_by_id =
     (if length (unique_normalised_values tier_claims) > 1 then Some DISPUTED
      else map_option (\<lambda>w. PVal (cl_field_value w)) (choose_winner tier_claims sources_by_id))"

definition project_field ::
  "string set \<Rightarrow> (string \<rightharpoonup> claim_conflict) \<Rightarrow> (string \<rightharpoonup> claim list) \<Rightarrow> (uuid \<rightharpoonup> source)
     \<Rightarrow> string \<Rightarrow> pvalue option" where
  "project_field open_conflicts resolved_conflicts claims_by_field sources_by_id field_name =
     (if field_name \<in> open_conflicts then Some DISPUTED
      else
        let field_claims = (case claims_by_field field_name of Some cs \<Rightarrow> cs | None \<Rightarrow> []);
            winner_candidate =
              (case resolved_conflicts field_name of
                 Some resolved \<Rightarrow>
                   (case cc_winning_claim_id resolved of
                      Some w \<Rightarrow> find (\<lambda>c. cl_id c = w) field_claims
                    | None \<Rightarrow> None)
               | None \<Rightarrow> None)
        in case winner_candidate of
             Some c \<Rightarrow> Some (PVal (cl_field_value c))
           | None \<Rightarrow>
               if of_type MANUAL_OVERRIDE field_claims \<noteq> []
               then tier_value (of_type MANUAL_OVERRIDE field_claims) sources_by_id
               else if of_type CONFIRMED field_claims \<noteq> []
               then tier_value (of_type CONFIRMED field_claims) sources_by_id
               else tier_value (of_type RAW field_claims) sources_by_id)"

fun build_loop ::
  "(string \<Rightarrow> pvalue option) \<Rightarrow> string list \<Rightarrow> (string \<times> pvalue) list \<times> string list
     \<Rightarrow> (string \<times> pvalue) list \<times> string list" where
  "build_loop pf [] acc = acc"
| "build_loop pf (f # fs) (flds, disputed_fields) =
     (case pf f of
        None \<Rightarrow> build_loop pf fs (flds, disputed_fields)
      | Some DISPUTED \<Rightarrow> build_loop pf fs (flds @ [(f, DISPUTED)], disputed_fields @ [f])
      | Some (PVal v) \<Rightarrow> build_loop pf fs (flds @ [(f, PVal v)], disputed_fields))"

definition build ::
  "time \<Rightarrow> uuid \<Rightarrow> claim list \<Rightarrow> claim_conflict list \<Rightarrow> (uuid \<rightharpoonup> source) \<Rightarrow> int
     \<Rightarrow> projected_accident_record" where
  "build now event_id claims conflicts sources_by_id projection_version =
     (let claims_by_field =
            map_of (group_by cl_field_name (filter (\<lambda>c. cl_event_id c = event_id \<and> is_active c) claims));
          open_names =
            map cc_field_name (filter (\<lambda>c. cc_event_id c = event_id \<and> cc_status c = OPEN) conflicts);
          resolved_conflicts =
            latest_resolved_conflicts_by_field (filter (\<lambda>c. cc_event_id c = event_id) conflicts);
          all_fields =
            sorted_set (map cl_field_name (filter (\<lambda>c. cl_event_id c = event_id \<and> is_active c) claims)
                        @ open_names);
          (flds, disputed_fields) =
            build_loop (project_field (set open_names) resolved_conflicts claims_by_field sources_by_id)
              all_fields ([], [])
      in \<lparr>pr_event_id = event_id, pr_projection_version = projection_version, pr_fields = flds,
          pr_completeness_score = completeness_score DEFAULT_REQUIRED_FIELDS flds,
          pr_unresolved_conflict_fields = sorted_set disputed_fields, pr_updated_at = now\<rparr>)"

section \<open>Lemmas on the winner policy\<close>

lemma choose_winner_None_iff: "choose_winner cs src = None \<longleftrightarrow> (\<forall>c \<in> set cs. \<not> can_win c)"
  by (auto simp: choose_winner_def Let_def filter_empty_conv)

lemma choose_winner_SomeD:
  assumes "choose_winner cs src = Some w"
  shows "w \<in> set cs \<and> can_win w \<and>
    (\<forall>c \<in> set cs. can_win c \<longrightarrow> winner_sort_key src c \<le> winner_sort_key src w)"
proof -
  let ?as = "filter can_win cs"
  let ?ss = "py_sorted_rev (winner_sort_key src) ?as"
  from assms have ne: "?as \<noteq> []" and w: "w = hd ?ss"
    by (auto simp: choose_winner_def Let_def split: if_splits)
  have "?ss \<noteq> []" using ne by simp
  then have "w \<in> set ?ss" unfolding w by (rule hd_in_set)
  then show ?thesis
    using py_sorted_rev_hd_max [of _ ?as "winner_sort_key src"] w by auto
qed

lemma winner_key_inj:
  "winner_sort_key src a = winner_sort_key src b \<Longrightarrow> cl_id a = cl_id b"
  by (simp add: winner_sort_key_def)

text \<open>With distinct claim ids the policy does not depend on the order of the claims.\<close>

lemma choose_winner_perm:
  assumes "set cs = set ds" and "inj_on cl_id (set cs)"
  shows "choose_winner cs src = choose_winner ds src"
proof (cases "choose_winner cs src")
  case None
  then show ?thesis using assms(1) by (metis choose_winner_None_iff)
next
  case (Some w)
  then obtain v where v: "choose_winner ds src = Some v"
    using assms(1) by (metis choose_winner_None_iff not_Some_eq)
  have "winner_sort_key src w = winner_sort_key src v"
    using choose_winner_SomeD [OF Some] choose_winner_SomeD [OF v] assms(1) by (metis antisym)
  then have "w = v"
    using winner_key_inj choose_winner_SomeD [OF Some] choose_winner_SomeD [OF v] assms
    by (metis inj_onD)
  then show ?thesis using Some v by simp
qed

section \<open>Lemmas on the builder\<close>

lemma length_filter_eq_iff_all: "list_all P xs \<longleftrightarrow> length (filter P xs) = length xs"
proof (induction xs)
  case (Cons x xs)
  have "length (filter P xs) \<noteq> Suc (length xs)" using length_filter_le [of P xs] by linarith
  then show ?case using Cons by simp
qed simp

lemma build_loop_eq:
  "build_loop pf fs (flds, disputed) =
     (flds @ List.map_filter (\<lambda>f. map_option (Pair f) (pf f)) fs,
      disputed @ filter (\<lambda>f. pf f = Some DISPUTED) fs)"
proof (induction fs arbitrary: flds disputed)
  case (Cons f fs)
  show ?case
  proof (cases "pf f")
    case None
    then show ?thesis using Cons by (simp add: List.map_filter_simps)
  next
    case (Some v)
    then show ?thesis using Cons by (cases v) (simp_all add: List.map_filter_simps)
  qed
qed (simp add: List.map_filter_simps)

lemma map_of_map_filter_pair:
  "distinct fs \<Longrightarrow>
     map_of (List.map_filter (\<lambda>f. map_option (Pair f) (pf f)) fs) f = (if f \<in> set fs then pf f else None)"
proof (induction fs)
  case (Cons g fs)
  then show ?case by (cases "pf g") (auto simp: List.map_filter_simps)
qed (simp add: List.map_filter_simps)

text \<open>The ingredients of a projection, by name.\<close>

definition event_claims :: "uuid \<Rightarrow> claim list \<Rightarrow> claim list" where
  "event_claims e claims = filter (\<lambda>c. cl_event_id c = e \<and> is_active c) claims"

definition field_claims_of :: "uuid \<Rightarrow> string \<Rightarrow> claim list \<Rightarrow> claim list" where
  "field_claims_of e f claims = filter (\<lambda>c. cl_field_name c = f) (event_claims e claims)"

definition open_field_names :: "uuid \<Rightarrow> claim_conflict list \<Rightarrow> string set" where
  "open_field_names e conflicts =
     {cc_field_name c |c. c \<in> set conflicts \<and> cc_event_id c = e \<and> cc_status c = OPEN}"

definition resolved_of :: "uuid \<Rightarrow> claim_conflict list \<Rightarrow> (string \<rightharpoonup> claim_conflict)" where
  "resolved_of e conflicts =
     latest_resolved_conflicts_by_field (filter (\<lambda>c. cc_event_id c = e) conflicts)"

definition projected_value ::
  "uuid \<Rightarrow> claim list \<Rightarrow> claim_conflict list \<Rightarrow> (uuid \<rightharpoonup> source) \<Rightarrow> string \<Rightarrow> pvalue option" where
  "projected_value e claims conflicts src f =
     project_field (open_field_names e conflicts) (resolved_of e conflicts)
       (\<lambda>g. if field_claims_of e g claims = [] then None else Some (field_claims_of e g claims)) src f"

lemma set_field_claims_of:
  "c \<in> set (field_claims_of e f claims) \<longleftrightarrow>
     c \<in> set claims \<and> cl_event_id c = e \<and> is_active c \<and> cl_field_name c = f"
  by (auto simp: field_claims_of_def event_claims_def)

lemma map_of_group_field_claims:
  "map_of (group_by cl_field_name (event_claims e claims)) =
     (\<lambda>g. if field_claims_of e g claims = [] then None else Some (field_claims_of e g claims))"
  by (rule ext) (auto simp: map_of_group_by field_claims_of_def filter_empty_conv)

lemma project_field_absent:
  "f \<notin> opens \<Longrightarrow> cbf f = None \<Longrightarrow> project_field opens res cbf src f = None"
  by (auto simp: project_field_def of_type_def tier_value_def choose_winner_def
      unique_normalised_values_def split: option.splits)

lemma projected_value_absent:
  assumes "f \<notin> open_field_names e conflicts" and "field_claims_of e f claims = []"
  shows "projected_value e claims conflicts src f = None"
  using assms by (simp add: projected_value_def project_field_absent)

lemma build_fields:
  "map_of (pr_fields (build now e claims conflicts src v)) f = projected_value e claims conflicts src f"
  and build_unresolved:
  "pr_unresolved_conflict_fields (build now e claims conflicts src v) =
     sorted_set (filter (\<lambda>f. projected_value e claims conflicts src f = Some DISPUTED)
       (map cl_field_name (event_claims e claims)
        @ map cc_field_name (filter (\<lambda>c. cc_event_id c = e \<and> cc_status c = OPEN) conflicts)))"
  and build_simps:
  "pr_event_id (build now e claims conflicts src v) = e"
  "pr_projection_version (build now e claims conflicts src v) = v"
  "pr_updated_at (build now e claims conflicts src v) = now"
  "pr_completeness_score (build now e claims conflicts src v) =
     completeness_score DEFAULT_REQUIRED_FIELDS (pr_fields (build now e claims conflicts src v))"
proof -
  define opens where
    "opens = map cc_field_name (filter (\<lambda>c. cc_event_id c = e \<and> cc_status c = OPEN) conflicts)"
  define fs where "fs = sorted_set (map cl_field_name (event_claims e claims) @ opens)"
  define pf where "pf = projected_value e claims conflicts src"
  have so: "set opens = open_field_names e conflicts"
    by (auto simp: opens_def open_field_names_def)
  have pf: "project_field (set opens) (resolved_of e conflicts)
      (map_of (group_by cl_field_name (event_claims e claims))) src = pf"
    by (rule ext) (simp add: pf_def projected_value_def so map_of_group_field_claims)
  have b: "build now e claims conflicts src v =
      \<lparr>pr_event_id = e, pr_projection_version = v,
       pr_fields = List.map_filter (\<lambda>f. map_option (Pair f) (pf f)) fs,
       pr_completeness_score = completeness_score DEFAULT_REQUIRED_FIELDS
         (List.map_filter (\<lambda>f. map_option (Pair f) (pf f)) fs),
       pr_unresolved_conflict_fields = sorted_set (filter (\<lambda>f. pf f = Some DISPUTED) fs),
       pr_updated_at = now\<rparr>"
    unfolding build_def Let_def event_claims_def [symmetric] opens_def [symmetric]
      resolved_of_def [symmetric] pf fs_def [symmetric]
    by (simp add: build_loop_eq)
  have out: "f \<notin> set fs \<Longrightarrow> pf f = None" for f
    unfolding pf_def
    by (rule projected_value_absent)
      (auto simp: fs_def so [symmetric] field_claims_of_def filter_empty_conv)
  show "map_of (pr_fields (build now e claims conflicts src v)) f = projected_value e claims conflicts src f"
    using out [of f] by (auto simp: b fs_def map_of_map_filter_pair pf_def)
  show "pr_unresolved_conflict_fields (build now e claims conflicts src v) =
     sorted_set (filter (\<lambda>f. projected_value e claims conflicts src f = Some DISPUTED)
       (map cl_field_name (event_claims e claims)
        @ map cc_field_name (filter (\<lambda>c. cc_event_id c = e \<and> cc_status c = OPEN) conflicts)))"
    by (simp add: b) (rule sorted_set_cong, auto simp: fs_def opens_def pf_def)
qed (auto simp: build_def Let_def split: prod.splits)

lemma build_cong:
  assumes "set (event_claims e claims) = set (event_claims e claims')"
    and "projected_value e claims conflicts src = projected_value e claims' conflicts src"
  shows "build now e claims conflicts src v = build now e claims' conflicts src v"
proof -
  let ?opens = "map cc_field_name (filter (\<lambda>c. cc_event_id c = e \<and> cc_status c = OPEN) conflicts)"
  let ?fs = "\<lambda>claims. sorted_set (map cl_field_name (event_claims e claims) @ ?opens)"
  have b: "build now e claims conflicts src v =
      (let (flds, disputed_fields) = build_loop (projected_value e claims conflicts src) (?fs claims) ([], [])
       in \<lparr>pr_event_id = e, pr_projection_version = v, pr_fields = flds,
           pr_completeness_score = completeness_score DEFAULT_REQUIRED_FIELDS flds,
           pr_unresolved_conflict_fields = sorted_set disputed_fields, pr_updated_at = now\<rparr>)" for claims
  proof -
    have "project_field (set ?opens) (resolved_of e conflicts)
        (map_of (group_by cl_field_name (event_claims e claims))) src = projected_value e claims conflicts src"
      by (rule ext) (auto simp: projected_value_def open_field_names_def map_of_group_field_claims
          intro!: arg_cong2 [where f = "\<lambda>a b. project_field a _ _ _ b"])
    then show ?thesis
      by (simp add: build_def Let_def event_claims_def [symmetric] resolved_of_def [symmetric])
  qed
  have "?fs claims = ?fs claims'" by (rule sorted_set_cong) (simp add: assms(1))
  then show ?thesis using assms(2) by (simp add: b)
qed

lemma of_type_subset: "set (of_type t cs) \<subseteq> set cs"
  by (auto simp: of_type_def)

lemma tier_value_PVal:
  "tier_value cs src = Some (PVal v) \<Longrightarrow>
     \<exists>c \<in> set cs. cl_field_value c = v \<and> choose_winner cs src = Some c
       \<and> length (unique_normalised_values cs) \<le> 1"
  by (auto simp: tier_value_def dest: choose_winner_SomeD split: if_splits)

text \<open>The claims of the highest authority present: the ones the dispute check compares.\<close>

definition top_tier :: "claim list \<Rightarrow> claim list" where
  "top_tier cs =
     (if of_type MANUAL_OVERRIDE cs \<noteq> [] then of_type MANUAL_OVERRIDE cs
      else if of_type CONFIRMED cs \<noteq> [] then of_type CONFIRMED cs else of_type RAW cs)"

text \<open>The active claim a resolved conflict names as the winner of a field.\<close>

definition resolved_winner ::
  "uuid \<Rightarrow> claim list \<Rightarrow> claim_conflict list \<Rightarrow> string \<Rightarrow> claim option" where
  "resolved_winner e claims conflicts f =
     (case resolved_of e conflicts f of
        None \<Rightarrow> None
      | Some r \<Rightarrow> (case cc_winning_claim_id r of
            None \<Rightarrow> None
          | Some w \<Rightarrow> find (\<lambda>c. cl_id c = w) (field_claims_of e f claims)))"

lemma projected_value_eq:
  "projected_value e claims conflicts src f =
     (if f \<in> open_field_names e conflicts then Some DISPUTED
      else case resolved_winner e claims conflicts f of
          Some c \<Rightarrow> Some (PVal (cl_field_value c))
        | None \<Rightarrow> tier_value (top_tier (field_claims_of e f claims)) src)"
proof -
  have "(case (if cs = [] then None else Some cs) of Some cs \<Rightarrow> cs | None \<Rightarrow> []) = cs" for cs :: "claim list"
    by simp
  then show ?thesis
    by (simp add: projected_value_def project_field_def resolved_winner_def top_tier_def Let_def
        split: option.split)
qed

lemma distinct_top_tier: "distinct claims \<Longrightarrow> distinct (top_tier (field_claims_of e f claims))"
  by (simp add: top_tier_def of_type_def field_claims_of_def event_claims_def)

lemma top_tier_subset: "set (top_tier cs) \<subseteq> set cs"
  by (simp add: top_tier_def of_type_subset)

lemma resolved_winnerD:
  "resolved_winner e claims conflicts f = Some c \<Longrightarrow> c \<in> set (field_claims_of e f claims)"
  by (auto simp: resolved_winner_def find_Some_iff split: option.splits)

section \<open>Correctness of the projection\<close>

text \<open>A claim with the given id, source, field, value and type on event 1, for the examples.\<close>

definition sample_claim :: "uuid \<Rightarrow> uuid \<Rightarrow> string \<Rightarrow> json \<Rightarrow> claim_type \<Rightarrow> claim" where
  "sample_claim i s f v t =
     \<lparr>cl_id = i, cl_event_id = 1, cl_source_id = s, cl_raw_snapshot_id = None, cl_field_name = f,
      cl_field_value = v, cl_claim_type = t, cl_created_at = int i, cl_created_by = None,
      cl_superseded_by_claim_id = None\<rparr>"

lemmas sample_eval = sample_claim_def field_claims_of_def event_claims_def is_active_iff
  open_field_names_def resolved_of_def latest_resolved_conflicts_by_field_def resolved_winner_def
  top_tier_def of_type_def claim_key_def

text \<open>The winner policy returns an eligible claim that no eligible claim beats: it ranks
  claims by type, then by source reliability tier (lower is better), then by age (older is
  better), then by identifier.\<close>

theorem choose_winner_best:
  assumes "choose_winner cs src = Some w" and "c \<in> set cs" and "can_win c"
  defines "tier \<equiv> \<lambda>c. case src (cl_source_id c) of Some s \<Rightarrow> src_reliability_tier s | None \<Rightarrow> 999"
  shows "w \<in> set cs \<and> can_win w \<and>
    (claim_type_rank (cl_claim_type c) < claim_type_rank (cl_claim_type w)
     \<or> cl_claim_type c = cl_claim_type w \<and>
       (tier w < tier c
        \<or> tier w = tier c \<and>
          (cl_created_at w < cl_created_at c
           \<or> cl_created_at w = cl_created_at c \<and> cl_id c \<le> cl_id w)))"
proof -
  have rank: "claim_type_rank s = claim_type_rank t \<Longrightarrow> s = t" for s t
    by (cases s; cases t) auto
  have "w \<in> set cs" "can_win w" "winner_sort_key src c \<le> winner_sort_key src w"
    using choose_winner_SomeD [OF assms(1)] assms(2,3) by auto
  then show ?thesis
    using rank by (auto simp: winner_sort_key_def tier_def)
qed

theorem choose_winner_best_witness:
  "choose_winner [sample_claim 5 1 ''operator'' (JInt 1) RAW,
      sample_claim 6 2 ''operator'' (JInt 2) CONFIRMED] Map.empty
     = Some (sample_claim 6 2 ''operator'' (JInt 2) CONFIRMED)
   \<and> can_win (sample_claim 6 2 ''operator'' (JInt 2) CONFIRMED)"
proof -
  let ?a = "sample_claim 5 1 ''operator'' (JInt 1) RAW"
  let ?b = "sample_claim 6 2 ''operator'' (JInt 2) CONFIRMED"
  have w: "choose_winner [?a, ?b] Map.empty = Some ?b"
    by (simp add: choose_winner_def can_win_def sample_claim_def py_sorted_rev_def winner_sort_key_def)
  have "can_win ?a" by (simp add: can_win_def sample_claim_def)
  then show ?thesis using choose_winner_best [OF w, of ?a] w by simp
qed

text \<open>C3: Provenance of projected values: a field that shows a concrete value shows the value of an
  active claim of that event and field.  Either that claim is the winner the latest resolved
  conflict of the field names, or all active claims of the highest authority present agree and
  the claim is the policy's choice among them; and the field has no open conflict.\<close>

theorem build_value_provenance:
  assumes "map_of (pr_fields (build now e claims conflicts src v)) f = Some (PVal x)"
  shows "f \<notin> open_field_names e conflicts \<and>
    (\<exists>c \<in> set claims. cl_event_id c = e \<and> is_active c \<and> cl_field_name c = f \<and> cl_field_value c = x \<and>
      (resolved_winner e claims conflicts f = Some c
       \<or> resolved_winner e claims conflicts f = None
         \<and> choose_winner (top_tier (field_claims_of e f claims)) src = Some c
         \<and> length (unique_normalised_values (top_tier (field_claims_of e f claims))) \<le> 1))"
proof -
  have pv: "projected_value e claims conflicts src f = Some (PVal x)"
    using assms by (simp add: build_fields)
  then have o: "f \<notin> open_field_names e conflicts" by (auto simp: projected_value_eq)
  show ?thesis
  proof (cases "resolved_winner e claims conflicts f")
    case (Some c)
    then have "cl_field_value c = x" using pv o by (simp add: projected_value_eq)
    then show ?thesis using o Some resolved_winnerD [OF Some] by (auto simp: set_field_claims_of)
  next
    case None
    then have "tier_value (top_tier (field_claims_of e f claims)) src = Some (PVal x)"
      using pv o by (simp add: projected_value_eq)
    from tier_value_PVal [OF this] obtain c where
      c: "c \<in> set (top_tier (field_claims_of e f claims))" "cl_field_value c = x"
        "choose_winner (top_tier (field_claims_of e f claims)) src = Some c"
        "length (unique_normalised_values (top_tier (field_claims_of e f claims))) \<le> 1"
      by blast
    then have "c \<in> set (field_claims_of e f claims)" using top_tier_subset by blast
    then show ?thesis using o None c by (auto simp: set_field_claims_of)
  qed
qed

theorem build_value_provenance_witness:
  "\<exists>c \<in> set [sample_claim 5 1 ''operator'' (JInt 7) RAW]. cl_field_value c = JInt 7"
proof -
  let ?c = "sample_claim 5 1 ''operator'' (JInt 7) RAW"
  have "map_of (pr_fields (build 0 1 [?c] [] Map.empty 1)) ''operator'' = Some (PVal (JInt 7))"
    by (simp add: build_fields projected_value_eq sample_eval tier_value_def choose_winner_def
        unique_normalised_values_def can_win_iff py_sorted_rev_def)
  from build_value_provenance [OF this] show ?thesis by blast
qed

text \<open>C4: Dispute safety: when two active claims of the highest authority present carry different
  values (as Python compares them: two NaN differ) and no resolved conflict names an active winner, the
  field is projected as \<open>DISPUTED\<close> and listed as unresolved, whether or not a conflict row exists.\<close>

theorem build_dispute_safety:
  assumes "a \<in> set (top_tier (field_claims_of e f claims))"
    and "b \<in> set (top_tier (field_claims_of e f claims))"
    and "a \<noteq> b" and "\<not> same_value a b"
    and "resolved_winner e claims conflicts f = None"
  shows "map_of (pr_fields (build now e claims conflicts src v)) f = Some DISPUTED \<and>
    f \<in> set (pr_unresolved_conflict_fields (build now e claims conflicts src v))"
proof -
  let ?t = "top_tier (field_claims_of e f claims)"
  have "\<not> claims_agree ?t" using assms(1-4) claims_agree_same by blast
  then have "\<not> length (unique_normalised_values ?t) \<le> 1" by (simp only: unique_values_le_1_iff not_False_eq_True)
  then have d: "projected_value e claims conflicts src f = Some DISPUTED"
    using assms(5) by (simp add: projected_value_eq tier_value_def)
  have "a \<in> set (field_claims_of e f claims)" using assms(1) top_tier_subset by blast
  then have "f \<in> cl_field_name ` set (event_claims e claims)"
    by (auto simp: field_claims_of_def)
  then show ?thesis using d by (simp add: build_fields build_unresolved)
qed

theorem build_dispute_safety_witness:
  "map_of (pr_fields (build 0 1 [sample_claim 5 1 ''operator'' (JInt 7) RAW,
      sample_claim 6 2 ''operator'' (JInt 8) RAW] [] Map.empty 1)) ''operator'' = Some DISPUTED"
proof -
  let ?a = "sample_claim 5 1 ''operator'' (JInt 7) RAW"
  let ?b = "sample_claim 6 2 ''operator'' (JInt 8) RAW"
  have "?a \<in> set (top_tier (field_claims_of 1 ''operator'' [?a, ?b]))"
    "?b \<in> set (top_tier (field_claims_of 1 ''operator'' [?a, ?b]))"
    "?a \<noteq> ?b" "\<not> same_value ?a ?b"
    "resolved_winner 1 [?a, ?b] [] ''operator'' = None"
    by (simp_all add: sample_eval same_value_def)
  from build_dispute_safety [OF this] show ?thesis by blast
qed

text \<open>The open-conflict index and the disputed list agree with the fields: a field with an open
  conflict is projected as \<open>DISPUTED\<close>, and \<open>unresolved_conflict_fields\<close> is the strictly sorted
  list of exactly the fields that are projected as \<open>DISPUTED\<close>.\<close>

theorem build_disputed_iff_unresolved:
  "(f \<in> open_field_names e conflicts \<longrightarrow>
      map_of (pr_fields (build now e claims conflicts src v)) f = Some DISPUTED)
   \<and> (f \<in> set (pr_unresolved_conflict_fields (build now e claims conflicts src v)) \<longleftrightarrow>
      map_of (pr_fields (build now e claims conflicts src v)) f = Some DISPUTED)
   \<and> sorted_wrt (<) (pr_unresolved_conflict_fields (build now e claims conflicts src v))"
proof -
  have cover: "projected_value e claims conflicts src f = Some DISPUTED \<Longrightarrow>
      f \<in> cl_field_name ` set (event_claims e claims)
      \<or> f \<in> cc_field_name ` set (filter (\<lambda>c. cc_event_id c = e \<and> cc_status c = OPEN) conflicts)"
    using projected_value_absent [of f e conflicts claims src]
    by (force simp: open_field_names_def field_claims_of_def filter_empty_conv)
  show ?thesis
    using cover
    by (auto simp: build_fields build_unresolved projected_value_eq strict_sorted_iff)
qed

theorem build_disputed_iff_unresolved_witness:
  "map_of (pr_fields (build 0 1 [] [new_conflict 0 9 1 ''operator'' []] Map.empty 1)) ''operator''
     = Some DISPUTED"
  using build_disputed_iff_unresolved [of "''operator''" 1 "[new_conflict 0 9 1 ''operator'' []]" 0 "[]"]
  by (simp add: open_field_names_def new_conflict_def)

text \<open>C5: The projection does not depend on the order in which the database returns the claims: two
  claim lists with the same rows, each row once, give the same record, whatever the values are.\<close>

theorem build_order_independent:
  assumes "set claims = set claims'" and "distinct (map cl_id claims)" and "distinct (map cl_id claims')"
  shows "build now e claims conflicts src v = build now e claims' conflicts src v"
proof -
  have inj: "inj_on cl_id (set claims)" using assms(2) by (simp add: distinct_map)
  have fc: "set (field_claims_of e f claims) = set (field_claims_of e f claims')" for f
    using assms(1) by (auto simp: set_field_claims_of)
  have ty: "set (of_type t (field_claims_of e f claims)) = set (of_type t (field_claims_of e f claims'))"
    for t f using fc [of f] by (auto simp: of_type_def)
  have tt: "set (top_tier (field_claims_of e f claims)) = set (top_tier (field_claims_of e f claims'))" for f
  proof -
    have "(of_type t (field_claims_of e f claims) = []) = (of_type t (field_claims_of e f claims') = [])" for t
      using ty [of t f] by (simp flip: set_empty)
    then show ?thesis using ty by (simp add: top_tier_def)
  qed
  have sub: "set (top_tier (field_claims_of e f claims)) \<subseteq> set claims" for f
    using top_tier_subset set_field_claims_of by blast
  have rw: "resolved_winner e claims conflicts f = resolved_winner e claims' conflicts f" for f
  proof -
    have "find (\<lambda>c. cl_id c = w) (field_claims_of e f claims)
        = find (\<lambda>c. cl_id c = w) (field_claims_of e f claims')" for w
    proof (rule find_key_cong [OF fc])
      have "set (field_claims_of e f claims) \<subseteq> set claims" by (simp add: subset_iff set_field_claims_of)
      then show "inj_on cl_id (set (field_claims_of e f claims))" by (rule inj_on_subset [OF inj])
    qed
    then show ?thesis by (simp add: resolved_winner_def split: option.split)
  qed
  have tv: "tier_value (top_tier (field_claims_of e f claims)) src
      = tier_value (top_tier (field_claims_of e f claims')) src" for f
  proof -
    have "distinct (top_tier (field_claims_of e f claims))" "distinct (top_tier (field_claims_of e f claims'))"
      using assms(2,3) by (simp_all add: distinct_top_tier distinct_map)
    then have "claims_agree (top_tier (field_claims_of e f claims)) = claims_agree (top_tier (field_claims_of e f claims'))"
      using tt [of f] by (simp add: claims_agree_iff)
    then have "1 < length (unique_normalised_values (top_tier (field_claims_of e f claims)))
        \<longleftrightarrow> 1 < length (unique_normalised_values (top_tier (field_claims_of e f claims')))"
      by (simp flip: unique_values_le_1_iff not_le)
    moreover have "choose_winner (top_tier (field_claims_of e f claims)) src
        = choose_winner (top_tier (field_claims_of e f claims')) src"
      using tt [of f] sub [of f] inj by (intro choose_winner_perm) (auto intro: inj_on_subset)
    ultimately show ?thesis by (simp add: tier_value_def)
  qed
  have pv: "projected_value e claims conflicts src = projected_value e claims' conflicts src"
    by (rule ext) (simp add: projected_value_eq rw tv split: option.split)
  have ec: "set (event_claims e claims) = set (event_claims e claims')"
    using assms(1) by (auto simp: event_claims_def)
  show ?thesis
    by (rule build_cong [OF ec pv])
qed

theorem build_order_independent_witness:
  "build 0 1 [sample_claim 5 1 ''operator'' (JInt 7) RAW, sample_claim 6 2 ''location'' (JInt 8) RAW]
      [] Map.empty 1
   = build 0 1 [sample_claim 6 2 ''location'' (JInt 8) RAW, sample_claim 5 1 ''operator'' (JInt 7) RAW]
      [] Map.empty 1"
  by (rule build_order_independent) (auto simp: sample_claim_def claim_key_def)

text \<open>C6: The completeness score lies in \<open>[0, 1]\<close>; it is 1 exactly when every required field is
  present and undisputed and 0 exactly when none is, in spite of floating-point rounding.\<close>

theorem completeness_score_bounds:
  "0 \<le> completeness_score DEFAULT_REQUIRED_FIELDS flds
   \<and> completeness_score DEFAULT_REQUIRED_FIELDS flds \<le> 1
   \<and> (completeness_score DEFAULT_REQUIRED_FIELDS flds = 1 \<longleftrightarrow>
       list_all (field_present flds) DEFAULT_REQUIRED_FIELDS)
   \<and> (completeness_score DEFAULT_REQUIRED_FIELDS flds = 0 \<longleftrightarrow>
       \<not> list_ex (field_present flds) DEFAULT_REQUIRED_FIELDS)"
proof -
  define k where "k = length (filter (field_present flds) DEFAULT_REQUIRED_FIELDS)"
  have n: "length DEFAULT_REQUIRED_FIELDS = 9" by (simp add: DEFAULT_REQUIRED_FIELDS_def)
  have k9: "k \<le> 9" unfolding k_def using length_filter_le n by metis
  have s: "completeness_score DEFAULT_REQUIRED_FIELDS flds = fl (of_nat k / 9)"
    using n by (auto simp: completeness_score_def k_def)
  have all: "list_all (field_present flds) DEFAULT_REQUIRED_FIELDS \<longleftrightarrow> k = 9"
    using length_filter_eq_iff_all [of "field_present flds" DEFAULT_REQUIRED_FIELDS] n
    by (simp add: k_def)
  have ex: "list_ex (field_present flds) DEFAULT_REQUIRED_FIELDS \<longleftrightarrow> k \<noteq> 0"
    by (auto simp: k_def list_ex_iff filter_empty_conv)
  have mid: "0 < fl (of_nat k / 9) \<and> fl (of_nat k / 9) < 1" if "0 < k" "k < 9"
  proof -
    have k: "1 \<le> rat_of_nat k" "rat_of_nat k \<le> 8" using that by (simp_all flip: of_nat_le_iff)
    then have "\<bar>fl (of_nat k / 9) - of_nat k / 9\<bar> \<le> exp2 (0 - 54)"
      by (intro fl_error) (auto simp: exp2_def)
    moreover have "exp2 (0 - 54) < 1 / 9" by (simp add: exp2_def)
    ultimately show ?thesis using k by (auto simp: abs_le_iff)
  qed
  consider "k = 0" | "k = 9" | "0 < k" "k < 9" using k9 by linarith
  then show ?thesis
  proof cases
    case 1
    then show ?thesis using all ex by (simp add: s)
  next
    case 2
    then show ?thesis using all ex fl_of_int [of 1] by (simp add: s)
  next
    case 3
    then show ?thesis using all ex mid [OF 3] by (auto simp: s)
  qed
qed

end
