(* ===== verification/Interfaces.thy ===== *)
theory Interfaces
  imports Atlas_Prelude
begin

text \<open>
  The contracts the components rely on, as locales.  \<open>versioned_row\<close> is a row with optimistic
  locking (the conditional updates of the repositories), \<open>versioned_table\<close> adds the other statements that
  write to the row; \<open>invariant_system\<close> is a transition
  system with an inductive invariant.  Each is interpreted on the model's own definitions in the
  theory of the component that provides it.
\<close>

section \<open>A row with optimistic locking\<close>

locale versioned_row =
  fixes read :: "'d \<Rightarrow> 'r option"
    and ver :: "'r \<Rightarrow> int"
    and cas :: "int \<Rightarrow> ('r \<Rightarrow> 'r) \<Rightarrow> 'd \<Rightarrow> 'e + ('r option \<times> 'd)"
  assumes cas_stale: "(\<forall>r. read d = Some r \<longrightarrow> ver r \<noteq> v) \<Longrightarrow> cas v f d = Inr (None, d)"
    and cas_hit: "read d = Some r \<Longrightarrow> ver r = v \<Longrightarrow> cas v f d = Inr (x, d') \<Longrightarrow>
      x \<noteq> None \<and> (\<exists>r'. read d' = Some r' \<and> ver r' = v + 1)"
begin

text \<open>A write succeeds exactly when it expects the version the row has.\<close>

lemma cas_Some_version:
  assumes "cas v f d = Inr (Some x, d')"
  shows "(\<exists>r. read d = Some r \<and> ver r = v) \<and> (\<exists>r'. read d' = Some r' \<and> ver r' = v + 1)"
proof (cases "\<exists>r. read d = Some r \<and> ver r = v")
  case True
  then show ?thesis using cas_hit assms by blast
next
  case False
  then show ?thesis using cas_stale [of d v f] assms by auto
qed

lemma cas_None_same: "cas v f d = Inr (None, d') \<Longrightarrow> d' = d \<and> (\<forall>r. read d = Some r \<longrightarrow> ver r \<noteq> v)"
  using cas_stale [of d v f] cas_hit [of d _ v f None d'] by fastforce

text \<open>Steps of any number of concurrent writers.\<close>

definition cas_step :: "'d \<Rightarrow> 'd \<Rightarrow> bool" where
  "cas_step d d' \<longleftrightarrow> (\<exists>v f x. cas v f d = Inr (x, d'))"

lemma cas_step_version:
  assumes "cas_step d d'" and "read d = Some r"
  shows "\<exists>r'. read d' = Some r' \<and> ver r \<le> ver r'"
proof -
  obtain v f x where c: "cas v f d = Inr (x, d')" using assms(1) by (auto simp: cas_step_def)
  show ?thesis
  proof (cases "ver r = v")
    case True
    then show ?thesis using cas_hit [OF assms(2) True c] by auto
  next
    case False
    then have "cas v f d = Inr (None, d)" using assms(2) by (intro cas_stale) simp
    then show ?thesis using c assms(2) by auto
  qed
qed

lemma cas_steps_version:
  assumes "cas_step\<^sup>*\<^sup>* d d'" and "read d = Some r"
  shows "\<exists>r'. read d' = Some r' \<and> ver r \<le> ver r'"
  using assms
proof (induction rule: rtranclp_induct)
  case (step y z)
  then obtain r' where r': "read y = Some r'" "ver r \<le> ver r'" by blast
  obtain r'' where "read z = Some r''" "ver r' \<le> ver r''"
    using cas_step_version [OF step.hyps(2) r'(1)] by blast
  then show ?case using r' by auto
qed auto

text \<open>No lost update: after one writer has won version \<open>v\<close>, no other write expecting \<open>v\<close> succeeds.\<close>

lemma single_winner:
  assumes "cas v f d = Inr (Some x, d1)" and "cas_step\<^sup>*\<^sup>* d1 d2"
  shows "cas v g d2 = Inr (None, d2)"
proof -
  obtain r where r: "read d1 = Some r" "ver r = v + 1"
    using cas_Some_version [OF assms(1)] by blast
  obtain r' where "read d2 = Some r'" "ver r \<le> ver r'"
    using cas_steps_version [OF assms(2) r(1)] by blast
  then show ?thesis using r by (intro cas_stale) auto
qed

end

section \<open>All statements that write to the row\<close>

locale versioned_table = versioned_row read ver cas
  for read :: "'d \<Rightarrow> 'r option" and ver :: "'r \<Rightarrow> int"
    and cas :: "int \<Rightarrow> ('r \<Rightarrow> 'r) \<Rightarrow> 'd \<Rightarrow> 'e + ('r option \<times> 'd)" +
  fixes wr :: "'d \<Rightarrow> 'd \<Rightarrow> bool"
  assumes wr_bumps: "wr d d' \<Longrightarrow> read d = Some r \<Longrightarrow> \<exists>r'. read d' = Some r' \<and> (r' = r \<or> ver r < ver r')"
begin

lemma wrs_bump:
  assumes "wr\<^sup>*\<^sup>* d d'" and "read d = Some r"
  shows "\<exists>r'. read d' = Some r' \<and> (r' = r \<or> ver r < ver r')"
  using assms
proof (induction rule: rtranclp_induct)
  case (step y z)
  then obtain r' where r': "read y = Some r'" "r' = r \<or> ver r < ver r'" by blast
  obtain r'' where "read z = Some r''" "r'' = r' \<or> ver r' < ver r''"
    using wr_bumps [OF step.hyps(2) r'(1)] by blast
  then show ?case using r' by auto
qed auto

text \<open>Once the row has changed, an update that expects the version read before is refused for good.\<close>

lemma no_lost_update:
  assumes "read d = Some r" and "wr d d1" and "read d1 \<noteq> Some r" and "wr\<^sup>*\<^sup>* d1 d2"
  shows "\<exists>r'. read d2 = Some r' \<and> ver r < ver r'" and "cas (ver r) f d2 = Inr (None, d2)"
proof -
  obtain r1 where "read d1 = Some r1" "ver r < ver r1" using wr_bumps [OF assms(2,1)] assms(3) by auto
  then show late: "\<exists>r'. read d2 = Some r' \<and> ver r < ver r'" using wrs_bump [OF assms(4)] by fastforce
  then show "cas (ver r) f d2 = Inr (None, d2)" by (intro cas_stale) auto
qed

end

section \<open>A transition system with an invariant\<close>

locale invariant_system =
  fixes init :: "'s \<Rightarrow> bool"
    and step :: "'s \<Rightarrow> 's \<Rightarrow> bool"
    and inv :: "'s \<Rightarrow> bool"
  assumes init_inv: "init s \<Longrightarrow> inv s"
    and step_inv: "step s t \<Longrightarrow> inv s \<Longrightarrow> inv t"
begin

lemma steps_inv: "step\<^sup>*\<^sup>* s t \<Longrightarrow> inv s \<Longrightarrow> inv t"
  by (induction rule: rtranclp_induct) (auto intro: step_inv)

lemma reachable_inv: "init s \<Longrightarrow> step\<^sup>*\<^sup>* s t \<Longrightarrow> inv t"
  using init_inv steps_inv by blast

end

end
