(* ===== verification/Store.thy ===== *)
theory Store
  imports Projection Interfaces
begin

text \<open>
  The relational store behind the unit of work and the repositories the conflict and projection
  use cases call (\<open>infrastructure/db/repositories/\<close>: \<open>sources.py\<close>, \<open>events.py\<close>, \<open>claims.py\<close>,
  \<open>conflicts.py\<close>, \<open>projections.py\<close>).  One record holds the tables, each the list of its rows.
  An exception aborts the transaction, so an operation that raises returns no state; \<open>commit\<close>
  and \<open>flush\<close> are the identity.  A query without \<open>ORDER BY\<close> returns rows in table order.  Bulk
  statements are not split into chunks.  The unique indexes and the event foreign key of the
  read model are enforced, with \<open>IntegrityError\<close>.
\<close>

section \<open>The tables\<close>

record db =
  db_sources :: "source list"
  db_events :: "accident_event list"
  db_claims :: "claim list"
  db_claim_history :: "claim_history list"
  db_conflicts :: "claim_conflict list"
  db_conflict_claims :: "(uuid \<times> uuid) list"
  db_activity :: "conflict_activity_log_entry list"
  db_projections :: "projected_accident_record list"
  db_projection_history :: "accident_projection_history list"
  db_outbox :: "outbox_event list"
  db_identity :: "event_identity_index list"
  db_reviews :: "pending_duplicate_review list"
  db_snapshots :: "raw_snapshot list"
  db_runs :: "ingestion_run list"
  db_next :: uuid

text \<open>\<open>uuid4()\<close>: the counter is above every identifier in use.\<close>

definition uuid4 :: "db \<Rightarrow> uuid \<times> db" where
  "uuid4 d = (db_next d, d\<lparr>db_next := Suc (db_next d)\<rparr>)"

section \<open>Sources\<close>

definition sources_get :: "uuid \<Rightarrow> db \<Rightarrow> source option" where
  "sources_get i d = row_get src_id i (db_sources d)"

definition sources_get_by_ids :: "uuid list \<Rightarrow> db \<Rightarrow> source list" where
  "sources_get_by_ids ids d = List.map_filter (\<lambda>i. sources_get i d) (dict_fromkeys ids)"

section \<open>Events\<close>

definition events_get :: "uuid \<Rightarrow> db \<Rightarrow> accident_event option" where
  "events_get i d = row_get ev_id i (db_events d)"

definition events_add :: "accident_event \<Rightarrow> db \<Rightarrow> db" where
  "events_add e d = d\<lparr>db_events := db_events d @ [e]\<rparr>"

text \<open>The conditional \<open>UPDATE\<close> that claims a merge.\<close>

definition try_atomic_merge :: "uuid \<Rightarrow> uuid \<Rightarrow> db \<Rightarrow> bool \<times> db" where
  "try_atomic_merge source_event_id target_event_id d =
     (let hit = (\<lambda>e. ev_id e = source_event_id \<and> ev_merged_into_event_id e = None)
      in (list_ex hit (db_events d),
          d\<lparr>db_events := row_update hit (\<lambda>e. e\<lparr>ev_merged_into_event_id := Some target_event_id\<rparr>)
                          (db_events d)\<rparr>))"

definition list_ids_after_keyset :: "uuid option \<Rightarrow> nat \<Rightarrow> db \<Rightarrow> uuid list" where
  "list_ids_after_keyset after_id limit d =
     take limit (sort (filter (\<lambda>i. case after_id of None \<Rightarrow> True | Some a \<Rightarrow> a < i)
                         (map ev_id (db_events d))))"

section \<open>Claims\<close>

definition claims_get :: "uuid \<Rightarrow> db \<Rightarrow> claim option" where
  "claims_get i d = row_get cl_id i (db_claims d)"

definition claims_get_many :: "uuid list \<Rightarrow> db \<Rightarrow> claim list" where
  "claims_get_many ids d = List.map_filter (\<lambda>i. claims_get i d) (dict_fromkeys ids)"

definition claims_add :: "claim \<Rightarrow> db \<Rightarrow> db" where
  "claims_add c d = d\<lparr>db_claims := db_claims d @ [c]\<rparr>"

definition find_active_by_event :: "uuid \<Rightarrow> db \<Rightarrow> claim list" where
  "find_active_by_event e d = filter (\<lambda>c. cl_event_id c = e \<and> is_active c) (db_claims d)"

definition find_active_by_event_field :: "uuid \<Rightarrow> string \<Rightarrow> db \<Rightarrow> claim list" where
  "find_active_by_event_field e f d =
     filter (\<lambda>c. cl_event_id c = e \<and> cl_field_name c = f \<and> is_active c) (db_claims d)"

text \<open>The join with the snapshots of the source record.\<close>

definition find_active_by_source_record :: "uuid \<Rightarrow> string \<Rightarrow> db \<Rightarrow> claim list" where
  "find_active_by_source_record s rid d =
     filter (\<lambda>c. cl_source_id c = s \<and> is_active c \<and>
               list_ex (\<lambda>n. Some (sn_id n) = cl_raw_snapshot_id c \<and> sn_source_id n = s
                          \<and> sn_source_record_id n = Some rid) (db_snapshots d))
       (db_claims d)"

text \<open>
  \<open>bulk_supersede\<close> returns the claims as they were before the update; only active claims are
  touched.
\<close>

definition bulk_supersede :: "uuid list \<Rightarrow> uuid \<Rightarrow> db \<Rightarrow> claim list \<times> db" where
  "bulk_supersede claim_ids by_claim_id d =
     (if claim_ids = [] then ([], d)
      else let claims = filter (\<lambda>c. cl_id c \<in> set claim_ids \<and> is_active c) (db_claims d)
           in (claims,
               d\<lparr>db_claims := row_update (\<lambda>c. cl_id c \<in> cl_id ` set claims \<and> is_active c)
                               (supersede by_claim_id) (db_claims d)\<rparr>))"

definition find_superseded_by :: "uuid \<Rightarrow> db \<Rightarrow> claim list" where
  "find_superseded_by by_claim_id d =
     filter (\<lambda>c. cl_superseded_by_claim_id c = Some by_claim_id) (db_claims d)"

text \<open>The type the newest history row that superseded the claim recorded, else \<open>RAW\<close>.\<close>

definition restore_type :: "claim_history list \<Rightarrow> uuid \<Rightarrow> claim_type" where
  "restore_type hist i =
     (case find (\<lambda>h. ch_claim_id h = i) (py_sorted_rev ch_created_at
             (filter (\<lambda>h. ch_to_claim_type h = SUPERSEDED) hist)) of
        None \<Rightarrow> RAW
      | Some h \<Rightarrow> (case ch_from_claim_type h of
            None \<Rightarrow> RAW
          | Some t \<Rightarrow> if t = SUPERSEDED then RAW else t))"

definition unsupersede :: "claim_type \<Rightarrow> claim \<Rightarrow> claim" where
  "unsupersede t c = c\<lparr>cl_claim_type := t, cl_superseded_by_claim_id := None\<rparr>"

definition bulk_unsupersede :: "uuid list \<Rightarrow> db \<Rightarrow> claim list \<times> db" where
  "bulk_unsupersede claim_ids d =
     (let hit = (\<lambda>c. cl_id c \<in> set claim_ids);
          back = (\<lambda>c. unsupersede (restore_type (db_claim_history d) (cl_id c)) c)
      in (map back (filter hit (db_claims d)),
          d\<lparr>db_claims := row_update hit back (db_claims d)\<rparr>))"

definition claim_history_add :: "claim_history \<Rightarrow> db \<Rightarrow> db" where
  "claim_history_add h d = d\<lparr>db_claim_history := db_claim_history d @ [h]\<rparr>"

text \<open>\<open>claim_history.add(ClaimHistory(id=uuid4(), ...))\<close>, as every writer calls it.\<close>

definition log_claim_history ::
  "time \<Rightarrow> uuid \<Rightarrow> uuid \<Rightarrow> json option \<Rightarrow> json option \<Rightarrow> claim_type option \<Rightarrow> claim_type \<Rightarrow> string
     \<Rightarrow> string \<Rightarrow> modifier_type \<Rightarrow> uuid option \<Rightarrow> db \<Rightarrow> db" where
  "log_claim_history now claim_id event_id from_value to_value from_claim_type to_claim_type action
       reason modifier_type modifier_id d =
     claim_history_add
       \<lparr>ch_id = fst (uuid4 d), ch_claim_id = claim_id, ch_event_id = event_id,
        ch_from_value = from_value, ch_to_value = to_value, ch_from_claim_type = from_claim_type,
        ch_to_claim_type = to_claim_type, ch_action = action, ch_reason = reason,
        ch_modifier_type = modifier_type, ch_modifier_id = modifier_id, ch_created_at = now\<rparr>
       (snd (uuid4 d))"

section \<open>Conflicts\<close>

text \<open>The conflict table holds the rows without their links; a read attaches them.\<close>

definition get_claim_ids_for_conflict :: "uuid \<Rightarrow> db \<Rightarrow> uuid list" where
  "get_claim_ids_for_conflict i d = map snd (filter (\<lambda>l. fst l = i) (db_conflict_claims d))"

definition with_links :: "db \<Rightarrow> claim_conflict \<Rightarrow> claim_conflict" where
  "with_links d c = c\<lparr>cc_claim_ids := get_claim_ids_for_conflict (cc_id c) d\<rparr>"

definition conflicts_get :: "uuid \<Rightarrow> db \<Rightarrow> claim_conflict option" where
  "conflicts_get i d = map_option (with_links d) (row_get cc_id i (db_conflicts d))"

text \<open>The partial unique index \<open>uq_open_conflict_event_field\<close>.\<close>

definition open_clash :: "claim_conflict \<Rightarrow> claim_conflict list \<Rightarrow> bool" where
  "open_clash c rows \<longleftrightarrow> cc_status c = OPEN \<and>
     list_ex (\<lambda>r. cc_status r = OPEN \<and> cc_event_id r = cc_event_id c
                \<and> cc_field_name r = cc_field_name c) rows"

definition try_add_open :: "claim_conflict \<Rightarrow> db \<Rightarrow> bool \<times> db" where
  "try_add_open c d =
     (if open_clash c (db_conflicts d) then (False, d)
      else (True, d\<lparr>db_conflicts := db_conflicts d @ [c\<lparr>cc_claim_ids := []\<rparr>]\<rparr>))"

definition conflicts_find_by_event :: "uuid \<Rightarrow> db \<Rightarrow> claim_conflict list" where
  "conflicts_find_by_event e d =
     map (with_links d)
       (py_sorted_rev (\<lambda>c. (cc_created_at c, cc_id c))
          (filter (\<lambda>c. cc_event_id c = e) (db_conflicts d)))"

definition find_open_by_event_field :: "uuid \<Rightarrow> string \<Rightarrow> db \<Rightarrow> claim_conflict option" where
  "find_open_by_event_field e f d =
     map_option (with_links d)
       (find (\<lambda>c. cc_event_id c = e \<and> cc_field_name c = f \<and> cc_status c = OPEN) (db_conflicts d))"

definition add_claim_to_conflict :: "uuid \<Rightarrow> uuid \<Rightarrow> db \<Rightarrow> db" where
  "add_claim_to_conflict conflict_id claim_id d =
     (if (conflict_id, claim_id) \<in> set (db_conflict_claims d) then d
      else d\<lparr>db_conflict_claims := db_conflict_claims d @ [(conflict_id, claim_id)]\<rparr>)"

text \<open>
  \<open>UPDATE ... WHERE id = ... AND version = ... RETURNING\<close>.  A row that becomes \<open>OPEN\<close> is checked
  against the partial unique index.
\<close>

definition update_with_version_check ::
  "uuid \<Rightarrow> int \<Rightarrow> (claim_conflict \<Rightarrow> claim_conflict) \<Rightarrow> db
     \<Rightarrow> atlas_error + (claim_conflict option \<times> db)" where
  "update_with_version_check conflict_id expected_version updates d =
     (case row_get cc_id conflict_id (db_conflicts d) of
        None \<Rightarrow> Inr (None, d)
      | Some c \<Rightarrow>
          if cc_version c \<noteq> expected_version then Inr (None, d)
          else
            let c' = (updates c)\<lparr>cc_version := cc_version c + 1\<rparr>
            in if open_clash c' (filter (\<lambda>r. cc_id r \<noteq> conflict_id) (db_conflicts d))
               then Inl IntegrityError
               else Inr (Some (with_links d c'),
                         d\<lparr>db_conflicts := row_update (\<lambda>r. cc_id r = conflict_id) (\<lambda>_. c')
                                             (db_conflicts d)\<rparr>))"

text \<open>The result of the query is keyed by the winner; a later row replaces an earlier one.\<close>

definition find_resolved_by_winning_claims ::
  "uuid list \<Rightarrow> db \<Rightarrow> (uuid \<rightharpoonup> claim_conflict)" where
  "find_resolved_by_winning_claims claim_ids d =
     (\<lambda>w. if w \<in> set claim_ids
          then map_option (with_links d)
                 (find (\<lambda>c. cc_winning_claim_id c = Some w \<and> cc_status c = RESOLVED)
                    (rev (db_conflicts d)))
          else None)"

definition close_event_conflicts_as_merged ::
  "time \<Rightarrow> uuid \<Rightarrow> string \<Rightarrow> db \<Rightarrow> claim_conflict list \<times> db" where
  "close_event_conflicts_as_merged now event_id note d =
     (let hit = (\<lambda>c. cc_event_id c = event_id \<and> cc_status c = OPEN);
          close = (\<lambda>c. c\<lparr>cc_status := RESOLVED, cc_winning_claim_id := None,
                          cc_resolved_at := Some now, cc_last_modified_reason := SYSTEM_AUTO_CLOSED,
                          cc_last_modified_note := Some (take 255 note), cc_updated_at := now,
                          cc_version := cc_version c + 1\<rparr>)
      in (map (\<lambda>c. with_links d (close c)) (filter hit (db_conflicts d)),
          d\<lparr>db_conflicts := row_update hit close (db_conflicts d)\<rparr>))"

section \<open>The activity log\<close>

definition next_sequence :: "uuid \<Rightarrow> db \<Rightarrow> int" where
  "next_sequence i d =
     (let s = map al_sequence (filter (\<lambda>a. al_conflict_id a = i) (db_activity d))
      in (if s = [] then 0 else Max (set s)) + 1)"

text \<open>
  \<open>conflict_activity.add(ConflictActivityLogEntry(id=uuid4(), sequence=next_sequence(...), ...))\<close>.
\<close>

definition log_activity ::
  "time \<Rightarrow> uuid \<Rightarrow> uuid \<Rightarrow> conflict_status option \<Rightarrow> conflict_status \<Rightarrow> modifier_type \<Rightarrow> uuid option
     \<Rightarrow> string \<Rightarrow> int \<Rightarrow> (string \<times> uuid list) list \<Rightarrow> db \<Rightarrow> db" where
  "log_activity now conflict_id event_id from_status to_status modifier_type modifier_id reason
       version_at_moment claims_snapshot d =
     (let (i, d') = uuid4 d
      in d'\<lparr>db_activity := db_activity d' @
            [\<lparr>al_id = i, al_conflict_id = conflict_id, al_event_id = event_id,
              al_sequence = next_sequence conflict_id d, al_from_status = from_status,
              al_to_status = to_status, al_modifier_type = modifier_type,
              al_modifier_id = modifier_id, al_reason = reason,
              al_version_at_moment = version_at_moment, al_claims_snapshot = claims_snapshot,
              al_created_at = now\<rparr>]\<rparr>)"

definition latest_for_conflict :: "uuid \<Rightarrow> db \<Rightarrow> conflict_activity_log_entry option" where
  "latest_for_conflict i d =
     (case py_sorted_rev al_sequence (filter (\<lambda>a. al_conflict_id a = i) (db_activity d)) of
        [] \<Rightarrow> None | a # _ \<Rightarrow> Some a)"

section \<open>Projections\<close>

definition projections_get :: "uuid \<Rightarrow> db \<Rightarrow> projected_accident_record option" where
  "projections_get e d = row_get pr_event_id e (db_projections d)"

text \<open>\<open>_domain_data\<close>: the dispute sentinel is stored as its marker string.\<close>

definition domain_data :: "projected_accident_record \<Rightarrow> projected_accident_record" where
  "domain_data p = p\<lparr>pr_fields := map (\<lambda>(k, v). (k, PVal (replace_disputed v))) (pr_fields p)\<rparr>"

definition projections_upsert ::
  "projected_accident_record \<Rightarrow> db \<Rightarrow> atlas_error + db" where
  "projections_upsert p d =
     (if events_get (pr_event_id p) d = None then Inl IntegrityError
      else if projections_get (pr_event_id p) d = None
      then Inr (d\<lparr>db_projections := db_projections d @ [domain_data p]\<rparr>)
      else Inr (d\<lparr>db_projections :=
             row_update (\<lambda>r. pr_event_id r = pr_event_id p) (\<lambda>_. domain_data p)
               (db_projections d)\<rparr>))"

definition projections_delete :: "uuid \<Rightarrow> db \<Rightarrow> db" where
  "projections_delete e d =
     d\<lparr>db_projections := filter (\<lambda>r. pr_event_id r \<noteq> e) (db_projections d)\<rparr>"

text \<open>
  The indexes \<open>uq_projection_history_version\<close> and \<open>uq_projection_history_outbox_event\<close>.
\<close>

definition history_clash ::
  "accident_projection_history \<Rightarrow> accident_projection_history \<Rightarrow> bool" where
  "history_clash h r \<longleftrightarrow>
     ph_accident_event_id r = ph_accident_event_id h
       \<and> ph_projection_version r = ph_projection_version h
     \<or> ph_caused_by_outbox_event_id h \<noteq> None
       \<and> ph_caused_by_outbox_event_id r = ph_caused_by_outbox_event_id h"

definition projection_history_add ::
  "accident_projection_history \<Rightarrow> db \<Rightarrow> atlas_error + db" where
  "projection_history_add h d =
     (if list_ex (history_clash h) (db_projection_history d) then Inl IntegrityError
      else Inr (d\<lparr>db_projection_history := db_projection_history d @ [h]\<rparr>))"

definition find_by_outbox_event :: "uuid \<Rightarrow> db \<Rightarrow> accident_projection_history option" where
  "find_by_outbox_event i d =
     find (\<lambda>h. ph_caused_by_outbox_event_id h = Some i) (db_projection_history d)"

section \<open>The invariant of the store\<close>

text \<open>
  Table by table: keys are below the identifier counter and distinct; a claim is superseded
  exactly when it names the claim that superseded it; an open conflict carries no resolution, a
  resolved one names its winner unless the system closed it, and at most one conflict of a field
  is open; the log of a conflict is numbered 1, 2, 3, and so on.
\<close>

definition claim_ok :: "claim \<Rightarrow> bool" where
  "claim_ok c \<longleftrightarrow> (cl_claim_type c = SUPERSEDED) = (cl_superseded_by_claim_id c \<noteq> None)"

definition conflict_ok :: "claim_conflict \<Rightarrow> bool" where
  "conflict_ok c \<longleftrightarrow>
     (cc_status c = OPEN \<longrightarrow>
        cc_winning_claim_id c = None \<and> cc_resolved_at c = None \<and> cc_resolved_by c = None)
     \<and> (cc_status c = RESOLVED \<and> cc_winning_claim_id c = None \<longrightarrow>
        cc_last_modified_reason c = SYSTEM_AUTO_CLOSED)
     \<and> cc_claim_ids c = []"

definition open_keys :: "claim_conflict list \<Rightarrow> (uuid \<times> string) list" where
  "open_keys rows =
     map (\<lambda>c. (cc_event_id c, cc_field_name c)) (filter (\<lambda>c. cc_status c = OPEN) rows)"

definition open_unique :: "claim_conflict list \<Rightarrow> bool" where
  "open_unique rows \<longleftrightarrow> distinct (open_keys rows)"

definition activity_of :: "uuid \<Rightarrow> conflict_activity_log_entry list \<Rightarrow> conflict_activity_log_entry list" where
  "activity_of i acts = filter (\<lambda>a. al_conflict_id a = i) acts"

definition contiguous_log :: "conflict_activity_log_entry list \<Rightarrow> bool" where
  "contiguous_log acts \<longleftrightarrow>
     (\<forall>i. map al_sequence (activity_of i acts) = map (\<lambda>k. int k + 1) [0..<length (activity_of i acts)])"

definition claims_inv :: "claim list \<Rightarrow> uuid \<Rightarrow> bool" where
  "claims_inv rows n \<longleftrightarrow> ids_below cl_id rows n \<and> (\<forall>c \<in> set rows. claim_ok c)"

definition conflicts_inv :: "claim_conflict list \<Rightarrow> uuid \<Rightarrow> bool" where
  "conflicts_inv rows n \<longleftrightarrow>
     ids_below cc_id rows n \<and> (\<forall>c \<in> set rows. conflict_ok c) \<and> open_unique rows"

definition store_inv :: "db \<Rightarrow> bool" where
  "store_inv d \<longleftrightarrow>
     claims_inv (db_claims d) (db_next d)
     \<and> conflicts_inv (db_conflicts d) (db_next d)
     \<and> distinct (db_conflict_claims d)
     \<and> contiguous_log (db_activity d)
     \<and> distinct (map pr_event_id (db_projections d))
     \<and> distinct (map (\<lambda>h. (ph_accident_event_id h, ph_projection_version h)) (db_projection_history d))"

subsection \<open>What each operation leaves alone\<close>

lemma uuid4_simps [simp]:
  "fst (uuid4 d) = db_next d" "db_next (snd (uuid4 d)) = Suc (db_next d)"
  "db_claims (snd (uuid4 d)) = db_claims d" "db_conflicts (snd (uuid4 d)) = db_conflicts d"
  "db_conflict_claims (snd (uuid4 d)) = db_conflict_claims d"
  "db_activity (snd (uuid4 d)) = db_activity d"
  "db_claim_history (snd (uuid4 d)) = db_claim_history d"
  "db_projections (snd (uuid4 d)) = db_projections d"
  "db_projection_history (snd (uuid4 d)) = db_projection_history d"
  "db_events (snd (uuid4 d)) = db_events d" "db_sources (snd (uuid4 d)) = db_sources d"
  "db_outbox (snd (uuid4 d)) = db_outbox d" "db_identity (snd (uuid4 d)) = db_identity d"
  "db_reviews (snd (uuid4 d)) = db_reviews d" "db_snapshots (snd (uuid4 d)) = db_snapshots d"
  "db_runs (snd (uuid4 d)) = db_runs d"
  by (simp_all add: uuid4_def)

lemma log_activity_simps [simp]:
  "db_next (log_activity now c e fs ts mt mi r v sn d) = Suc (db_next d)"
  "db_claims (log_activity now c e fs ts mt mi r v sn d) = db_claims d"
  "db_conflicts (log_activity now c e fs ts mt mi r v sn d) = db_conflicts d"
  "db_conflict_claims (log_activity now c e fs ts mt mi r v sn d) = db_conflict_claims d"
  "db_claim_history (log_activity now c e fs ts mt mi r v sn d) = db_claim_history d"
  "db_projections (log_activity now c e fs ts mt mi r v sn d) = db_projections d"
  "db_projection_history (log_activity now c e fs ts mt mi r v sn d) = db_projection_history d"
  "db_events (log_activity now c e fs ts mt mi r v sn d) = db_events d"
  "db_sources (log_activity now c e fs ts mt mi r v sn d) = db_sources d"
  "db_outbox (log_activity now c e fs ts mt mi r v sn d) = db_outbox d"
  "db_identity (log_activity now c e fs ts mt mi r v sn d) = db_identity d"
  "db_reviews (log_activity now c e fs ts mt mi r v sn d) = db_reviews d"
  "db_snapshots (log_activity now c e fs ts mt mi r v sn d) = db_snapshots d"
  "db_runs (log_activity now c e fs ts mt mi r v sn d) = db_runs d"
  by (simp_all add: log_activity_def uuid4_def Let_def)

lemma log_claim_history_simps [simp]:
  "db_next (log_claim_history now i e fv tv ft tt a r mt mi d) = Suc (db_next d)"
  "db_claims (log_claim_history now i e fv tv ft tt a r mt mi d) = db_claims d"
  "db_conflicts (log_claim_history now i e fv tv ft tt a r mt mi d) = db_conflicts d"
  "db_conflict_claims (log_claim_history now i e fv tv ft tt a r mt mi d) = db_conflict_claims d"
  "db_activity (log_claim_history now i e fv tv ft tt a r mt mi d) = db_activity d"
  "db_projections (log_claim_history now i e fv tv ft tt a r mt mi d) = db_projections d"
  "db_projection_history (log_claim_history now i e fv tv ft tt a r mt mi d) = db_projection_history d"
  "db_events (log_claim_history now i e fv tv ft tt a r mt mi d) = db_events d"
  "db_sources (log_claim_history now i e fv tv ft tt a r mt mi d) = db_sources d"
  "db_outbox (log_claim_history now i e fv tv ft tt a r mt mi d) = db_outbox d"
  "db_identity (log_claim_history now i e fv tv ft tt a r mt mi d) = db_identity d"
  "db_reviews (log_claim_history now i e fv tv ft tt a r mt mi d) = db_reviews d"
  "db_snapshots (log_claim_history now i e fv tv ft tt a r mt mi d) = db_snapshots d"
  "db_runs (log_claim_history now i e fv tv ft tt a r mt mi d) = db_runs d"
  by (simp_all add: log_claim_history_def claim_history_add_def)

lemma add_claim_to_conflict_simps [simp]:
  "db_next (add_claim_to_conflict i c d) = db_next d"
  "db_claims (add_claim_to_conflict i c d) = db_claims d"
  "db_conflicts (add_claim_to_conflict i c d) = db_conflicts d"
  "db_activity (add_claim_to_conflict i c d) = db_activity d"
  "db_claim_history (add_claim_to_conflict i c d) = db_claim_history d"
  "db_projections (add_claim_to_conflict i c d) = db_projections d"
  "db_projection_history (add_claim_to_conflict i c d) = db_projection_history d"
  "db_events (add_claim_to_conflict i c d) = db_events d"
  "db_sources (add_claim_to_conflict i c d) = db_sources d"
  "db_outbox (add_claim_to_conflict i c d) = db_outbox d"
  "set (db_conflict_claims (add_claim_to_conflict i c d)) = insert (i, c) (set (db_conflict_claims d))"
  by (auto simp: add_claim_to_conflict_def)

lemma set_get_claim_ids: "set (get_claim_ids_for_conflict i d) = {c. (i, c) \<in> set (db_conflict_claims d)}"
  by (force simp: get_claim_ids_for_conflict_def)

lemma with_links_simps [simp]:
  "cc_id (with_links d c) = cc_id c" "cc_event_id (with_links d c) = cc_event_id c"
  "cc_field_name (with_links d c) = cc_field_name c" "cc_status (with_links d c) = cc_status c"
  "cc_version (with_links d c) = cc_version c"
  "cc_winning_claim_id (with_links d c) = cc_winning_claim_id c"
  "cc_last_modified_reason (with_links d c) = cc_last_modified_reason c"
  "cc_created_at (with_links d c) = cc_created_at c" "cc_updated_at (with_links d c) = cc_updated_at c"
  "cc_resolved_at (with_links d c) = cc_resolved_at c"
  "cc_claim_ids (with_links d c) = get_claim_ids_for_conflict (cc_id c) d"
  by (simp_all add: with_links_def)

subsection \<open>Each operation preserves the invariant\<close>

lemma claims_inv_mono: "claims_inv rows n \<Longrightarrow> n \<le> m \<Longrightarrow> claims_inv rows m"
  by (auto simp: claims_inv_def intro: ids_below_mono)

lemma conflicts_inv_mono: "conflicts_inv rows n \<Longrightarrow> n \<le> m \<Longrightarrow> conflicts_inv rows m"
  by (auto simp: conflicts_inv_def intro: ids_below_mono)

lemma store_inv_uuid4 [inv_intros]: "store_inv d \<Longrightarrow> store_inv (snd (uuid4 d))"
  by (auto simp: store_inv_def intro: claims_inv_mono conflicts_inv_mono)

lemma claims_inv_update:
  assumes "claims_inv rows n"
    and "\<And>c. cl_id (f c) = cl_id c"
    and "\<And>c. c \<in> set rows \<Longrightarrow> p c \<Longrightarrow> claim_ok (f c)"
  shows "claims_inv (row_update p f rows) n"
  using assms by (auto simp: claims_inv_def set_row_update intro: ids_below_update)

lemma store_inv_claims_add [inv_intros]:
  assumes "store_inv d" and "cl_id c = db_next d" and "claim_ok c"
  shows "store_inv (claims_add c (snd (uuid4 d)))"
  using assms
  by (auto simp: store_inv_def claims_add_def claims_inv_def intro: ids_below_snoc conflicts_inv_mono)

lemma supersede_claim_ok: "claim_ok (supersede w c)"
  by (simp add: claim_ok_def)

lemma store_inv_bulk_supersede [inv_intros]:
  "store_inv d \<Longrightarrow> store_inv (snd (bulk_supersede ids w d))"
  by (auto simp: store_inv_def bulk_supersede_def Let_def supersede_claim_ok intro!: claims_inv_update)

lemma restore_type_active: "restore_type hist i \<noteq> SUPERSEDED"
  by (auto simp: restore_type_def split: option.splits)

lemma unsupersede_simps [simp]:
  "cl_id (unsupersede t c) = cl_id c" "cl_event_id (unsupersede t c) = cl_event_id c"
  "cl_field_name (unsupersede t c) = cl_field_name c"
  "cl_field_value (unsupersede t c) = cl_field_value c"
  "cl_claim_type (unsupersede t c) = t" "cl_superseded_by_claim_id (unsupersede t c) = None"
  by (simp_all add: unsupersede_def)

lemma store_inv_bulk_unsupersede [inv_intros]:
  "store_inv d \<Longrightarrow> store_inv (snd (bulk_unsupersede ids d))"
  by (auto simp: store_inv_def bulk_unsupersede_def Let_def claim_ok_def restore_type_active
      intro!: claims_inv_update)

lemma store_inv_claim_history_add [inv_intros]: "store_inv d \<Longrightarrow> store_inv (claim_history_add h d)"
  by (simp add: store_inv_def claim_history_add_def)

lemma store_inv_log_claim_history [inv_intros]:
  "store_inv d \<Longrightarrow> store_inv (log_claim_history now i e fv tv ft tt a r mt mi d)"
  unfolding log_claim_history_def by (intro inv_intros)

text \<open>A loop that writes one history row per item.\<close>

lemma fold_log_frame:
  assumes "\<And>x d. db_claims (f x d) = db_claims d" and "\<And>x d. db_conflicts (f x d) = db_conflicts d"
    and "\<And>x d. db_conflict_claims (f x d) = db_conflict_claims d"
    and "\<And>x d. db_events (f x d) = db_events d" and "\<And>x d. db_activity (f x d) = db_activity d"
    and "\<And>x d. db_sources (f x d) = db_sources d"
    and "\<And>x d. db_projections (f x d) = db_projections d"
    and "\<And>x d. db_projection_history (f x d) = db_projection_history d"
  shows "db_claims (fold f xs d) = db_claims d" "db_conflicts (fold f xs d) = db_conflicts d"
    "db_conflict_claims (fold f xs d) = db_conflict_claims d" "db_events (fold f xs d) = db_events d"
    "db_activity (fold f xs d) = db_activity d" "db_sources (fold f xs d) = db_sources d"
    "db_projections (fold f xs d) = db_projections d"
    "db_projection_history (fold f xs d) = db_projection_history d"
  using assms by (induction xs arbitrary: d) simp_all

lemma fold_inv: "(\<And>x d. P d \<Longrightarrow> P (f x d)) \<Longrightarrow> P d \<Longrightarrow> P (fold f xs d)"
  by (induction xs arbitrary: d) simp_all

lemma store_inv_add_claim_to_conflict [inv_intros]:
  "store_inv d \<Longrightarrow> store_inv (add_claim_to_conflict i c d)"
  by (auto simp: store_inv_def add_claim_to_conflict_def)

lemma next_sequence_contiguous:
  assumes "contiguous_log (db_activity d)"
  shows "next_sequence i d = int (length (activity_of i (db_activity d))) + 1"
proof -
  let ?n = "length (activity_of i (db_activity d))"
  have s: "map al_sequence (activity_of i (db_activity d)) = map (\<lambda>k. int k + 1) [0..<?n]"
    using assms unfolding contiguous_log_def by blast
  show ?thesis
  proof (cases "?n")
    case 0
    then show ?thesis by (simp add: next_sequence_def activity_of_def Let_def)
  next
    case (Suc m)
    have "Max (set (map (\<lambda>k. int k + 1) [0..<?n])) = int m + 1"
      by (rule Max_eqI) (auto simp: Suc)
    moreover have "activity_of i (db_activity d) \<noteq> []" using Suc by auto
    ultimately show ?thesis
      using s by (simp add: next_sequence_def activity_of_def [symmetric] Let_def Suc)
  qed
qed

lemma store_inv_log_activity [inv_intros]:
  assumes "store_inv d"
  shows "store_inv (log_activity now c e fs ts mt mi r v sn d)"
proof -
  have c: "contiguous_log (db_activity d)" using assms by (simp add: store_inv_def)
  have "contiguous_log (db_activity (log_activity now c e fs ts mt mi r v sn d))"
    unfolding contiguous_log_def
  proof
    fix i
    show "map al_sequence (activity_of i (db_activity (log_activity now c e fs ts mt mi r v sn d))) =
        map (\<lambda>k. int k + 1)
          [0..<length (activity_of i (db_activity (log_activity now c e fs ts mt mi r v sn d)))]"
      using c next_sequence_contiguous [OF c, of c]
      by (auto simp: log_activity_def uuid4_def Let_def activity_of_def contiguous_log_def)
  qed
  then show ?thesis
    using assms by (auto simp: store_inv_def intro: claims_inv_mono conflicts_inv_mono)
qed

lemma open_keys_simps [simp]:
  "open_keys [] = []"
  "open_keys (c # rows) =
     (if cc_status c = OPEN then (cc_event_id c, cc_field_name c) # open_keys rows else open_keys rows)"
  "open_keys (rows @ rows') = open_keys rows @ open_keys rows'"
  by (simp_all add: open_keys_def)

lemma open_clash_iff:
  "open_clash c rows \<longleftrightarrow> cc_status c = OPEN \<and> (cc_event_id c, cc_field_name c) \<in> set (open_keys rows)"
  by (induction rows) (auto simp: open_clash_def)

lemma open_uniqueD:
  assumes "open_unique rows" and "a \<in> set rows" "b \<in> set rows"
    and "cc_status a = OPEN" "cc_status b = OPEN"
    and "cc_event_id a = cc_event_id b" "cc_field_name a = cc_field_name b"
  shows "a = b"
proof -
  have "inj_on (\<lambda>c. (cc_event_id c, cc_field_name c)) (set (filter (\<lambda>c. cc_status c = OPEN) rows))"
    using assms(1) by (simp add: open_unique_def open_keys_def distinct_map)
  then show ?thesis by (rule inj_onD) (use assms in simp_all)
qed

text \<open>A row replaced in place, seen as a split of the table.\<close>

lemma row_update_key_split:
  assumes "distinct (map key rows)" and "row_get key i rows = Some c"
  obtains xs ys where "rows = xs @ c # ys"
    "row_update (\<lambda>r. key r = i) f rows = xs @ f c # ys" "filter (\<lambda>r. key r \<noteq> i) rows = xs @ ys"
proof -
  have c: "c \<in> set rows" "key c = i" using row_get_SomeD [OF assms(2)] by auto
  then obtain xs ys where rows: "rows = xs @ c # ys" by (meson split_list)
  have "i \<notin> key ` set xs" "i \<notin> key ` set ys" using assms(1) c by (simp_all add: rows)
  then have "\<forall>r \<in> set xs. key r \<noteq> i" "\<forall>r \<in> set ys. key r \<noteq> i" by blast+
  then show thesis
    using that [of xs ys] c by (simp add: rows row_update_idle)
qed

lemma open_clash_irrelevant [simp]:
  "open_clash (c\<lparr>cc_claim_ids := x\<rparr>) rows = open_clash c rows"
  by (simp add: open_clash_def)

lemma store_inv_try_add_open [inv_intros]:
  assumes "store_inv d" and "cc_id c < db_next d" and "cc_id c \<notin> cc_id ` set (db_conflicts d)"
    and "conflict_ok (c\<lparr>cc_claim_ids := []\<rparr>)"
  shows "store_inv (snd (try_add_open c d))"
proof -
  have "conflicts_inv (db_conflicts d @ [c\<lparr>cc_claim_ids := []\<rparr>]) (db_next d)"
    if "\<not> open_clash c (db_conflicts d)"
  proof -
    have "open_unique (db_conflicts d @ [c\<lparr>cc_claim_ids := []\<rparr>])"
      using that assms(1)
      by (simp add: store_inv_def conflicts_inv_def open_unique_def open_clash_iff)
    then show ?thesis using assms by (simp add: store_inv_def conflicts_inv_def ids_below_def)
  qed
  then show ?thesis using assms(1) by (auto simp: try_add_open_def store_inv_def)
qed

lemma conflicts_inv_replace:
  assumes "conflicts_inv rows n" and "row_get cc_id i rows = Some c"
    and "cc_id c' = i" and "conflict_ok c'"
    and "\<not> open_clash c' (filter (\<lambda>r. cc_id r \<noteq> i) rows)"
  shows "conflicts_inv (row_update (\<lambda>r. cc_id r = i) (\<lambda>_. c') rows) n"
proof -
  have m: "map cc_id (row_update (\<lambda>r. cc_id r = i) (\<lambda>_. c') rows) = map cc_id rows"
    using assms(3) by (simp add: row_update_def)
  have "i < n" using row_get_SomeD [OF assms(2)] assms(1) by (auto simp: conflicts_inv_def ids_below_def)
  then have "ids_below cc_id (row_update (\<lambda>r. cc_id r = i) (\<lambda>_. c') rows) n"
    using assms(1,3) m by (auto simp: conflicts_inv_def ids_below_def set_row_update)
  moreover have "\<forall>r \<in> set (row_update (\<lambda>r. cc_id r = i) (\<lambda>_. c') rows). conflict_ok r"
    using assms(1,4) by (auto simp: conflicts_inv_def set_row_update)
  moreover have "open_unique (row_update (\<lambda>r. cc_id r = i) (\<lambda>_. c') rows)"
  proof -
    have "distinct (map cc_id rows)" using assms(1) by (simp add: conflicts_inv_def ids_below_def)
    then obtain xs ys where "rows = xs @ c # ys"
      "row_update (\<lambda>r. cc_id r = i) (\<lambda>_. c') rows = xs @ c' # ys"
      "filter (\<lambda>r. cc_id r \<noteq> i) rows = xs @ ys"
      using assms(2) by (rule row_update_key_split)
    then show ?thesis
      using assms(1,5) by (auto simp: conflicts_inv_def open_unique_def open_clash_iff split: if_splits)
  qed
  ultimately show ?thesis by (simp add: conflicts_inv_def)
qed

lemma update_with_version_check_Some:
  assumes "update_with_version_check i v f d = Inr (Some c', d')"
  obtains c where "row_get cc_id i (db_conflicts d) = Some c" "cc_version c = v"
    "c' = with_links d ((f c)\<lparr>cc_version := v + 1\<rparr>)"
    "\<not> open_clash ((f c)\<lparr>cc_version := v + 1\<rparr>) (filter (\<lambda>r. cc_id r \<noteq> i) (db_conflicts d))"
    "d' = d\<lparr>db_conflicts := row_update (\<lambda>r. cc_id r = i) (\<lambda>_. (f c)\<lparr>cc_version := v + 1\<rparr>) (db_conflicts d)\<rparr>"
  using assms by (auto simp: update_with_version_check_def Let_def split: option.splits if_splits)

lemma update_with_version_check_None:
  "update_with_version_check i v f d = Inr (None, d') \<Longrightarrow>
     d' = d \<and> (\<forall>c. row_get cc_id i (db_conflicts d) = Some c \<longrightarrow> cc_version c \<noteq> v)"
  by (auto simp: update_with_version_check_def Let_def split: option.splits if_splits)

lemma store_inv_update_with_version_check [inv_intros]:
  assumes "update_with_version_check i v f d = Inr (r, d')" and "store_inv d"
    and "\<And>c. cc_id (f c) = cc_id c"
    and "\<And>c. conflict_ok c \<Longrightarrow> conflict_ok (f c)"
  shows "store_inv d'"
proof (cases r)
  case None
  then show ?thesis using assms update_with_version_check_None by blast
next
  case (Some c')
  from assms(1) [unfolded Some] obtain c where
    c: "row_get cc_id i (db_conflicts d) = Some c"
    and clash: "\<not> open_clash ((f c)\<lparr>cc_version := v + 1\<rparr>) (filter (\<lambda>r. cc_id r \<noteq> i) (db_conflicts d))"
    and d': "d' = d\<lparr>db_conflicts := row_update (\<lambda>r. cc_id r = i) (\<lambda>_. (f c)\<lparr>cc_version := v + 1\<rparr>) (db_conflicts d)\<rparr>"
    by (rule update_with_version_check_Some)
  have "c \<in> set (db_conflicts d)" "cc_id c = i" using row_get_SomeD [OF c] by auto
  moreover have "conflict_ok c" using calculation assms(2) by (auto simp: store_inv_def conflicts_inv_def)
  ultimately have "conflict_ok ((f c)\<lparr>cc_version := v + 1\<rparr>)" "cc_id ((f c)\<lparr>cc_version := v + 1\<rparr>) = i"
    using assms(3,4) by (auto simp: conflict_ok_def)
  then have "conflicts_inv (db_conflicts d') (db_next d)"
    using conflicts_inv_replace [OF _ c _ _ clash] assms(2) by (simp add: d' store_inv_def)
  then show ?thesis using assms(2) by (simp add: d' store_inv_def)
qed

lemma store_inv_close_event_conflicts [inv_intros]:
  assumes "store_inv d"
  shows "store_inv (snd (close_event_conflicts_as_merged now e note d))"
proof -
  let ?d = "snd (close_event_conflicts_as_merged now e note d)"
  have ci: "conflicts_inv (db_conflicts d) (db_next d)" using assms by (simp add: store_inv_def)
  have "ids_below cc_id (db_conflicts ?d) (db_next d)"
    using ci by (auto simp: close_event_conflicts_as_merged_def Let_def conflicts_inv_def intro!: ids_below_update)
  moreover have "\<forall>c \<in> set (db_conflicts ?d). conflict_ok c"
    using ci by (auto simp: close_event_conflicts_as_merged_def Let_def conflicts_inv_def set_row_update conflict_ok_def)
  moreover have "open_keys (row_update (\<lambda>c. cc_event_id c = e \<and> cc_status c = OPEN) f rows)
      = filter (\<lambda>k. fst k \<noteq> e) (open_keys rows)" if "\<And>c. cc_status (f c) = RESOLVED" for f rows
    using that by (induction rows) auto
  then have "open_unique (db_conflicts ?d)"
    using ci by (simp add: close_event_conflicts_as_merged_def Let_def conflicts_inv_def open_unique_def)
  ultimately have "conflicts_inv (db_conflicts ?d) (db_next d)" by (simp add: conflicts_inv_def)
  then show ?thesis
    using assms by (simp add: store_inv_def close_event_conflicts_as_merged_def Let_def)
qed

lemma store_inv_projections_upsert [inv_intros]:
  "projections_upsert p d = Inr d' \<Longrightarrow> store_inv d \<Longrightarrow> store_inv d'"
  by (auto simp: projections_upsert_def store_inv_def projections_get_def row_get_None_iff
      domain_data_def row_update_def comp_def if_distrib [where f = pr_event_id] cong: if_cong
      split: if_splits)

lemma store_inv_projections_delete [inv_intros]:
  "store_inv d \<Longrightarrow> store_inv (projections_delete e d)"
  by (simp add: projections_delete_def store_inv_def distinct_map_filter)

lemma store_inv_projection_history_add [inv_intros]:
  assumes "projection_history_add h d = Inr d'" and "store_inv d"
  shows "store_inv d'"
proof -
  let ?k = "\<lambda>h. (ph_accident_event_id h, ph_projection_version h)"
  have d': "d' = d\<lparr>db_projection_history := db_projection_history d @ [h]\<rparr>"
    and no: "\<not> list_ex (history_clash h) (db_projection_history d)"
    using assms(1) by (auto simp: projection_history_add_def split: if_splits)
  have "?k h \<notin> ?k ` set (db_projection_history d)"
    using no by (fastforce simp: list_ex_iff history_clash_def)
  then have "distinct (map ?k (db_projection_history d @ [h]))"
    using assms(2) unfolding store_inv_def by simp
  then show ?thesis using assms(2) by (simp add: d' store_inv_def)
qed

section \<open>Optimistic locking of a conflict row\<close>

lemma row_get_replace:
  "row_get key i rows = Some c \<Longrightarrow> key c' = i \<Longrightarrow>
     row_get key i (row_update (\<lambda>r. key r = i) (\<lambda>_. c') rows) = Some c'"
  by (induction rows) auto

interpretation conflict_row: versioned_row
  "\<lambda>d. row_get cc_id i (db_conflicts d)" cc_version
  "\<lambda>v f. update_with_version_check i v (\<lambda>c. (f c)\<lparr>cc_id := i\<rparr>)" for i
proof
  fix d :: db and v f
  assume "\<forall>r. row_get cc_id i (db_conflicts d) = Some r \<longrightarrow> cc_version r \<noteq> v"
  then show "update_with_version_check i v (\<lambda>c. (f c)\<lparr>cc_id := i\<rparr>) d = Inr (None, d)"
    by (auto simp: update_with_version_check_def split: option.split)
next
  fix d :: db and r v f x d'
  assume r: "row_get cc_id i (db_conflicts d) = Some r" "cc_version r = v"
    and u: "update_with_version_check i v (\<lambda>c. (f c)\<lparr>cc_id := i\<rparr>) d = Inr (x, d')"
  then have "x \<noteq> None"
    by (auto simp: update_with_version_check_def Let_def split: if_splits)
  then obtain c' where x: "x = Some c'" by blast
  from u [unfolded x] obtain c where
    c: "row_get cc_id i (db_conflicts d) = Some c" and
    d': "d' = d\<lparr>db_conflicts := row_update (\<lambda>r. cc_id r = i)
            (\<lambda>_. ((f c)\<lparr>cc_id := i\<rparr>)\<lparr>cc_version := v + 1\<rparr>) (db_conflicts d)\<rparr>"
    by (rule update_with_version_check_Some)
  have "row_get cc_id i (db_conflicts d') = Some (((f c)\<lparr>cc_id := i\<rparr>)\<lparr>cc_version := v + 1\<rparr>)"
    using row_get_replace [OF c, of "((f c)\<lparr>cc_id := i\<rparr>)\<lparr>cc_version := v + 1\<rparr>"] by (simp add: d')
  then show "x \<noteq> None \<and> (\<exists>r'. row_get cc_id i (db_conflicts d') = Some r' \<and> cc_version r' = v + 1)"
    by (simp add: x)
qed

text \<open>
  What other transactions do to the store, one statement at a time: a conditional update of any conflict (it
  keeps the primary key), the insert of a conflict, the bulk close of a merge, or a write to other tables.
  These are all the statements of the repository that write conflict rows and that a use case calls.
\<close>

inductive conflict_write :: "db \<Rightarrow> db \<Rightarrow> bool" where
  conditional_update: "(\<And>c. cc_id (f c) = cc_id c) \<Longrightarrow> update_with_version_check j v f d = Inr (r, d') \<Longrightarrow> conflict_write d d'"
| insert_open: "try_add_open c d = (added, d') \<Longrightarrow> conflict_write d d'"
| bulk_close: "close_event_conflicts_as_merged now e nt d = (cs, d') \<Longrightarrow> conflict_write d d'"
| other_table: "db_conflicts d' = db_conflicts d \<Longrightarrow> conflict_write d d'"

lemma update_with_version_check_row:
  assumes "\<And>c. cc_id (f c) = cc_id c" and "update_with_version_check j v f d = Inr (x, d')"
    and "row_get cc_id i (db_conflicts d) = Some r"
  shows "\<exists>r'. row_get cc_id i (db_conflicts d') = Some r' \<and> (r' = r \<or> cc_version r < cc_version r')"
proof (cases x)
  case None
  then show ?thesis using assms(2,3) update_with_version_check_None by fastforce
next
  case (Some u)
  from assms(2) [unfolded Some] obtain c where c: "row_get cc_id j (db_conflicts d) = Some c" "cc_version c = v"
    and d': "d' = d\<lparr>db_conflicts := row_update (\<lambda>r. cc_id r = j) (\<lambda>_. (f c)\<lparr>cc_version := v + 1\<rparr>) (db_conflicts d)\<rparr>"
    by (rule update_with_version_check_Some)
  have "cc_id c = j" using row_get_SomeD [OF c(1)] by simp
  let ?c = "(f c)\<lparr>cc_version := v + 1\<rparr>"
  show ?thesis
  proof (cases "i = j")
    case True
    then show ?thesis
      using row_get_replace [OF c(1), of ?c] assms(1,3) c \<open>cc_id c = j\<close> by (simp add: d')
  next
    case False
    then have "row_get cc_id i (row_update (\<lambda>r. cc_id r = j) (\<lambda>_. ?c) rows) = row_get cc_id i rows" for rows
      using assms(1) \<open>cc_id c = j\<close> by (induction rows) auto
    then show ?thesis using assms(3) by (simp add: d')
  qed
qed

lemma conflict_write_row:
  assumes "conflict_write d d'" and "row_get cc_id i (db_conflicts d) = Some r"
  shows "\<exists>r'. row_get cc_id i (db_conflicts d') = Some r' \<and> (r' = r \<or> cc_version r < cc_version r')"
  using assms
proof cases
  case (conditional_update f j v x)
  then show ?thesis using update_with_version_check_row assms(2) by blast
next
  case (insert_open c added)
  then show ?thesis using assms(2) by (auto simp: try_add_open_def row_get_append split: if_splits)
next
  case (bulk_close now e nt cs)
  then show ?thesis using assms(2)
    by (auto simp: close_event_conflicts_as_merged_def Let_def row_get_update)
next
  case other_table
  then show ?thesis using assms(2) by simp
qed

interpretation conflict_table: versioned_table
  "\<lambda>d. row_get cc_id i (db_conflicts d)" cc_version
  "\<lambda>v f. update_with_version_check i v (\<lambda>c. (f c)\<lparr>cc_id := i\<rparr>)" conflict_write for i
  by unfold_locales (rule conflict_write_row)

text \<open>An empty store, for the examples.\<close>

definition empty_db :: db where
  "empty_db = \<lparr>db_sources = [], db_events = [], db_claims = [], db_claim_history = [],
     db_conflicts = [], db_conflict_claims = [], db_activity = [], db_projections = [],
     db_projection_history = [], db_outbox = [], db_identity = [], db_reviews = [],
     db_snapshots = [], db_runs = [], db_next = 100\<rparr>"

text \<open>C9: No lost update on a conflict: once any statement that writes conflicts (a conditional update, an
  insert, or the bulk close of a merge) has changed a conflict after a transaction read it, then whatever
  further such statements of any transactions follow, the update of that transaction, which expects the
  version it read, is refused and changes nothing.\<close>

theorem conflict_no_lost_update:
  assumes "row_get cc_id i (db_conflicts d) = Some c" and "conflict_write d d1"
    and "row_get cc_id i (db_conflicts d1) \<noteq> Some c" and "conflict_write\<^sup>*\<^sup>* d1 d2"
  shows "update_with_version_check i (cc_version c) g d2 = Inr (None, d2)"
  using conflict_table.no_lost_update(1) [OF assms] by (auto simp: update_with_version_check_def)

theorem conflict_no_lost_update_witness:
  "let d = empty_db\<lparr>db_conflicts := [new_conflict 0 9 1 ''operator'' []]\<rparr>;
       d1 = snd (close_event_conflicts_as_merged 5 1 [] d)
   in map cc_version (db_conflicts d1) = [2] \<and> update_with_version_check 9 1 (\<lambda>c. c) d1 = Inr (None, d1)"
proof -
  let ?c = "new_conflict 0 9 1 ''operator'' []"
  let ?d = "empty_db\<lparr>db_conflicts := [?c]\<rparr>"
  let ?d1 = "snd (close_event_conflicts_as_merged 5 1 [] ?d)"
  have w: "conflict_write ?d ?d1" by (rule conflict_write.bulk_close) (rule prod.collapse [symmetric])
  have r: "row_get cc_id 9 (db_conflicts ?d) = Some ?c" "row_get cc_id 9 (db_conflicts ?d1) \<noteq> Some ?c"
    "map cc_version (db_conflicts ?d1) = [2]" "cc_version ?c = 1"
    by (simp_all add: close_event_conflicts_as_merged_def new_conflict_def row_update_def Let_def)
  show ?thesis
    using conflict_no_lost_update [OF r(1) w r(2) rtranclp.rtrancl_refl, of "\<lambda>c. c"] r(3,4) by (simp add: Let_def)
qed

end
