(* ===== verification/Reproject.thy ===== *)
theory Reproject
  imports Store
begin

text \<open>
  \<open>ReProjectEvent\<close> (\<open>application/use_cases/reproject_event.py\<close>), which rebuilds the read model of
  one event and appends to its audit history, \<open>RebuildAllProjections\<close>
  (\<open>rebuild_all_projections.py\<close>) and \<open>VerifyProjectionConsistency\<close>
  (\<open>verify_projection_consistency.py\<close>).  \<open>digest\<close> stands for SHA-256 over the canonical JSON text;
  the canonical text is represented by the JSON value with its keys sorted.
\<close>

section \<open>Python equality of JSON values\<close>

text \<open>\<open>==\<close>: numbers and booleans by value, dictionaries as maps.\<close>

fun json_num :: "json \<Rightarrow> rat option" where
  "json_num (JBool b) = Some (if b then 1 else 0)"
| "json_num (JInt i) = Some (of_int i)"
| "json_num (JFloat q) = Some q"
| "json_num _ = None"

fun py_eq :: "json \<Rightarrow> json \<Rightarrow> bool"
  and py_eqs :: "json list \<Rightarrow> json list \<Rightarrow> bool"
  and py_eq_items :: "(string \<times> json) list \<Rightarrow> (string \<times> json) list \<Rightarrow> bool" where
  "py_eq JNull y = (y = JNull)"
| "py_eq (JStr s) y = (y = JStr s)"
| "py_eq (JBool b) y = (json_num y = json_num (JBool b))"
| "py_eq (JInt i) y = (json_num y = json_num (JInt i))"
| "py_eq (JFloat q) y = (json_num y = json_num (JFloat q))"
| "py_eq (JList xs) y = (case y of JList ys \<Rightarrow> py_eqs xs ys | _ \<Rightarrow> False)"
| "py_eq (JDict m) y = (case y of JDict n \<Rightarrow> length m = length n \<and> py_eq_items m n | _ \<Rightarrow> False)"
| "py_eqs [] ys = (ys = [])"
| "py_eqs (x # xs) ys = (case ys of y # ys' \<Rightarrow> py_eq x y \<and> py_eqs xs ys' | [] \<Rightarrow> False)"
| "py_eq_items [] n = True"
| "py_eq_items ((k, v) # m) n =
     ((case map_of n k of Some w \<Rightarrow> py_eq v w | None \<Rightarrow> False) \<and> py_eq_items m n)"

text \<open>A field read with \<open>dict.get\<close>; the sentinel object is equal only to itself.\<close>

definition pv_get :: "(string \<times> pvalue) list \<Rightarrow> string \<Rightarrow> pvalue" where
  "pv_get flds f = (case map_of flds f of Some v \<Rightarrow> v | None \<Rightarrow> PVal JNull)"

fun pv_eq :: "pvalue \<Rightarrow> pvalue \<Rightarrow> bool" where
  "pv_eq DISPUTED y = (y = DISPUTED)"
| "pv_eq (PVal a) y = (case y of PVal b \<Rightarrow> py_eq a b | DISPUTED \<Rightarrow> False)"

section \<open>Hashes and changed fields\<close>

fun sort_keys :: "json \<Rightarrow> json" where
  "sort_keys (JList xs) = JList (map sort_keys xs)"
| "sort_keys (JDict m) = JDict (sort_key fst (map (\<lambda>(k, v). (k, sort_keys v)) m))"
| "sort_keys v = v"

definition fields_json :: "(string \<times> pvalue) list \<Rightarrow> (string \<times> json) list" where
  "fields_json flds = map (\<lambda>(k, v). (k, replace_disputed v)) flds"

definition content_json :: "projected_accident_record \<Rightarrow> (string \<times> json) list" where
  "content_json p =
     [(''fields'', JDict (fields_json (pr_fields p))),
      (''unresolved_conflict_fields'', JList (map JStr (pr_unresolved_conflict_fields p))),
      (''completeness_score'', JFloat (pr_completeness_score p))]"

definition projection_content_hash :: "(json \<Rightarrow> string) \<Rightarrow> projected_accident_record \<Rightarrow> string" where
  "projection_content_hash digest p = digest (sort_keys (JDict (content_json p)))"

definition changed_fields ::
  "projected_accident_record option \<Rightarrow> projected_accident_record \<Rightarrow> string list" where
  "changed_fields current_proj p =
     (case current_proj of
        None \<Rightarrow> sort (map fst (pr_fields p))
      | Some c \<Rightarrow>
          filter (\<lambda>f. \<not> pv_eq (pv_get (pr_fields c) f) (pv_get (pr_fields p) f))
            (sorted_set (map fst (pr_fields c) @ map fst (pr_fields p)))
          @ (if pr_unresolved_conflict_fields c \<noteq> pr_unresolved_conflict_fields p
             then [''unresolved_conflict_fields''] else [])
          @ (if pr_completeness_score c \<noteq> pr_completeness_score p
             then [''completeness_score''] else []))"

section \<open>Persisting a projection\<close>

definition snapshot_of :: "projected_accident_record \<Rightarrow> projection_snapshot" where
  "snapshot_of p =
     \<lparr>ps_fields = fields_json (pr_fields p),
      ps_unresolved_conflict_fields = pr_unresolved_conflict_fields p,
      ps_completeness_score = pr_completeness_score p, ps_version = pr_projection_version p\<rparr>"

definition persist_projection ::
  "(json \<Rightarrow> string) \<Rightarrow> time \<Rightarrow> projected_accident_record \<Rightarrow> projected_accident_record option
     \<Rightarrow> uuid option \<Rightarrow> uuid option \<Rightarrow> uuid option \<Rightarrow> bool \<Rightarrow> db
     \<Rightarrow> atlas_error + (projected_accident_record \<times> db)" where
  "persist_projection digest now p current_proj caused_by_conflict_id caused_by_ingestion_run_id
       caused_by_outbox_event_id force_history d =
     (let content_hash = projection_content_hash digest p
      in if current_proj \<noteq> None \<and> \<not> force_history
            \<and> content_hash = projection_content_hash digest (the current_proj)
         then Inr (domain_data (the current_proj), d)
         else
           rbind (projections_upsert p d) (\<lambda>d1.
             let (hid, d2) = uuid4 d1;
                 history =
                   \<lparr>ph_id = hid, ph_accident_event_id = pr_event_id p,
                    ph_projection_version = pr_projection_version p,
                    ph_caused_by_conflict_id = caused_by_conflict_id,
                    ph_caused_by_ingestion_run_id = caused_by_ingestion_run_id,
                    ph_caused_by_outbox_event_id = caused_by_outbox_event_id,
                    ph_projected_record_snapshot = snapshot_of p,
                    ph_projected_record_hash =
                      digest (sort_keys (JDict (content_json p
                        @ [(''version'', JInt (pr_projection_version p))]))),
                    ph_changed_fields = changed_fields current_proj p, ph_created_at = now\<rparr>
             in rbind (projection_history_add history d2) (\<lambda>d3. Inr (domain_data p, d3))))"

definition restore_projection_from_history ::
  "time \<Rightarrow> uuid \<Rightarrow> accident_projection_history \<Rightarrow> db
     \<Rightarrow> atlas_error + (projected_accident_record \<times> db)" where
  "restore_projection_from_history now event_id history d =
     (if ph_accident_event_id history \<noteq> event_id then Inl RuntimeError
      else
        let snapshot = ph_projected_record_snapshot history;
            projection =
              \<lparr>pr_event_id = event_id, pr_projection_version = ph_projection_version history,
               pr_fields = map (\<lambda>(k, v). (k, PVal v)) (ps_fields snapshot),
               pr_completeness_score = ps_completeness_score snapshot,
               pr_unresolved_conflict_fields = ps_unresolved_conflict_fields snapshot,
               pr_updated_at = now\<rparr>
        in rbind (projections_upsert projection d) (\<lambda>d1. Inr (projection, d1)))"

section \<open>The use case\<close>

definition tombstone ::
  "time \<Rightarrow> uuid \<Rightarrow> int \<Rightarrow> uuid option \<Rightarrow> projected_accident_record" where
  "tombstone now event_id version merged_into_event_id =
     \<lparr>pr_event_id = event_id, pr_projection_version = version,
      pr_fields =
        [(''is_merged'', PVal (JBool True)),
         (''merged_into_event_id'',
          PVal (JStr (case merged_into_event_id of Some t \<Rightarrow> str_uuid t | None \<Rightarrow> ''None'')))],
      pr_completeness_score = 0, pr_unresolved_conflict_fields = [], pr_updated_at = now\<rparr>"

definition next_version :: "projected_accident_record option \<Rightarrow> int" where
  "next_version current_proj =
     (case current_proj of Some p \<Rightarrow> pr_projection_version p + 1 | None \<Rightarrow> 1)"

text \<open>\<open>{source.id: source for source in sources}\<close> over the sources of the claims.\<close>

definition sources_of :: "claim list \<Rightarrow> db \<Rightarrow> (uuid \<rightharpoonup> source)" where
  "sources_of claims d =
     map_of (map (\<lambda>s. (src_id s, s)) (sources_get_by_ids (dict_fromkeys (map cl_source_id claims)) d))"

text \<open>The rebuild from claims and conflicts, and the branch for merged events.\<close>

definition reproject_fresh ::
  "(json \<Rightarrow> string) \<Rightarrow> time \<Rightarrow> uuid \<Rightarrow> uuid option \<Rightarrow> uuid option \<Rightarrow> uuid option \<Rightarrow> bool \<Rightarrow> db
     \<Rightarrow> atlas_error + (projected_accident_record \<times> db)" where
  "reproject_fresh digest now event_id caused_by_conflict_id caused_by_ingestion_run_id
       caused_by_outbox_event_id force_history d =
     (let event = events_get event_id d;
          current_proj = projections_get event_id d
      in if (case event of Some e \<Rightarrow> is_merged e | None \<Rightarrow> False) then
           persist_projection digest now
             (tombstone now event_id (next_version current_proj)
                (ev_merged_into_event_id (the event)))
             current_proj caused_by_conflict_id caused_by_ingestion_run_id
             caused_by_outbox_event_id force_history d
         else
           let claims = find_active_by_event event_id d;
               conflicts = conflicts_find_by_event event_id d
           in if event = None \<and> claims = [] then Inl (EventNotFoundError event_id)
              else
                persist_projection digest now
                  (build now event_id claims conflicts (sources_of claims d)
                     (next_version current_proj))
                  current_proj caused_by_conflict_id caused_by_ingestion_run_id
                  caused_by_outbox_event_id force_history d)"

text \<open>
  \<open>execute\<close>: the outbox idempotency path first.  A history row of a merged event does not
  suppress the tombstone, but its outbox id is not used a second time.
\<close>

definition reproject_event ::
  "(json \<Rightarrow> string) \<Rightarrow> time \<Rightarrow> uuid \<Rightarrow> uuid option \<Rightarrow> uuid option \<Rightarrow> uuid option \<Rightarrow> bool \<Rightarrow> db
     \<Rightarrow> atlas_error + (projected_accident_record \<times> db)" where
  "reproject_event digest now event_id caused_by_conflict_id caused_by_ingestion_run_id
       caused_by_outbox_event_id force_history d =
     (let event = events_get event_id d;
          current_proj = projections_get event_id d;
          merged = (case event of Some e \<Rightarrow> is_merged e | None \<Rightarrow> False);
          existing = (case caused_by_outbox_event_id of
                        Some o_id \<Rightarrow> find_by_outbox_event o_id d
                      | None \<Rightarrow> None)
      in case existing of
           Some h \<Rightarrow>
             if \<not> merged then
               (case current_proj of
                  None \<Rightarrow> restore_projection_from_history now event_id h d
                | Some p \<Rightarrow> Inr (domain_data p, d))
             else
               reproject_fresh digest now event_id caused_by_conflict_id
                 caused_by_ingestion_run_id None force_history d
         | None \<Rightarrow>
             reproject_fresh digest now event_id caused_by_conflict_id caused_by_ingestion_run_id
               caused_by_outbox_event_id force_history d)"

section \<open>Rebuilding every projection\<close>

text \<open>
  One pass of the inner loop: a failure is recorded and its transaction rolled back.  The result
  is \<open>(processed, skipped, failed_event_ids)\<close> and the store.
\<close>

fun rebuild_batch ::
  "(uuid \<Rightarrow> db \<Rightarrow> atlas_error + (projected_accident_record \<times> db)) \<Rightarrow> uuid list
     \<Rightarrow> nat \<times> nat \<times> uuid list \<Rightarrow> db \<Rightarrow> (nat \<times> nat \<times> uuid list) \<times> db" where
  "rebuild_batch rp [] acc d = (acc, d)"
| "rebuild_batch rp (i # ids) (processed, skipped, failed) d =
     (case rp i d of
        Inr (p, d') \<Rightarrow> rebuild_batch rp ids (processed + 1, skipped, failed) d'
      | Inl e \<Rightarrow> rebuild_batch rp ids (processed, skipped + 1, failed @ [i]) d)"

text \<open>The \<open>while True\<close> loop, with fuel.\<close>

fun rebuild_loop ::
  "nat \<Rightarrow> (uuid \<Rightarrow> db \<Rightarrow> atlas_error + (projected_accident_record \<times> db)) \<Rightarrow> nat \<Rightarrow> nat option
     \<Rightarrow> uuid option \<Rightarrow> nat \<times> nat \<times> uuid list \<Rightarrow> db \<Rightarrow> ((nat \<times> nat \<times> uuid list) \<times> db) option" where
  "rebuild_loop 0 rp batch_size max_events last_seen acc d = None"
| "rebuild_loop (Suc n) rp batch_size max_events last_seen (processed, skipped, failed) d =
     (let attempted = processed + skipped
      in if (case max_events of Some m \<Rightarrow> m \<le> attempted | None \<Rightarrow> False)
         then Some ((processed, skipped, failed), d)
         else
           let limit = (case max_events of Some m \<Rightarrow> min batch_size (m - attempted)
                                         | None \<Rightarrow> batch_size);
               event_ids = list_ids_after_keyset last_seen limit d
           in if event_ids = [] then Some ((processed, skipped, failed), d)
              else
                let (acc', d') = rebuild_batch rp event_ids (processed, skipped, failed) d
                in rebuild_loop n rp batch_size max_events (Some (last event_ids)) acc' d')"

definition rebuild_all ::
  "nat \<Rightarrow> (json \<Rightarrow> string) \<Rightarrow> time \<Rightarrow> int \<Rightarrow> nat option \<Rightarrow> db
     \<Rightarrow> atlas_error + ((nat \<times> nat \<times> uuid list) \<times> db) option" where
  "rebuild_all fuel digest now batch_size max_events d =
     (if batch_size < 1 then Inl DomainValidationError
      else Inr (rebuild_loop fuel
             (\<lambda>i. reproject_event digest now i None None None False)
             (nat batch_size) max_events None (0, 0, []) d))"

section \<open>Verifying a projection\<close>

text \<open>
  The status \<open>execute\<close> reports: \<open>None\<close> when there is no projection to check, otherwise whether the
  stored row is consistent.
\<close>

definition fields_eq :: "(string \<times> pvalue) list \<Rightarrow> (string \<times> pvalue) list \<Rightarrow> bool" where
  "fields_eq a b \<longleftrightarrow> length a = length b \<and>
     list_all (\<lambda>(k, v). case map_of b k of Some w \<Rightarrow> pv_eq v w | None \<Rightarrow> False) a"

definition verify_projection :: "time \<Rightarrow> uuid \<Rightarrow> db \<Rightarrow> bool option" where
  "verify_projection now event_id d =
     (let event = events_get event_id d;
          stored = projections_get event_id d;
          merged = (case event of Some e \<Rightarrow> is_merged e | None \<Rightarrow> False)
      in case stored of
           None \<Rightarrow> if merged then Some True else None
         | Some s \<Rightarrow>
             let claims = find_active_by_event event_id d;
                 recomputed =
                   (if merged
                    then tombstone now event_id (pr_projection_version s)
                           (ev_merged_into_event_id (the event))
                    else build now event_id claims (conflicts_find_by_event event_id d)
                           (sources_of claims d) (pr_projection_version s))
             in Some (fields_eq (pr_fields recomputed) (pr_fields s)
                  \<and> sort (pr_unresolved_conflict_fields recomputed)
                      = sort (pr_unresolved_conflict_fields s)
                  \<and> \<bar>fl (pr_completeness_score recomputed - pr_completeness_score s)\<bar>
                      < fl (1 / 10 ^ 9)))"

section \<open>Lemmas on contents\<close>

lemma content_json_domain_data [simp]: "content_json (domain_data p) = content_json p"
proof -
  have "replace_disputed (PVal (replace_disputed v)) = replace_disputed v" for v by simp
  then show ?thesis
    by (simp add: content_json_def domain_data_def fields_json_def comp_def case_prod_beta)
qed

lemma domain_data_simps [simp]:
  "pr_event_id (domain_data p) = pr_event_id p"
  "pr_projection_version (domain_data p) = pr_projection_version p"
  "snapshot_of (domain_data p) = snapshot_of p"
  "fst ` set (pr_fields (domain_data p)) = fst ` set (pr_fields p)"
  by (force simp: domain_data_def snapshot_of_def fields_json_def comp_def case_prod_beta image_iff)+

lemma content_json_build:
  "content_json (build now e cl co src v) = content_json (build now' e cl co src v')"
  by (simp add: content_json_def build_def Let_def split: prod.split)

lemma content_json_tombstone:
  "content_json (tombstone now e v t) = content_json (tombstone now' e v' t)"
  by (simp add: content_json_def tombstone_def)

definition canonical_content :: "projected_accident_record \<Rightarrow> json" where
  "canonical_content p = sort_keys (JDict (content_json p))"

lemma projection_content_hash_domain_data [simp]:
  "projection_content_hash digest (domain_data p) = projection_content_hash digest p"
  by (simp add: projection_content_hash_def)

lemma projection_content_hash_cong:
  "content_json p = content_json q \<Longrightarrow>
     projection_content_hash digest p = projection_content_hash digest q"
  by (simp add: projection_content_hash_def)

text \<open>What a reprojection computes for an event: the tombstone or the build.\<close>

definition expected_projection :: "time \<Rightarrow> uuid \<Rightarrow> int \<Rightarrow> db \<Rightarrow> projected_accident_record" where
  "expected_projection now e v d =
     (case events_get e d of
        Some ev \<Rightarrow>
          if is_merged ev then tombstone now e v (ev_merged_into_event_id ev)
          else build now e (find_active_by_event e d) (conflicts_find_by_event e d)
                 (sources_of (find_active_by_event e d) d) v
      | None \<Rightarrow> build now e (find_active_by_event e d) (conflicts_find_by_event e d)
                  (sources_of (find_active_by_event e d) d) v)"

lemma expected_projection_simps [simp]:
  "pr_event_id (expected_projection now e v d) = e"
  "pr_projection_version (expected_projection now e v d) = v"
  by (simp_all add: expected_projection_def tombstone_def build_simps split: option.split)

lemma content_json_expected:
  "content_json (expected_projection now e v d) = content_json (expected_projection now' e v' d)"
  by (simp add: expected_projection_def content_json_build [of now e _ _ _ v now' v']
      content_json_tombstone [of now e v _ now' v'] split: option.split)

lemma reproject_fresh_eq:
  "reproject_fresh digest now e c r ob force d =
     (if events_get e d = None \<and> find_active_by_event e d = [] then Inl (EventNotFoundError e)
      else persist_projection digest now
             (expected_projection now e (next_version (projections_get e d)) d)
             (projections_get e d) c r ob force d)"
  by (simp add: reproject_fresh_def expected_projection_def Let_def split: option.split)

lemma reproject_event_no_outbox:
  "reproject_event digest now e c r None force d = reproject_fresh digest now e c r None force d"
  by (simp add: reproject_event_def Let_def)

lemma reproject_event_first:
  assumes "\<And>i. ob = Some i \<Longrightarrow> find_by_outbox_event i d = None"
  shows "reproject_event digest now e c r ob force d = reproject_fresh digest now e c r ob force d"
  using assms by (cases ob) (simp_all add: reproject_event_def Let_def)

section \<open>Lemmas on persisting\<close>

lemma projections_upsert_InrD:
  assumes "projections_upsert p d = Inr d'"
  shows "projections_get (pr_event_id p) d' = Some (domain_data p)
    \<and> d' = d\<lparr>db_projections := db_projections d'\<rparr> \<and> events_get (pr_event_id p) d \<noteq> None
    \<and> (\<forall>e. e \<noteq> pr_event_id p \<longrightarrow> projections_get e d' = projections_get e d)"
proof (cases "projections_get (pr_event_id p) d")
  case None
  then have d': "d' = d\<lparr>db_projections := db_projections d @ [domain_data p]\<rparr>"
    and ev: "events_get (pr_event_id p) d \<noteq> None"
    using assms by (auto simp: projections_upsert_def split: if_splits)
  then show ?thesis
    using None by (auto simp: projections_get_def row_get_append split: option.split)
next
  case (Some q)
  then have d': "d' = d\<lparr>db_projections :=
      row_update (\<lambda>r. pr_event_id r = pr_event_id p) (\<lambda>_. domain_data p) (db_projections d)\<rparr>"
    and ev: "events_get (pr_event_id p) d \<noteq> None"
    using assms by (auto simp: projections_upsert_def split: if_splits)
  have "row_get pr_event_id e
      (row_update (\<lambda>r. pr_event_id r = pr_event_id p) (\<lambda>_. domain_data p) rows) = row_get pr_event_id e rows"
    if "e \<noteq> pr_event_id p" for e rows
    using that by (induction rows) auto
  then show ?thesis
    using Some ev by (simp add: d' projections_get_def row_get_replace [of pr_event_id])
qed

text \<open>A successful write: either the content is unchanged, or one version and one history row.\<close>

lemma persist_projection_InrD [consumes 2, case_names unchanged written]:
  assumes "persist_projection digest now p cur c r ob force d = Inr (q, d')"
    and "cur = projections_get (pr_event_id p) d"
  obtains
    (unchanged) s where "cur = Some s" "\<not> force" "d' = d" "q = domain_data s"
      "projection_content_hash digest p = projection_content_hash digest s"
  | (written) h where
      "projections_get (pr_event_id p) d' = Some (domain_data p)" "q = domain_data p"
      "db_projection_history d' = db_projection_history d @ [h]"
      "\<not> list_ex (history_clash h) (db_projection_history d)"
      "ph_accident_event_id h = pr_event_id p"
      "ph_projection_version h = pr_projection_version p"
      "ph_caused_by_outbox_event_id h = ob" "ph_caused_by_conflict_id h = c"
      "ph_projected_record_snapshot h = snapshot_of p"
      "d' = d\<lparr>db_projections := db_projections d', db_projection_history := db_projection_history d',
              db_next := Suc (db_next d)\<rparr>"
      "\<forall>e. e \<noteq> pr_event_id p \<longrightarrow> projections_get e d' = projections_get e d"
proof (cases "cur \<noteq> None \<and> \<not> force
    \<and> projection_content_hash digest p = projection_content_hash digest (the cur)")
  case True
  then show ?thesis using assms(1) unchanged by (auto simp: persist_projection_def Let_def)
next
  case False
  then obtain d1 where u: "projections_upsert p d = Inr d1"
    using assms(1) by (cases "projections_upsert p d") (auto simp: persist_projection_def Let_def)
  let ?h = "\<lparr>ph_id = fst (uuid4 d1), ph_accident_event_id = pr_event_id p,
      ph_projection_version = pr_projection_version p,
      ph_caused_by_conflict_id = c, ph_caused_by_ingestion_run_id = r,
      ph_caused_by_outbox_event_id = ob,
      ph_projected_record_snapshot = snapshot_of p,
      ph_projected_record_hash =
        digest (sort_keys (JDict (content_json p @ [(''version'', JInt (pr_projection_version p))]))),
      ph_changed_fields = changed_fields cur p, ph_created_at = now\<rparr>"
  have a: "projection_history_add ?h (snd (uuid4 d1)) = Inr d'" and q: "q = domain_data p"
    using assms(1) False u by (auto simp: persist_projection_def Let_def case_prod_beta split: if_splits)
  note U = projections_upsert_InrD [OF u]
  have no: "\<not> list_ex (history_clash ?h) (db_projection_history d1)"
    and d': "d' = (snd (uuid4 d1))\<lparr>db_projection_history := db_projection_history d1 @ [?h]\<rparr>"
    using a by (auto simp: projection_history_add_def split: if_splits)
  have fr: "db_projection_history d1 = db_projection_history d" "db_next d1 = db_next d"
    using U by (metis (no_types, lifting) db.select_convs db.surjective db.update_convs)+
  show ?thesis
  proof (rule written [of ?h])
    show "projections_get (pr_event_id p) d' = Some (domain_data p)"
      using U by (simp add: d' projections_get_def)
    show "db_projection_history d' = db_projection_history d @ [?h]" by (simp add: d' fr)
    show "\<not> list_ex (history_clash ?h) (db_projection_history d)" using no by (simp add: fr)
    show "d' = d\<lparr>db_projections := db_projections d', db_projection_history := db_projection_history d',
              db_next := Suc (db_next d)\<rparr>"
    proof -
      obtain ps where d1: "d1 = d\<lparr>db_projections := ps\<rparr>" using U by blast
      show ?thesis by (simp add: d' d1 uuid4_def)
    qed
    show "\<forall>e. e \<noteq> pr_event_id p \<longrightarrow> projections_get e d' = projections_get e d"
      using U by (simp add: d' projections_get_def)
  qed (simp_all add: q)
qed

text \<open>Reprojection touches the read model and its history only.\<close>

definition read_model_only :: "db \<Rightarrow> db \<Rightarrow> bool" where
  "read_model_only d d' \<longleftrightarrow>
     d' = d\<lparr>db_projections := db_projections d', db_projection_history := db_projection_history d',
            db_next := db_next d'\<rparr> \<and> db_next d \<le> db_next d'"

lemma read_model_onlyD:
  assumes "read_model_only d d'"
  shows "db_claims d' = db_claims d" "db_conflicts d' = db_conflicts d" "db_events d' = db_events d"
    "db_conflict_claims d' = db_conflict_claims d" "db_activity d' = db_activity d"
    "db_claim_history d' = db_claim_history d" "db_sources d' = db_sources d"
    "db_outbox d' = db_outbox d" "db_identity d' = db_identity d" "db_reviews d' = db_reviews d"
    "db_snapshots d' = db_snapshots d" "db_runs d' = db_runs d" "db_next d \<le> db_next d'"
proof -
  obtain p h n where "d' = d\<lparr>db_projections := p, db_projection_history := h, db_next := n\<rparr>"
    "db_next d \<le> db_next d'"
    using assms unfolding read_model_only_def by blast
  then show "db_claims d' = db_claims d" "db_conflicts d' = db_conflicts d" "db_events d' = db_events d"
    "db_conflict_claims d' = db_conflict_claims d" "db_activity d' = db_activity d"
    "db_claim_history d' = db_claim_history d" "db_sources d' = db_sources d"
    "db_outbox d' = db_outbox d" "db_identity d' = db_identity d" "db_reviews d' = db_reviews d"
    "db_snapshots d' = db_snapshots d" "db_runs d' = db_runs d" "db_next d \<le> db_next d'"
    by simp_all
qed

lemma read_model_only_refl [simp]: "read_model_only d d"
  by (simp add: read_model_only_def)

lemma persist_projection_frame:
  assumes "persist_projection digest now p (projections_get (pr_event_id p) d) c r ob force d = Inr (q, d')"
  shows "read_model_only d d'"
proof -
  from assms refl show ?thesis
  proof (cases rule: persist_projection_InrD)
    case (written h)
    note eq = written(10)
    have "db_next d' = Suc (db_next d)" by (subst eq) simp
    then show ?thesis using eq by (simp add: read_model_only_def)
  qed simp
qed

lemma projections_upsert_frame: "projections_upsert p d = Inr d' \<Longrightarrow> read_model_only d d'"
  by (auto simp: projections_upsert_def read_model_only_def split: if_splits)

lemma reproject_event_frame:
  assumes "reproject_event digest now e c r ob force d = Inr (q, d')"
  shows "read_model_only d d'"
proof -
  have fresh: "reproject_fresh digest now e c r ob' force d = Inr (q, d') \<Longrightarrow> ?thesis" for ob'
    using persist_projection_frame
      [of digest now "expected_projection now e (next_version (projections_get e d)) d" d c r ob' force q d']
    by (simp add: reproject_fresh_eq split: if_splits)
  have restore: "restore_projection_from_history now e h d = Inr (q, d') \<Longrightarrow> ?thesis" for h
    by (auto simp: restore_projection_from_history_def Let_def dest: projections_upsert_frame split: if_splits)
  show ?thesis
    using assms fresh restore
    by (auto simp: reproject_event_def Let_def split: option.splits if_splits)
qed

lemma store_inv_persist [inv_intros]:
  "persist_projection digest now p cur c r ob force d = Inr (q, d') \<Longrightarrow> store_inv d \<Longrightarrow> store_inv d'"
  by (auto simp: persist_projection_def Let_def case_prod_beta split: if_splits
      intro: store_inv_projection_history_add store_inv_uuid4 store_inv_projections_upsert)

lemma store_inv_reproject_event [inv_intros]:
  assumes "reproject_event digest now e c r ob force d = Inr (q, d')" and "store_inv d"
  shows "store_inv d'"
proof -
  have fresh: "reproject_fresh digest now e c r ob' force d = Inr (q, d') \<Longrightarrow> store_inv d'" for ob'
    using assms(2) store_inv_persist by (fastforce simp: reproject_fresh_eq split: if_splits)
  have restore: "restore_projection_from_history now e h d = Inr (q, d') \<Longrightarrow> store_inv d'" for h
    using assms(2) store_inv_projections_upsert
    by (auto simp: restore_projection_from_history_def Let_def split: if_splits)
  show ?thesis
    using assms fresh restore
    by (auto simp: reproject_event_def Let_def split: option.splits if_splits)
qed

lemma expected_projection_frame:
  assumes "read_model_only d d'"
  shows "expected_projection now e v d' = expected_projection now e v d"
proof -
  note fr = read_model_onlyD [OF assms]
  have "find_active_by_event e d' = find_active_by_event e d" "events_get e d' = events_get e d"
    by (simp_all add: find_active_by_event_def events_get_def fr)
  moreover have "with_links d' = with_links d"
    by (rule ext) (simp add: with_links_def get_claim_ids_for_conflict_def fr)
  then have "conflicts_find_by_event e d' = conflicts_find_by_event e d"
    by (simp add: conflicts_find_by_event_def fr)
  moreover have "(\<lambda>i. sources_get i d') = (\<lambda>i. sources_get i d)"
    by (rule ext) (simp add: sources_get_def fr)
  then have "sources_of cs d' = sources_of cs d" for cs
    by (simp add: sources_of_def sources_get_by_ids_def)
  ultimately show ?thesis by (simp add: expected_projection_def split: option.split)
qed

text \<open>A store with one event and no evidence, and its first projection, for the examples.\<close>

definition sample_event :: "uuid option \<Rightarrow> accident_event" where
  "sample_event m = \<lparr>ev_id = 1, ev_created_at = 0, ev_merged_into_event_id = m\<rparr>"

definition event_db :: "uuid option \<Rightarrow> db" where
  "event_db m = empty_db\<lparr>db_events := [sample_event m]\<rparr>"

lemma build_empty:
  "build now e [] [] src v =
     \<lparr>pr_event_id = e, pr_projection_version = v, pr_fields = [], pr_completeness_score = 0,
      pr_unresolved_conflict_fields = [], pr_updated_at = now\<rparr>"
  by (simp add: build_def sorted_set_def completeness_score_def DEFAULT_REQUIRED_FIELDS_def
      field_present_def fl_def)

lemmas event_db_eval = event_db_def sample_event_def empty_db_def events_get_def projections_get_def
  is_merged_def find_active_by_event_def conflicts_find_by_event_def sources_of_def
  sources_get_by_ids_def find_by_outbox_event_def expected_projection_def build_empty
  py_sorted_rev_def tombstone_def next_version_def

lemma reproject_event_db:
  "\<exists>q d'. reproject_event digest now 1 c r None False (event_db None) = Inr (q, d')"
  by (simp add: reproject_event_no_outbox reproject_fresh_eq persist_projection_def
      projections_upsert_def projection_history_add_def uuid4_def event_db_eval Let_def)

section \<open>Correctness of reprojection\<close>

text \<open>C10: A successful reprojection, whatever caused it, leaves a read model that is up to date: the stored row
  has the same canonical content as the record computed from the event's active claims and conflicts (or,
  for a merged event, as the tombstone).  Either the content was already current, no history was
  forced and nothing changed, or the version is the next one and exactly one history row with that version,
  snapshot and cause was appended.  The run is not the redelivery of an outbox event that has its history
  row already, which is answered without a rebuild, and the hash is assumed not to collide on the
  two contents it compares.\<close>

theorem reproject_up_to_date:
  assumes "reproject_event digest now e c r ob force d = Inr (q, d')"
    and "\<And>i. ob = Some i \<Longrightarrow> find_by_outbox_event i d = None"
    and "\<And>s. projections_get e d = Some s \<Longrightarrow>
      inj_on digest {canonical_content s, canonical_content (expected_projection now e 1 d)}"
  shows "\<exists>s. projections_get e d' = Some s
    \<and> canonical_content s = canonical_content (expected_projection now e 1 d')
    \<and> (\<not> force \<and> d' = d
       \<or> pr_projection_version s = next_version (projections_get e d)
         \<and> (\<exists>h. db_projection_history d' = db_projection_history d @ [h]
              \<and> ph_accident_event_id h = e \<and> ph_projection_version h = pr_projection_version s
              \<and> ph_caused_by_outbox_event_id h = ob \<and> ph_caused_by_conflict_id h = c
              \<and> ph_projected_record_snapshot h = snapshot_of s))"
proof -
  define v where "v = next_version (projections_get e d)"
  let ?p = "expected_projection now e v d"
  have fr: "read_model_only d d'" using reproject_event_frame [OF assms(1)] .
  have ex: "canonical_content (expected_projection now e 1 d') = canonical_content ?p"
    and ex1: "canonical_content (expected_projection now e 1 d) = canonical_content ?p"
    using expected_projection_frame [OF fr, of now e 1] content_json_expected [of now e 1 d now v]
    by (simp_all add: canonical_content_def)
  have p: "persist_projection digest now ?p (projections_get e d) c r ob force d = Inr (q, d')"
    using assms(1) by (simp add: reproject_event_first [OF assms(2)] reproject_fresh_eq v_def split: if_splits)
  have "projections_get e d = projections_get (pr_event_id ?p) d" by simp
  with p show ?thesis
  proof (cases rule: persist_projection_InrD)
    case (unchanged s)
    then have "digest (canonical_content s) = digest (canonical_content ?p)"
      by (simp add: projection_content_hash_def canonical_content_def)
    then have "canonical_content s = canonical_content ?p"
      using assms(3) [OF unchanged(1)] ex1 by (auto dest: inj_onD)
    then show ?thesis using unchanged ex by simp
  next
    case (written h)
    show ?thesis
      by (rule exI [of _ "domain_data ?p"])
        (use written ex v_def in \<open>simp add: canonical_content_def\<close>)
  qed
qed

theorem reproject_up_to_date_witness:
  "\<exists>q d' s. reproject_event (\<lambda>_. []) 0 1 None None None False (event_db None) = Inr (q, d')
     \<and> projections_get 1 d' = Some s
     \<and> canonical_content s = canonical_content (expected_projection 0 1 1 d')"
proof -
  obtain q d' where r: "reproject_event (\<lambda>_. []) 0 1 None None None False (event_db None) = Inr (q, d')"
    using reproject_event_db by blast
  have "projections_get 1 (event_db None) = None" by (simp add: event_db_eval)
  then show ?thesis using reproject_up_to_date [OF r] r by auto
qed

text \<open>Reprojection is idempotent: reprojecting an event again, without new evidence, returns the
  stored record and changes nothing, neither its version nor its history.\<close>

theorem reproject_idempotent:
  assumes "reproject_event digest now e c r None False d = Inr (q, d')"
  shows "\<exists>s. projections_get e d' = Some s
    \<and> reproject_event digest now' e c' r' None False d' = Inr (domain_data s, d')"
proof -
  define v where "v = next_version (projections_get e d)"
  let ?p = "expected_projection now e v d"
  have fr: "read_model_only d d'" using reproject_event_frame [OF assms] .
  have found: "events_get e d \<noteq> None \<or> find_active_by_event e d \<noteq> []"
    and p: "persist_projection digest now ?p (projections_get e d) c r None False d = Inr (q, d')"
    using assms by (auto simp: reproject_event_no_outbox reproject_fresh_eq v_def split: if_splits)
  have "\<exists>s. projections_get e d' = Some s \<and> projection_content_hash digest s = projection_content_hash digest ?p"
    by (rule persist_projection_InrD [OF p]) auto
  then obtain s where s: "projections_get e d' = Some s"
    and h: "projection_content_hash digest s = projection_content_hash digest ?p" by blast
  have "projection_content_hash digest (expected_projection now' e w d') = projection_content_hash digest s" for w
    using h projection_content_hash_cong [OF content_json_expected [of now e v d now' w], of digest]
    by (simp add: expected_projection_frame [OF fr])
  moreover have "events_get e d' \<noteq> None \<or> find_active_by_event e d' \<noteq> []"
    using found read_model_onlyD [OF fr] by (simp add: events_get_def find_active_by_event_def)
  ultimately show ?thesis
    using s by (auto simp: reproject_event_no_outbox reproject_fresh_eq persist_projection_def)
qed

theorem reproject_idempotent_witness:
  "\<exists>q d' s. reproject_event (\<lambda>_. []) 0 1 None None None False (event_db None) = Inr (q, d')
     \<and> projections_get 1 d' = Some s
     \<and> reproject_event (\<lambda>_. []) 7 1 None None None False d' = Inr (domain_data s, d')"
proof -
  obtain q d' where r: "reproject_event (\<lambda>_. []) 0 1 None None None False (event_db None) = Inr (q, d')"
    using reproject_event_db by blast
  then show ?thesis using reproject_idempotent [OF r, of 7 None None] by blast
qed

text \<open>C11: An outbox event is projected once: when a delivery has recorded its history row, every later delivery
  succeeds and writes no history row, however claims, conflicts and other rows changed meanwhile (the history
  is only appended to, and the event is not merged).  A present projection is returned and the
  store left as it is; a missing one is restored with the content and version of the first
  delivery.\<close>

theorem reproject_outbox_at_most_once:
  assumes "reproject_event digest now e c r (Some i) force d = Inr (q, d1)" and "find_by_outbox_event i d = None"
    and "db_projection_history d1 \<noteq> db_projection_history d"
    and "db_projection_history d2 = db_projection_history d1 @ hs"
    and "events_get e d2 = Some ev" and "\<not> is_merged ev"
  shows "\<exists>q' d3. reproject_event digest now' e c' r' (Some i) force' d2 = Inr (q', d3)
    \<and> db_projection_history d3 = db_projection_history d2
    \<and> (case projections_get e d2 of
         Some s \<Rightarrow> q' = domain_data s \<and> d3 = d2
       | None \<Rightarrow> (\<exists>s. projections_get e d3 = Some s \<and> canonical_content s = canonical_content q
                   \<and> pr_projection_version s = pr_projection_version q))"
proof -
  let ?p = "expected_projection now e (next_version (projections_get e d)) d"
  have "reproject_fresh digest now e c r (Some i) force d = Inr (q, d1)"
    using assms(1) reproject_event_first [of "Some i" d] assms(2) by simp
  then have "persist_projection digest now ?p (projections_get e d) c r (Some i) force d = Inr (q, d1)"
    by (simp add: reproject_fresh_eq split: if_splits)
  then obtain h where h: "db_projection_history d1 = db_projection_history d @ [h]" "ph_accident_event_id h = e"
    "ph_caused_by_outbox_event_id h = Some i" "ph_projection_version h = pr_projection_version ?p"
    "ph_projected_record_snapshot h = snapshot_of ?p" and q: "q = domain_data ?p"
    by (cases rule: persist_projection_InrD) (use assms(3) in auto)
  have "find_by_outbox_event i d2 = Some h"
    using assms(2) h(3) unfolding find_by_outbox_event_def assms(4) h(1)
    by (simp add: find_append_single)
  then have run: "reproject_event digest now' e c' r' (Some i) force' d2 =
      (case projections_get e d2 of None \<Rightarrow> restore_projection_from_history now' e h d2 | Some s \<Rightarrow> Inr (domain_data s, d2))"
    using assms(5,6) by (simp add: reproject_event_def)
  show ?thesis
  proof (cases "projections_get e d2")
    case (Some s)
    then show ?thesis by (simp add: run)
  next
    case None
    let ?r = "\<lparr>pr_event_id = e, pr_projection_version = pr_projection_version ?p,
        pr_fields = map (\<lambda>(k, v). (k, PVal v)) (fields_json (pr_fields ?p)),
        pr_completeness_score = pr_completeness_score ?p,
        pr_unresolved_conflict_fields = pr_unresolved_conflict_fields ?p, pr_updated_at = now'\<rparr>"
    have u: "projections_upsert ?r d2 = Inr (d2\<lparr>db_projections := db_projections d2 @ [domain_data ?r]\<rparr>)"
      using None assms(5) by (simp add: projections_upsert_def)
    have "restore_projection_from_history now' e h d2 =
        Inr (?r, d2\<lparr>db_projections := db_projections d2 @ [domain_data ?r]\<rparr>)"
      using None assms(5) by (simp add: restore_projection_from_history_def h snapshot_of_def projections_upsert_def Let_def)
    moreover have "projections_get e (d2\<lparr>db_projections := db_projections d2 @ [domain_data ?r]\<rparr>) = Some (domain_data ?r)"
      using conjunct1 [OF projections_upsert_InrD [OF u]] by simp
    moreover have "canonical_content (domain_data ?r) = canonical_content q"
      unfolding q canonical_content_def content_json_def domain_data_def
      by (simp add: fields_json_def comp_def case_prod_beta)
    moreover have "pr_projection_version (domain_data ?r) = pr_projection_version q"
      by (simp add: q domain_data_def)
    ultimately show ?thesis using None by (simp add: run)
  qed
qed

definition sample_history :: "uuid option \<Rightarrow> accident_projection_history" where
  "sample_history ob =
     \<lparr>ph_id = 50, ph_accident_event_id = 1, ph_projection_version = 1, ph_caused_by_conflict_id = None,
      ph_caused_by_ingestion_run_id = None, ph_caused_by_outbox_event_id = ob,
      ph_projected_record_snapshot =
        \<lparr>ps_fields = [(''operator'', JStr ''acme'')], ps_unresolved_conflict_fields = [],
         ps_completeness_score = 0, ps_version = 1\<rparr>,
      ph_projected_record_hash = [], ph_changed_fields = [], ph_created_at = 0\<rparr>"

theorem reproject_outbox_at_most_once_witness:
  "\<exists>q d1 q' d3. reproject_event (\<lambda>_. []) 0 1 None None (Some 60) False (event_db None) = Inr (q, d1)
     \<and> reproject_event (\<lambda>_. []) 5 1 None None (Some 60) True (d1\<lparr>db_projections := []\<rparr>) = Inr (q', d3)
     \<and> db_projection_history d3 = db_projection_history d1
     \<and> map_option canonical_content (projections_get 1 d3) = map_option canonical_content (projections_get 1 d1)"
proof -
  obtain q d1 where r: "reproject_event (\<lambda>_. []) 0 1 None None (Some 60) False (event_db None) = Inr (q, d1)"
    and d1: "length (db_projection_history d1) = 1" "projections_get 1 d1 = Some q" "db_events d1 = [sample_event None]"
    by (simp add: reproject_event_def reproject_fresh_eq persist_projection_def projections_upsert_def
        projection_history_add_def uuid4_def event_db_eval domain_data_def Let_def)
  let ?d2 = "d1\<lparr>db_projections := []\<rparr>"
  have hyps: "find_by_outbox_event 60 (event_db None) = None"
    "db_projection_history d1 \<noteq> db_projection_history (event_db None)"
    "db_projection_history ?d2 = db_projection_history d1 @ []"
    "events_get 1 ?d2 = Some (sample_event None)" "\<not> is_merged (sample_event None)"
    using d1 by (auto simp: event_db_eval)
  have none: "projections_get 1 ?d2 = None" by (simp add: projections_get_def)
  obtain q' d3 s where d3: "reproject_event (\<lambda>_. []) 5 1 None None (Some 60) True ?d2 = Inr (q', d3)"
    "db_projection_history d3 = db_projection_history d1" "projections_get 1 d3 = Some s"
    "canonical_content s = canonical_content q"
    using reproject_outbox_at_most_once [OF r hyps, of 5 None None True] unfolding none by auto
  then show ?thesis using r d1 d3 by auto
qed

text \<open>C15: The tombstone of an absorbed event cannot be written once its projection row was removed:
  the version restarts at 1, and the history row of the event's first projection already holds
  that version, so the reprojection of a merged event without a projection row raises an
  integrity error.\<close>

theorem reproject_merged_version_clash:
  assumes "events_get e d = Some ev" and "is_merged ev"
    and "projections_get e d = None"
    and "h \<in> set (db_projection_history d)" and "ph_accident_event_id h = e"
    and "ph_projection_version h = 1"
  shows "reproject_event digest now e c r ob force d = Inl IntegrityError"
proof -
  have "reproject_fresh digest now e c r ob' force d = Inl IntegrityError" for ob'
  proof -
    let ?p = "tombstone now e 1 (ev_merged_into_event_id ev)"
    have p: "pr_event_id ?p = e" "pr_projection_version ?p = 1" by (simp_all add: tombstone_def)
    have clash: "list_ex (history_clash k) (db_projection_history d)"
      if "ph_accident_event_id k = e" "ph_projection_version k = 1" for k
      using assms(4-6) that by (auto simp: list_ex_iff history_clash_def)
    have "projections_upsert ?p d = Inr (d\<lparr>db_projections := db_projections d @ [domain_data ?p]\<rparr>)"
      using assms(1,3) p by (simp add: projections_upsert_def)
    then have "persist_projection digest now ?p None c r ob' force d = Inl IntegrityError"
      using p clash by (simp add: persist_projection_def projection_history_add_def uuid4_def Let_def)
    then show ?thesis
      using assms(1-3) by (simp add: reproject_fresh_eq expected_projection_def next_version_def)
  qed
  then show ?thesis
    using assms(1-3) by (simp add: reproject_event_def Let_def split: option.split)
qed

theorem reproject_merged_version_clash_witness:
  "reproject_event (\<lambda>_. []) 0 1 None None None False
     ((event_db (Some 2))\<lparr>db_projection_history := [sample_history None]\<rparr>) = Inl IntegrityError"
  by (rule reproject_merged_version_clash [of _ _ "sample_event (Some 2)" "sample_history None"])
    (simp_all add: event_db_eval sample_history_def)

text \<open>C16: The consistency check compares the dispute sentinel of the recomputed record with the
  marker string of the stored row, so it reports every projection with an open conflict as
  inconsistent, even directly after a reprojection.\<close>

theorem verify_disputed_inconsistent:
  assumes "events_get e d = Some ev" and "\<not> is_merged ev"
    and "projections_get e d = Some s" and "\<forall>(k, v) \<in> set (pr_fields s). v \<noteq> DISPUTED"
    and "conflict \<in> set (db_conflicts d)" and "cc_event_id conflict = e" and "cc_status conflict = OPEN"
  shows "verify_projection now e d = Some False"
proof -
  let ?co = "conflicts_find_by_event e d"
  let ?b = "build now e (find_active_by_event e d) ?co (sources_of (find_active_by_event e d) d)
    (pr_projection_version s)"
  let ?f = "cc_field_name conflict"
  have "with_links d conflict \<in> set ?co"
    using assms(5,6) by (simp add: conflicts_find_by_event_def)
  then have "?f \<in> open_field_names e ?co"
    unfolding open_field_names_def using assms(6,7)
    by (intro CollectI exI [of _ "with_links d conflict"]) simp
  then have "map_of (pr_fields ?b) ?f = Some DISPUTED"
    by (simp add: build_fields projected_value_eq)
  then have m: "(?f, DISPUTED) \<in> set (pr_fields ?b)" by (rule map_of_SomeD)
  have "\<not> (case map_of (pr_fields s) ?f of Some w \<Rightarrow> pv_eq DISPUTED w | None \<Rightarrow> False)"
    using assms(4) by (auto split: option.split dest: map_of_SomeD)
  with m have "\<not> fields_eq (pr_fields ?b) (pr_fields s)"
    by (auto simp: fields_eq_def list_all_iff)
  then show ?thesis using assms(1-3) by (simp add: verify_projection_def Let_def)
qed

definition disputed_row :: projected_accident_record where
  "disputed_row = \<lparr>pr_event_id = 1, pr_projection_version = 1,
     pr_fields = [(''operator'', PVal (JStr DISPUTED_MARKER))], pr_completeness_score = 0,
     pr_unresolved_conflict_fields = [''operator''], pr_updated_at = 0\<rparr>"

theorem verify_disputed_inconsistent_witness:
  "verify_projection 0 1 ((event_db None)\<lparr>
      db_conflicts := [new_conflict 0 9 1 ''operator'' []], db_projections := [disputed_row]\<rparr>)
   = Some False"
  by (rule verify_disputed_inconsistent [of _ _ "sample_event None" disputed_row
        "new_conflict 0 9 1 ''operator'' []"])
    (simp_all add: event_db_eval new_conflict_def disputed_row_def)

text \<open>
  Reprojection of an existing event succeeds as long as the history is not ahead of the read
  model.
\<close>

definition history_behind :: "uuid \<Rightarrow> db \<Rightarrow> bool" where
  "history_behind e d \<longleftrightarrow>
     (\<forall>h \<in> set (db_projection_history d). ph_accident_event_id h = e \<longrightarrow>
        ph_projection_version h < next_version (projections_get e d))"

lemma reproject_succeeds:
  assumes "events_get e d \<noteq> None" and "history_behind e d"
  shows "\<exists>q d'. reproject_event digest now e c r None force d = Inr (q, d')"
proof -
  let ?p = "expected_projection now e (next_version (projections_get e d)) d"
  have "\<exists>d1. projections_upsert ?p d = Inr d1" using assms(1) by (simp add: projections_upsert_def)
  then obtain d1 where d1: "projections_upsert ?p d = Inr d1" by blast
  have h: "db_projection_history d1 = db_projection_history d"
    using d1 by (auto simp: projections_upsert_def split: if_splits)
  have "\<not> list_ex (history_clash k) (db_projection_history d)"
    if "ph_accident_event_id k = e" "ph_projection_version k = next_version (projections_get e d)"
      "ph_caused_by_outbox_event_id k = None" for k
    using assms(2) that by (auto simp: history_behind_def list_ex_iff history_clash_def)
  then show ?thesis
    using d1 h assms(1)
    by (simp add: reproject_event_no_outbox reproject_fresh_eq persist_projection_def
        projection_history_add_def Let_def case_prod_beta)
qed

lemma reproject_history_behind:
  assumes "reproject_event digest now e c r None force d = Inr (q, d')" and "history_behind e d"
  shows "history_behind e d'"
proof -
  let ?p = "expected_projection now e (next_version (projections_get e d)) d"
  have p: "persist_projection digest now ?p (projections_get (pr_event_id ?p) d) c r None force d = Inr (q, d')"
    using assms by (auto simp: reproject_event_no_outbox reproject_fresh_eq split: if_splits)
  from p refl show ?thesis
  proof (cases rule: persist_projection_InrD)
    case (written h)
    then show ?thesis using assms(2) by (auto simp: history_behind_def next_version_def)
  qed (use assms(2) in simp)
qed

section \<open>Rebuilding reaches every event\<close>

definition projection_current :: "(json \<Rightarrow> string) \<Rightarrow> db \<Rightarrow> uuid \<Rightarrow> bool" where
  "projection_current digest d i \<longleftrightarrow>
     (\<exists>s. projections_get i d = Some s \<and>
        projection_content_hash digest s = projection_content_hash digest (expected_projection 0 i 1 d))"

lemma reproject_other_event:
  assumes "reproject_event digest now e c r None False d = Inr (q, d')" and "i \<noteq> e"
  shows "projections_get i d' = projections_get i d"
proof -
  let ?p = "expected_projection now e (next_version (projections_get e d)) d"
  have p: "persist_projection digest now ?p (projections_get (pr_event_id ?p) d) c r None False d = Inr (q, d')"
    using assms by (auto simp: reproject_event_no_outbox reproject_fresh_eq split: if_splits)
  from p refl show ?thesis
    by (cases rule: persist_projection_InrD) (use assms(2) in auto)
qed

lemma reproject_makes_current:
  assumes "reproject_event digest now e c r None False d = Inr (q, d')"
  shows "projection_current digest d' e"
proof -
  let ?p = "expected_projection now e (next_version (projections_get e d)) d"
  have p: "persist_projection digest now ?p (projections_get (pr_event_id ?p) d) c r None False d = Inr (q, d')"
    using assms by (auto simp: reproject_event_no_outbox reproject_fresh_eq split: if_splits)
  have h: "projection_content_hash digest ?p = projection_content_hash digest (expected_projection 0 e 1 d')"
    using projection_content_hash_cong [OF content_json_expected] expected_projection_frame
      [OF reproject_event_frame [OF assms]] by metis
  from p refl show ?thesis
    by (cases rule: persist_projection_InrD) (use h in \<open>auto simp: projection_current_def\<close>)
qed

lemma reproject_keeps_current:
  assumes "reproject_event digest now e c r None False d = Inr (q, d')"
    and "projection_current digest d i"
  shows "projection_current digest d' i"
proof (cases "i = e")
  case True
  then show ?thesis using reproject_makes_current [OF assms(1)] by simp
next
  case False
  then show ?thesis
    using assms(2) reproject_other_event [OF assms(1) False]
      expected_projection_frame [OF reproject_event_frame [OF assms(1)]]
    by (simp add: projection_current_def)
qed

lemma rebuild_batch_spec:
  assumes "rebuild_batch (\<lambda>i. reproject_event digest now i None None None False) ids (p, s, f) d
    = ((p', s', f'), d')"
  shows "p' + s' = p + s + length ids \<and> db_events d' = db_events d \<and> set f \<subseteq> set f'
    \<and> (\<forall>i. projection_current digest d i \<longrightarrow> projection_current digest d' i)
    \<and> (\<forall>i \<in> set ids. i \<in> set f' \<or> projection_current digest d' i)"
  using assms
proof (induction ids arbitrary: p s f d)
  case (Cons j ids)
  show ?case
  proof (cases "reproject_event digest now j None None None False d")
    case (Inl e)
    have "rebuild_batch (\<lambda>i. reproject_event digest now i None None None False) ids
        (p, s + 1, f @ [j]) d = ((p', s', f'), d')"
      using Cons.prems Inl by simp
    from Cons.IH [OF this] show ?thesis by auto
  next
    case (Inr r)
    obtain q d1 where r: "reproject_event digest now j None None None False d = Inr (q, d1)"
      using Inr by (cases r) auto
    have "rebuild_batch (\<lambda>i. reproject_event digest now i None None None False) ids
        (p + 1, s, f) d1 = ((p', s', f'), d')"
      using Cons.prems r by simp
    note IH = Cons.IH [OF this]
    have "db_events d1 = db_events d" using read_model_onlyD [OF reproject_event_frame [OF r]] by simp
    moreover have "projection_current digest d' j" using IH reproject_makes_current [OF r] by blast
    moreover have "\<forall>i. projection_current digest d i \<longrightarrow> projection_current digest d' i"
      using IH reproject_keeps_current [OF r] by blast
    ultimately show ?thesis using IH by auto
  qed
qed auto

definition after_cursor :: "uuid option \<Rightarrow> uuid \<Rightarrow> bool" where
  "after_cursor a i = (case a of None \<Rightarrow> True | Some x \<Rightarrow> x < i)"

definition remaining_ids :: "uuid option \<Rightarrow> db \<Rightarrow> uuid list" where
  "remaining_ids a d = filter (after_cursor a) (sort (map ev_id (db_events d)))"

lemma list_ids_after_keyset_eq: "list_ids_after_keyset a k d = take k (remaining_ids a d)"
proof -
  have "(\<lambda>i. case a of None \<Rightarrow> True | Some x \<Rightarrow> x < i) = after_cursor a"
    by (simp add: fun_eq_iff after_cursor_def)
  then show ?thesis by (simp add: list_ids_after_keyset_def remaining_ids_def filter_sort)
qed

lemma filter_gt_last_take:
  assumes "sorted_wrt (<) (xs :: uuid list)" and "take k xs \<noteq> []"
  shows "filter (\<lambda>x. last (take k xs) < x) xs = drop k xs"
proof -
  obtain ys l where yl: "take k xs = ys @ [l]" using assms(2) by (metis rev_exhaust)
  have "xs = ys @ l # drop k xs" using append_take_drop_id [of k xs] yl by simp
  then have "sorted_wrt (<) (ys @ l # drop k xs)" using assms(1) by metis
  then have "\<forall>x \<in> set ys. x < l" "\<forall>x \<in> set (drop k xs). l < x"
    by (simp_all add: sorted_wrt_append)
  then have "filter (\<lambda>x. l < x) (ys @ [l]) = []" "filter (\<lambda>x. l < x) (drop k xs) = drop k xs"
    by (auto simp: filter_empty_conv dest: less_asym)
  then have "filter (\<lambda>x. l < x) (take k xs @ drop k xs) = drop k xs"
    unfolding filter_append yl by simp
  then have "filter (\<lambda>x. l < x) xs = drop k xs" by (simp only: append_take_drop_id)
  then show ?thesis by (simp add: yl)
qed

lemma remaining_ids_advance:
  assumes "distinct (map ev_id (db_events d))" and "take k (remaining_ids a d) \<noteq> []"
  shows "remaining_ids (Some (last (take k (remaining_ids a d)))) d = drop k (remaining_ids a d)"
proof -
  let ?l = "last (take k (remaining_ids a d))"
  have "?l \<in> set (remaining_ids a d)" using assms(2) by (meson in_set_takeD last_in_set)
  then have "after_cursor a ?l" by (simp add: remaining_ids_def)
  then have "after_cursor (Some ?l) x \<longleftrightarrow> after_cursor (Some ?l) x \<and> after_cursor a x" for x
    by (auto simp: after_cursor_def split: option.splits)
  then have "remaining_ids (Some ?l) d = filter (\<lambda>x. after_cursor (Some ?l) x) (remaining_ids a d)"
    unfolding remaining_ids_def filter_filter by (intro filter_cong refl) blast
  also have "\<dots> = filter (\<lambda>x. ?l < x) (remaining_ids a d)" by (simp add: after_cursor_def)
  also have "\<dots> = drop k (remaining_ids a d)"
  proof (rule filter_gt_last_take [OF _ assms(2)])
    show "sorted_wrt (<) (remaining_ids a d)"
      using assms(1) by (simp add: remaining_ids_def strict_sorted_iff sorted_wrt_filter)
  qed
  finally show ?thesis .
qed

lemma rebuild_loop_spec:
  assumes "distinct (map ev_id (db_events d))" and "0 < b" and "length (remaining_ids a d) < n"
  shows "\<exists>p' s' f' d'. rebuild_loop n (\<lambda>i. reproject_event digest now i None None None False)
      b None a (p, s, f) d = Some ((p', s', f'), d')
    \<and> p' + s' = p + s + length (remaining_ids a d) \<and> db_events d' = db_events d \<and> set f \<subseteq> set f'
    \<and> (\<forall>i. projection_current digest d i \<longrightarrow> projection_current digest d' i)
    \<and> (\<forall>i \<in> set (remaining_ids a d). i \<in> set f' \<or> projection_current digest d' i)"
  using assms
proof (induction n arbitrary: a p s f d)
  case (Suc n)
  let ?rp = "\<lambda>i. reproject_event digest now i None None None False"
  let ?R = "remaining_ids a d"
  show ?case
  proof (cases "take b ?R = []")
    case True
    then have "?R = []" using Suc.prems(2) by auto
    then show ?thesis by (simp add: Let_def list_ids_after_keyset_eq)
  next
    case False
    obtain p1 s1 f1 d1 where b1: "rebuild_batch ?rp (take b ?R) (p, s, f) d = ((p1, s1, f1), d1)"
      by (metis prod_cases3 prod.exhaust)
    note B = rebuild_batch_spec [OF b1]
    let ?a = "Some (last (take b ?R))"
    have R1: "remaining_ids ?a d1 = drop b ?R"
      using remaining_ids_advance [OF Suc.prems(1) False] B by (simp add: remaining_ids_def)
    have d1: "distinct (map ev_id (db_events d1))" using Suc.prems(1) B by simp
    have "0 < length ?R" using False by auto
    then have "length ?R - b < n" using Suc.prems(2,3) by linarith
    then have len: "length (remaining_ids ?a d1) < n" by (simp add: R1)
    obtain p' s' f' d' where
      L: "rebuild_loop n ?rp b None ?a (p1, s1, f1) d1 = Some ((p', s', f'), d')"
        "p' + s' = p1 + s1 + length (drop b ?R)" "db_events d' = db_events d1" "set f1 \<subseteq> set f'"
        "\<forall>i. projection_current digest d1 i \<longrightarrow> projection_current digest d' i"
        "\<forall>i \<in> set (drop b ?R). i \<in> set f' \<or> projection_current digest d' i"
      using Suc.IH [OF d1 Suc.prems(2) len, of p1 s1 f1] unfolding R1 by blast
    have "rebuild_loop (Suc n) ?rp b None a (p, s, f) d = Some ((p', s', f'), d')"
      using False b1 L(1) by (simp add: Let_def list_ids_after_keyset_eq)
    moreover have "p' + s' = p + s + length ?R"
      using L(2) B by (simp add: min_def)
    moreover have "\<forall>i \<in> set ?R. i \<in> set f' \<or> projection_current digest d' i"
    proof -
      have "set ?R = set (take b ?R) \<union> set (drop b ?R)"
        by (simp only: set_append [symmetric] append_take_drop_id)
      moreover have "\<forall>i \<in> set (take b ?R). i \<in> set f' \<or> projection_current digest d' i"
        using B L(4,5) by blast
      ultimately show ?thesis using L(6) by blast
    qed
    moreover have "db_events d' = db_events d" "set f \<subseteq> set f'"
      "\<forall>i. projection_current digest d i \<longrightarrow> projection_current digest d' i"
      using L(3-5) B by auto
    ultimately show ?thesis by blast
  qed
qed simp

text \<open>C12: A full rebuild visits every event: it terminates, accounts for each event exactly once as
  processed or skipped, and at the end every event is either reported as failed or has a read
  model whose content hash is that of the record computed from its current evidence.\<close>

theorem rebuild_all_complete:
  assumes "distinct (map ev_id (db_events d))" and "1 \<le> batch_size" and "length (db_events d) < fuel"
  shows "\<exists>processed skipped failed d'.
    rebuild_all fuel digest now batch_size None d = Inr (Some ((processed, skipped, failed), d'))
    \<and> processed + skipped = length (db_events d)
    \<and> (\<forall>e \<in> set (db_events d). ev_id e \<in> set failed \<or> projection_current digest d' (ev_id e))"
proof -
  have R: "remaining_ids None d = sort (map ev_id (db_events d))"
    by (simp add: remaining_ids_def after_cursor_def)
  obtain p s f d' where
    L: "rebuild_loop fuel (\<lambda>i. reproject_event digest now i None None None False)
        (nat batch_size) None None (0, 0, []) d = Some ((p, s, f), d')"
      "p + s = length (remaining_ids None d)"
      "\<forall>i \<in> set (remaining_ids None d). i \<in> set f \<or> projection_current digest d' i"
    using rebuild_loop_spec [of d "nat batch_size" None fuel digest now 0 0 "[]"] assms R by auto
  then show ?thesis using assms(2) R by (intro exI [of _ p] exI [of _ s] exI [of _ f] exI [of _ d'])
      (simp add: rebuild_all_def)
qed

theorem rebuild_all_complete_witness:
  "\<exists>processed skipped failed d'.
     rebuild_all 2 (\<lambda>_. []) 0 10 None (event_db None) = Inr (Some ((processed, skipped, failed), d'))
     \<and> processed + skipped = 1"
  using rebuild_all_complete [of "event_db None" 10 2 "\<lambda>_. []" 0]
  by (simp add: event_db_def sample_event_def empty_db_def) blast

end
