(* ===== verification/Conflict_Lifecycle.thy ===== *)
theory Conflict_Lifecycle
  imports Reproject
begin

text \<open>
  The curator's operations on conflicts: \<open>ResolveConflict\<close> (\<open>resolve_conflict.py\<close>),
  \<open>ReopenConflict\<close> (\<open>reopen_conflict.py\<close>) and the construction of \<open>ConflictModifiedError\<close>
  (\<open>_conflict_modified.py\<close>).  \<open>env\<close> is what other transactions commit between the guards at the
  start of an operation and its own locking and conditional update.
\<close>

section \<open>The stale-version errors\<close>

definition conflict_modified_from_known :: "db \<Rightarrow> claim_conflict \<Rightarrow> atlas_error" where
  "conflict_modified_from_known d conflict =
     ConflictModifiedError (cc_id conflict) (cc_version conflict) (Some conflict)
       (projections_get (cc_event_id conflict) d) (latest_for_conflict (cc_id conflict) d)
       (Some (cc_last_modified_reason conflict))"

definition conflict_modified_after_failed_update :: "db \<Rightarrow> uuid \<Rightarrow> uuid \<Rightarrow> atlas_error" where
  "conflict_modified_after_failed_update d conflict_id event_id =
     (let current_conflict = conflicts_get conflict_id d
      in ConflictModifiedError conflict_id
           (case current_conflict of Some c \<Rightarrow> cc_version c | None \<Rightarrow> -1)
           current_conflict (projections_get event_id d) (latest_for_conflict conflict_id d)
           (map_option cc_last_modified_reason current_conflict))"

section \<open>Resolving\<close>

definition or_default :: "string \<Rightarrow> string \<Rightarrow> string" where
  "or_default reason other = (if reason = [] then other else reason)"

text \<open>
  The manual override: a new claim of the curator source, linked to the conflict.  Returns the
  winner's id, the entity with the link, and the store.
\<close>

definition create_override ::
  "time \<Rightarrow> uuid \<Rightarrow> claim_conflict \<Rightarrow> json \<Rightarrow> uuid \<Rightarrow> string \<Rightarrow> db
     \<Rightarrow> atlas_error + (uuid \<times> claim_conflict \<times> db)" where
  "create_override now curator_override_source_id conflict value current_user_id reason d =
     (case sources_get curator_override_source_id d of
        None \<Rightarrow> Inl InvariantViolationError
      | Some override_source \<Rightarrow>
          let (i, d1) = uuid4 d;
              winning_claim =
                \<lparr>cl_id = i, cl_event_id = cc_event_id conflict, cl_source_id = src_id override_source,
                 cl_raw_snapshot_id = None, cl_field_name = cc_field_name conflict,
                 cl_field_value = value, cl_claim_type = MANUAL_OVERRIDE, cl_created_at = now,
                 cl_created_by = Some current_user_id, cl_superseded_by_claim_id = None\<rparr>;
              d2 = claims_add winning_claim d1;
              d3 = log_claim_history now i (cc_event_id conflict) None (Some value) None
                     MANUAL_OVERRIDE ''created''
                     (or_default reason ''Manual override created during conflict resolution'')
                     USER (Some current_user_id) d2;
              d4 = add_claim_to_conflict (cc_id conflict) i d3
          in Inr (i, add_claim_id i conflict, d4))"

definition check_winner ::
  "uuid \<Rightarrow> claim_conflict \<Rightarrow> db \<Rightarrow> atlas_error + (uuid \<times> claim_conflict \<times> db)" where
  "check_winner winning_claim_id conflict d =
     (if winning_claim_id \<notin> set (get_claim_ids_for_conflict (cc_id conflict) d)
      then Inl (ClaimNotInConflictError winning_claim_id (cc_id conflict))
      else case claims_get winning_claim_id d of
          None \<Rightarrow> Inl (ClaimNotFoundError winning_claim_id)
        | Some existing_claim \<Rightarrow>
            if \<not> can_win existing_claim
            then Inl (ClaimNotEligibleError winning_claim_id (cl_claim_type existing_claim))
            else Inr (winning_claim_id, conflict, d))"

text \<open>The second look at the winner, under its row lock.\<close>

definition lock_winner :: "uuid \<Rightarrow> db \<Rightarrow> atlas_error + unit" where
  "lock_winner winning_claim_id d =
     (case claims_get winning_claim_id d of
        None \<Rightarrow> Inl (ClaimNotFoundError winning_claim_id)
      | Some locked_winner \<Rightarrow>
          if \<not> can_win locked_winner
          then Inl (ClaimNotEligibleError winning_claim_id (cl_claim_type locked_winner))
          else Inr ())"

text \<open>The losing claims and their history, the activity entry and the reprojection.\<close>

definition loser_history ::
  "time \<Rightarrow> uuid \<Rightarrow> string \<Rightarrow> (uuid \<rightharpoonup> claim_type) \<Rightarrow> claim \<Rightarrow> db \<Rightarrow> db" where
  "loser_history now current_user_id reason original_claim_types losing_claim =
     log_claim_history now (cl_id losing_claim) (cl_event_id losing_claim)
       (Some (cl_field_value losing_claim)) None
       (Some (case original_claim_types (cl_id losing_claim) of
                Some t \<Rightarrow> t | None \<Rightarrow> cl_claim_type losing_claim))
       SUPERSEDED ''superseded'' (or_default reason ''Superseded by conflict resolution'')
       USER (Some current_user_id)"

definition supersede_losers ::
  "time \<Rightarrow> uuid \<Rightarrow> uuid \<Rightarrow> uuid \<Rightarrow> string \<Rightarrow> db \<Rightarrow> db" where
  "supersede_losers now conflict_id winning_claim_id current_user_id reason d =
     (let losing_ids = filter (\<lambda>i. i \<noteq> winning_claim_id) (get_claim_ids_for_conflict conflict_id d);
          candidate_claims = claims_get_many losing_ids d;
          original_claim_types = map_of (map (\<lambda>c. (cl_id c, cl_claim_type c)) candidate_claims);
          active_losing_ids = map cl_id (filter can_win candidate_claims);
          (losing_claims, d1) = bulk_supersede active_losing_ids winning_claim_id d
      in fold (loser_history now current_user_id reason original_claim_types) losing_claims d1)"

definition resolved_update ::
  "time \<Rightarrow> uuid \<Rightarrow> uuid \<Rightarrow> string option \<Rightarrow> claim_conflict \<Rightarrow> claim_conflict" where
  "resolved_update now winning_claim_id resolved_by note c =
     c\<lparr>cc_status := RESOLVED, cc_winning_claim_id := Some winning_claim_id,
       cc_resolved_by := Some resolved_by, cc_resolved_at := Some now,
       cc_last_modified_reason := USER_RESOLVED, cc_last_modified_note := note,
       cc_updated_at := now\<rparr>"

definition resolve_conflict ::
  "(json \<Rightarrow> string) \<Rightarrow> uuid \<Rightarrow> time \<Rightarrow> (db \<Rightarrow> db) \<Rightarrow> uuid \<Rightarrow> int \<Rightarrow> uuid option \<Rightarrow> json \<Rightarrow> bool
     \<Rightarrow> uuid option \<Rightarrow> string \<Rightarrow> db
     \<Rightarrow> atlas_error + (claim_conflict \<times> projected_accident_record \<times> db)" where
  "resolve_conflict digest curator_override_source_id now env conflict_id expected_version
       winning_claim_id manual_override_value manual_override_provided current_user_id reason d =
     (let manual_override_selected = manual_override_provided \<or> manual_override_value \<noteq> JNull
      in if winning_claim_id \<noteq> None \<and> manual_override_selected then Inl DomainValidationError
         else if winning_claim_id = None \<and> \<not> manual_override_selected then Inl DomainValidationError
         else case current_user_id of None \<Rightarrow> Inl DomainValidationError | Some user \<Rightarrow>
           (case conflicts_get conflict_id d of None \<Rightarrow> Inl (ConflictNotFoundError conflict_id)
            | Some conflict \<Rightarrow>
              if cc_status conflict \<noteq> OPEN then Inl (ConflictAlreadyResolvedError conflict_id)
              else if cc_version conflict \<noteq> expected_version
              then Inl (conflict_modified_from_known d conflict)
              else
                rbind (if manual_override_selected
                       then create_override now curator_override_source_id conflict
                              manual_override_value user reason d
                       else check_winner (the winning_claim_id) conflict d)
                (\<lambda>(winner, conflict', d1).
                rbind (conflict_resolve now conflict' winner user reason)
                (\<lambda>entity. let d2 = env d1 in
                rbind (if manual_override_selected then Inr () else lock_winner winner d2)
                (\<lambda>_.
                rbind (update_with_version_check conflict_id expected_version
                         (resolved_update now winner user (cc_last_modified_note entity)) d2)
                (\<lambda>(updated, d3). case updated of
                    None \<Rightarrow> Inl (conflict_modified_after_failed_update (env d) conflict_id
                                  (cc_event_id conflict))
                  | Some updated_conflict \<Rightarrow>
                      let d4 = supersede_losers now conflict_id winner user reason d3;
                          d5 = log_activity now conflict_id (cc_event_id updated_conflict)
                                 (Some OPEN) RESOLVED USER (Some user)
                                 (or_default reason ''Conflict resolved by user'')
                                 (cc_version entity) [(''winning_claim_id'', [winner])] d4
                      in rbind (reproject_event digest now (cc_event_id updated_conflict)
                                  (Some conflict_id) None None False d5)
                         (\<lambda>(projection, d6). Inr (updated_conflict, projection, d6))))))))"

section \<open>Reopening\<close>

definition reopened_update :: "time \<Rightarrow> string option \<Rightarrow> claim_conflict \<Rightarrow> claim_conflict" where
  "reopened_update now note c =
     c\<lparr>cc_status := OPEN, cc_winning_claim_id := None, cc_resolved_by := None,
       cc_resolved_at := None, cc_last_modified_reason := USER_REOPENED,
       cc_last_modified_note := note, cc_updated_at := now\<rparr>"

text \<open>The claims of this conflict that the previous winner superseded, brought back.\<close>

definition reactivate_losers :: "claim_conflict \<Rightarrow> db \<Rightarrow> claim list \<times> db" where
  "reactivate_losers conflict d =
     (case cc_winning_claim_id conflict of
        None \<Rightarrow> ([], d)
      | Some previous_winner_id \<Rightarrow>
          let linked = get_claim_ids_for_conflict (cc_id conflict) d;
              conflict_claim_ids = (if linked = [] then cc_claim_ids conflict else linked);
              ids = map cl_id (filter (\<lambda>c. cl_id c \<in> set conflict_claim_ids
                                 \<and> cl_event_id c = cc_event_id conflict
                                 \<and> cl_field_name c = cc_field_name conflict)
                       (find_superseded_by previous_winner_id d))
          in if ids = [] then ([], d) else bulk_unsupersede ids d)"

definition reactivated_history :: "time \<Rightarrow> uuid \<Rightarrow> string \<Rightarrow> claim \<Rightarrow> db \<Rightarrow> db" where
  "reactivated_history now current_user_id reason c =
     log_claim_history now (cl_id c) (cl_event_id c) None (Some (cl_field_value c))
       (Some SUPERSEDED) (cl_claim_type c) ''reactivated''
       (or_default reason ''Reactivated by manual conflict reopen'') USER (Some current_user_id)"

definition reopen_conflict ::
  "(json \<Rightarrow> string) \<Rightarrow> time \<Rightarrow> (db \<Rightarrow> db) \<Rightarrow> uuid \<Rightarrow> int \<Rightarrow> uuid option \<Rightarrow> string \<Rightarrow> db
     \<Rightarrow> atlas_error + (claim_conflict \<times> projected_accident_record \<times> db)" where
  "reopen_conflict digest now env conflict_id expected_version current_user_id reason d =
     (case current_user_id of None \<Rightarrow> Inl DomainValidationError | Some user \<Rightarrow>
      (case conflicts_get conflict_id d of None \<Rightarrow> Inl (ConflictNotFoundError conflict_id)
       | Some conflict \<Rightarrow>
         if cc_status conflict \<noteq> RESOLVED then Inl DomainValidationError
         else if cc_version conflict \<noteq> expected_version
         then Inl (conflict_modified_from_known d conflict)
         else
           let (unsuperseded, d1) = reactivate_losers conflict d
           in rbind (reopen_by_user now conflict (or_default reason ''Manual reopen''))
              (\<lambda>entity. let d2 = env d1 in
              rbind (update_with_version_check conflict_id expected_version
                       (reopened_update now (cc_last_modified_note entity)) d2)
              (\<lambda>(updated, d3). case updated of
                  None \<Rightarrow> Inl (conflict_modified_after_failed_update (env d) conflict_id
                                (cc_event_id conflict))
                | Some updated_conflict \<Rightarrow>
                    let d4 = fold (reactivated_history now user reason) unsuperseded d3;
                        d5 = log_activity now conflict_id (cc_event_id conflict) (Some RESOLVED)
                               OPEN USER (Some user)
                               (or_default reason ''Conflict reopened by user'')
                               (cc_version entity)
                               [(''previous_winning_claim_id'',
                                 case cc_winning_claim_id conflict of Some w \<Rightarrow> [w] | None \<Rightarrow> []),
                                (''reactivated_claim_ids'', map cl_id unsuperseded)] d4
                    in rbind (reproject_event digest now (cc_event_id updated_conflict)
                                (Some conflict_id) None None False d5)
                       (\<lambda>(projection, d6). Inr (updated_conflict, projection, d6))))))"

section \<open>Lemmas on superseding and reactivating\<close>

lemma mem_map_filter: "x \<in> set (List.map_filter f xs) \<longleftrightarrow> (\<exists>y \<in> set xs. f y = Some x)"
  by (induction xs) (auto simp: List.map_filter_simps split: option.split)

lemma set_claims_get_many:
  assumes "distinct (map cl_id (db_claims d))"
  shows "set (claims_get_many ids d) = {c \<in> set (db_claims d). cl_id c \<in> set ids}"
  by (auto simp: claims_get_many_def claims_get_def mem_map_filter row_get_Some_iff [OF assms])

lemma row_update_cong:
  "(\<And>r. r \<in> set rows \<Longrightarrow> p r = q r) \<Longrightarrow> row_update p f rows = row_update q f rows"
  by (simp add: row_update_def)

lemma bulk_supersede_claims:
  "db_claims (snd (bulk_supersede ids w d)) =
     row_update (\<lambda>c. cl_id c \<in> set ids \<and> is_active c) (supersede w) (db_claims d)"
proof (cases "ids = []")
  case True
  then show ?thesis by (simp add: bulk_supersede_def row_update_idle)
next
  case False
  then show ?thesis
    by (auto simp: bulk_supersede_def Let_def intro!: row_update_cong)
qed

lemma fst_bulk_supersede:
  "fst (bulk_supersede ids w d) = filter (\<lambda>c. cl_id c \<in> set ids \<and> is_active c) (db_claims d)"
  by (simp add: bulk_supersede_def Let_def)

lemma bulk_supersede_simps [simp]:
  "db_conflicts (snd (bulk_supersede ids w d)) = db_conflicts d"
  "db_conflict_claims (snd (bulk_supersede ids w d)) = db_conflict_claims d"
  "db_events (snd (bulk_supersede ids w d)) = db_events d"
  "db_activity (snd (bulk_supersede ids w d)) = db_activity d"
  "db_sources (snd (bulk_supersede ids w d)) = db_sources d"
  "db_next (snd (bulk_supersede ids w d)) = db_next d"
  "db_claim_history (snd (bulk_supersede ids w d)) = db_claim_history d"
  "db_projections (snd (bulk_supersede ids w d)) = db_projections d"
  "db_projection_history (snd (bulk_supersede ids w d)) = db_projection_history d"
  by (simp_all add: bulk_supersede_def Let_def)

lemma store_inv_distinct_claims: "store_inv d \<Longrightarrow> distinct (map cl_id (db_claims d))"
  by (simp add: store_inv_def claims_inv_def ids_below_def)

lemma store_inv_distinct_conflicts: "store_inv d \<Longrightarrow> distinct (map cc_id (db_conflicts d))"
  by (simp add: store_inv_def conflicts_inv_def ids_below_def)

definition losers :: "uuid \<Rightarrow> uuid \<Rightarrow> db \<Rightarrow> uuid set" where
  "losers conflict_id w d = {i. (conflict_id, i) \<in> set (db_conflict_claims d)} - {w}"

lemma supersede_losers_effect:
  fixes now conflict_id w u reason d
  assumes "store_inv d"
  defines "d' \<equiv> supersede_losers now conflict_id w u reason d"
  shows "db_claims d' =
      row_update (\<lambda>c. cl_id c \<in> losers conflict_id w d \<and> is_active c) (supersede w) (db_claims d)"
    and "db_conflicts d' = db_conflicts d" and "db_conflict_claims d' = db_conflict_claims d"
    and "db_events d' = db_events d" and "store_inv d'"
proof -
  let ?lost = "filter (\<lambda>i. i \<noteq> w) (get_claim_ids_for_conflict conflict_id d)"
  let ?ids = "map cl_id (filter can_win (claims_get_many ?lost d))"
  let ?f = "loser_history now u reason
    (map_of (map (\<lambda>c. (cl_id c, cl_claim_type c)) (claims_get_many ?lost d)))"
  have f: "d' = fold ?f (fst (bulk_supersede ?ids w d)) (snd (bulk_supersede ?ids w d))"
    by (simp add: d'_def supersede_losers_def Let_def case_prod_beta)
  have "\<And>x d. db_claims (?f x d) = db_claims d" "\<And>x d. db_conflicts (?f x d) = db_conflicts d"
      "\<And>x d. db_conflict_claims (?f x d) = db_conflict_claims d"
      "\<And>x d. db_events (?f x d) = db_events d" "\<And>x d. db_activity (?f x d) = db_activity d"
      "\<And>x d. db_sources (?f x d) = db_sources d" "\<And>x d. db_projections (?f x d) = db_projections d"
      "\<And>x d. db_projection_history (?f x d) = db_projection_history d"
    by (simp_all add: loser_history_def)
  note F = fold_log_frame [of ?f, OF this]
  have "cl_id c \<in> set ?ids \<and> is_active c \<longleftrightarrow> cl_id c \<in> losers conflict_id w d \<and> is_active c"
    if "c \<in> set (db_claims d)" for c
  proof -
    have "cl_id c \<in> set ?ids \<longleftrightarrow> (\<exists>b \<in> set (db_claims d). cl_id b \<in> losers conflict_id w d
        \<and> is_active b \<and> cl_id b = cl_id c)"
      unfolding set_map set_filter set_claims_get_many [OF store_inv_distinct_claims [OF assms(1)]]
      by (auto simp: set_get_claim_ids losers_def can_win_is_active image_iff)
    then show ?thesis
      using that store_inv_distinct_claims [OF assms(1)] by (auto simp: distinct_map dest: inj_onD)
  qed
  then show "db_claims d' =
      row_update (\<lambda>c. cl_id c \<in> losers conflict_id w d \<and> is_active c) (supersede w) (db_claims d)"
    unfolding f F bulk_supersede_claims by (intro row_update_cong)
  show "db_conflicts d' = db_conflicts d" "db_conflict_claims d' = db_conflict_claims d"
    "db_events d' = db_events d"
    by (simp_all add: f F)
  show "store_inv d'"
    unfolding f
    by (intro fold_inv [where P = store_inv] store_inv_bulk_supersede assms(1))
      (simp add: loser_history_def store_inv_log_claim_history)
qed

text \<open>
  A store with one event, two sources that disagree on its operator, and the open conflict, for
  the examples.
\<close>

definition conflict_db :: db where
  "conflict_db = (event_db None)\<lparr>
     db_claims := [sample_claim 5 1 ''operator'' (JBool True) CONFIRMED,
                   sample_claim 6 2 ''operator'' (JBool False) RAW],
     db_conflicts := [new_conflict 0 9 1 ''operator'' []],
     db_conflict_claims := [(9, 5), (9, 6)]\<rparr>"

lemmas conflict_db_eval = conflict_db_def event_db_def sample_event_def empty_db_def
  sample_claim_def new_conflict_def

lemma conflict_db_inv: "store_inv conflict_db"
  by (simp add: conflict_db_eval store_inv_def claims_inv_def conflicts_inv_def ids_below_def
      claim_ok_def conflict_ok_def open_unique_def contiguous_log_def activity_of_def)

section \<open>Lemmas on resolving\<close>

lemma conflict_resolve_InrD:
  "conflict_resolve now c w u reason = Inr e \<Longrightarrow>
     cc_last_modified_note e = note_of reason \<and> cc_version e = cc_version c + 1 \<and> cc_status c = OPEN"
  by (auto simp: conflict_resolve_def split: if_splits)

lemma conflicts_get_SomeD:
  "conflicts_get i d = Some c \<Longrightarrow>
     \<exists>r \<in> set (db_conflicts d). c = with_links d r \<and> cc_id r = i \<and> cc_id c = i"
  using row_get_SomeD [of cc_id i "db_conflicts d"] by (auto simp: conflicts_get_def)

text \<open>Everything that happened in a successful resolution with an existing claim.\<close>

lemma resolve_with_claim_InrE:
  assumes "resolve_conflict digest cur now env cid v (Some w) JNull False cu reason d = Inr (uc, p, d')"
  obtains user conflict d3 where "cu = Some user" "conflicts_get cid d = Some conflict"
    "cc_status conflict = OPEN" "cc_version conflict = v"
    "(cid, w) \<in> set (db_conflict_claims d)" "lock_winner w (env d) = Inr ()"
    "update_with_version_check cid v (resolved_update now w user (note_of reason)) (env d) = Inr (Some uc, d3)"
    "reproject_event digest now (cc_event_id uc) (Some cid) None None False
       (log_activity now cid (cc_event_id uc) (Some OPEN) RESOLVED USER (Some user)
          (or_default reason ''Conflict resolved by user'') (v + 1) [(''winning_claim_id'', [w])]
          (supersede_losers now cid w user reason d3)) = Inr (p, d')"
proof -
  obtain user conflict where u: "cu = Some user" and c: "conflicts_get cid d = Some conflict"
    and st: "cc_status conflict = OPEN" "cc_version conflict = v"
    using assms by (auto simp: resolve_conflict_def split: option.splits if_splits)
  obtain entity updated d3 where
    cw: "check_winner w conflict d = Inr (w, conflict, d)"
    and ent: "conflict_resolve now conflict w user reason = Inr entity"
    and lk: "lock_winner w (env d) = Inr ()"
    and up: "update_with_version_check cid v
        (resolved_update now w user (cc_last_modified_note entity)) (env d) = Inr (Some updated, d3)"
    and rest: "uc = updated" "reproject_event digest now (cc_event_id updated) (Some cid) None None False
       (log_activity now cid (cc_event_id updated) (Some OPEN) RESOLVED USER (Some user)
          (or_default reason ''Conflict resolved by user'') (cc_version entity)
          [(''winning_claim_id'', [w])] (supersede_losers now cid w user reason d3)) = Inr (p, d')"
    using assms u c st
    by (auto simp: resolve_conflict_def Let_def check_winner_def split: option.splits if_splits)
  have "(cid, w) \<in> set (db_conflict_claims d)"
    using cw conflicts_get_SomeD [OF c]
    by (auto simp: check_winner_def set_get_claim_ids split: if_splits)
  then show thesis
    using that [OF u c st _ lk, of d3] up rest conflict_resolve_InrD [OF ent] st by simp
qed

lemma lock_winner_active: "lock_winner w d = Inr () \<Longrightarrow> \<exists>c. claims_get w d = Some c \<and> is_active c"
  by (auto simp: lock_winner_def can_win_is_active split: option.splits if_splits)

text \<open>The claims after the losers are superseded.\<close>

lemma superseded_claims_get:
  assumes "db_claims d' = row_update (\<lambda>c. cl_id c \<in> S \<and> is_active c) (supersede w) (db_claims d)"
  shows "claims_get i d' =
    map_option (\<lambda>c. if cl_id c \<in> S \<and> is_active c then supersede w c else c) (claims_get i d)"
  unfolding claims_get_def assms by (rule row_get_update) simp

lemma claims_get_id: "claims_get i d = Some c \<Longrightarrow> cl_id c = i \<and> c \<in> set (db_claims d)"
  by (auto simp: claims_get_def dest: row_get_SomeD)

lemma resolved_update_ok: "conflict_ok c \<Longrightarrow> conflict_ok (resolved_update now w u note c)"
  by (simp add: conflict_ok_def resolved_update_def)

section \<open>Correctness of resolving\<close>

lemma resolve_with_claim_effect:
  assumes "resolve_conflict digest cur now env cid v (Some w) JNull False cu reason d = Inr (uc, p, d')"
    and "store_inv (env d)"
  shows "(\<exists>r. row_get cc_id cid (db_conflicts d') = Some r \<and> cc_status r = RESOLVED
        \<and> cc_winning_claim_id r = Some w \<and> cc_version r = v + 1 \<and> cc_resolved_by r = cu)
    \<and> (\<exists>c. claims_get w d' = Some c \<and> is_active c)
    \<and> (\<forall>i c. (cid, i) \<in> set (db_conflict_claims d') \<and> i \<noteq> w \<and> claims_get i d' = Some c
        \<longrightarrow> cl_claim_type c = SUPERSEDED)
    \<and> store_inv d'"
proof -
  obtain user conflict d3 where cu: "cu = Some user"
    and lk: "lock_winner w (env d) = Inr ()"
    and up: "update_with_version_check cid v (resolved_update now w user (note_of reason)) (env d)
      = Inr (Some uc, d3)"
    and rp: "reproject_event digest now (cc_event_id uc) (Some cid) None None False
       (log_activity now cid (cc_event_id uc) (Some OPEN) RESOLVED USER (Some user)
          (or_default reason ''Conflict resolved by user'') (v + 1) [(''winning_claim_id'', [w])]
          (supersede_losers now cid w user reason d3)) = Inr (p, d')"
    using assms(1) by (rule resolve_with_claim_InrE)
  let ?d4 = "supersede_losers now cid w user reason d3"
  obtain c0 where c0: "row_get cc_id cid (db_conflicts (env d)) = Some c0"
    and d3: "d3 = (env d)\<lparr>db_conflicts := row_update (\<lambda>r. cc_id r = cid)
        (\<lambda>_. (resolved_update now w user (note_of reason) c0)\<lparr>cc_version := v + 1\<rparr>) (db_conflicts (env d))\<rparr>"
    using up by (rule update_with_version_check_Some)
  have inv3: "store_inv d3"
    using store_inv_update_with_version_check [OF up assms(2)] resolved_update_ok
    by (simp add: resolved_update_def)
  note S = supersede_losers_effect [OF inv3, of now cid w user reason]
  note R = read_model_onlyD [OF reproject_event_frame [OF rp]]
  have cl: "claims_get i d' = map_option
      (\<lambda>c. if cl_id c \<in> losers cid w d3 \<and> is_active c then supersede w c else c) (claims_get i d3)" for i
    using superseded_claims_get [OF S(1), of i] R(1) by (simp add: claims_get_def)
  have "claims_get i d3 = claims_get i (env d)" for i by (simp add: claims_get_def d3)
  then have "\<exists>c. claims_get w d' = Some c \<and> is_active c"
    using lock_winner_active [OF lk] by (auto simp: cl losers_def dest: claims_get_id)
  moreover have "cl_claim_type c = SUPERSEDED"
    if "(cid, i) \<in> set (db_conflict_claims d')" "i \<noteq> w" "claims_get i d' = Some c" for i c
  proof -
    note g = that(3)
    have "i \<in> losers cid w d3" using that(1,2) R(4) S(3) by (simp add: losers_def)
    moreover obtain c1 where "claims_get i d3 = Some c1"
      and "c = (if cl_id c1 \<in> losers cid w d3 \<and> is_active c1 then supersede w c1 else c1)"
      using g by (auto simp: cl)
    ultimately show ?thesis using claims_get_id [of i d3 c1] by (simp add: is_active_iff)
  qed
  moreover have "row_get cc_id cid (db_conflicts d') =
      Some ((resolved_update now w user (note_of reason) c0)\<lparr>cc_version := v + 1\<rparr>)"
    using row_get_replace [OF c0, of "(resolved_update now w user (note_of reason) c0)\<lparr>cc_version := v + 1\<rparr>"]
      row_get_SomeD [OF c0] R(2) S(2) by (simp add: d3 resolved_update_def)
  moreover have "store_inv d'"
    using store_inv_reproject_event [OF rp] store_inv_log_activity S(5) by blast
  ultimately show ?thesis using cu by (auto simp: resolved_update_def)
qed

text \<open>Resolving a conflict with one of its claims: when it succeeds, the conflict is resolved in
  favour of that claim with the next version, the winner is still active, every other claim
  linked to the conflict has been superseded, and the store invariant holds; this is so whatever
  other transactions commit between the guards and the conditional update.\<close>

theorem resolve_with_claim_sound:
  assumes "resolve_conflict digest cur now env cid v (Some w) JNull False cu reason d = Inr (uc, p, d')"
    and "store_inv (env d)"
  shows "(\<exists>r. row_get cc_id cid (db_conflicts d') = Some r \<and> cc_status r = RESOLVED
        \<and> cc_winning_claim_id r = Some w \<and> cc_version r = v + 1 \<and> cc_resolved_by r = cu)
    \<and> (\<exists>c. claims_get w d' = Some c \<and> is_active c)
    \<and> (\<forall>i c. (cid, i) \<in> set (db_conflict_claims d') \<and> i \<noteq> w \<and> claims_get i d' = Some c
        \<longrightarrow> cl_claim_type c = SUPERSEDED)
    \<and> store_inv d'"
  by (rule resolve_with_claim_effect [OF assms])

lemma resolve_conflict_db:
  "\<exists>uc p d'. resolve_conflict digest 3 10 (\<lambda>d. d) 9 1 (Some 5) JNull False (Some 7) [] conflict_db
     = Inr (uc, p, d')"
proof -
  let ?c = "with_links conflict_db (new_conflict 0 9 1 ''operator'' [])"
  have c: "conflicts_get 9 conflict_db = Some ?c"
    by (simp add: conflict_db_def conflicts_get_def new_conflict_def)
  have cw: "check_winner 5 ?c conflict_db = Inr (5, ?c, conflict_db)" "lock_winner 5 conflict_db = Inr ()"
    by (simp_all add: check_winner_def lock_winner_def conflict_db_eval get_claim_ids_for_conflict_def
        claims_get_def can_win_iff)
  have st: "cc_status ?c = OPEN" "cc_version ?c = 1" by (simp_all add: new_conflict_def)
  have "\<exists>e. conflict_resolve 10 ?c 5 7 [] = Inr e"
    by (simp add: conflict_resolve_def conflict_db_eval get_claim_ids_for_conflict_def)
  then obtain e where e: "conflict_resolve 10 ?c 5 7 [] = Inr e" by blast
  let ?u = "resolved_update 10 5 7 (cc_last_modified_note e)"
  have "\<exists>uc d3. update_with_version_check 9 1 ?u conflict_db = Inr (Some uc, d3) \<and> cc_event_id uc = 1"
    by (simp add: update_with_version_check_def conflict_db_eval open_clash_def resolved_update_def Let_def)
  then obtain uc d3 where up: "update_with_version_check 9 1 ?u conflict_db = Inr (Some uc, d3)"
    and e1: "cc_event_id uc = 1" by blast
  have i3: "store_inv d3"
    using store_inv_update_with_version_check [OF up conflict_db_inv] resolved_update_ok
    by (simp add: resolved_update_def)
  let ?d5 = "log_activity 10 9 (cc_event_id uc) (Some OPEN) RESOLVED USER (Some 7)
    (or_default [] ''Conflict resolved by user'') (cc_version e) [(''winning_claim_id'', [5])]
    (supersede_losers 10 9 5 7 [] d3)"
  have fr: "db_events d3 = db_events conflict_db" "db_projections d3 = []" "db_projection_history d3 = []"
    using up by (auto simp: update_with_version_check_def conflict_db_eval Let_def split: if_splits)
  have "db_projection_history (supersede_losers n i w u r d) = db_projection_history d" for n i w u r d
    unfolding supersede_losers_def Let_def case_prod_beta
    by (subst fold_log_frame(8)) (simp_all add: loser_history_def)
  then have "\<exists>p d'. reproject_event digest 10 1 (Some 9) None None False ?d5 = Inr (p, d')"
    using fr supersede_losers_effect(4) [OF i3]
    by (intro reproject_succeeds) (simp_all add: events_get_def conflict_db_eval history_behind_def)
  then obtain p d' where "reproject_event digest 10 1 (Some 9) None None False ?d5 = Inr (p, d')" by blast
  then show ?thesis
    using c cw st e up e1 by (simp add: resolve_conflict_def)
qed

theorem resolve_with_claim_sound_witness:
  "\<exists>uc p d'. resolve_conflict (\<lambda>_. []) 3 10 (\<lambda>d. d) 9 1 (Some 5) JNull False (Some 7) [] conflict_db
       = Inr (uc, p, d')
     \<and> (\<exists>c. claims_get 5 d' = Some c \<and> is_active c) \<and> store_inv d'"
proof -
  obtain uc p d' where
    r: "resolve_conflict (\<lambda>_. []) 3 10 (\<lambda>d. d) 9 1 (Some 5) JNull False (Some 7) [] conflict_db = Inr (uc, p, d')"
    using resolve_conflict_db by blast
  then show ?thesis using resolve_with_claim_sound [OF r conflict_db_inv] by blast
qed

section \<open>The public record after a resolution\<close>

lemma resolved_conflict_row:
  assumes "row_get cc_id i (db_conflicts d) = Some r" and "cc_status r = RESOLVED"
    and "\<And>b. b \<in> set (db_conflicts d) \<Longrightarrow> cc_event_id b = cc_event_id r \<Longrightarrow>
      cc_field_name b = cc_field_name r \<Longrightarrow> b = r \<or> cc_status b = RESOLVED \<and> newer_conflict r b"
  shows "cc_field_name r \<notin> open_field_names (cc_event_id r) (conflicts_find_by_event (cc_event_id r) d)"
    and "resolved_of (cc_event_id r) (conflicts_find_by_event (cc_event_id r) d) (cc_field_name r)
      = Some (with_links d r)"
proof -
  let ?e = "cc_event_id r" and ?co = "conflicts_find_by_event (cc_event_id r) d"
  have r: "r \<in> set (db_conflicts d)" using row_get_SomeD [OF assms(1)] by simp
  have only: "b = with_links d r \<or> cc_status b = RESOLVED \<and> newer_conflict (with_links d r) b"
    if b: "b \<in> set ?co" "cc_field_name b = cc_field_name r" for b
  proof -
    obtain x where x: "x \<in> set (db_conflicts d)" "cc_event_id x = ?e" "b = with_links d x"
      using b(1) by (auto simp: conflicts_find_by_event_def)
    then have "x = r \<or> cc_status x = RESOLVED \<and> newer_conflict r x" using assms(3) b(2) by simp
    then show ?thesis using x(3) by (auto simp: newer_conflict_def)
  qed
  have mem: "with_links d r \<in> set ?co" using r by (simp add: conflicts_find_by_event_def)
  have "\<not> (b \<in> set ?co \<and> cc_status b = OPEN \<and> cc_field_name r = cc_field_name b)" for b
    using only [of b] assms(2) by auto
  then show "cc_field_name r \<notin> open_field_names ?e ?co"
    unfolding open_field_names_def by blast
  show "resolved_of ?e ?co (cc_field_name r) = Some (with_links d r)"
    unfolding resolved_of_def
  proof (rule latest_resolved_newest)
    show "with_links d r \<in> set (filter (\<lambda>c. cc_event_id c = ?e) ?co)" using mem by simp
    show "cc_status (with_links d r) = RESOLVED" using assms(2) by simp
    fix b
    assume "b \<in> set (filter (\<lambda>c. cc_event_id c = ?e) ?co)" and f: "cc_field_name b = cc_field_name r"
    then have "b \<in> set ?co" by simp
    from only [OF this f] show "b = with_links d r \<or> newer_conflict (with_links d r) b" by blast
  qed simp
qed

text \<open>The value the record shows for a field whose conflict was resolved in favour of a claim.\<close>

lemma projected_value_of_winner:
  assumes "store_inv d"
    and "row_get cc_id i (db_conflicts d) = Some r" and "cc_status r = RESOLVED"
    and "cc_winning_claim_id r = Some w" and "claims_get w d = Some c" and "is_active c"
    and "cl_event_id c = cc_event_id r" and "cl_field_name c = cc_field_name r"
    and "\<And>b. b \<in> set (db_conflicts d) \<Longrightarrow> cc_event_id b = cc_event_id r \<Longrightarrow>
      cc_field_name b = cc_field_name r \<Longrightarrow> b = r \<or> cc_status b = RESOLVED \<and> newer_conflict r b"
  shows "projected_value (cc_event_id r) (find_active_by_event (cc_event_id r) d)
    (conflicts_find_by_event (cc_event_id r) d) src (cc_field_name r) = Some (PVal (cl_field_value c))"
proof -
  let ?e = "cc_event_id r" and ?f = "cc_field_name r"
  let ?fc = "field_claims_of ?e ?f (find_active_by_event ?e d)"
  have c: "c \<in> set (db_claims d)" "cl_id c = w" using claims_get_id [OF assms(5)] by auto
  have "row_get cl_id w ?fc = Some c"
  proof -
    have "distinct (map cl_id ?fc)"
      using store_inv_distinct_claims [OF assms(1)]
      by (simp add: field_claims_of_def event_claims_def find_active_by_event_def distinct_map_filter)
    moreover have "c \<in> set ?fc"
      using c assms(6-8) by (simp add: set_field_claims_of find_active_by_event_def)
    ultimately show ?thesis using c(2) by (simp add: row_get_Some_iff)
  qed
  then have "resolved_winner ?e (find_active_by_event ?e d) (conflicts_find_by_event ?e d) ?f = Some c"
    using assms(4)
    by (simp add: resolved_winner_def row_get_def resolved_conflict_row(2) [OF assms(2,3,9)]
        del: not_None_eq)
  then show ?thesis
    by (simp add: projected_value_eq resolved_conflict_row(1) [OF assms(2,3,9)])
qed

text \<open>C13: What a curator decides is what the public sees: after a successful resolution with a claim of
  the conflict's event and field, the record computed for the event shows that claim's value
  for the field, not a dispute, provided the event is not merged and any other conflict row of the field
  is resolved and older in the order (version, time of the last update) the builder uses.\<close>

theorem resolve_shows_winner:
  assumes "resolve_conflict digest cur now env cid v (Some w) JNull False cu reason d = Inr (uc, p, d')"
    and "store_inv (env d)"
    and "claims_get w d' = Some c" and "cl_event_id c = cc_event_id uc"
    and "cl_field_name c = cc_field_name uc"
    and "\<forall>b \<in> set (db_conflicts d'). cc_event_id b = cc_event_id uc \<and> cc_field_name b = cc_field_name uc
      \<longrightarrow> cc_id b = cid \<or> cc_status b = RESOLVED \<and> newer_conflict uc b"
    and "\<forall>ev. events_get (cc_event_id uc) d' = Some ev \<longrightarrow> \<not> is_merged ev"
  shows "map_of (pr_fields (expected_projection t (cc_event_id uc) n d')) (cc_field_name uc)
    = Some (PVal (cl_field_value c))"
proof -
  note S = resolve_with_claim_effect [OF assms(1,2)]
  obtain r where r: "row_get cc_id cid (db_conflicts d') = Some r" "cc_status r = RESOLVED"
    "cc_winning_claim_id r = Some w" using S by blast
  have act: "is_active c" using S assms(3) by auto
  obtain user conflict d3 where
    up: "update_with_version_check cid v (resolved_update now w user (note_of reason)) (env d)
      = Inr (Some uc, d3)"
    and rp: "reproject_event digest now (cc_event_id uc) (Some cid) None None False
       (log_activity now cid (cc_event_id uc) (Some OPEN) RESOLVED USER (Some user)
          (or_default reason ''Conflict resolved by user'') (v + 1) [(''winning_claim_id'', [w])]
          (supersede_losers now cid w user reason d3)) = Inr (p, d')"
    using assms(1) by (rule resolve_with_claim_InrE)
  have i3: "store_inv d3"
    using store_inv_update_with_version_check [OF up assms(2)] resolved_update_ok
    by (simp add: resolved_update_def)
  have "db_conflicts d' = db_conflicts d3"
    using read_model_onlyD(2) [OF reproject_event_frame [OF rp]] supersede_losers_effect(2) [OF i3] by simp
  moreover obtain c0 where c0: "row_get cc_id cid (db_conflicts (env d)) = Some c0"
    and uc: "uc = with_links (env d) ((resolved_update now w user (note_of reason) c0)\<lparr>cc_version := v + 1\<rparr>)"
    and d3: "d3 = (env d)\<lparr>db_conflicts := row_update (\<lambda>r. cc_id r = cid)
        (\<lambda>_. (resolved_update now w user (note_of reason) c0)\<lparr>cc_version := v + 1\<rparr>) (db_conflicts (env d))\<rparr>"
    using up by (rule update_with_version_check_Some)
  ultimately have "r = (resolved_update now w user (note_of reason) c0)\<lparr>cc_version := v + 1\<rparr>"
    using r(1) row_get_replace [OF c0, of "(resolved_update now w user (note_of reason) c0)\<lparr>cc_version := v + 1\<rparr>"]
      row_get_SomeD [OF c0] by (simp add: resolved_update_def)
  then have ef: "cc_event_id uc = cc_event_id r" "cc_field_name uc = cc_field_name r"
    "newer_conflict uc b = newer_conflict r b" for b
    by (simp_all add: uc newer_conflict_def)
  have inv: "store_inv d'" using S by blast
  have "b = r \<or> cc_status b = RESOLVED \<and> newer_conflict r b"
    if b: "b \<in> set (db_conflicts d')" "cc_event_id b = cc_event_id r" "cc_field_name b = cc_field_name r" for b
  proof (cases "cc_id b = cid")
    case True
    then have "row_get cc_id cid (db_conflicts d') = Some b"
      using b(1) row_get_Some_iff [OF store_inv_distinct_conflicts [OF inv], of cid b] by blast
    then show ?thesis using r(1) by simp
  next
    case False
    then show ?thesis using b assms(6) ef by metis
  qed
  then have "projected_value (cc_event_id r) (find_active_by_event (cc_event_id r) d')
      (conflicts_find_by_event (cc_event_id r) d') src (cc_field_name r) = Some (PVal (cl_field_value c))" for src
    using assms(4,5) ef by (intro projected_value_of_winner [OF inv r assms(3) act]) simp_all
  then show ?thesis
    using assms(7) unfolding ef
    by (cases "events_get (cc_event_id r) d'") (simp_all add: expected_projection_def build_fields)
qed

theorem resolve_shows_winner_witness:
  "\<exists>uc p d'. resolve_conflict (\<lambda>_. []) 3 10 (\<lambda>d. d) 9 1 (Some 5) JNull False (Some 7) [] conflict_db
       = Inr (uc, p, d')
     \<and> map_of (pr_fields (expected_projection 0 1 1 d')) ''operator'' = Some (PVal (JBool True))"
proof -
  obtain uc p d' where
    r: "resolve_conflict (\<lambda>_. []) 3 10 (\<lambda>d. d) 9 1 (Some 5) JNull False (Some 7) [] conflict_db = Inr (uc, p, d')"
    using resolve_conflict_db by blast
  note S = resolve_with_claim_effect [OF r conflict_db_inv]
  obtain user conflict d3 where
    up: "update_with_version_check 9 1 (resolved_update 10 5 user (note_of [])) conflict_db = Inr (Some uc, d3)"
    and rp: "reproject_event (\<lambda>_. []) 10 (cc_event_id uc) (Some 9) None None False
       (log_activity 10 9 (cc_event_id uc) (Some OPEN) RESOLVED USER (Some user)
          (or_default [] ''Conflict resolved by user'') (1 + 1) [(''winning_claim_id'', [5])]
          (supersede_losers 10 9 5 user [] d3)) = Inr (p, d')"
    using r by (rule resolve_with_claim_InrE)
  have i3: "store_inv d3"
    using store_inv_update_with_version_check [OF up conflict_db_inv] resolved_update_ok
    by (simp add: resolved_update_def)
  have uc: "cc_event_id uc = 1" "cc_field_name uc = ''operator''"
    and d3: "map (\<lambda>b. (cc_event_id b, cc_id b)) (db_conflicts d3) = [(1, 9)]"
      "db_events d3 = db_events conflict_db" "db_claims d3 = db_claims conflict_db"
      "db_conflict_claims d3 = db_conflict_claims conflict_db"
    using up by (auto simp: update_with_version_check_def conflict_db_eval Let_def resolved_update_def
        split: if_splits)
  note R = read_model_onlyD [OF reproject_event_frame [OF rp]]
  note L = supersede_losers_effect [OF i3, of 10 9 5 user "[]"]
  have g: "claims_get 5 d' = Some (sample_claim 5 1 ''operator'' (JBool True) CONFIRMED)"
    using superseded_claims_get [OF L(1), of 5] R(1) d3(3,4)
    by (simp add: claims_get_def conflict_db_eval losers_def)
  have "db_conflicts d' = db_conflicts d3" using R(2) L(2) by simp
  then have cs: "\<forall>b \<in> set (db_conflicts d'). cc_id b = 9"
    using d3(1) by auto
  have "db_events d' = [sample_event None]" using R(3) L(4) d3(2) by (simp add: conflict_db_def event_db_def)
  then have ev: "\<forall>ev. events_get 1 d' = Some ev \<longrightarrow> \<not> is_merged ev"
    by (simp add: events_get_def sample_event_def is_merged_def)
  have "map_of (pr_fields (expected_projection 0 (cc_event_id uc) 1 d')) (cc_field_name uc)
      = Some (PVal (cl_field_value (sample_claim 5 1 ''operator'' (JBool True) CONFIRMED)))"
    by (rule resolve_shows_winner [OF r conflict_db_inv g]) (use uc cs ev in \<open>simp_all add: sample_claim_def\<close>)
  then show ?thesis using r uc by (simp add: sample_claim_def)
qed

section \<open>Lemmas on reopening\<close>

text \<open>The claims a reopening brings back.\<close>

definition reopened_claims :: "claim_conflict \<Rightarrow> uuid \<Rightarrow> db \<Rightarrow> claim \<Rightarrow> bool" where
  "reopened_claims conflict w d c \<longleftrightarrow>
     cl_superseded_by_claim_id c = Some w \<and> (cc_id conflict, cl_id c) \<in> set (db_conflict_claims d)
     \<and> cl_event_id c = cc_event_id conflict \<and> cl_field_name c = cc_field_name conflict"

lemma bulk_unsupersede_simps [simp]:
  "db_conflicts (snd (bulk_unsupersede ids d)) = db_conflicts d"
  "db_conflict_claims (snd (bulk_unsupersede ids d)) = db_conflict_claims d"
  "db_events (snd (bulk_unsupersede ids d)) = db_events d"
  "db_projections (snd (bulk_unsupersede ids d)) = db_projections d"
  "db_projection_history (snd (bulk_unsupersede ids d)) = db_projection_history d"
  "db_claims (snd (bulk_unsupersede ids d)) =
     row_update (\<lambda>c. cl_id c \<in> set ids)
       (\<lambda>c. unsupersede (restore_type (db_claim_history d) (cl_id c)) c) (db_claims d)"
  by (simp_all add: bulk_unsupersede_def Let_def)

lemma reactivate_losers_effect:
  assumes "store_inv d" and "conflicts_get cid d = Some conflict"
  shows "db_claims (snd (reactivate_losers conflict d)) =
      (case cc_winning_claim_id conflict of
         None \<Rightarrow> db_claims d
       | Some w \<Rightarrow> row_update (reopened_claims conflict w d)
           (\<lambda>c. unsupersede (restore_type (db_claim_history d) (cl_id c)) c) (db_claims d))"
    and "store_inv (snd (reactivate_losers conflict d))"
    and "db_conflicts (snd (reactivate_losers conflict d)) = db_conflicts d"
    and "db_conflict_claims (snd (reactivate_losers conflict d)) = db_conflict_claims d"
    and "db_events (snd (reactivate_losers conflict d)) = db_events d"
    and "db_projections (snd (reactivate_losers conflict d)) = db_projections d"
    and "db_projection_history (snd (reactivate_losers conflict d)) = db_projection_history d"
proof -
  have links: "cc_claim_ids conflict = get_claim_ids_for_conflict (cc_id conflict) d"
    using conflicts_get_SomeD [OF assms(2)] by auto
  show "db_claims (snd (reactivate_losers conflict d)) =
      (case cc_winning_claim_id conflict of
         None \<Rightarrow> db_claims d
       | Some w \<Rightarrow> row_update (reopened_claims conflict w d)
           (\<lambda>c. unsupersede (restore_type (db_claim_history d) (cl_id c)) c) (db_claims d))"
  proof (cases "cc_winning_claim_id conflict")
    case None
    then show ?thesis by (simp add: reactivate_losers_def)
  next
    case (Some w)
    define ids where "ids = map cl_id (filter (reopened_claims conflict w d) (db_claims d))"
    have sel: "filter (\<lambda>c. cl_id c \<in> set (get_claim_ids_for_conflict (cc_id conflict) d)
        \<and> cl_event_id c = cc_event_id conflict \<and> cl_field_name c = cc_field_name conflict)
        (find_superseded_by w d) = filter (reopened_claims conflict w d) (db_claims d)"
      by (auto simp: find_superseded_by_def reopened_claims_def set_get_claim_ids intro!: filter_cong)
    have none: "filter (reopened_claims conflict w d) (db_claims d) = []"
      if "get_claim_ids_for_conflict (cc_id conflict) d = []"
      using that set_get_claim_ids [of "cc_id conflict" d] by (auto simp: reopened_claims_def filter_empty_conv)
    have r: "snd (reactivate_losers conflict d) = (if ids = [] then d else snd (bulk_unsupersede ids d))"
      using Some sel none
      by (cases "get_claim_ids_for_conflict (cc_id conflict) d = []")
        (simp_all add: reactivate_losers_def links ids_def Let_def)
    have "cl_id c \<in> set ids \<longleftrightarrow> reopened_claims conflict w d c" if c: "c \<in> set (db_claims d)" for c
      using c store_inv_distinct_claims [OF assms(1)] by (auto simp: ids_def distinct_map dest: inj_onD)
    then have "row_update (\<lambda>c. cl_id c \<in> set ids) g (db_claims d)
        = row_update (reopened_claims conflict w d) g (db_claims d)" for g
      by (rule row_update_cong)
    then show ?thesis using Some by (auto simp: r row_update_idle)
  qed
  show "store_inv (snd (reactivate_losers conflict d))"
    using assms(1) by (auto simp: reactivate_losers_def Let_def intro: store_inv_bulk_unsupersede split: option.split)
  show "db_conflicts (snd (reactivate_losers conflict d)) = db_conflicts d"
    "db_conflict_claims (snd (reactivate_losers conflict d)) = db_conflict_claims d"
    "db_events (snd (reactivate_losers conflict d)) = db_events d"
    "db_projections (snd (reactivate_losers conflict d)) = db_projections d"
    "db_projection_history (snd (reactivate_losers conflict d)) = db_projection_history d"
    by (simp_all add: reactivate_losers_def Let_def split: option.split)
qed

lemma reopen_InrE:
  assumes "reopen_conflict digest now env cid v cu reason d = Inr (uc, p, d')"
  obtains user conflict d3 and entity :: claim_conflict
    where "cu = Some user" "conflicts_get cid d = Some conflict"
    "cc_status conflict = RESOLVED" "cc_version conflict = v"
    "update_with_version_check cid v (reopened_update now (cc_last_modified_note entity))
       (env (snd (reactivate_losers conflict d))) = Inr (Some uc, d3)"
    "reproject_event digest now (cc_event_id uc) (Some cid) None None False
       (log_activity now cid (cc_event_id conflict) (Some RESOLVED) OPEN USER (Some user)
          (or_default reason ''Conflict reopened by user'') (cc_version entity)
          [(''previous_winning_claim_id'',
            case cc_winning_claim_id conflict of Some w \<Rightarrow> [w] | None \<Rightarrow> []),
           (''reactivated_claim_ids'', map cl_id (fst (reactivate_losers conflict d)))]
          (fold (reactivated_history now user reason) (fst (reactivate_losers conflict d)) d3)) = Inr (p, d')"
proof -
  obtain user where u: "cu = Some user"
    using assms by (cases cu) (simp_all add: reopen_conflict_def)
  obtain conflict where c: "conflicts_get cid d = Some conflict"
    using assms u by (cases "conflicts_get cid d") (simp_all add: reopen_conflict_def)
  have st: "cc_status conflict = RESOLVED" "cc_version conflict = v"
    using assms u c by (simp_all add: reopen_conflict_def split: if_splits)
  obtain entity where e: "reopen_by_user now conflict (or_default reason ''Manual reopen'') = Inr entity"
    using st by (simp add: reopen_by_user_def)
  obtain r where r: "update_with_version_check cid v (reopened_update now (cc_last_modified_note entity))
       (env (snd (reactivate_losers conflict d))) = Inr r"
    using assms u c st e by (auto simp: reopen_conflict_def Let_def case_prod_beta)
  obtain uc' d3 where r': "r = (Some uc', d3)"
    using assms u c st e r
    by (cases r; cases "fst r") (simp_all add: reopen_conflict_def Let_def case_prod_beta)
  show thesis
    by (rule that [OF u c st, of entity d3])
      (use assms u c st e r r' in \<open>auto simp: reopen_conflict_def Let_def case_prod_beta\<close>)
qed

lemma reopened_update_ok: "conflict_ok c \<Longrightarrow> conflict_ok (reopened_update now note c)"
  by (simp add: conflict_ok_def reopened_update_def)

lemma fold_reactivated_frame:
  "db_claims (fold (reactivated_history now u reason) cs d) = db_claims d"
  "db_conflicts (fold (reactivated_history now u reason) cs d) = db_conflicts d"
  "db_conflict_claims (fold (reactivated_history now u reason) cs d) = db_conflict_claims d"
  "db_events (fold (reactivated_history now u reason) cs d) = db_events d"
  "db_projections (fold (reactivated_history now u reason) cs d) = db_projections d"
  "db_projection_history (fold (reactivated_history now u reason) cs d) = db_projection_history d"
  by (subst fold_log_frame; simp add: reactivated_history_def)+

lemma store_inv_fold_reactivated:
  "store_inv d \<Longrightarrow> store_inv (fold (reactivated_history now u reason) cs d)"
  by (rule fold_inv [where P = store_inv]) (simp_all add: reactivated_history_def store_inv_log_claim_history)

text \<open>The tables after a successful reopening without interference.\<close>

lemma reopen_effect:
  assumes "reopen_conflict digest now (\<lambda>d. d) cid v cu reason d = Inr (uc, p, d')" and "store_inv d"
  shows "\<exists>conflict. conflicts_get cid d = Some conflict \<and> cc_status conflict = RESOLVED
      \<and> cc_version conflict = v
      \<and> db_claims d' = (case cc_winning_claim_id conflict of
           None \<Rightarrow> db_claims d
         | Some w \<Rightarrow> row_update (reopened_claims conflict w d)
             (\<lambda>c. unsupersede (restore_type (db_claim_history d) (cl_id c)) c) (db_claims d))
      \<and> (\<exists>r. row_get cc_id cid (db_conflicts d') = Some r \<and> cc_status r = OPEN
           \<and> cc_winning_claim_id r = None \<and> cc_version r = v + 1
           \<and> cc_event_id r = cc_event_id conflict \<and> cc_field_name r = cc_field_name conflict)
      \<and> db_events d' = db_events d \<and> db_conflict_claims d' = db_conflict_claims d \<and> store_inv d'"
proof -
  obtain user conflict d3 and entity :: claim_conflict where c: "conflicts_get cid d = Some conflict"
    "cc_status conflict = RESOLVED" "cc_version conflict = v"
    and up: "update_with_version_check cid v (reopened_update now (cc_last_modified_note entity))
       (snd (reactivate_losers conflict d)) = Inr (Some uc, d3)"
    and rp: "reproject_event digest now (cc_event_id uc) (Some cid) None None False
       (log_activity now cid (cc_event_id conflict) (Some RESOLVED) OPEN USER (Some user)
          (or_default reason ''Conflict reopened by user'') (cc_version entity)
          [(''previous_winning_claim_id'',
            case cc_winning_claim_id conflict of Some w \<Rightarrow> [w] | None \<Rightarrow> []),
           (''reactivated_claim_ids'', map cl_id (fst (reactivate_losers conflict d)))]
          (fold (reactivated_history now user reason) (fst (reactivate_losers conflict d)) d3)) = Inr (p, d')"
    using assms(1) by (rule reopen_InrE)
  note A = reactivate_losers_effect [OF assms(2) c(1)]
  note R = read_model_onlyD [OF reproject_event_frame [OF rp]]
  let ?u = "reopened_update now (cc_last_modified_note entity)"
  obtain c0 where c0: "row_get cc_id cid (db_conflicts (snd (reactivate_losers conflict d))) = Some c0"
    and d3: "d3 = (snd (reactivate_losers conflict d))\<lparr>db_conflicts := row_update (\<lambda>r. cc_id r = cid)
        (\<lambda>_. (?u c0)\<lparr>cc_version := v + 1\<rparr>) (db_conflicts (snd (reactivate_losers conflict d)))\<rparr>"
    using up by (rule update_with_version_check_Some)
  have i3: "store_inv d3"
    using store_inv_update_with_version_check [OF up A(2)] reopened_update_ok
    by (simp add: reopened_update_def)
  have "conflict = with_links d c0" using c(1) c0 A(3) by (simp add: conflicts_get_def)
  then have ef: "cc_event_id c0 = cc_event_id conflict" "cc_field_name c0 = cc_field_name conflict" by simp_all
  have "row_get cc_id cid (db_conflicts d') = Some ((?u c0)\<lparr>cc_version := v + 1\<rparr>)"
    using row_get_replace [OF c0, of "(?u c0)\<lparr>cc_version := v + 1\<rparr>"] row_get_SomeD [OF c0]
    by (simp add: R(2) fold_reactivated_frame d3 reopened_update_def)
  then have "\<exists>r. row_get cc_id cid (db_conflicts d') = Some r \<and> cc_status r = OPEN
      \<and> cc_winning_claim_id r = None \<and> cc_version r = v + 1
      \<and> cc_event_id r = cc_event_id conflict \<and> cc_field_name r = cc_field_name conflict"
    using ef by (simp add: reopened_update_def)
  moreover have "store_inv d'"
    using store_inv_reproject_event [OF rp] store_inv_log_activity store_inv_fold_reactivated [OF i3] by blast
  moreover have "db_claims d' = (case cc_winning_claim_id conflict of
           None \<Rightarrow> db_claims d
         | Some w \<Rightarrow> row_update (reopened_claims conflict w d)
             (\<lambda>c. unsupersede (restore_type (db_claim_history d) (cl_id c)) c) (db_claims d))"
    using A(1) by (simp add: R(1) fold_reactivated_frame d3)
  moreover have "db_events d' = db_events d" "db_conflict_claims d' = db_conflict_claims d"
    by (simp_all add: R fold_reactivated_frame d3 A)
  ultimately show ?thesis using c by blast
qed

text \<open>Reopening a resolved conflict: when it succeeds the conflict is open again with the next version
  and no winner, the record computed for the event shows the field as disputed, every claim of
  this conflict that the previous winner had superseded is active again, and no other claim
  changes.\<close>

theorem reopen_sound:
  assumes "reopen_conflict digest now (\<lambda>d. d) cid v cu reason d = Inr (uc, p, d')" and "store_inv d"
    and "conflicts_get cid d = Some conflict" and "cc_winning_claim_id conflict = Some w"
    and "events_get (cc_event_id conflict) d = Some ev" and "\<not> is_merged ev"
  shows "(\<exists>r. row_get cc_id cid (db_conflicts d') = Some r \<and> cc_status r = OPEN
        \<and> cc_winning_claim_id r = None \<and> cc_version r = v + 1)
    \<and> map_of (pr_fields (expected_projection t (cc_event_id conflict) n d')) (cc_field_name conflict)
        = Some DISPUTED
    \<and> (\<forall>i c. claims_get i d = Some c \<longrightarrow>
        (if reopened_claims conflict w d c
         then (\<exists>c'. claims_get i d' = Some c' \<and> is_active c' \<and> cl_superseded_by_claim_id c' = None
                 \<and> cl_field_value c' = cl_field_value c)
         else claims_get i d' = Some c))
    \<and> store_inv d'"
proof -
  note E = reopen_effect [OF assms(1,2)]
  obtain r where r: "row_get cc_id cid (db_conflicts d') = Some r" "cc_status r = OPEN"
    "cc_winning_claim_id r = None" "cc_version r = v + 1"
    "cc_event_id r = cc_event_id conflict" "cc_field_name r = cc_field_name conflict"
    using E assms(3) by auto
  have cl: "db_claims d' = row_update (reopened_claims conflict w d)
      (\<lambda>c. unsupersede (restore_type (db_claim_history d) (cl_id c)) c) (db_claims d)"
    using E assms(3,4) by auto
  have ev: "events_get (cc_event_id conflict) d' = Some ev" using E assms(5) by (auto simp: events_get_def)
  have "with_links d' r \<in> set (conflicts_find_by_event (cc_event_id conflict) d')"
    using row_get_SomeD [OF r(1)] r(5) by (simp add: conflicts_find_by_event_def)
  then have "cc_field_name conflict
      \<in> open_field_names (cc_event_id conflict) (conflicts_find_by_event (cc_event_id conflict) d')"
    unfolding open_field_names_def using r by (intro CollectI exI [of _ "with_links d' r"]) simp
  then have "map_of (pr_fields (expected_projection t (cc_event_id conflict) n d')) (cc_field_name conflict)
      = Some DISPUTED"
    using ev assms(6) by (simp add: expected_projection_def build_fields projected_value_eq)
  moreover have "if reopened_claims conflict w d c
         then (\<exists>c'. claims_get i d' = Some c' \<and> is_active c' \<and> cl_superseded_by_claim_id c' = None
                 \<and> cl_field_value c' = cl_field_value c)
         else claims_get i d' = Some c" if "claims_get i d = Some c" for i c
  proof -
    have "claims_get i d' = map_option (\<lambda>c. if reopened_claims conflict w d c
        then unsupersede (restore_type (db_claim_history d) (cl_id c)) c else c) (claims_get i d)"
      unfolding claims_get_def cl by (rule row_get_update) simp
    then show ?thesis using that by (simp add: is_active_iff restore_type_active)
  qed
  ultimately show ?thesis using r(1-4) E by blast
qed

text \<open>Reopening the only conflict of the store succeeds when the history is behind the read model.\<close>

lemma reopen_succeeds:
  assumes "store_inv d" and "conflicts_get cid d = Some conflict" and "cc_status conflict = RESOLVED"
    and "\<forall>b \<in> set (db_conflicts d). cc_id b = cid"
    and "events_get (cc_event_id conflict) d \<noteq> None" and "history_behind (cc_event_id conflict) d"
  shows "\<exists>uc p d'. reopen_conflict digest now (\<lambda>d. d) cid (cc_version conflict) (Some u) reason d
    = Inr (uc, p, d')"
proof -
  let ?v = "cc_version conflict" and ?d1 = "snd (reactivate_losers conflict d)"
  note A = reactivate_losers_effect [OF assms(1,2)]
  obtain entity where e: "reopen_by_user now conflict (or_default reason ''Manual reopen'') = Inr entity"
    using assms(3) by (simp add: reopen_by_user_def)
  let ?u = "reopened_update now (cc_last_modified_note entity)"
  obtain c0 where c0: "row_get cc_id cid (db_conflicts d) = Some c0" "conflict = with_links d c0"
    using assms(2) by (auto simp: conflicts_get_def)
  have none: "filter (\<lambda>r. cc_id r \<noteq> cid) (db_conflicts d) = []"
    using assms(4) by (simp add: filter_empty_conv)
  have "\<exists>uc d3. update_with_version_check cid ?v ?u ?d1 = Inr (Some uc, d3)
      \<and> cc_event_id uc = cc_event_id conflict \<and> db_events d3 = db_events d
      \<and> db_projections d3 = db_projections d \<and> db_projection_history d3 = db_projection_history d"
  proof -
    have v: "cc_version c0 = ?v" "cc_event_id c0 = cc_event_id conflict" using c0(2) by simp_all
    show ?thesis
      unfolding update_with_version_check_def A(3) c0(1) option.case none Let_def
      by (simp add: v A(4-7) open_clash_def reopened_update_def)
  qed
  then obtain uc d3 where up: "update_with_version_check cid ?v ?u ?d1 = Inr (Some uc, d3)"
    and uc: "cc_event_id uc = cc_event_id conflict" "db_events d3 = db_events d"
      "db_projections d3 = db_projections d" "db_projection_history d3 = db_projection_history d" by blast
  let ?d5 = "log_activity now cid (cc_event_id conflict) (Some RESOLVED) OPEN USER (Some u)
          (or_default reason ''Conflict reopened by user'') (cc_version entity)
          [(''previous_winning_claim_id'',
            case cc_winning_claim_id conflict of Some w \<Rightarrow> [w] | None \<Rightarrow> []),
           (''reactivated_claim_ids'', map cl_id (fst (reactivate_losers conflict d)))]
          (fold (reactivated_history now u reason) (fst (reactivate_losers conflict d)) d3)"
  have "\<exists>p d'. reproject_event digest now (cc_event_id uc) (Some cid) None None False ?d5 = Inr (p, d')"
    using assms(5,6) uc
    by (intro reproject_succeeds)
      (simp_all add: events_get_def history_behind_def projections_get_def fold_reactivated_frame)
  then show ?thesis
    using assms(2,3) e up by (auto simp: reopen_conflict_def Let_def case_prod_beta)
qed

section \<open>Resolving and reopening is a round trip\<close>

lemma find_py_sorted_rev:
  assumes "find P (py_sorted_rev k xs) = Some h"
  shows "h \<in> set xs \<and> P h \<and> (\<forall>y \<in> set xs. P y \<longrightarrow> k y \<le> k h)"
proof -
  have "sorted_wrt (\<lambda>a b. k b \<le> k a) (py_sorted_rev k xs)"
    using sorted_sort_key [of k "rev xs"]
    by (simp add: py_sorted_rev_def sorted_wrt_rev sorted_map)
  moreover have "find P ys = Some h \<Longrightarrow> sorted_wrt (\<lambda>a b. k b \<le> k a) ys \<Longrightarrow>
      h \<in> set ys \<and> P h \<and> (\<forall>y \<in> set ys. P y \<longrightarrow> k y \<le> k h)" for ys
    by (induction ys) (auto split: if_splits)
  ultimately show ?thesis using assms by (metis set_py_sorted_rev)
qed

definition superseded_entries ::
  "time \<Rightarrow> (uuid \<rightharpoonup> claim_type) \<Rightarrow> claim list \<Rightarrow> claim_history list \<Rightarrow> bool" where
  "superseded_entries now types cs hs \<longleftrightarrow>
     map (\<lambda>h. (ch_claim_id h, ch_from_claim_type h, ch_to_claim_type h, ch_created_at h)) hs =
     map (\<lambda>c. (cl_id c, Some (case types (cl_id c) of Some t \<Rightarrow> t | None \<Rightarrow> cl_claim_type c),
               SUPERSEDED, now)) cs"

lemma fold_loser_history:
  "\<exists>hs. db_claim_history (fold (loser_history now u reason types) cs d) = db_claim_history d @ hs
     \<and> superseded_entries now types cs hs"
proof (induction cs arbitrary: d)
  case (Cons c cs)
  let ?d1 = "loser_history now u reason types c d"
  obtain h where h: "db_claim_history ?d1 = db_claim_history d @ [h]"
    "superseded_entries now types [c] [h]"
    by (simp add: loser_history_def log_claim_history_def claim_history_add_def superseded_entries_def)
  obtain hs where hs: "db_claim_history (fold (loser_history now u reason types) cs ?d1)
      = db_claim_history ?d1 @ hs" "superseded_entries now types cs hs"
    using Cons.IH [of ?d1] by blast
  show ?case
    by (rule exI [of _ "h # hs"]) (use h hs in \<open>simp add: superseded_entries_def\<close>)
qed (simp add: superseded_entries_def)

lemma superseded_entries_mem:
  assumes "superseded_entries now types cs hs"
  shows "c \<in> set cs \<Longrightarrow> \<exists>h \<in> set hs. ch_claim_id h = cl_id c \<and> ch_to_claim_type h = SUPERSEDED \<and> ch_created_at h = now"
    and "h \<in> set hs \<Longrightarrow> \<exists>c \<in> set cs. ch_claim_id h = cl_id c
      \<and> ch_from_claim_type h = Some (case types (cl_id c) of Some t \<Rightarrow> t | None \<Rightarrow> cl_claim_type c)"
proof -
  let ?g = "\<lambda>h. (ch_claim_id h, ch_from_claim_type h, ch_to_claim_type h, ch_created_at h)"
  let ?f = "\<lambda>c. (cl_id c, Some (case types (cl_id c) of Some t \<Rightarrow> t | None \<Rightarrow> cl_claim_type c),
      SUPERSEDED, now)"
  have "set (map ?g hs) = set (map ?f cs)"
    using assms unfolding superseded_entries_def by (rule arg_cong)
  then have img: "?g ` set hs = ?f ` set cs" unfolding set_map .
  show "\<exists>h \<in> set hs. ch_claim_id h = cl_id c \<and> ch_to_claim_type h = SUPERSEDED \<and> ch_created_at h = now"
    if "c \<in> set cs"
  proof -
    have "?f c \<in> ?g ` set hs" unfolding img using that by (rule imageI)
    then show ?thesis by auto
  qed
  show "\<exists>c \<in> set cs. ch_claim_id h = cl_id c
      \<and> ch_from_claim_type h = Some (case types (cl_id c) of Some t \<Rightarrow> t | None \<Rightarrow> cl_claim_type c)"
    if "h \<in> set hs"
  proof -
    have "?g h \<in> ?f ` set cs" unfolding img [symmetric] using that by (rule imageI)
    then show ?thesis by auto
  qed
qed

text \<open>The type restored is the one the newest supersession recorded.\<close>

lemma restore_type_recorded:
  assumes "\<forall>h \<in> set old. ch_to_claim_type h = SUPERSEDED \<longrightarrow> ch_created_at h < now" and "superseded_entries now types cs hs"
    and "c \<in> set cs" and "is_active c"
    and "\<And>b. b \<in> set cs \<Longrightarrow> cl_id b = cl_id c \<Longrightarrow> b = c"
    and "\<And>b. b \<in> set cs \<Longrightarrow> types (cl_id b) = Some (cl_claim_type b)"
  shows "restore_type (old @ hs) (cl_id c) = cl_claim_type c"
proof -
  let ?sup = "filter (\<lambda>h. ch_to_claim_type h = SUPERSEDED) (old @ hs)"
  let ?P = "\<lambda>h. ch_claim_id h = cl_id c"
  obtain h0 where h0: "h0 \<in> set hs" "?P h0" "ch_to_claim_type h0 = SUPERSEDED" "ch_created_at h0 = now"
    using superseded_entries_mem(1) [OF assms(2,3)] by blast
  then have "h0 \<in> set (py_sorted_rev ch_created_at ?sup)" by simp
  then obtain h where h: "find ?P (py_sorted_rev ch_created_at ?sup) = Some h"
    using h0(2) by (cases "find ?P (py_sorted_rev ch_created_at ?sup)") (auto simp: find_None_iff)
  note F = find_py_sorted_rev [OF h]
  have "h0 \<in> set ?sup" using h0 by simp
  then have "ch_created_at h0 \<le> ch_created_at h" using F h0(2) by blast
  then have "h \<notin> set old" using assms(1) h0(4) F by fastforce
  then have "h \<in> set hs" using F by simp
  then obtain b where b: "b \<in> set cs" "ch_claim_id h = cl_id b"
    "ch_from_claim_type h = Some (case types (cl_id b) of Some t \<Rightarrow> t | None \<Rightarrow> cl_claim_type b)"
    using superseded_entries_mem(2) [OF assms(2)] by blast
  then have "b = c" using F assms(5) by simp
  then have "ch_from_claim_type h = Some (cl_claim_type c)" using b assms(6) by simp
  then show ?thesis using h assms(4) by (simp add: restore_type_def is_active_iff)
qed

lemma supersede_losers_history:
  assumes "store_inv d"
    and "\<forall>h \<in> set (db_claim_history d). ch_to_claim_type h = SUPERSEDED \<longrightarrow> ch_created_at h < now"
    and "c \<in> set (db_claims d)" and "cl_id c \<in> losers cid w d" and "is_active c"
  shows "restore_type (db_claim_history (supersede_losers now cid w u reason d)) (cl_id c) = cl_claim_type c"
proof -
  let ?lost = "filter (\<lambda>i. i \<noteq> w) (get_claim_ids_for_conflict cid d)"
  let ?cand = "claims_get_many ?lost d"
  let ?types = "map_of (map (\<lambda>c. (cl_id c, cl_claim_type c)) ?cand)"
  let ?ids = "map cl_id (filter can_win ?cand)"
  let ?cs = "fst (bulk_supersede ?ids w d)"
  note dist = store_inv_distinct_claims [OF assms(1)]
  have inj: "inj_on cl_id (set (db_claims d))" using dist by (simp add: distinct_map)
  have cand: "set ?cand = {c \<in> set (db_claims d). cl_id c \<in> losers cid w d}"
    unfolding set_claims_get_many [OF dist] by (auto simp: losers_def set_get_claim_ids)
  then have cc: "c \<in> set ?cand" using assms(3,4) by simp
  then have "cl_id c \<in> set ?ids" using assms(5) by (simp add: can_win_is_active)
  then have mem: "c \<in> set ?cs" using assms(3,5) by (simp add: fst_bulk_supersede)
  have cs: "b \<in> set (db_claims d) \<and> is_active b \<and> cl_id b \<in> cl_id ` set ?cand" if "b \<in> set ?cs" for b
    using that by (auto simp: fst_bulk_supersede)
  have sub: "b \<in> set ?cand" if "b \<in> set ?cs" for b
    using cs [OF that] cand inj_onD [OF inj] by fastforce
  have "?types (cl_id b) = Some (cl_claim_type b)" if "b \<in> set ?cs" for b
  proof -
    have "inj_on cl_id (set ?cand)" using inj cand by (auto intro: inj_on_subset)
    then have "map_of (map (\<lambda>c. (cl_id c, cl_claim_type c)) xs) (cl_id b) = Some (cl_claim_type b)"
      if "set xs \<subseteq> set ?cand" "b \<in> set xs" for xs
      using that sub [OF \<open>b \<in> set ?cs\<close>] by (induction xs) (auto dest: inj_onD)
    then show ?thesis using sub [OF that] by blast
  qed
  moreover obtain hs where "db_claim_history (supersede_losers now cid w u reason d) = db_claim_history d @ hs"
    "superseded_entries now ?types ?cs hs"
    using fold_loser_history [of now u reason ?types ?cs "snd (bulk_supersede ?ids w d)"]
    by (auto simp: supersede_losers_def Let_def case_prod_beta)
  ultimately show ?thesis
    using restore_type_recorded [OF assms(2) _ mem assms(5), of ?types hs] cs inj_onD [OF inj] assms(3)
    by auto
qed

text \<open>Undoing the second half of a resolution, in favour of any winner \<open>w\<close>.\<close>

lemma reopen_restores:
  assumes up: "update_with_version_check cid v (resolved_update now w user (note_of reason)) d = Inr (Some uc, d3)"
    and rp: "reproject_event digest now (cc_event_id uc) (Some cid) None None False
       (log_activity now cid (cc_event_id uc) (Some OPEN) RESOLVED USER (Some user)
          (or_default reason ''Conflict resolved by user'') (v + 1) [(''winning_claim_id'', [w])]
          (supersede_losers now cid w user reason d3)) = Inr (p, d1)"
    and "reopen_conflict digest now' (\<lambda>d. d) cid (v + 1) cu' reason' d1 = Inr (uc', p', d2)"
    and "store_inv d"
    and "\<forall>h \<in> set (db_claim_history d). ch_to_claim_type h = SUPERSEDED \<longrightarrow> ch_created_at h < now"
    and "\<forall>c \<in> set (db_claims d). (cid, cl_id c) \<in> set (db_conflict_claims d) \<longrightarrow>
      cl_event_id c = cc_event_id uc \<and> cl_field_name c = cc_field_name uc
      \<and> cl_superseded_by_claim_id c \<noteq> Some w"
  shows "db_claims d2 = db_claims d"
proof -
  have i3: "store_inv d3"
    using store_inv_update_with_version_check [OF up assms(4)] resolved_update_ok
    by (simp add: resolved_update_def)
  obtain c0 where c0: "row_get cc_id cid (db_conflicts d) = Some c0"
    and uc: "uc = with_links d ((resolved_update now w user (note_of reason) c0)\<lparr>cc_version := v + 1\<rparr>)"
    and d3: "d3 = d\<lparr>db_conflicts := row_update (\<lambda>r. cc_id r = cid)
        (\<lambda>_. (resolved_update now w user (note_of reason) c0)\<lparr>cc_version := v + 1\<rparr>) (db_conflicts d)\<rparr>"
    using up by (rule update_with_version_check_Some)
  note L = supersede_losers_effect [OF i3, of now cid w user reason]
  note R = read_model_onlyD [OF reproject_event_frame [OF rp]]
  have d3s: "db_claims d3 = db_claims d" "db_conflict_claims d3 = db_conflict_claims d"
    "db_claim_history d3 = db_claim_history d" by (simp_all add: d3)
  have d1s: "db_conflicts d1 = db_conflicts d3" "db_conflict_claims d1 = db_conflict_claims d"
    "db_claim_history d1 = db_claim_history (supersede_losers now cid w user reason d3)"
    "db_claims d1 = row_update (\<lambda>c. cl_id c \<in> losers cid w d3 \<and> is_active c) (supersede w) (db_claims d)"
    using R(1,2,4,6) L(1-3) d3s by simp_all
  have "row_get cc_id cid (db_conflicts d1) = Some ((resolved_update now w user (note_of reason) c0)\<lparr>cc_version := v + 1\<rparr>)"
    using row_get_replace [OF c0, of "(resolved_update now w user (note_of reason) c0)\<lparr>cc_version := v + 1\<rparr>"]
      row_get_SomeD [OF c0] by (simp add: d1s d3 resolved_update_def)
  then obtain conf where conf: "conflicts_get cid d1 = Some conf" "cc_winning_claim_id conf = Some w"
    "cc_event_id conf = cc_event_id uc" "cc_field_name conf = cc_field_name uc" "cc_id conf = cid"
    using row_get_SomeD [OF c0] by (simp add: conflicts_get_def uc resolved_update_def)
  let ?sup = "\<lambda>c. if cl_id c \<in> losers cid w d3 \<and> is_active c then supersede w c else c"
  let ?undo = "\<lambda>c. if reopened_claims conf w d1 c
      then unsupersede (restore_type (db_claim_history d1) (cl_id c)) c else c"
  have "db_claims d1 = map ?sup (db_claims d)" by (simp add: d1s row_update_def)
  moreover have "store_inv d1" using store_inv_reproject_event [OF rp] store_inv_log_activity L(5) by blast
  then have "db_claims d2 = map ?undo (db_claims d1)"
    using reopen_effect [OF assms(3)] conf by (auto simp: row_update_def)
  moreover have "?undo (?sup c) = c" if c: "c \<in> set (db_claims d)" for c
  proof (cases "cl_id c \<in> losers cid w d3 \<and> is_active c")
    case True
    then have link: "(cid, cl_id c) \<in> set (db_conflict_claims d)" by (simp add: losers_def d3s)
    then have "reopened_claims conf w d1 (supersede w c)"
      using assms(6) c conf uc by (auto simp: reopened_claims_def d1s resolved_update_def)
    moreover have "restore_type (db_claim_history d1) (cl_id c) = cl_claim_type c"
      using supersede_losers_history [OF i3, of now c cid w user reason] assms(5) c True
      by (simp add: d1s d3s)
    moreover have "cl_superseded_by_claim_id c = None"
      using True c assms(4) by (auto simp: store_inv_def claims_inv_def claim_ok_def is_active_iff)
    ultimately show ?thesis using True by (cases c) (simp add: unsupersede_def supersede_def)
  next
    case False
    have "\<not> reopened_claims conf w d1 c"
      using assms(6) c conf uc by (auto simp: reopened_claims_def d1s resolved_update_def)
    then show ?thesis using False by (simp only: if_False)
  qed
  ultimately show ?thesis by (simp add: map_idI)
qed

lemma resolved_winner_of:
  assumes "update_with_version_check cid v (resolved_update now w user note') d = Inr (Some uc, d3)"
  shows "cc_winning_claim_id uc = Some w"
  using assms by (rule update_with_version_check_Some) (simp add: resolved_update_def)

lemma resolved_key:
  assumes "update_with_version_check cid v (resolved_update now w user note') d = Inr (Some uc, d3)"
  shows "\<exists>r. row_get cc_id cid (db_conflicts d) = Some r \<and> cc_event_id uc = cc_event_id r \<and> cc_field_name uc = cc_field_name r"
  using assms by (rule update_with_version_check_Some) (auto simp: resolved_update_def)

text \<open>Where a successful resolution writes: after the override claim, if there is one, it goes on as with a claim.\<close>

lemma resolve_InrE:
  assumes "resolve_conflict digest cur now (\<lambda>d. d) cid v win value given cu reason d = Inr (uc, p, d')"
  obtains (claim) w where "win = Some w" "value = JNull" "\<not> given"
  | (override) user conflict d1 d3 where "win = None" "cu = Some user" "conflicts_get cid d = Some conflict"
      "cc_status conflict = OPEN" "create_override now cur conflict value user reason d = Inr (db_next d, add_claim_id (db_next d) conflict, d1)"
      "update_with_version_check cid v (resolved_update now (db_next d) user (note_of reason)) d1 = Inr (Some uc, d3)"
      "reproject_event digest now (cc_event_id uc) (Some cid) None None False
         (log_activity now cid (cc_event_id uc) (Some OPEN) RESOLVED USER (Some user)
            (or_default reason ''Conflict resolved by user'') (v + 1) [(''winning_claim_id'', [db_next d])]
            (supersede_losers now cid (db_next d) user reason d3)) = Inr (p, d')"
proof (cases win)
  case (Some w)
  then show ?thesis using assms claim by (cases "given \<or> value \<noteq> JNull") (auto simp: resolve_conflict_def)
next
  case None
  have sel: "(given \<or> value \<noteq> JNull) = True" using assms None by (cases "given \<or> value \<noteq> JNull") (simp_all add: resolve_conflict_def)
  note run = assms [unfolded resolve_conflict_def None sel Let_def, simplified]
  obtain user conflict where u: "cu = Some user" and c: "conflicts_get cid d = Some conflict"
    and st: "cc_status conflict = OPEN" "cc_version conflict = v"
    using run by (auto split: option.splits if_splits)
  obtain c' d1 where ov: "create_override now cur conflict value user reason d = Inr (db_next d, c', d1)"
    and c': "c' = add_claim_id (db_next d) conflict"
    using run u c st
    by (cases "sources_get cur d") (auto simp: create_override_def Let_def uuid4_def)
  obtain entity updated d3 where
    ent: "conflict_resolve now c' (db_next d) user reason = Inr entity"
    and up: "update_with_version_check cid v
        (resolved_update now (db_next d) user (cc_last_modified_note entity)) d1 = Inr (Some updated, d3)"
    and rest: "uc = updated" "reproject_event digest now (cc_event_id updated) (Some cid) None None False
       (log_activity now cid (cc_event_id updated) (Some OPEN) RESOLVED USER (Some user)
          (or_default reason ''Conflict resolved by user'') (cc_version entity)
          [(''winning_claim_id'', [db_next d])] (supersede_losers now cid (db_next d) user reason d3)) = Inr (p, d')"
    using run u c st ov by (auto split: option.splits)
  have "cc_version c' = v" using st by (simp add: c' add_claim_id_def)
  then have "cc_version entity = v + 1" "cc_last_modified_note entity = note_of reason"
    using conflict_resolve_InrD [OF ent] by simp_all
  then show ?thesis
    using override [OF None u c st(1), of d1 d3] ov c' up rest by simp
qed

lemma create_override_effect:
  assumes "create_override now cur conflict value user reason d = Inr (w, conflict', d1)" and "store_inv d"
  obtains n where "db_claims d1 = db_claims d @ [n]" "cl_id n = db_next d" "cl_event_id n = cc_event_id conflict"
    "cl_field_name n = cc_field_name conflict" "cl_field_value n = value" "cl_claim_type n = MANUAL_OVERRIDE"
    "cl_superseded_by_claim_id n = None" "store_inv d1"
    "set (db_conflict_claims d1) = insert (cc_id conflict, db_next d) (set (db_conflict_claims d))"
    "\<forall>h \<in> set (db_claim_history d1). ch_to_claim_type h = SUPERSEDED \<longrightarrow> h \<in> set (db_claim_history d)"
    "db_conflicts d1 = db_conflicts d"
proof -
  obtain src where src: "sources_get cur d = Some src"
    using assms(1) by (auto simp: create_override_def split: option.splits)
  let ?n = "\<lparr>cl_id = db_next d, cl_event_id = cc_event_id conflict, cl_source_id = src_id src,
      cl_raw_snapshot_id = None, cl_field_name = cc_field_name conflict, cl_field_value = value,
      cl_claim_type = MANUAL_OVERRIDE, cl_created_at = now, cl_created_by = Some user,
      cl_superseded_by_claim_id = None\<rparr>"
  have d1: "d1 = add_claim_to_conflict (cc_id conflict) (db_next d)
      (log_claim_history now (db_next d) (cc_event_id conflict) None (Some value) None MANUAL_OVERRIDE ''created''
        (or_default reason ''Manual override created during conflict resolution'') USER (Some user)
        (claims_add ?n (snd (uuid4 d))))"
    using assms(1) src by (auto simp: create_override_def Let_def case_prod_beta)
  show ?thesis
  proof (rule that [of ?n])
    show "store_inv d1" unfolding d1
      by (intro store_inv_add_claim_to_conflict store_inv_log_claim_history store_inv_claims_add assms(2))
        (simp_all add: claim_ok_def)
  qed (auto simp: d1 add_claim_to_conflict_def log_claim_history_def claim_history_add_def claims_add_def
      is_active_iff)
qed

text \<open>C14: Resolving a conflict and then reopening it, with no other transaction in between, restores every
  claim exactly, with the type it had: a confirmed claim comes back confirmed, not raw.  A resolution with one
  of the claims leaves no trace in the claims; one with a manual value leaves its override as the only new
  claim, still active.  The clock is assumed to have advanced since the last supersession, the claims
  linked to the conflict to be claims of its event and field, and none of them to have been superseded by
  the winner before.\<close>

theorem resolve_reopen_round_trip:
  assumes "resolve_conflict digest cur now (\<lambda>d. d) cid v win value given cu reason d = Inr (uc, p, d1)"
    and "reopen_conflict digest now' (\<lambda>d. d) cid (v + 1) cu' reason' d1 = Inr (uc', p', d2)"
    and "store_inv d"
    and "\<forall>h \<in> set (db_claim_history d). ch_to_claim_type h = SUPERSEDED \<longrightarrow> ch_created_at h < now"
    and "\<forall>c \<in> set (db_claims d). (cid, cl_id c) \<in> set (db_conflict_claims d) \<longrightarrow>
      cl_event_id c = cc_event_id uc \<and> cl_field_name c = cc_field_name uc
      \<and> cl_superseded_by_claim_id c \<noteq> cc_winning_claim_id uc"
  shows "case win of
      Some w \<Rightarrow> db_claims d2 = db_claims d
    | None \<Rightarrow> (\<exists>n. db_claims d2 = db_claims d @ [n] \<and> is_active n \<and> cl_claim_type n = MANUAL_OVERRIDE
        \<and> cl_field_value n = value \<and> cl_event_id n = cc_event_id uc \<and> cl_field_name n = cc_field_name uc)"
  using assms(1)
proof (cases rule: resolve_InrE)
  case (claim w)
  obtain user conflict d3 where
    up: "update_with_version_check cid v (resolved_update now w user (note_of reason)) d = Inr (Some uc, d3)"
    and rp: "reproject_event digest now (cc_event_id uc) (Some cid) None None False
       (log_activity now cid (cc_event_id uc) (Some OPEN) RESOLVED USER (Some user)
          (or_default reason ''Conflict resolved by user'') (v + 1) [(''winning_claim_id'', [w])]
          (supersede_losers now cid w user reason d3)) = Inr (p, d1)"
    using assms(1) claim by (auto elim: resolve_with_claim_InrE)
  have "cc_winning_claim_id uc = Some w" by (rule resolved_winner_of [OF up])
  then show ?thesis using reopen_restores [OF up rp assms(2-4)] assms(5) claim(1) by simp
next
  case (override user conflict d0 d3)
  let ?w = "db_next d"
  have id: "cc_id conflict = cid" using conflicts_get_SomeD [OF override(3)] by blast
  have w: "cc_winning_claim_id uc = Some ?w" by (rule resolved_winner_of [OF override(6)])
  obtain n where n: "db_claims d0 = db_claims d @ [n]" "cl_id n = ?w" "cl_event_id n = cc_event_id conflict"
    "cl_field_name n = cc_field_name conflict" "cl_field_value n = value" "cl_claim_type n = MANUAL_OVERRIDE"
    "cl_superseded_by_claim_id n = None" and inv: "store_inv d0"
    and links: "set (db_conflict_claims d0) = insert (cc_id conflict, ?w) (set (db_conflict_claims d))"
    and hist: "\<forall>h \<in> set (db_claim_history d0). ch_to_claim_type h = SUPERSEDED \<longrightarrow> h \<in> set (db_claim_history d)"
    and same: "db_conflicts d0 = db_conflicts d"
    by (rule create_override_effect [OF override(5) assms(3)])
  have uc: "cc_event_id uc = cc_event_id conflict" "cc_field_name uc = cc_field_name conflict"
    using resolved_key [OF override(6)] override(3) same by (auto simp: conflicts_get_def)
  have "cl_id c \<noteq> ?w" if "c \<in> set (db_claims d)" for c
    using that assms(3) by (auto simp: store_inv_def claims_inv_def ids_below_def)
  then have "\<forall>c \<in> set (db_claims d0). (cid, cl_id c) \<in> set (db_conflict_claims d0) \<longrightarrow>
      cl_event_id c = cc_event_id uc \<and> cl_field_name c = cc_field_name uc \<and> cl_superseded_by_claim_id c \<noteq> Some ?w"
    using assms(5) n uc w links id by auto
  then have "db_claims d2 = db_claims d0"
    using reopen_restores [OF override(6,7) assms(2) inv] hist assms(4) by blast
  then show ?thesis using n uc override(1) by (auto simp: is_active_iff)
qed

text \<open>The example store after its resolution, ready to be reopened.\<close>

lemma resolved_conflict_db:
  assumes "resolve_conflict digest 3 10 (\<lambda>d. d) 9 1 (Some 5) JNull False (Some 7) [] conflict_db
    = Inr (uc, p, d')"
  shows "store_inv d'" and "cc_event_id uc = 1" and "cc_field_name uc = ''operator''"
    and "\<exists>c. conflicts_get 9 d' = Some c \<and> cc_status c = RESOLVED \<and> cc_version c = 2
      \<and> cc_winning_claim_id c = Some 5 \<and> cc_event_id c = 1"
    and "\<forall>b \<in> set (db_conflicts d'). cc_id b = 9"
    and "db_events d' = [sample_event None]" and "history_behind 1 d'" and "cc_winning_claim_id uc = Some 5"
proof -
  obtain user conflict d3 where
    up: "update_with_version_check 9 1 (resolved_update 10 5 user (note_of [])) conflict_db = Inr (Some uc, d3)"
    and rp: "reproject_event digest 10 (cc_event_id uc) (Some 9) None None False
       (log_activity 10 9 (cc_event_id uc) (Some OPEN) RESOLVED USER (Some user)
          (or_default [] ''Conflict resolved by user'') (1 + 1) [(''winning_claim_id'', [5])]
          (supersede_losers 10 9 5 user [] d3)) = Inr (p, d')"
    using assms by (rule resolve_with_claim_InrE)
  show "store_inv d'" using resolve_with_claim_effect [OF assms conflict_db_inv] by blast
  show "cc_winning_claim_id uc = Some 5" by (rule resolved_winner_of [OF up])
  have i3: "store_inv d3"
    using store_inv_update_with_version_check [OF up conflict_db_inv] resolved_update_ok
    by (simp add: resolved_update_def)
  show uc: "cc_event_id uc = 1" "cc_field_name uc = ''operator''"
    using up by (auto simp: update_with_version_check_def conflict_db_eval Let_def resolved_update_def
        split: if_splits)
  have d3: "map (\<lambda>b. (cc_id b, cc_status b, cc_version b, cc_winning_claim_id b, cc_event_id b))
        (db_conflicts d3) = [(9, RESOLVED, 2, Some 5, 1)]"
      "db_events d3 = [sample_event None]" "db_projections d3 = []" "db_projection_history d3 = []"
    using up by (auto simp: update_with_version_check_def conflict_db_eval Let_def resolved_update_def
        split: if_splits)
  note R = read_model_onlyD [OF reproject_event_frame [OF rp]]
  note L = supersede_losers_effect [OF i3, of 10 9 5 user "[]"]
  have cs: "db_conflicts d' = db_conflicts d3" using R(2) L(2) by simp
  then show "\<forall>b \<in> set (db_conflicts d'). cc_id b = 9" using d3(1) by auto
  show "\<exists>c. conflicts_get 9 d' = Some c \<and> cc_status c = RESOLVED \<and> cc_version c = 2
      \<and> cc_winning_claim_id c = Some 5 \<and> cc_event_id c = 1"
    using d3(1) by (auto simp: cs conflicts_get_def)
  show "db_events d' = [sample_event None]" using R(3) L(4) d3(2) by simp
  have "db_projection_history (supersede_losers n i w u r d) = db_projection_history d" for n i w u r d
    unfolding supersede_losers_def Let_def case_prod_beta
    by (subst fold_log_frame(8)) (simp_all add: loser_history_def)
  then show "history_behind 1 d'"
    using reproject_history_behind [OF rp] d3 uc by (simp add: history_behind_def)
qed

lemma reopen_resolved_conflict_db:
  assumes "resolve_conflict digest 3 10 (\<lambda>d. d) 9 1 (Some 5) JNull False (Some 7) [] conflict_db
    = Inr (uc, p, d')"
  shows "\<exists>uc' p' d2. reopen_conflict digest 20 (\<lambda>d. d) 9 2 (Some 7) [] d' = Inr (uc', p', d2)"
proof -
  note R = resolved_conflict_db [OF assms]
  obtain c where "conflicts_get 9 d' = Some c" "cc_status c = RESOLVED" "cc_version c = 2" "cc_event_id c = 1"
    using R(4) by blast
  then show ?thesis
    using reopen_succeeds [OF R(1) _ _ R(5), of c digest 20 7 "[]"] R(6,7)
    by (simp add: events_get_def sample_event_def)
qed

theorem reopen_sound_witness:
  "\<exists>uc p d' uc' p' d2.
     resolve_conflict (\<lambda>_. []) 3 10 (\<lambda>d. d) 9 1 (Some 5) JNull False (Some 7) [] conflict_db = Inr (uc, p, d')
     \<and> reopen_conflict (\<lambda>_. []) 20 (\<lambda>d. d) 9 2 (Some 7) [] d' = Inr (uc', p', d2)
     \<and> (\<exists>r. row_get cc_id 9 (db_conflicts d2) = Some r \<and> cc_status r = OPEN \<and> cc_version r = 3)"
proof -
  obtain uc p d' where
    r: "resolve_conflict (\<lambda>_. []) 3 10 (\<lambda>d. d) 9 1 (Some 5) JNull False (Some 7) [] conflict_db = Inr (uc, p, d')"
    using resolve_conflict_db by blast
  note R = resolved_conflict_db [OF r]
  obtain uc' p' d2 where o: "reopen_conflict (\<lambda>_. []) 20 (\<lambda>d. d) 9 2 (Some 7) [] d' = Inr (uc', p', d2)"
    using reopen_resolved_conflict_db [OF r] by blast
  obtain c where c: "conflicts_get 9 d' = Some c" "cc_winning_claim_id c = Some 5" "cc_event_id c = 1"
    using R(4) by blast
  have "events_get (cc_event_id c) d' = Some (sample_event None)" "\<not> is_merged (sample_event None)"
    using R(6) c(3) by (simp_all add: events_get_def sample_event_def is_merged_def)
  then have "\<exists>r. row_get cc_id 9 (db_conflicts d2) = Some r \<and> cc_status r = OPEN
      \<and> cc_winning_claim_id r = None \<and> cc_version r = 2 + 1"
    using reopen_sound [OF o R(1) c(1,2)] by blast
  then show ?thesis using r o by auto
qed

theorem resolve_reopen_round_trip_witness:
  "\<exists>uc p d' uc' p' d2.
     resolve_conflict (\<lambda>_. []) 3 10 (\<lambda>d. d) 9 1 (Some 5) JNull False (Some 7) [] conflict_db = Inr (uc, p, d')
     \<and> reopen_conflict (\<lambda>_. []) 20 (\<lambda>d. d) 9 2 (Some 7) [] d' = Inr (uc', p', d2)
     \<and> db_claims d2 = db_claims conflict_db"
proof -
  obtain uc p d' where
    r: "resolve_conflict (\<lambda>_. []) 3 10 (\<lambda>d. d) 9 1 (Some 5) JNull False (Some 7) [] conflict_db = Inr (uc, p, d')"
    using resolve_conflict_db by blast
  note R = resolved_conflict_db [OF r]
  obtain uc' p' d2 where o: "reopen_conflict (\<lambda>_. []) 20 (\<lambda>d. d) 9 (1 + 1) (Some 7) [] d' = Inr (uc', p', d2)"
    using reopen_resolved_conflict_db [OF r] by auto
  have hyps: "\<forall>h \<in> set (db_claim_history conflict_db). ch_to_claim_type h = SUPERSEDED \<longrightarrow> ch_created_at h < 10"
    "\<forall>c \<in> set (db_claims conflict_db). (9, cl_id c) \<in> set (db_conflict_claims conflict_db) \<longrightarrow>
      cl_event_id c = cc_event_id uc \<and> cl_field_name c = cc_field_name uc
      \<and> cl_superseded_by_claim_id c \<noteq> cc_winning_claim_id uc"
    unfolding R(2,3,8) by (simp_all add: conflict_db_eval)
  have "db_claims d2 = db_claims conflict_db"
    using resolve_reopen_round_trip [OF r o conflict_db_inv hyps] by simp
  then show ?thesis using r o by auto
qed

end
