(* ===== verification/Outbox.thy ===== *)
theory Outbox
  imports Reproject
begin

text \<open>
  The transactional outbox: the statements of \<open>infrastructure/db/repositories/outbox.py\<close> and the
  worker of \<open>infrastructure/event_bus/outbox_worker.py\<close> that leases events, processes each in a
  transaction of its own, retries failures with capped exponential backoff, dead-letters exhausted
  events and recovers the locks of crashed workers.  A step relation interleaves any number of
  workers with the transactions that enqueue events.

  The tenant-side Echo matching (\<open>RunEchoCrossReference\<close>) is an argument \<open>run_echo\<close>: it reads the
  public store and updates the tenant's cross-reference rows, or raises.  \<open>str_exc\<close> is \<open>str(exc)\<close>.
\<close>

section \<open>Timestamps as text\<close>

text \<open>Year, month and day of a day number counted from 1970-01-01.\<close>

definition civil_from_days :: "int \<Rightarrow> int \<times> int \<times> int" where
  "civil_from_days z0 =
     (let z = z0 + 719468; era = z div 146097; doe = z - era * 146097;
          yoe = (doe - doe div 1460 + doe div 36524 - doe div 146096) div 365;
          doy = doe - (365 * yoe + yoe div 4 - yoe div 100);
          mp = (5 * doy + 2) div 153; day = doy - (153 * mp + 2) div 5 + 1;
          m = (if mp < 10 then mp + 3 else mp - 9)
      in (yoe + era * 400 + (if m \<le> 2 then 1 else 0), m, day))"

definition zfill :: "nat \<Rightarrow> int \<Rightarrow> string" where
  "zfill w n = (let s = str_of_nat (nat n) in replicate (w - length s) (CHR ''0'') @ s)"

text \<open>\<open>datetime.isoformat()\<close> of a UTC time in microseconds.\<close>

definition isoformat :: "time \<Rightarrow> string" where
  "isoformat t =
     (let us = t mod 1000000; secs = t div 1000000; sod = secs mod 86400;
          (y, m, d) = civil_from_days (secs div 86400)
      in zfill 4 y @ ''-'' @ zfill 2 m @ ''-'' @ zfill 2 d @ ''T'' @ zfill 2 (sod div 3600) @ '':''
         @ zfill 2 (sod div 60 mod 60) @ '':'' @ zfill 2 (sod mod 60)
         @ (if us = 0 then [] else ''.'' @ zfill 6 us) @ ''+00:00'')"

section \<open>The repository\<close>

definition outbox_add :: "outbox_event \<Rightarrow> db \<Rightarrow> db" where
  "outbox_add e d = d\<lparr>db_outbox := db_outbox d @ [e]\<rparr>"

text \<open>The defaults of \<open>OutboxEvent(...)\<close>.\<close>

definition new_outbox_event ::
  "time \<Rightarrow> uuid \<Rightarrow> string \<Rightarrow> uuid \<Rightarrow> (string \<times> uuid) list \<Rightarrow> outbox_event" where
  "new_outbox_event now i event_type aggregate_id payload =
     \<lparr>ob_id = i, ob_event_type = event_type, ob_aggregate_id = aggregate_id, ob_payload = payload,
      ob_status = PENDING, ob_attempt_count = 0, ob_locked_at = None, ob_locked_by = None,
      ob_last_error = None, ob_next_attempt_at = None, ob_created_at = now, ob_processed_at = None\<rparr>"

text \<open>
  The two candidate queries and the final selection of \<open>fetch_and_lock_pending\<close>.  \<open>busy\<close> are the
  rows other transactions hold locked, which \<open>SKIP LOCKED\<close> leaves out.
\<close>

definition pending_candidates :: "nat \<Rightarrow> uuid list \<Rightarrow> outbox_event list \<Rightarrow> outbox_event list" where
  "pending_candidates limit busy rows =
     take limit (sort_key (\<lambda>e. (ob_created_at e, ob_id e))
       (filter (\<lambda>e. ob_status e = PENDING \<and> ob_id e \<notin> set busy) rows))"

definition nulls_first :: "time option \<Rightarrow> bool \<times> time" where
  "nulls_first t = (case t of None \<Rightarrow> (False, 0) | Some x \<Rightarrow> (True, x))"

definition failed_candidates ::
  "time \<Rightarrow> nat \<Rightarrow> nat \<Rightarrow> uuid list \<Rightarrow> outbox_event list \<Rightarrow> outbox_event list" where
  "failed_candidates now limit max_attempts busy rows =
     take limit (sort_key (\<lambda>e. (nulls_first (ob_next_attempt_at e), ob_created_at e, ob_id e))
       (filter (\<lambda>e. ob_status e = FAILED \<and> ob_attempt_count e < max_attempts
                  \<and> (case ob_next_attempt_at e of None \<Rightarrow> True | Some t \<Rightarrow> t \<le> now)
                  \<and> ob_id e \<notin> set busy) rows))"

definition selected_ids ::
  "time \<Rightarrow> nat \<Rightarrow> nat \<Rightarrow> uuid list \<Rightarrow> outbox_event list \<Rightarrow> uuid list" where
  "selected_ids now limit max_attempts busy rows =
     map ob_id (take limit (sort_key (\<lambda>e. (ob_created_at e, ob_id e))
       (pending_candidates limit busy rows @ failed_candidates now limit max_attempts busy rows)))"

definition lock_row :: "time \<Rightarrow> string \<Rightarrow> outbox_event \<Rightarrow> outbox_event" where
  "lock_row now worker_id e =
     e\<lparr>ob_status := PROCESSING, ob_locked_at := Some now, ob_locked_by := Some worker_id,
       ob_attempt_count := ob_attempt_count e + 1\<rparr>"

definition fetch_and_lock_pending ::
  "time \<Rightarrow> nat \<Rightarrow> string \<Rightarrow> nat \<Rightarrow> uuid list \<Rightarrow> db \<Rightarrow> outbox_event list \<times> db" where
  "fetch_and_lock_pending now limit worker_id max_attempts busy d =
     (let ids = selected_ids now limit max_attempts busy (db_outbox d);
          hit = (\<lambda>e. ob_id e \<in> set ids)
      in (map (lock_row now worker_id) (filter hit (db_outbox d)),
          d\<lparr>db_outbox := row_update hit (lock_row now worker_id) (db_outbox d)\<rparr>))"

text \<open>\<open>expected\<close> carries both fencing arguments, or neither.\<close>

definition owns_lease :: "(string \<times> nat) option \<Rightarrow> outbox_event \<Rightarrow> bool" where
  "owns_lease expected e =
     (case expected of
        None \<Rightarrow> True
      | Some (w, n) \<Rightarrow> ob_status e = PROCESSING \<and> ob_locked_by e = Some w \<and> ob_attempt_count e = n)"

definition set_status ::
  "time \<Rightarrow> outbox_status \<Rightarrow> nat \<Rightarrow> string option \<Rightarrow> time option \<Rightarrow> outbox_event \<Rightarrow> outbox_event" where
  "set_status now status attempt_count last_error next_attempt_at e =
     e\<lparr>ob_status := status, ob_attempt_count := attempt_count, ob_last_error := last_error,
       ob_next_attempt_at := next_attempt_at, ob_locked_at := None, ob_locked_by := None,
       ob_processed_at := (if status = PROCESSED then Some now else ob_processed_at e)\<rparr>"

definition update_status ::
  "time \<Rightarrow> uuid \<Rightarrow> outbox_status \<Rightarrow> nat \<Rightarrow> string option \<Rightarrow> time option \<Rightarrow> (string \<times> nat) option
     \<Rightarrow> db \<Rightarrow> bool \<times> db" where
  "update_status now event_id status attempt_count last_error next_attempt_at expected d =
     (let hit = (\<lambda>e. ob_id e = event_id \<and> owns_lease expected e)
      in (list_ex hit (db_outbox d),
          d\<lparr>db_outbox := row_update hit
               (set_status now status attempt_count last_error next_attempt_at) (db_outbox d)\<rparr>))"

definition stale_lock :: "time \<Rightarrow> outbox_event \<Rightarrow> bool" where
  "stale_lock cutoff e \<longleftrightarrow> ob_status e = PROCESSING
     \<and> (case ob_locked_at e of Some t \<Rightarrow> t < cutoff | None \<Rightarrow> False)"

definition requeue_row :: "outbox_event \<Rightarrow> outbox_event" where
  "requeue_row e = e\<lparr>ob_status := PENDING, ob_locked_at := None, ob_locked_by := None,
                     ob_next_attempt_at := None\<rparr>"

definition dead_letter_row :: "string \<Rightarrow> outbox_event \<Rightarrow> outbox_event" where
  "dead_letter_row suffix e =
     e\<lparr>ob_status := DEAD_LETTER, ob_locked_at := None, ob_locked_by := None,
       ob_next_attempt_at := None,
       ob_last_error := Some ((case ob_last_error e of Some s \<Rightarrow> s | None \<Rightarrow> []) @ suffix)\<rparr>"

definition requeue_stale_locked_with_dead_letters ::
  "time \<Rightarrow> nat \<Rightarrow> nat \<Rightarrow> db \<Rightarrow> (nat \<times> outbox_event list) \<times> db" where
  "requeue_stale_locked_with_dead_letters now stale_after_minutes max_attempts d =
     (let cutoff = now - int stale_after_minutes * 60 * 1000000;
          retry = (\<lambda>e. stale_lock cutoff e \<and> ob_attempt_count e < max_attempts);
          requeued = length (filter retry (db_outbox d));
          rows = row_update retry requeue_row (db_outbox d);
          suffix = '' [stale lock dead-lettered at '' @ isoformat now @ '']'';
          dead = (\<lambda>e. stale_lock cutoff e \<and> max_attempts \<le> ob_attempt_count e);
          deadlettered = map (dead_letter_row suffix) (filter dead rows)
      in ((requeued + length deadlettered, deadlettered),
          d\<lparr>db_outbox := row_update dead (dead_letter_row suffix) rows\<rparr>))"

definition requeue_stale_locked :: "time \<Rightarrow> nat \<Rightarrow> nat \<Rightarrow> db \<Rightarrow> nat \<times> db" where
  "requeue_stale_locked now stale_after_minutes max_attempts d =
     (let ((count, _), d') = requeue_stale_locked_with_dead_letters now stale_after_minutes max_attempts d
      in (count, d'))"

definition count_by_status :: "outbox_status \<Rightarrow> db \<Rightarrow> nat" where
  "count_by_status status d = length (filter (\<lambda>e. ob_status e = status) (db_outbox d))"

section \<open>The tenant's cross-reference results\<close>

datatype crossref_result_status = XR_PENDING | XR_COMPLETE | XR_FAILED

record tenant_crossref_result =
  xr_id :: uuid
  xr_tenant_id :: uuid
  xr_safety_report_id :: "uuid option"
  xr_claim_id :: "uuid option"
  xr_status :: crossref_result_status
  xr_matches_json :: "json list"
  xr_matcher_config_json :: "(string \<times> json) list"
  xr_match_count :: nat
  xr_requested_at :: time
  xr_completed_at :: "time option"
  xr_error_detail :: "string option"

type_synonym crossrefs = "tenant_crossref_result list"

definition crossref_get :: "uuid \<Rightarrow> uuid \<Rightarrow> crossrefs \<Rightarrow> tenant_crossref_result option" where
  "crossref_get tenant_id result_id xs =
     find (\<lambda>r. xr_id r = result_id \<and> xr_tenant_id r = tenant_id) xs"

definition crossref_mark_failed :: "uuid \<Rightarrow> uuid \<Rightarrow> string \<Rightarrow> time \<Rightarrow> crossrefs \<Rightarrow> crossrefs" where
  "crossref_mark_failed tenant_id result_id error_detail completed_at xs =
     row_update (\<lambda>r. xr_id r = result_id \<and> xr_tenant_id r = tenant_id \<and> xr_status r = XR_PENDING)
       (\<lambda>r. r\<lparr>xr_status := XR_FAILED, xr_error_detail := Some error_detail,
              xr_completed_at := Some completed_at\<rparr>) xs"

section \<open>The worker\<close>

definition MAX_BACKOFF_SECONDS :: nat where
  "MAX_BACKOFF_SECONDS = 1800"

definition next_attempt_at :: "time \<Rightarrow> nat \<Rightarrow> time" where
  "next_attempt_at now attempt_count = now + int (min (2 ^ attempt_count) MAX_BACKOFF_SECONDS) * 1000000"

definition ECHO_CROSSREF_REQUESTED :: string where
  "ECHO_CROSSREF_REQUESTED = ''ECHO_CROSSREF_REQUESTED''"

definition CLAIMS_UPDATED :: string where
  "CLAIMS_UPDATED = ''CLAIMS_UPDATED''"

text \<open>\<open>_mark_echo_result_failed\<close>: a malformed payload is logged and ignored.\<close>

definition mark_echo_result_failed :: "time \<Rightarrow> outbox_event \<Rightarrow> string \<Rightarrow> crossrefs \<Rightarrow> crossrefs" where
  "mark_echo_result_failed now event err xs =
     (case (map_of (ob_payload event) ''tenant_id'', map_of (ob_payload event) ''crossref_result_id'') of
        (Some t, Some r) \<Rightarrow>
          crossref_mark_failed t r (''Echo worker exhausted retry budget: '' @ err) now xs
      | _ \<Rightarrow> xs)"

definition mark_failed ::
  "time \<Rightarrow> nat \<Rightarrow> string \<Rightarrow> outbox_event \<Rightarrow> string \<Rightarrow> db \<times> crossrefs \<Rightarrow> db \<times> crossrefs" where
  "mark_failed now max_attempts worker_id event err s =
     (let (d, xs) = s;
          exhausted = max_attempts \<le> ob_attempt_count event;
          new_status = (if exhausted then DEAD_LETTER else FAILED);
          next_at = (if exhausted then None else Some (next_attempt_at now (ob_attempt_count event)));
          (applied, d') = update_status now (ob_id event) new_status (ob_attempt_count event)
                            (Some err) next_at (Some (worker_id, ob_attempt_count event)) d
      in if \<not> applied then (d, xs)
         else (d', if new_status = DEAD_LETTER \<and> ob_event_type event = ECHO_CROSSREF_REQUESTED
                   then mark_echo_result_failed now event err xs else xs))"

text \<open>
  \<open>_process_echo_crossref_event\<close>: the tenant transaction commits on its own; the status write
  belongs to the system transaction.
\<close>

definition process_echo_crossref_event ::
  "(uuid \<Rightarrow> uuid \<Rightarrow> db \<Rightarrow> crossrefs \<Rightarrow> atlas_error + crossrefs) \<Rightarrow> time \<Rightarrow> string \<Rightarrow> outbox_event
     \<Rightarrow> db \<times> crossrefs \<Rightarrow> (atlas_error + bool \<times> db) \<times> crossrefs" where
  "process_echo_crossref_event run_echo now worker_id event s =
     (let (d, xs) = s;
          ack = update_status now (ob_id event) PROCESSED (ob_attempt_count event) None None
                  (Some (worker_id, ob_attempt_count event)) d
      in case (map_of (ob_payload event) ''tenant_id'', map_of (ob_payload event) ''crossref_result_id'') of
           (Some t, Some r) \<Rightarrow>
             (case crossref_get t r xs of
                None \<Rightarrow> (Inl RuntimeError, xs)
              | Some result \<Rightarrow>
                  if xr_status result = XR_PENDING
                  then (case run_echo t r d xs of
                          Inl err \<Rightarrow> (Inl err, xs)
                        | Inr xs' \<Rightarrow> (Inr ack, xs'))
                  else (Inr ack, xs))
         | _ \<Rightarrow> (Inl KeyError, xs))"

definition process_claims_updated ::
  "(json \<Rightarrow> string) \<Rightarrow> time \<Rightarrow> string \<Rightarrow> outbox_event \<Rightarrow> db \<Rightarrow> atlas_error + bool \<times> db" where
  "process_claims_updated digest now worker_id event d =
     (let ack = update_status now (ob_id event) PROCESSED (ob_attempt_count event) None None
                  (Some (worker_id, ob_attempt_count event))
      in case map_of (ob_payload event) ''event_id'' of
           None \<Rightarrow> Inl KeyError
         | Some event_id \<Rightarrow>
             if find_by_outbox_event (ob_id event) d \<noteq> None
                \<and> (case events_get event_id d of None \<Rightarrow> True | Some e \<Rightarrow> \<not> is_merged e)
             then Inr (ack d)
             else
               rbind (reproject_event digest now event_id None
                        (map_of (ob_payload event) ''ingestion_run_id'') (Some (ob_id event)) False d)
                 (\<lambda>(p, d'). Inr (ack d')))"

definition process_event ::
  "(json \<Rightarrow> string) \<Rightarrow> (uuid \<Rightarrow> uuid \<Rightarrow> db \<Rightarrow> crossrefs \<Rightarrow> atlas_error + crossrefs) \<Rightarrow> time \<Rightarrow> string
     \<Rightarrow> outbox_event \<Rightarrow> db \<times> crossrefs \<Rightarrow> (atlas_error + bool \<times> db) \<times> crossrefs" where
  "process_event digest run_echo now worker_id event s =
     (if ob_event_type event = ECHO_CROSSREF_REQUESTED
      then process_echo_crossref_event run_echo now worker_id event s
      else if ob_event_type event \<noteq> CLAIMS_UPDATED
      then (Inr (update_status now (ob_id event) DEAD_LETTER (ob_attempt_count event)
                   (Some (''Unknown event type: '' @ ob_event_type event)) None
                   (Some (worker_id, ob_attempt_count event)) (fst s)), snd s)
      else (process_claims_updated digest now worker_id event (fst s), snd s))"

text \<open>
  The body of the loop of \<open>process_batch\<close>: commit when the lease still held at the status write,
  roll back when it was lost, record the failure when processing raised.
\<close>

definition process_one ::
  "(json \<Rightarrow> string) \<Rightarrow> (uuid \<Rightarrow> uuid \<Rightarrow> db \<Rightarrow> crossrefs \<Rightarrow> atlas_error + crossrefs)
     \<Rightarrow> (atlas_error \<Rightarrow> string) \<Rightarrow> nat \<Rightarrow> time \<Rightarrow> string \<Rightarrow> outbox_event \<Rightarrow> db \<times> crossrefs
     \<Rightarrow> bool \<times> db \<times> crossrefs" where
  "process_one digest run_echo str_exc max_attempts now worker_id event s =
     (case process_event digest run_echo now worker_id event s of
        (Inr (True, d'), xs') \<Rightarrow> (True, d', xs')
      | (Inr (False, d'), xs') \<Rightarrow> (False, fst s, xs')
      | (Inl err, xs') \<Rightarrow>
          (False, mark_failed now max_attempts worker_id event (str_exc err) (fst s, xs')))"

fun process_events ::
  "(outbox_event \<Rightarrow> db \<times> crossrefs \<Rightarrow> bool \<times> db \<times> crossrefs) \<Rightarrow> outbox_event list \<Rightarrow> nat
     \<Rightarrow> db \<times> crossrefs \<Rightarrow> nat \<times> db \<times> crossrefs" where
  "process_events one [] processed s = (processed, s)"
| "process_events one (e # es) processed s =
     (let (succeeded, s') = one e s
      in process_events one es (if succeeded then processed + 1 else processed) s')"

definition process_batch ::
  "(json \<Rightarrow> string) \<Rightarrow> (uuid \<Rightarrow> uuid \<Rightarrow> db \<Rightarrow> crossrefs \<Rightarrow> atlas_error + crossrefs)
     \<Rightarrow> (atlas_error \<Rightarrow> string) \<Rightarrow> nat \<Rightarrow> time \<Rightarrow> string \<Rightarrow> nat \<Rightarrow> uuid list \<Rightarrow> db \<times> crossrefs
     \<Rightarrow> nat \<times> db \<times> crossrefs" where
  "process_batch digest run_echo str_exc max_attempts now worker_id limit busy s =
     (let (events, d) = fetch_and_lock_pending now limit worker_id max_attempts busy (fst s)
      in process_events (process_one digest run_echo str_exc max_attempts now worker_id) events 0
           (d, snd s))"

definition stale_recovery_error :: string where
  "stale_recovery_error =
     ''Outbox event was dead-lettered during stale-lock recovery after exhausting retry attempts.''"

definition recover_stale_locks :: "time \<Rightarrow> nat \<Rightarrow> nat \<Rightarrow> db \<times> crossrefs \<Rightarrow> nat \<times> db \<times> crossrefs" where
  "recover_stale_locks now stale_minutes max_attempts s =
     (let ((count, deadlettered), d) =
            requeue_stale_locked_with_dead_letters now stale_minutes max_attempts (fst s)
      in (count, d,
          fold (\<lambda>e xs. if ob_event_type e = ECHO_CROSSREF_REQUESTED
                       then mark_echo_result_failed now e stale_recovery_error xs else xs)
            deadlettered (snd s)))"

section \<open>Interleavings\<close>

text \<open>
  The state: the store, the tenant rows, and every lease granted so far, as the worker holds it in
  memory.  Any worker may act on any lease it was ever granted, at any time: this covers slow
  workers, crashed workers and workers that wake up after a takeover.  \<open>enqueue\<close> is a transaction
  that adds an event; \<open>other\<close> is any transaction that leaves the outbox alone.
\<close>

record outbox_sys =
  os_db :: db
  os_crossrefs :: crossrefs
  os_leases :: "(string \<times> outbox_event) list"

inductive worker_step ::
  "(json \<Rightarrow> string) \<Rightarrow> (uuid \<Rightarrow> uuid \<Rightarrow> db \<Rightarrow> crossrefs \<Rightarrow> atlas_error + crossrefs)
     \<Rightarrow> (atlas_error \<Rightarrow> string) \<Rightarrow> nat \<Rightarrow> outbox_sys \<Rightarrow> outbox_sys \<Rightarrow> bool"
  for digest run_echo str_exc max_attempts where
  enqueue:
    "worker_step digest run_echo str_exc max_attempts s
       (s\<lparr>os_db := outbox_add (new_outbox_event now (fst (uuid4 (os_db s))) ty agg payload)
                    (snd (uuid4 (os_db s)))\<rparr>)"
| other:
    "db_outbox d = db_outbox (os_db s) \<Longrightarrow> db_next (os_db s) \<le> db_next d \<Longrightarrow>
     worker_step digest run_echo str_exc max_attempts s (s\<lparr>os_db := d, os_crossrefs := xs\<rparr>)"
| lock:
    "fetch_and_lock_pending now limit w max_attempts busy (os_db s) = (events, d) \<Longrightarrow>
     worker_step digest run_echo str_exc max_attempts s
       (s\<lparr>os_db := d, os_leases := os_leases s @ map (Pair w) events\<rparr>)"
| process:
    "(w, e) \<in> set (os_leases s) \<Longrightarrow>
     process_one digest run_echo str_exc max_attempts now w e (os_db s, os_crossrefs s) = (ok, d, xs) \<Longrightarrow>
     worker_step digest run_echo str_exc max_attempts s (s\<lparr>os_db := d, os_crossrefs := xs\<rparr>)"
| recover:
    "recover_stale_locks now stale_minutes max_attempts (os_db s, os_crossrefs s) = (n, d, xs) \<Longrightarrow>
     worker_step digest run_echo str_exc max_attempts s (s\<lparr>os_db := d, os_crossrefs := xs\<rparr>)"

section \<open>How rows evolve\<close>

text \<open>A step of a row: nothing, a lock, which is a new attempt, or the end of an attempt.\<close>

definition row_evolves :: "outbox_event \<Rightarrow> outbox_event \<Rightarrow> bool" where
  "row_evolves r r' \<longleftrightarrow> ob_id r' = ob_id r \<and>
     (r' = r
      \<or> ob_status r \<in> {PENDING, FAILED} \<and> ob_status r' = PROCESSING
          \<and> ob_attempt_count r' = Suc (ob_attempt_count r)
      \<or> ob_status r = PROCESSING \<and> ob_status r' \<noteq> PROCESSING
          \<and> ob_attempt_count r' = ob_attempt_count r)"

definition outbox_row_ok :: "nat \<Rightarrow> outbox_event \<Rightarrow> bool" where
  "outbox_row_ok max_attempts r \<longleftrightarrow>
     ob_attempt_count r \<le> max_attempts
     \<and> (ob_status r \<in> {PENDING, FAILED} \<longrightarrow> ob_attempt_count r < max_attempts)
     \<and> (ob_status r = PROCESSING) = (ob_locked_by r \<noteq> None)
     \<and> (ob_status r = PROCESSING) = (ob_locked_at r \<noteq> None)"

definition lease_state :: "string \<Rightarrow> outbox_event \<Rightarrow> outbox_event \<Rightarrow> bool" where
  "lease_state w e r \<longleftrightarrow> ob_id r = ob_id e \<and> ob_attempt_count e \<le> ob_attempt_count r
     \<and> (ob_attempt_count e = ob_attempt_count r \<and> ob_status r = PROCESSING \<longrightarrow> ob_locked_by r = Some w)"

definition lease_keys :: "(string \<times> outbox_event) list \<Rightarrow> (uuid \<times> nat) list" where
  "lease_keys ls = map (\<lambda>(w, e). (ob_id e, ob_attempt_count e)) ls"

definition outbox_inv :: "nat \<Rightarrow> outbox_sys \<Rightarrow> bool" where
  "outbox_inv max_attempts s \<longleftrightarrow>
     ids_below ob_id (db_outbox (os_db s)) (db_next (os_db s))
     \<and> (\<forall>r \<in> set (db_outbox (os_db s)). outbox_row_ok max_attempts r)
     \<and> (\<forall>(w, e) \<in> set (os_leases s). 0 < ob_attempt_count e \<and> ob_attempt_count e \<le> max_attempts
          \<and> (\<exists>r \<in> set (db_outbox (os_db s)). lease_state w e r))
     \<and> distinct (lease_keys (os_leases s))"

definition outbox_init :: "outbox_sys \<Rightarrow> bool" where
  "outbox_init s \<longleftrightarrow> db_outbox (os_db s) = [] \<and> os_leases s = []"

definition rows_evolve :: "nat \<Rightarrow> db \<Rightarrow> db \<Rightarrow> bool" where
  "rows_evolve max_attempts d d' \<longleftrightarrow> db_next d \<le> db_next d' \<and>
     (\<exists>g. db_outbox d' = map g (db_outbox d) \<and>
        (\<forall>r \<in> set (db_outbox d). row_evolves r (g r)
            \<and> (outbox_row_ok max_attempts r \<longrightarrow> outbox_row_ok max_attempts (g r))))"

lemma row_evolves_refl [simp]: "row_evolves r r"
  by (simp add: row_evolves_def)

lemma rows_evolve_same:
  "db_outbox d' = db_outbox d \<Longrightarrow> db_next d \<le> db_next d' \<Longrightarrow> rows_evolve m d d'"
  by (auto simp: rows_evolve_def intro!: exI [of _ id])

lemma rows_evolve_update:
  assumes "db_outbox d' = row_update p f (db_outbox d)" and "db_next d \<le> db_next d'"
    and "\<And>r. r \<in> set (db_outbox d) \<Longrightarrow> p r \<Longrightarrow>
       row_evolves r (f r) \<and> (outbox_row_ok m r \<longrightarrow> outbox_row_ok m (f r))"
  shows "rows_evolve m d d'"
  using assms unfolding rows_evolve_def row_update_def
  by (intro conjI exI [of _ "\<lambda>r. if p r then f r else r"]) auto

text \<open>A lease that is still good stays so unless its own attempt is taken over.\<close>

lemma lease_state_evolves:
  assumes "lease_state w e r" and "row_evolves r r'"
  shows "lease_state w e r'"
  using assms by (auto simp: lease_state_def row_evolves_def)

lemma ids_below_evolve:
  assumes "rows_evolve m d d'" and "ids_below ob_id (db_outbox d) (db_next d)"
  shows "ids_below ob_id (db_outbox d') (db_next d')"
proof -
  obtain g where g: "db_outbox d' = map g (db_outbox d)" "db_next d \<le> db_next d'"
    and id: "\<forall>r \<in> set (db_outbox d). ob_id (g r) = ob_id r"
    using assms(1) by (auto simp: rows_evolve_def row_evolves_def)
  have "map ob_id (db_outbox d') = map ob_id (db_outbox d)" using g(1) id by simp
  moreover have "\<forall>r \<in> set (db_outbox d'). ob_id r < db_next d'"
    using assms(2) g id by (fastforce simp: ids_below_def)
  ultimately show ?thesis using assms(2) unfolding ids_below_def by simp
qed

lemma outbox_inv_evolve:
  assumes "outbox_inv m s" and "rows_evolve m (os_db s) (os_db t)" and "os_leases t = os_leases s"
  shows "outbox_inv m t"
proof -
  obtain g where g: "db_outbox (os_db t) = map g (db_outbox (os_db s))"
    and ev: "\<And>r. r \<in> set (db_outbox (os_db s)) \<Longrightarrow> row_evolves r (g r)
       \<and> (outbox_row_ok m r \<longrightarrow> outbox_row_ok m (g r))"
    using assms(2) by (auto simp: rows_evolve_def)
  have "\<exists>r \<in> set (db_outbox (os_db t)). lease_state w e r"
    if "(w, e) \<in> set (os_leases s)" for w e
  proof -
    obtain r where r: "r \<in> set (db_outbox (os_db s))" "lease_state w e r"
      using assms(1) \<open>(w, e) \<in> _\<close> by (auto simp: outbox_inv_def)
    then have "lease_state w e (g r)" using ev lease_state_evolves by blast
    then show ?thesis using r g by auto
  qed
  moreover have "\<forall>r \<in> set (db_outbox (os_db t)). outbox_row_ok m r"
    using assms(1) ev g by (auto simp: outbox_inv_def)
  moreover have "ids_below ob_id (db_outbox (os_db t)) (db_next (os_db t))"
    using assms(1) by (intro ids_below_evolve [OF assms(2)]) (simp add: outbox_inv_def)
  ultimately show ?thesis
    using assms(1,3) by (auto simp: outbox_inv_def split_beta)
qed

subsection \<open>The operations evolve the rows\<close>

lemma update_status_simps [simp]:
  "db_next (snd (update_status now i st n err nx ex d)) = db_next d"
  "db_outbox (snd (update_status now i st n err nx ex d)) =
     row_update (\<lambda>e. ob_id e = i \<and> owns_lease ex e) (set_status now st n err nx) (db_outbox d)"
  by (simp_all add: update_status_def Let_def)

lemma update_status_evolves:
  assumes "st \<in> {PROCESSED, DEAD_LETTER, FAILED}" and "st = FAILED \<longrightarrow> n < m"
  shows "rows_evolve m d (snd (update_status now i st n err nx (Some (w, n)) d))"
  using assms
  by (intro rows_evolve_update [OF update_status_simps(2)])
    (auto simp: owns_lease_def row_evolves_def set_status_def outbox_row_ok_def)

lemma update_status_lost:
  assumes "\<not> list_ex (\<lambda>r. ob_id r = i \<and> owns_lease ex r) (db_outbox d)"
  shows "update_status now i st n err nx ex d = (False, d)"
proof -
  have "row_update (\<lambda>r. ob_id r = i \<and> owns_lease ex r) (set_status now st n err nx) (db_outbox d) = db_outbox d"
    using assms by (intro row_update_idle) (auto simp: list_ex_iff)
  then show ?thesis using assms by (simp add: update_status_def Let_def)
qed

text \<open>What processing one leased event does to the outbox: at most one fenced status write.\<close>

lemma process_event_Inr:
  assumes "process_event digest run_echo now w e (d, xs) = (Inr (ok, d'), xs')"
  obtains st err d1 where "st \<in> {PROCESSED, DEAD_LETTER}"
    "(ok, d') = update_status now (ob_id e) st (ob_attempt_count e) err None (Some (w, ob_attempt_count e)) d1"
    "read_model_only d d1"
proof -
  have echo: "(ok, d') = update_status now (ob_id e) PROCESSED (ob_attempt_count e) None None (Some (w, ob_attempt_count e)) d"
    if "process_echo_crossref_event run_echo now w e (d, xs) = (Inr (ok, d'), xs')"
    using that by (auto simp: process_echo_crossref_event_def Let_def split: option.splits if_splits sum.splits)
  let ?ack = "update_status now (ob_id e) PROCESSED (ob_attempt_count e) None None (Some (w, ob_attempt_count e))"
  have "?ack d = (ok, d') \<or> (\<exists>q d1 i r. reproject_event digest now i None r (Some (ob_id e)) False d = Inr (q, d1)
      \<and> ?ack d1 = (ok, d'))"
    if "process_claims_updated digest now w e d = Inr (ok, d')"
    using that by (auto simp: process_claims_updated_def Let_def split: option.splits if_splits)
  then have claims: "\<exists>d1. read_model_only d d1 \<and> (ok, d') = ?ack d1"
    if "process_claims_updated digest now w e d = Inr (ok, d')"
    using that reproject_event_frame read_model_only_refl by metis
  consider "ob_event_type e = ECHO_CROSSREF_REQUESTED" | "ob_event_type e = CLAIMS_UPDATED"
    "ob_event_type e \<noteq> ECHO_CROSSREF_REQUESTED"
  | "ob_event_type e \<noteq> ECHO_CROSSREF_REQUESTED" "ob_event_type e \<noteq> CLAIMS_UPDATED" by blast
  then show ?thesis
  proof cases
    case 1
    then show ?thesis using assms echo that [of PROCESSED None d] by (simp add: process_event_def)
  next
    case 2
    then show ?thesis using assms claims that [of PROCESSED] by (auto simp: process_event_def)
  next
    case 3
    then have u: "(ok, d') = update_status now (ob_id e) DEAD_LETTER (ob_attempt_count e)
        (Some (''Unknown event type: '' @ ob_event_type e)) None (Some (w, ob_attempt_count e)) d"
      using assms by (simp add: process_event_def)
    show ?thesis by (rule that [OF _ u read_model_only_refl]) simp
  qed
qed

lemma process_one_cases:
  assumes "process_one digest run_echo str_exc m now w e (d, xs) = (ok, d', xs')"
  obtains (idle) "\<not> ok" "d' = d"
  | (stored) st err nx d1 where "st \<in> {PROCESSED, DEAD_LETTER, FAILED}" "st = FAILED \<longrightarrow> ob_attempt_count e < m"
      "read_model_only d d1" "(True, d') = update_status now (ob_id e) st (ob_attempt_count e) err nx
         (Some (w, ob_attempt_count e)) d1"
proof -
  obtain r xs1 where r: "process_event digest run_echo now w e (d, xs) = (r, xs1)" by fastforce
  show thesis
  proof (cases r)
    case (Inl x)
    then have mf: "(d', xs') = mark_failed now m w e (str_exc x) (d, xs1)" "\<not> ok"
      using assms r by (auto simp: process_one_def)
    show thesis
      using mf idle stored [of "if m \<le> ob_attempt_count e then DEAD_LETTER else FAILED" d]
      by (auto simp: mark_failed_def Let_def split: if_splits prod.splits) metis+
  next
    case (Inr y)
    obtain b d2 where y: "y = (b, d2)" by fastforce
    obtain st err d1 where st: "st \<in> {PROCESSED, DEAD_LETTER}"
      and u: "(b, d2) = update_status now (ob_id e) st (ob_attempt_count e) err None (Some (w, ob_attempt_count e)) d1"
      and f: "read_model_only d d1"
      by (rule process_event_Inr [OF r [unfolded Inr y]])
    show thesis
    proof (cases b)
      case True
      then have "d' = d2" using assms r Inr y by (simp add: process_one_def)
      then show thesis using stored [of st d1 err None] st u f True by auto
    next
      case False
      then show thesis using idle assms r Inr y by (simp add: process_one_def)
    qed
  qed
qed

lemma process_one_evolves:
  assumes "process_one digest run_echo str_exc m now w e (d, xs) = (ok, d', xs')"
  shows "rows_evolve m d d'"
proof -
  from assms show ?thesis
  proof (cases rule: process_one_cases)
    case idle
    then show ?thesis by (simp add: rows_evolve_same)
  next
    case (stored st err nx d1)
    then have "rows_evolve m d1 d'" using update_status_evolves by (metis snd_conv)
    then show ?thesis using read_model_onlyD [OF stored(3)] by (auto simp: rows_evolve_def)
  qed
qed

text \<open>A worker whose lease is not the row's current one changes nothing in the store.\<close>

lemma process_one_fenced:
  assumes "process_one digest run_echo str_exc m now w e (d, xs) = (ok, d', xs')"
    and "\<not> list_ex (\<lambda>r. ob_id r = ob_id e \<and> owns_lease (Some (w, ob_attempt_count e)) r) (db_outbox d)"
  shows "\<not> ok \<and> d' = d"
proof -
  from assms(1) show ?thesis
  proof (cases rule: process_one_cases)
    case (stored st err nx d1)
    then have "update_status now (ob_id e) st (ob_attempt_count e) err nx (Some (w, ob_attempt_count e)) d1 = (False, d1)"
      using assms(2) read_model_onlyD [OF stored(3)] by (intro update_status_lost) simp
    then show ?thesis using stored(4) by simp
  qed simp
qed

lemma recover_row_evolves:
  assumes "r1 = (if stale_lock cutoff r \<and> ob_attempt_count r < m then requeue_row r else r)"
    and "r2 = (if stale_lock cutoff r1 \<and> m \<le> ob_attempt_count r1 then dead_letter_row suffix r1 else r1)"
  shows "row_evolves r r2 \<and> (outbox_row_ok m r \<longrightarrow> outbox_row_ok m r2)"
proof (cases "stale_lock cutoff r")
  case True
  then show ?thesis
    using assms by (auto simp: stale_lock_def requeue_row_def dead_letter_row_def row_evolves_def outbox_row_ok_def)
next
  case False
  then show ?thesis using assms by simp
qed

lemma recover_evolves:
  assumes "recover_stale_locks now stale m (d, xs) = (n, d', xs')"
  shows "rows_evolve m d d'"
proof -
  let ?cutoff = "now - int stale * 60 * 1000000"
  let ?suffix = "'' [stale lock dead-lettered at '' @ isoformat now @ '']''"
  let ?r1 = "\<lambda>r. if stale_lock ?cutoff r \<and> ob_attempt_count r < m then requeue_row r else r"
  let ?g = "\<lambda>r. if stale_lock ?cutoff (?r1 r) \<and> m \<le> ob_attempt_count (?r1 r)
       then dead_letter_row ?suffix (?r1 r) else ?r1 r"
  have "d' = snd (requeue_stale_locked_with_dead_letters now stale m d)"
    using assms by (simp add: recover_stale_locks_def split_beta)
  then have "db_outbox d' = row_update (\<lambda>e. stale_lock ?cutoff e \<and> m \<le> ob_attempt_count e) (dead_letter_row ?suffix)
      (row_update (\<lambda>e. stale_lock ?cutoff e \<and> ob_attempt_count e < m) requeue_row (db_outbox d))"
    and n: "db_next d' = db_next d"
    by (simp_all add: requeue_stale_locked_with_dead_letters_def Let_def)
  then have "db_outbox d' = map ?g (db_outbox d)"
    unfolding row_update_def map_map comp_def by blast
  then show ?thesis
    unfolding rows_evolve_def using n recover_row_evolves [OF refl refl, of _ ?cutoff m ?suffix]
    by (intro conjI exI [of _ ?g]) (simp, assumption, blast)
qed

subsection \<open>Locking\<close>

definition outbox_eligible :: "time \<Rightarrow> nat \<Rightarrow> uuid list \<Rightarrow> outbox_event \<Rightarrow> bool" where
  "outbox_eligible now max_attempts busy e \<longleftrightarrow> ob_id e \<notin> set busy \<and>
     (ob_status e = PENDING
      \<or> ob_status e = FAILED \<and> ob_attempt_count e < max_attempts
          \<and> (case ob_next_attempt_at e of None \<Rightarrow> True | Some t \<Rightarrow> t \<le> now))"

lemma selected_ids_eligible:
  assumes "i \<in> set (selected_ids now limit m busy rows)"
  shows "\<exists>r \<in> set rows. ob_id r = i \<and> outbox_eligible now m busy r"
  using assms
  by (auto simp: selected_ids_def pending_candidates_def failed_candidates_def outbox_eligible_def
      dest!: in_set_takeD) blast+

lemma lock_hit_eligible:
  assumes "distinct (map ob_id rows)" and "r \<in> set rows" and "ob_id r \<in> set (selected_ids now limit m busy rows)"
  shows "outbox_eligible now m busy r"
  using selected_ids_eligible [OF assms(3)] assms(1,2) by (metis distinct_map inj_onD)

lemma lock_row_evolves:
  assumes "outbox_eligible now m busy r"
  shows "row_evolves r (lock_row t w r) \<and> (outbox_row_ok m r \<longrightarrow> outbox_row_ok m (lock_row t w r))"
  using assms by (auto simp: row_evolves_def lock_row_def outbox_eligible_def outbox_row_ok_def)

lemma length_lease_keys [simp]: "length (lease_keys ls) = length ls"
  by (simp add: lease_keys_def)

lemma lease_keys_append:
  "lease_keys (ls @ map (Pair w) es) = lease_keys ls @ map (\<lambda>e. (ob_id e, ob_attempt_count e)) es"
  by (simp add: lease_keys_def)

lemma lock_evolves:
  assumes "fetch_and_lock_pending now limit w m busy d = (es, d')" and "distinct (map ob_id (db_outbox d))"
  shows "rows_evolve m d d'"
proof -
  have d': "d' = d\<lparr>db_outbox := row_update (\<lambda>e. ob_id e \<in> set (selected_ids now limit m busy (db_outbox d)))
      (lock_row now w) (db_outbox d)\<rparr>"
    using assms(1) by (auto simp: fetch_and_lock_pending_def Let_def)
  then have o': "db_outbox d' = row_update (\<lambda>e. ob_id e \<in> set (selected_ids now limit m busy (db_outbox d)))
      (lock_row now w) (db_outbox d)" and "db_next d \<le> db_next d'" by simp_all
  then show ?thesis
    using lock_hit_eligible [OF assms(2)] lock_row_evolves by (intro rows_evolve_update [OF o']) blast+
qed

lemma lock_events:
  assumes "fetch_and_lock_pending now limit w m busy d = (es, d')" and "e \<in> set es"
    and "distinct (map ob_id (db_outbox d))"
  obtains r where "r \<in> set (db_outbox d)" "e = lock_row now w r" "outbox_eligible now m busy r" "e \<in> set (db_outbox d')"
proof -
  from assms(1,2) obtain r where r: "r \<in> set (db_outbox d)" "e = lock_row now w r"
    "ob_id r \<in> set (selected_ids now limit m busy (db_outbox d))" "e \<in> set (db_outbox d')"
    by (fastforce simp: fetch_and_lock_pending_def Let_def set_row_update)
  with lock_hit_eligible [OF assms(3)] that show thesis by blast
qed

lemma lock_ids_distinct:
  assumes "fetch_and_lock_pending now limit w m busy d = (es, d')" and "distinct (map ob_id (db_outbox d))"
  shows "distinct (map ob_id es)"
proof -
  have "map ob_id es = map ob_id (filter (\<lambda>e. ob_id e \<in> set (selected_ids now limit m busy (db_outbox d))) (db_outbox d))"
    using assms(1) by (auto simp: fetch_and_lock_pending_def Let_def lock_row_def)
  then show ?thesis using assms(2) by (simp add: distinct_map_filter)
qed

lemma outbox_inv_lock:
  assumes "outbox_inv m s" and l: "fetch_and_lock_pending now limit w m busy (os_db s) = (es, d)"
  shows "outbox_inv m (s\<lparr>os_db := d, os_leases := os_leases s @ map (Pair w) es\<rparr>)"
proof -
  have dist: "distinct (map ob_id (db_outbox (os_db s)))"
    using assms(1) by (simp add: outbox_inv_def ids_below_def)
  have old: "outbox_inv m (s\<lparr>os_db := d\<rparr>)"
    using outbox_inv_evolve [OF assms(1), of "s\<lparr>os_db := d\<rparr>"] lock_evolves [OF l dist] by simp
  have new: "0 < ob_attempt_count e \<and> ob_attempt_count e \<le> m \<and> (\<exists>r \<in> set (db_outbox d). lease_state w e r)
      \<and> (ob_id e, ob_attempt_count e) \<notin> set (lease_keys (os_leases s))"
    if e: "e \<in> set es" for e
  proof -
    obtain r where r: "r \<in> set (db_outbox (os_db s))" "e = lock_row now w r" "outbox_eligible now m busy r" "e \<in> set (db_outbox d)"
      by (rule lock_events [OF l e dist])
    have "ob_attempt_count r < m"
      using r(1,3) assms(1) by (auto simp: outbox_inv_def outbox_eligible_def outbox_row_ok_def)
    moreover have "lease_state w e e" using r(2) by (simp add: lease_state_def lock_row_def)
    moreover have "ob_attempt_count e' \<le> ob_attempt_count r" if k: "(w', e') \<in> set (os_leases s)" "ob_id e' = ob_id r" for w' e'
    proof -
      obtain r' where "r' \<in> set (db_outbox (os_db s))" "lease_state w' e' r'"
        using assms(1) k(1) by (auto simp: outbox_inv_def)
      then show ?thesis using r(1) dist k(2) by (metis distinct_map inj_onD lease_state_def)
    qed
    then have "(ob_id e, ob_attempt_count e) \<notin> set (lease_keys (os_leases s))"
      using r(2) by (fastforce simp: lease_keys_def lock_row_def)
    ultimately show ?thesis using r(2,4) by (auto simp: lock_row_def)
  qed
  have "distinct (map (\<lambda>e. (ob_id e, ob_attempt_count e)) es)"
    using lock_ids_distinct [OF l dist] by (simp add: distinct_map inj_on_def)
  then have "distinct (lease_keys (os_leases s @ map (Pair w) es))"
    using assms(1) new by (auto simp: outbox_inv_def lease_keys_append)
  then show ?thesis using old new by (auto simp: outbox_inv_def)
qed

section \<open>The invariant of every interleaving\<close>

lemma outbox_inv_step:
  assumes "worker_step digest run_echo str_exc m s t" and "outbox_inv m s" and "0 < m"
  shows "outbox_inv m t"
  using assms
proof (cases rule: worker_step.cases)
  case (enqueue now ty agg payload)
  let ?e = "new_outbox_event now (db_next (os_db s)) ty agg payload"
  have rows: "db_outbox (os_db t) = db_outbox (os_db s) @ [?e]" "db_next (os_db t) = Suc (db_next (os_db s))"
    "os_leases t = os_leases s"
    by (simp_all add: enqueue outbox_add_def)
  have "outbox_row_ok m ?e" using assms(3) by (simp add: outbox_row_ok_def new_outbox_event_def)
  moreover have "ids_below ob_id (db_outbox (os_db t)) (db_next (os_db t))"
    using assms(2) by (simp add: rows outbox_inv_def ids_below_snoc new_outbox_event_def)
  ultimately show ?thesis using assms(2) by (fastforce simp: outbox_inv_def rows)
next
  case (other d xs)
  then show ?thesis using outbox_inv_evolve [OF assms(2)] by (simp add: rows_evolve_same)
next
  case (lock now limit w busy events d)
  then show ?thesis using outbox_inv_lock [OF assms(2)] by blast
next
  case (process w e now ok d xs)
  then show ?thesis using outbox_inv_evolve [OF assms(2)] by (simp add: process_one_evolves)
next
  case (recover now stale_minutes n d xs)
  then show ?thesis using outbox_inv_evolve [OF assms(2)] by (simp add: recover_evolves)
qed

text \<open>The worker system with a retry budget of \<open>Suc k\<close> (the setting is positive).\<close>

interpretation outbox_system: invariant_system outbox_init
  "worker_step digest run_echo str_exc (Suc k)" "outbox_inv (Suc k)" for digest run_echo str_exc k
proof
  show "outbox_init s \<Longrightarrow> outbox_inv (Suc k) s" for s
    by (simp add: outbox_init_def outbox_inv_def ids_below_def lease_keys_def)
  show "worker_step digest run_echo str_exc (Suc k) s t \<Longrightarrow> outbox_inv (Suc k) s \<Longrightarrow> outbox_inv (Suc k) t" for s t
    by (rule outbox_inv_step) simp_all
qed

section \<open>Properties\<close>

lemma outbox_reachable:
  assumes "outbox_init s" and "(worker_step digest run_echo str_exc m)\<^sup>*\<^sup>* s t" and "0 < m"
  shows "outbox_inv m t"
proof -
  obtain k where "m = Suc k" using assms(3) gr0_implies_Suc by blast
  then show ?thesis using outbox_system.reachable_inv assms(1,2) by blast
qed

subsection \<open>A run for the examples\<close>

text \<open>
  An event is enqueued and leased by worker A, which hangs; the sweep requeues it and worker B
  leases it.
\<close>

definition example_row :: "outbox_status \<Rightarrow> nat \<Rightarrow> (string \<times> time) option \<Rightarrow> outbox_event" where
  "example_row st n lk =
     (new_outbox_event 0 100 CLAIMS_UPDATED 1 [(''event_id'', 1)])
       \<lparr>ob_status := st, ob_attempt_count := n, ob_locked_at := map_option snd lk,
        ob_locked_by := map_option fst lk\<rparr>"

abbreviation "row_A \<equiv> example_row PROCESSING 1 (Some (''A'', 1))"
abbreviation "row_B \<equiv> example_row PROCESSING 2 (Some (''B'', 600000003))"

definition example_sys :: "outbox_event list \<Rightarrow> (string \<times> outbox_event) list \<Rightarrow> outbox_sys" where
  "example_sys rows ls =
     \<lparr>os_db = (event_db None)\<lparr>db_outbox := rows, db_next := (if rows = [] then 100 else 101)\<rparr>,
      os_crossrefs = [], os_leases = ls\<rparr>"

lemma example_row_simps [simp]:
  "ob_id (example_row st n lk) = 100" "ob_status (example_row st n lk) = st"
  "ob_attempt_count (example_row st n lk) = n" "ob_created_at (example_row st n lk) = 0"
  "ob_locked_at (example_row st n lk) = map_option snd lk" "ob_event_type (example_row st n lk) = CLAIMS_UPDATED"
  "ob_locked_by (example_row st n lk) = map_option fst lk" "ob_payload (example_row st n lk) = [(''event_id'', 1)]"
  "lock_row t w (example_row st n lk) = example_row PROCESSING (Suc n) (Some (w, t))"
  "requeue_row (example_row st n lk) = example_row PENDING n None"
  by (simp_all add: example_row_def new_outbox_event_def lock_row_def requeue_row_def)

lemma example_sys_simps [simp]:
  "db_outbox (os_db (example_sys rows ls)) = rows" "os_leases (example_sys rows ls) = ls"
  "os_crossrefs (example_sys rows ls) = []"
  by (simp_all add: example_sys_def)

lemma example_enqueue:
  "worker_step digest run_echo str_exc 5 (example_sys [] []) (example_sys [example_row PENDING 0 None] [])"
proof -
  have "example_sys [example_row PENDING 0 None] [] = (example_sys [] [])
      \<lparr>os_db := outbox_add (new_outbox_event 0 (fst (uuid4 (os_db (example_sys [] [])))) CLAIMS_UPDATED 1 [(''event_id'', 1)])
          (snd (uuid4 (os_db (example_sys [] []))))\<rparr>"
    by (simp add: example_sys_def event_db_def empty_db_def uuid4_def outbox_add_def example_row_def new_outbox_event_def)
  then show ?thesis using worker_step.enqueue by metis
qed

lemma example_lock:
  "worker_step digest run_echo str_exc 5 (example_sys [example_row PENDING n None] ls)
     (example_sys [example_row PROCESSING (Suc n) (Some (w, t))]
        (ls @ [(w, example_row PROCESSING (Suc n) (Some (w, t)))]))"
proof -
  have "fetch_and_lock_pending t 10 w 5 [] (os_db (example_sys [example_row PENDING n None] ls)) =
      ([example_row PROCESSING (Suc n) (Some (w, t))],
       os_db (example_sys [example_row PROCESSING (Suc n) (Some (w, t))] ls))"
    by (simp add: fetch_and_lock_pending_def selected_ids_def pending_candidates_def failed_candidates_def
        example_sys_def Let_def)
  from worker_step.lock [OF this] show ?thesis by (simp add: example_sys_def)
qed

lemma example_recover:
  "worker_step digest run_echo str_exc 5 (example_sys [row_A] ls) (example_sys [example_row PENDING 1 None] ls)"
proof -
  have "recover_stale_locks 600000002 10 5 (os_db (example_sys [row_A] ls), os_crossrefs (example_sys [row_A] ls)) =
      (1, os_db (example_sys [example_row PENDING 1 None] ls), [])"
    by (simp add: recover_stale_locks_def requeue_stale_locked_with_dead_letters_def stale_lock_def
        example_sys_def Let_def)
  from worker_step.recover [OF this] show ?thesis
    by (simp add: example_sys_def)
qed

abbreviation "example_end \<equiv> example_sys [row_B] [(''A'', row_A), (''B'', row_B)]"

lemma example_run:
  "outbox_init (example_sys [] [])"
  "(worker_step digest run_echo str_exc 5)\<^sup>*\<^sup>* (example_sys [example_row PENDING 0 None] []) example_end"
  "(worker_step digest run_echo str_exc 5)\<^sup>*\<^sup>* (example_sys [] []) example_end"
proof -
  show "outbox_init (example_sys [] [])" by (simp add: outbox_init_def)
  have a: "worker_step digest run_echo str_exc 5 (example_sys [example_row PENDING 0 None] []) (example_sys [row_A] [(''A'', row_A)])"
    using example_lock [of digest run_echo str_exc 0 "[]" "''A''" 1] by simp
  have b: "worker_step digest run_echo str_exc 5 (example_sys [example_row PENDING 1 None] [(''A'', row_A)]) example_end"
    using example_lock [of digest run_echo str_exc 1 "[(''A'', row_A)]" "''B''" 600000003] by (simp add: numeral_2_eq_2)
  show r: "(worker_step digest run_echo str_exc 5)\<^sup>*\<^sup>* (example_sys [example_row PENDING 0 None] []) example_end"
    by (rule converse_rtranclp_into_rtranclp, rule a,
        rule converse_rtranclp_into_rtranclp, rule example_recover, rule r_into_rtranclp, rule b)
  show "(worker_step digest run_echo str_exc 5)\<^sup>*\<^sup>* (example_sys [] []) example_end"
    by (rule converse_rtranclp_into_rtranclp, rule example_enqueue, rule r)
qed

subsection \<open>The retry budget\<close>

text \<open>C18: However workers, crashes, lock recoveries and enqueuing transactions interleave, an
  outbox event is leased at most \<open>max_attempts\<close> times in all; its attempt counter never exceeds the
  budget, an event that waits for a (re)try has budget left, and a row is locked exactly while it
  is being processed.\<close>

theorem outbox_retry_budget:
  assumes "outbox_init s" and "(worker_step digest run_echo str_exc m)\<^sup>*\<^sup>* s t" and "0 < m"
  shows "length (filter (\<lambda>(w, e). ob_id e = i) (os_leases t)) \<le> m
    \<and> (\<forall>r \<in> set (db_outbox (os_db t)). ob_attempt_count r \<le> m
         \<and> (ob_status r \<in> {PENDING, FAILED} \<longrightarrow> ob_attempt_count r < m)
         \<and> (ob_status r = PROCESSING) = (ob_locked_by r \<noteq> None))"
proof -
  have inv: "outbox_inv m t" by (rule outbox_reachable [OF assms])
  let ?ls = "filter (\<lambda>(w, e). ob_id e = i) (os_leases t)"
  have budget: "Suc 0 \<le> ob_attempt_count e \<and> ob_attempt_count e \<le> m" if "(w, e) \<in> set (os_leases t)" for w e
    using inv that unfolding outbox_inv_def by fastforce
  have "distinct (lease_keys ?ls)"
    using inv distinct_map_filter unfolding outbox_inv_def lease_keys_def by blast
  then have "length ?ls = card (set (lease_keys ?ls))"
    by (simp add: distinct_card)
  also have "set (lease_keys ?ls) \<subseteq> {i} \<times> {1..m}"
    using budget by (auto simp: lease_keys_def)
  then have "card (set (lease_keys ?ls)) \<le> m"
    using card_mono [of "{i} \<times> {1..m}"] by (simp add: card_cartesian_product)
  finally have "length ?ls \<le> m" .
  moreover have "outbox_row_ok m r" if "r \<in> set (db_outbox (os_db t))" for r
    using inv that by (simp add: outbox_inv_def)
  ultimately show ?thesis unfolding outbox_row_ok_def by blast
qed

theorem outbox_retry_budget_witness:
  "length (filter (\<lambda>(w, e). ob_id e = 100) (os_leases example_end)) = 2 \<and>
   length (filter (\<lambda>(w, e). ob_id e = 100) (os_leases example_end)) \<le> 5"
proof -
  have "length (filter (\<lambda>(w, e). ob_id e = 100) (os_leases example_end)) \<le> 5"
    using outbox_retry_budget [OF example_run(1,3), where i = 100] by simp
  then show ?thesis by simp
qed

subsection \<open>Lease fencing\<close>

text \<open>C17: Lease fencing: once another worker has been granted a later attempt on an event, a
  worker still holding the earlier lease cannot change the store: whatever it does with the event,
  whenever it wakes up, its transaction is rolled back and reported as not processed.\<close>

theorem outbox_lease_fencing:
  assumes "outbox_init s" and "(worker_step digest run_echo str_exc m)\<^sup>*\<^sup>* s t" and "0 < m"
    and "(w, e) \<in> set (os_leases t)" and "(w', e') \<in> set (os_leases t)"
    and "ob_id e' = ob_id e" and "ob_attempt_count e < ob_attempt_count e'"
    and "process_one digest run_echo str_exc m now w e (os_db t, xs) = (ok, d, xs')"
  shows "\<not> ok \<and> d = os_db t"
proof -
  have inv: "outbox_inv m t" by (rule outbox_reachable [OF assms(1-3)])
  then have dist: "distinct (map ob_id (db_outbox (os_db t)))" by (simp add: outbox_inv_def ids_below_def)
  obtain r' where r': "r' \<in> set (db_outbox (os_db t))" "lease_state w' e' r'"
    using inv assms(5) by (auto simp: outbox_inv_def)
  have "\<not> owns_lease (Some (w, ob_attempt_count e)) r"
    if "r \<in> set (db_outbox (os_db t))" "ob_id r = ob_id e" for r
  proof -
    have "r = r'" using that r' assms(6) dist by (metis distinct_map inj_onD lease_state_def)
    then show ?thesis using r'(2) assms(7) by (auto simp: lease_state_def owns_lease_def)
  qed
  then show ?thesis using process_one_fenced [OF assms(8)] by (auto simp: list_ex_iff)
qed

theorem outbox_lease_fencing_witness:
  "let (ok, d, xs) = process_one (\<lambda>_. []) (\<lambda>_ _ _ xs. Inr xs) (\<lambda>_. []) 5 700000000 ''A'' row_A (os_db example_end, [])
   in \<not> ok \<and> d = os_db example_end \<and> db_outbox d = [row_B]"
proof -
  obtain ok d xs where p: "process_one (\<lambda>_. []) (\<lambda>_ _ _ xs. Inr xs) (\<lambda>_. []) 5 700000000 ''A'' row_A (os_db example_end, []) = (ok, d, xs)"
    using prod_cases3 by blast
  have "\<not> ok \<and> d = os_db example_end"
    by (rule outbox_lease_fencing [OF example_run(1,3) _ _ _ _ _ p, of "''B''" row_B]) simp_all
  then show ?thesis using p by simp
qed

subsection \<open>Events are neither lost nor handled again after their end\<close>

lemma rows_evolveD:
  assumes "rows_evolve m d d'" and "r \<in> set (db_outbox d)"
  shows "\<exists>r' \<in> set (db_outbox d'). row_evolves r r'"
  using assms by (auto simp: rows_evolve_def)

lemma worker_step_row:
  assumes "worker_step digest run_echo str_exc m s t" and "outbox_inv m s" and "r \<in> set (db_outbox (os_db s))"
  shows "\<exists>r' \<in> set (db_outbox (os_db t)). row_evolves r r'"
  using assms(1)
proof (cases rule: worker_step.cases)
  case (enqueue now ty agg payload)
  then show ?thesis using assms(3) by (auto simp: outbox_add_def intro!: bexI [of _ r])
next
  case (other d xs)
  then show ?thesis using assms(3) by (auto intro!: bexI [of _ r])
next
  case (lock now limit w busy events d)
  then show ?thesis
    using rows_evolveD [OF lock_evolves [OF lock(2)] assms(3)] assms(2) by (simp add: outbox_inv_def ids_below_def)
next
  case (process w e now ok d xs)
  then show ?thesis using rows_evolveD [OF process_one_evolves [OF process(3)] assms(3)] by simp
next
  case (recover now stale_minutes n d xs)
  then show ?thesis using rows_evolveD [OF recover_evolves [OF recover(2)] assms(3)] by simp
qed

definition outbox_final :: "outbox_event \<Rightarrow> bool" where
  "outbox_final r \<longleftrightarrow> ob_status r \<in> {PROCESSED, DEAD_LETTER}"

text \<open>No event is lost and no outcome is overwritten: from any reachable state on, an event in
  the outbox stays in it, its attempt counter never decreases, and once it is processed or
  dead-lettered its row never changes again, whatever the workers do.\<close>

theorem outbox_outcome_final:
  assumes "outbox_init s0" and "(worker_step digest run_echo str_exc m)\<^sup>*\<^sup>* s0 s" and "0 < m"
    and "(worker_step digest run_echo str_exc m)\<^sup>*\<^sup>* s t" and "r \<in> set (db_outbox (os_db s))"
  shows "\<exists>r' \<in> set (db_outbox (os_db t)). ob_id r' = ob_id r \<and> ob_attempt_count r \<le> ob_attempt_count r'
    \<and> (outbox_final r \<longrightarrow> r' = r)"
  using assms(4)
proof (induction rule: rtranclp_induct)
  case base
  then show ?case using assms(5) by blast
next
  case (step y z)
  have "outbox_inv m y" using outbox_reachable assms(1-3) step.hyps(1) by (metis rtranclp_trans)
  then obtain r' r'' where "ob_id r' = ob_id r" "ob_attempt_count r \<le> ob_attempt_count r'" "outbox_final r \<longrightarrow> r' = r"
    "r'' \<in> set (db_outbox (os_db z))" "row_evolves r' r''"
    using step.IH worker_step_row [OF step.hyps(2)] by blast
  then show ?case by (intro bexI [of _ r'']) (auto simp: row_evolves_def outbox_final_def)
qed

theorem outbox_outcome_final_witness:
  "\<exists>r' \<in> set (db_outbox (os_db example_end)).
     ob_id r' = ob_id (example_row PENDING 0 None) \<and> ob_attempt_count (example_row PENDING 0 None) \<le> ob_attempt_count r'
     \<and> (outbox_final (example_row PENDING 0 None) \<longrightarrow> r' = example_row PENDING 0 None)"
  by (rule outbox_outcome_final [OF example_run(1) r_into_rtranclp [of "worker_step (\<lambda>_. []) (\<lambda>_ _ _ xs. Inr xs) (\<lambda>_. []) 5",
      OF example_enqueue] _ example_run(2)]) simp_all

subsection \<open>Polling takes all the work it may\<close>

lemma length_filter_disjoint:
  "(\<And>x. x \<in> set xs \<Longrightarrow> \<not> (P x \<and> Q x)) \<Longrightarrow>
     length (filter (\<lambda>x. P x \<or> Q x) xs) = length (filter P xs) + length (filter Q xs)"
  by (induction xs) auto

lemma length_filter_ids:
  assumes "distinct (map key rows)" and "distinct ids" and "set ids \<subseteq> key ` set rows"
  shows "length (filter (\<lambda>r. key r \<in> set ids) rows) = length ids"
proof -
  let ?f = "filter (\<lambda>r. key r \<in> set ids) rows"
  have "length ?f = card (key ` set ?f)"
    using distinct_map_filter [OF assms(1)] by (metis distinct_card length_map set_map)
  also have "key ` set ?f = set ids" using assms(3) by auto
  finally show ?thesis using assms(2) by (simp add: distinct_card)
qed

text \<open>A poll leases as many events as it may: with distinct identifiers it locks exactly
  \<open>min limit n\<close> events, where \<open>n\<close> events are eligible (pending, or failed with budget left and due),
  every event it returns was eligible and is now locked by this worker on its next attempt, and
  all other rows are untouched.\<close>

theorem fetch_work_conserving:
  assumes "distinct (map ob_id (db_outbox d))"
    and "fetch_and_lock_pending now limit w max_attempts busy d = (es, d')"
  shows "length es = min limit (length (filter (outbox_eligible now max_attempts busy) (db_outbox d)))
    \<and> (\<forall>e \<in> set es. \<exists>r \<in> set (db_outbox d). outbox_eligible now max_attempts busy r \<and> e = lock_row now w r)
    \<and> (\<forall>r \<in> set (db_outbox d). ob_id r \<notin> ob_id ` set es \<longrightarrow> r \<in> set (db_outbox d'))"
proof -
  let ?rows = "db_outbox d"
  let ?P = "\<lambda>e. ob_status e = PENDING \<and> ob_id e \<notin> set busy"
  let ?F = "\<lambda>e. ob_status e = FAILED \<and> ob_attempt_count e < max_attempts
    \<and> (case ob_next_attempt_at e of None \<Rightarrow> True | Some t \<Rightarrow> t \<le> now) \<and> ob_id e \<notin> set busy"
  let ?ids = "selected_ids now limit max_attempts busy ?rows"
  let ?c = "pending_candidates limit busy ?rows @ failed_candidates now limit max_attempts busy ?rows"
  have el: "filter (outbox_eligible now max_attempts busy) ?rows = filter (\<lambda>e. ?P e \<or> ?F e) ?rows"
    by (rule filter_cong) (auto simp: outbox_eligible_def)
  have "length ?ids = min limit (length (filter ?P ?rows) + length (filter ?F ?rows))"
    by (simp add: selected_ids_def pending_candidates_def failed_candidates_def min_def)
  then have len: "length ?ids = min limit (length (filter (outbox_eligible now max_attempts busy) ?rows))"
    unfolding el by (subst length_filter_disjoint) auto
  have sub: "set ?c \<subseteq> set ?rows"
    by (auto simp: pending_candidates_def failed_candidates_def dest!: in_set_takeD)
  have inj: "distinct ?rows" "inj_on ob_id (set ?rows)" using assms(1) by (simp_all add: distinct_map)
  have "distinct ?c"
    using inj(1) by (auto simp: pending_candidates_def failed_candidates_def distinct_sort dest!: in_set_takeD)
  then have "distinct ?ids"
    using inj_on_subset [OF inj(2)] sub
    by (auto simp: selected_ids_def distinct_map distinct_sort intro!: inj_on_subset [OF inj(2)] dest!: in_set_takeD)
  moreover have "set ?ids \<subseteq> ob_id ` set ?rows"
    using selected_ids_eligible by fastforce
  ultimately have "length es = length ?ids"
    using assms length_filter_ids [of ob_id ?rows ?ids] by (auto simp: fetch_and_lock_pending_def Let_def)
  moreover have "r \<in> set (db_outbox d')" if "r \<in> set ?rows" "ob_id r \<notin> ob_id ` set es" for r
  proof -
    have es: "es = map (lock_row now w) (filter (\<lambda>e. ob_id e \<in> set ?ids) ?rows)"
      and d': "db_outbox d' = row_update (\<lambda>e. ob_id e \<in> set ?ids) (lock_row now w) ?rows"
      using assms(2) by (auto simp: fetch_and_lock_pending_def Let_def)
    have "ob_id r \<notin> set ?ids"
    proof
      assume "ob_id r \<in> set ?ids"
      then have "ob_id (lock_row now w r) \<in> ob_id ` set es" using that(1) by (auto simp: es)
      then show False using that(2) by (simp add: lock_row_def)
    qed
    then show ?thesis using that(1) unfolding d' set_row_update by force
  qed
  moreover have "\<exists>r \<in> set ?rows. outbox_eligible now max_attempts busy r \<and> e = lock_row now w r" if "e \<in> set es" for e
    using lock_events [OF assms(2) that assms(1)] by metis
  ultimately show ?thesis using len by auto
qed

theorem fetch_work_conserving_witness:
  "let d = os_db (example_sys [example_row PENDING 0 None] []);
       (es, d') = fetch_and_lock_pending 1 10 ''A'' 5 [] d
   in length es = min 10 (length (filter (outbox_eligible 1 5 []) (db_outbox d))) \<and> length es = 1"
proof -
  let ?d = "os_db (example_sys [example_row PENDING 0 None] [])"
  obtain es d' where f: "fetch_and_lock_pending 1 10 ''A'' 5 [] ?d = (es, d')" by fastforce
  have "length es = min 10 (length (filter (outbox_eligible 1 5 []) (db_outbox ?d)))"
    using fetch_work_conserving [OF _ f] by simp
  then show ?thesis using f by (simp add: outbox_eligible_def)
qed

subsection \<open>Delivery\<close>

lemma reproject_event_new_outbox:
  "find_by_outbox_event ob d = None \<Longrightarrow>
     reproject_event digest now e c r (Some ob) force d = reproject_fresh digest now e c r (Some ob) force d"
  by (simp add: reproject_event_def Let_def)

lemma reproject_outbox_current:
  assumes "events_get i d \<noteq> None" and "history_behind i d" and "find_by_outbox_event ob d = None"
  shows "\<exists>q d'. reproject_event digest now i c r (Some ob) False d = Inr (q, d') \<and> projection_current digest d' i"
proof -
  let ?p = "expected_projection now i (next_version (projections_get i d)) d"
  have "\<exists>d1. projections_upsert ?p d = Inr d1" using assms(1) by (simp add: projections_upsert_def)
  then obtain d1 where d1: "projections_upsert ?p d = Inr d1" by blast
  have h: "db_projection_history d1 = db_projection_history d"
    using d1 by (auto simp: projections_upsert_def split: if_splits)
  have "\<not> list_ex (history_clash k) (db_projection_history d)"
    if "ph_accident_event_id k = i" "ph_projection_version k = next_version (projections_get i d)"
      "ph_caused_by_outbox_event_id k = Some ob" for k
    using assms(2,3) that
    by (auto simp: history_behind_def list_ex_iff history_clash_def find_by_outbox_event_def find_None_iff)
  then have "\<exists>q d'. reproject_fresh digest now i c r (Some ob) False d = Inr (q, d')"
    using d1 h assms(1)
    by (simp add: reproject_fresh_eq persist_projection_def projection_history_add_def Let_def case_prod_beta)
  then obtain q d' where f: "reproject_fresh digest now i c r (Some ob) False d = Inr (q, d')" by blast
  then have p: "persist_projection digest now ?p (projections_get (pr_event_id ?p) d) c r (Some ob) False d = Inr (q, d')"
    using assms(1) by (simp add: reproject_fresh_eq split: if_splits)
  have "reproject_event digest now i c r (Some ob) False d = Inr (q, d')"
    using f reproject_event_new_outbox [OF assms(3)] by simp
  moreover have h: "projection_content_hash digest ?p = projection_content_hash digest (expected_projection 0 i 1 d')"
    using projection_content_hash_cong [OF content_json_expected] expected_projection_frame
      [OF reproject_event_frame [OF calculation]] by metis
  from p refl have "projection_current digest d' i"
    by (cases rule: persist_projection_InrD) (use h in \<open>auto simp: projection_current_def\<close>)
  ultimately show ?thesis by blast
qed

lemma projection_current_outbox [simp]:
  "projection_current digest (d\<lparr>db_outbox := rows\<rparr>) i = projection_current digest d i"
proof -
  have "with_links (d\<lparr>db_outbox := rows\<rparr>) = with_links d"
    by (rule ext) (simp add: with_links_def get_claim_ids_for_conflict_def)
  moreover have "(\<lambda>i. sources_get i (d\<lparr>db_outbox := rows\<rparr>)) = (\<lambda>i. sources_get i d)"
    by (simp add: sources_get_def)
  ultimately have "find_active_by_event i (d\<lparr>db_outbox := rows\<rparr>) = find_active_by_event i d"
    "conflicts_find_by_event i (d\<lparr>db_outbox := rows\<rparr>) = conflicts_find_by_event i d"
    "sources_of cs (d\<lparr>db_outbox := rows\<rparr>) = sources_of cs d" for cs
    by (simp_all add: find_active_by_event_def conflicts_find_by_event_def sources_of_def sources_get_by_ids_def)
  then have "expected_projection 0 i 1 (d\<lparr>db_outbox := rows\<rparr>) = expected_projection 0 i 1 d"
    by (simp add: expected_projection_def events_get_def split: option.split)
  then show ?thesis by (simp add: projection_current_def projections_get_def)
qed

text \<open>C19: Delivery: a worker that holds the current lease of a \<open>CLAIMS_UPDATED\<close> event of a known
  accident, not projected before for this outbox event, always succeeds, provided no history row of the
  accident has reached the next version of its projection (every reprojection keeps this; a merge, which
  deletes the projection row of the absorbed event, breaks it): the event ends up \<open>PROCESSED\<close> and, in the same transaction, the accident's projection is brought up to date with
  its claims and conflicts.\<close>

theorem claims_updated_delivered:
  assumes "distinct (map ob_id (db_outbox d))" and "r \<in> set (db_outbox d)" and "ob_id r = ob_id e"
    and "owns_lease (Some (w, ob_attempt_count e)) r"
    and "ob_event_type e = CLAIMS_UPDATED" and "map_of (ob_payload e) ''event_id'' = Some i"
    and "events_get i d \<noteq> None" and "history_behind i d" and "find_by_outbox_event (ob_id e) d = None"
  shows "\<exists>d'. process_one digest run_echo str_exc m now w e (d, xs) = (True, d', xs)
    \<and> projection_current digest d' i
    \<and> set_status now PROCESSED (ob_attempt_count e) None None r \<in> set (db_outbox d')"
proof -
  obtain q d1 where rp: "reproject_event digest now i None (map_of (ob_payload e) ''ingestion_run_id'') (Some (ob_id e)) False d = Inr (q, d1)"
    and cur: "projection_current digest d1 i"
    using reproject_outbox_current [OF assms(7-9)] by blast
  let ?hit = "\<lambda>x. ob_id x = ob_id e \<and> owns_lease (Some (w, ob_attempt_count e)) x"
  let ?d' = "d1\<lparr>db_outbox := row_update ?hit (set_status now PROCESSED (ob_attempt_count e) None None) (db_outbox d1)\<rparr>"
  have o1: "db_outbox d1 = db_outbox d" using read_model_onlyD [OF reproject_event_frame [OF rp]] by simp
  have ex: "list_ex ?hit (db_outbox d1)" using assms(2-4) by (auto simp: o1 list_ex_iff)
  have "process_claims_updated digest now w e d = Inr (True, ?d')"
    using assms(6,9) rp ex by (simp add: process_claims_updated_def update_status_def Let_def)
  then have "process_one digest run_echo str_exc m now w e (d, xs) = (True, ?d', xs)"
    using assms(5) by (simp add: process_one_def process_event_def CLAIMS_UPDATED_def ECHO_CROSSREF_REQUESTED_def)
  moreover have "set_status now PROCESSED (ob_attempt_count e) None None r \<in> set (db_outbox ?d')"
    using assms(2-4) by (auto simp: o1 set_row_update)
  ultimately show ?thesis using cur by auto
qed

theorem claims_updated_delivered_witness:
  "let d = os_db (example_sys [row_B] []);
       (ok, d', xs) = process_one (\<lambda>_. []) (\<lambda>_ _ _ xs. Inr xs) (\<lambda>_. []) 5 600000004 ''B'' row_B (d, [])
   in ok \<and> projection_current (\<lambda>_. []) d' 1"
proof -
  let ?d = "os_db (example_sys [row_B] [])"
  have "\<exists>d'. process_one (\<lambda>_. []) (\<lambda>_ _ _ xs. Inr xs) (\<lambda>_. []) 5 600000004 ''B'' row_B (?d, []) = (True, d', [])
      \<and> projection_current (\<lambda>_. []) d' 1
      \<and> set_status 600000004 PROCESSED (ob_attempt_count row_B) None None row_B \<in> set (db_outbox d')"
    by (rule claims_updated_delivered)
      (simp_all add: owns_lease_def example_sys_def history_behind_def event_db_eval)
  then show ?thesis by auto
qed

subsection \<open>Failure\<close>

lemma backoff_bounds:
  "now < next_attempt_at now n" "next_attempt_at now n \<le> now + 1800 * 1000000"
  by (simp_all add: next_attempt_at_def MAX_BACKOFF_SECONDS_def)

text \<open>A failure is never dropped and never retried beyond the budget: when processing raises
  while the worker holds the lease, the row is released as \<open>FAILED\<close> with its next attempt strictly
  in the future and at most 30 minutes away if budget is left, and as \<open>DEAD_LETTER\<close> otherwise; the
  error is recorded, the attempt count is kept and nothing else in the store changes.\<close>

theorem outbox_failure_scheduled:
  assumes "process_event digest run_echo now w e (d, xs) = (Inl err, xs1)"
    and "r \<in> set (db_outbox d)" and "ob_id r = ob_id e" and "owns_lease (Some (w, ob_attempt_count e)) r"
    and "process_one digest run_echo str_exc m now w e (d, xs) = (ok, d', xs')"
  shows "\<not> ok \<and> d' = d\<lparr>db_outbox := db_outbox d'\<rparr>
    \<and> (\<exists>r' \<in> set (db_outbox d'). ob_id r' = ob_id e \<and> ob_last_error r' = Some (str_exc err)
         \<and> ob_locked_by r' = None \<and> ob_attempt_count r' = ob_attempt_count e
         \<and> (if ob_attempt_count e < m
            then ob_status r' = FAILED \<and> (\<exists>t. ob_next_attempt_at r' = Some t \<and> now < t \<and> t \<le> now + 1800 * 1000000)
            else ob_status r' = DEAD_LETTER))"
proof -
  let ?st = "if m \<le> ob_attempt_count e then DEAD_LETTER else FAILED"
  let ?nx = "if m \<le> ob_attempt_count e then None else Some (next_attempt_at now (ob_attempt_count e))"
  let ?u = "update_status now (ob_id e) ?st (ob_attempt_count e) (Some (str_exc err)) ?nx (Some (w, ob_attempt_count e)) d"
  let ?r' = "set_status now ?st (ob_attempt_count e) (Some (str_exc err)) ?nx r"
  have "list_ex (\<lambda>x. ob_id x = ob_id e \<and> owns_lease (Some (w, ob_attempt_count e)) x) (db_outbox d)"
    using assms(2-4) by (auto simp: list_ex_iff)
  then have "fst ?u" by (simp add: update_status_def Let_def)
  then have res: "\<not> ok" "d' = snd ?u"
    using assms(1,5) by (auto simp: process_one_def mark_failed_def Let_def split_beta)
  have "?r' \<in> set (db_outbox d')" using assms(2-4) by (auto simp: res(2) set_row_update)
  moreover have "d' = d\<lparr>db_outbox := db_outbox d'\<rparr>" by (simp add: res(2) update_status_def Let_def)
  ultimately show ?thesis
    using res(1) backoff_bounds assms(3) by (auto simp: set_status_def intro!: bexI [of _ ?r'])
qed

theorem outbox_failure_scheduled_witness:
  "let e = row_B\<lparr>ob_payload := []\<rparr>; d = os_db (example_sys [e] []);
       (ok, d', xs) = process_one (\<lambda>_. []) (\<lambda>_ _ _ xs. Inr xs) (\<lambda>_. ''KeyError'') 5 600000004 ''B'' e (d, [])
   in \<not> ok \<and> (\<exists>r' \<in> set (db_outbox d'). ob_status r' = FAILED)"
proof -
  let ?e = "row_B\<lparr>ob_payload := []\<rparr>"
  let ?d = "os_db (example_sys [?e] [])"
  obtain ok d' xs where p: "process_one (\<lambda>_. []) (\<lambda>_ _ _ xs. Inr xs) (\<lambda>_. ''KeyError'') 5 600000004 ''B'' ?e (?d, []) = (ok, d', xs)"
    using prod_cases3 by blast
  have e: "process_event (\<lambda>_. []) (\<lambda>_ _ _ xs. Inr xs) 600000004 ''B'' ?e (?d, []) = (Inl KeyError, [])"
    by (simp add: process_event_def process_claims_updated_def CLAIMS_UPDATED_def ECHO_CROSSREF_REQUESTED_def)
  show ?thesis
    using outbox_failure_scheduled [OF e _ _ _ p, of ?e] p by (auto simp: owns_lease_def)
qed

end
