(* ===== verification/Reconciler.thy ===== *)
theory Reconciler
  imports Conflict_Lifecycle
begin

text \<open>
  \<open>ConflictReconciler\<close> (\<open>application/ingestion/_conflict_reconciler.py\<close>): after claims are written
  it closes open conflicts whose disagreement is gone, moves or reopens resolved conflicts whose
  winner was superseded, detects disagreements in the active claims and opens, extends or reopens
  conflicts for them.  \<open>env k\<close> is what other transactions commit before the conditional update of
  the attempt with \<open>k\<close> retries left; the code makes at most \<open>MAX_VERSION_RETRY\<close> attempts.
\<close>

section \<open>The retry loops\<close>

definition MAX_VERSION_RETRY :: nat where
  "MAX_VERSION_RETRY = 5"

text \<open>The links that are not there yet, added after the row is fenced.\<close>

definition add_evidence_links :: "uuid \<Rightarrow> uuid list \<Rightarrow> db \<Rightarrow> db" where
  "add_evidence_links conflict_id new_claim_ids d =
     fold (add_claim_to_conflict conflict_id)
       (filter (\<lambda>i. i \<notin> set (get_claim_ids_for_conflict conflict_id d)) new_claim_ids) d"

definition evidence_update :: "time \<Rightarrow> claim_conflict \<Rightarrow> claim_conflict" where
  "evidence_update now c = c\<lparr>cc_last_modified_reason := NEW_EVIDENCE, cc_updated_at := now\<rparr>"

fun merge_evidence_loop ::
  "nat \<Rightarrow> (nat \<Rightarrow> db \<Rightarrow> db) \<Rightarrow> time \<Rightarrow> claim_conflict \<Rightarrow> uuid list \<Rightarrow> uuid \<Rightarrow> string \<Rightarrow> modifier_type
     \<Rightarrow> db \<Rightarrow> atlas_error + db" where
  "merge_evidence_loop 0 env now existing_open new_claim_ids modifier_id log_reason modifier_type d =
     Inl (ConflictReconciliationError (cc_id existing_open) ''merge_evidence_into_open'' MAX_VERSION_RETRY)"
| "merge_evidence_loop (Suc k) env now existing_open new_claim_ids modifier_id log_reason modifier_type d =
     (let conflict_id = cc_id existing_open
      in rbind (update_with_version_check conflict_id (cc_version existing_open) (evidence_update now) (env k d))
         (\<lambda>(updated, d1). case updated of
             Some u \<Rightarrow>
               Inr (log_activity now conflict_id (cc_event_id existing_open) (Some OPEN) OPEN
                      modifier_type (Some modifier_id) log_reason (cc_version u) []
                      (add_evidence_links conflict_id new_claim_ids d1))
           | None \<Rightarrow>
               (case conflicts_get conflict_id d1 of
                  None \<Rightarrow> Inr d1
                | Some reloaded \<Rightarrow>
                    if cc_status reloaded \<noteq> OPEN then Inr d1
                    else merge_evidence_loop k env now reloaded new_claim_ids modifier_id log_reason
                           modifier_type d1)))"

definition merge_evidence_into_open ::
  "(nat \<Rightarrow> db \<Rightarrow> db) \<Rightarrow> time \<Rightarrow> claim_conflict \<Rightarrow> uuid list \<Rightarrow> uuid \<Rightarrow> string \<Rightarrow> modifier_type
     \<Rightarrow> db \<Rightarrow> atlas_error + db" where
  "merge_evidence_into_open = merge_evidence_loop MAX_VERSION_RETRY"

definition reopen_update :: "time \<Rightarrow> claim_conflict \<Rightarrow> claim_conflict" where
  "reopen_update now c =
     c\<lparr>cc_status := OPEN, cc_winning_claim_id := None, cc_resolved_by := None,
       cc_resolved_at := None, cc_last_modified_reason := NEW_EVIDENCE,
       cc_last_modified_note := Some (take 255 ''New evidence contradicts resolved value''),
       cc_updated_at := now\<rparr>"

fun reopen_evidence_loop ::
  "nat \<Rightarrow> (nat \<Rightarrow> db \<Rightarrow> db) \<Rightarrow> time \<Rightarrow> claim_conflict \<Rightarrow> uuid list \<Rightarrow> uuid \<Rightarrow> modifier_type \<Rightarrow> db
     \<Rightarrow> atlas_error + db" where
  "reopen_evidence_loop 0 env now existing_resolved ids modifier_id modifier_type d =
     Inl (ConflictReconciliationError (cc_id existing_resolved) ''reopen_resolved_for_evidence''
            MAX_VERSION_RETRY)"
| "reopen_evidence_loop (Suc k) env now existing_resolved ids modifier_id modifier_type d =
     (let conflict_id = cc_id existing_resolved
      in rbind (update_with_version_check conflict_id (cc_version existing_resolved) (reopen_update now) (env k d))
         (\<lambda>(updated, d1). case updated of
             Some u \<Rightarrow>
               Inr (log_activity now conflict_id (cc_event_id existing_resolved) (Some RESOLVED) OPEN
                      modifier_type (Some modifier_id) ''Reopened due to contradictory new evidence''
                      (cc_version u) [] (add_evidence_links conflict_id ids d1))
           | None \<Rightarrow>
               (case conflicts_get conflict_id d1 of
                  None \<Rightarrow> Inr d1
                | Some reloaded \<Rightarrow>
                    if cc_status reloaded = OPEN
                    then merge_evidence_into_open env now reloaded ids modifier_id
                           ''Contradictory evidence merged into already-reopened conflict''
                           modifier_type d1
                    else reopen_evidence_loop k env now reloaded ids modifier_id modifier_type d1)))"

definition reopen_resolved_for_evidence ::
  "(nat \<Rightarrow> db \<Rightarrow> db) \<Rightarrow> time \<Rightarrow> claim_conflict \<Rightarrow> uuid list \<Rightarrow> uuid \<Rightarrow> modifier_type \<Rightarrow> db
     \<Rightarrow> atlas_error + db" where
  "reopen_resolved_for_evidence = reopen_evidence_loop MAX_VERSION_RETRY"

section \<open>Resolved conflicts whose winner was superseded\<close>

definition winner_update :: "time \<Rightarrow> uuid \<Rightarrow> claim_conflict \<Rightarrow> claim_conflict" where
  "winner_update now w c = c\<lparr>cc_winning_claim_id := Some w, cc_updated_at := now\<rparr>"

text \<open>After five stale versions this loop ends without an error.\<close>

fun move_winner_loop ::
  "nat \<Rightarrow> (nat \<Rightarrow> db \<Rightarrow> db) \<Rightarrow> time \<Rightarrow> claim_conflict \<Rightarrow> uuid \<Rightarrow> uuid \<Rightarrow> db \<Rightarrow> atlas_error + db" where
  "move_winner_loop 0 env now resolved_conflict new_winner ingestion_run_id d = Inr d"
| "move_winner_loop (Suc k) env now resolved_conflict new_winner ingestion_run_id d =
     (let conflict_id = cc_id resolved_conflict
      in rbind (update_with_version_check conflict_id (cc_version resolved_conflict)
                  (winner_update now new_winner) (env k d))
         (\<lambda>(updated, d1). case updated of
             Some u \<Rightarrow>
               Inr (log_activity now conflict_id (cc_event_id resolved_conflict) (Some RESOLVED)
                      RESOLVED INGESTION (Some ingestion_run_id)
                      ''Winning claim superseded by source-record correction; winner updated to equivalent replacement''
                      (cc_version u) [] (add_evidence_links conflict_id [new_winner] d1))
           | None \<Rightarrow>
               (case conflicts_get conflict_id d1 of
                  None \<Rightarrow> Inr d1
                | Some reloaded \<Rightarrow>
                    if cc_status reloaded \<noteq> RESOLVED then Inr d1
                    else move_winner_loop k env now reloaded new_winner ingestion_run_id d1)))"

definition reconcile_resolved_winner ::
  "(nat \<Rightarrow> db \<Rightarrow> db) \<Rightarrow> time \<Rightarrow> uuid \<Rightarrow> claim_conflict \<times> claim \<Rightarrow> db \<Rightarrow> atlas_error + db" where
  "reconcile_resolved_winner env now ingestion_run_id p d =
     (let (resolved_conflict, replacement_claim) = p;
          active_field_claims =
            find_active_by_event_field (cc_event_id resolved_conflict) (cc_field_name resolved_conflict) d
      in if active_field_claims = [] then Inr d
         else if length (unique_normalised_values active_field_claims) = 1 then
           let new_winner =
                 (if cl_field_name replacement_claim = cc_field_name resolved_conflict
                     \<and> cl_id replacement_claim \<in> set (map cl_id active_field_claims)
                  then cl_id replacement_claim else cl_id (hd active_field_claims))
           in move_winner_loop MAX_VERSION_RETRY env now resolved_conflict new_winner ingestion_run_id d
         else
           reopen_resolved_for_evidence env now resolved_conflict (map cl_id active_field_claims)
             ingestion_run_id INGESTION d)"

definition reconcile_superseded_winners ::
  "(nat \<Rightarrow> db \<Rightarrow> db) \<Rightarrow> time \<Rightarrow> uuid \<Rightarrow> (claim_conflict \<times> claim) list \<Rightarrow> db \<Rightarrow> atlas_error + db" where
  "reconcile_superseded_winners env now ingestion_run_id =
     rfold (reconcile_resolved_winner env now ingestion_run_id)"

section \<open>Open conflicts without a disagreement\<close>

definition auto_close_update :: "time \<Rightarrow> uuid \<Rightarrow> claim_conflict \<Rightarrow> claim_conflict" where
  "auto_close_update now w c =
     c\<lparr>cc_status := RESOLVED, cc_winning_claim_id := Some w, cc_resolved_by := None,
       cc_resolved_at := Some now, cc_last_modified_reason := SYSTEM_AUTO_CLOSED,
       cc_last_modified_note :=
         Some (take 255 ''Active evidence now agrees after source-record supersession''),
       cc_updated_at := now\<rparr>"

fun auto_resolve_loop ::
  "nat \<Rightarrow> (nat \<Rightarrow> db \<Rightarrow> db) \<Rightarrow> time \<Rightarrow> uuid \<Rightarrow> string \<Rightarrow> uuid \<Rightarrow> claim_conflict \<Rightarrow> db \<Rightarrow> atlas_error + db" where
  "auto_resolve_loop 0 env now event_id field_name ingestion_run_id existing_open d =
     Inl (ConflictReconciliationError (cc_id existing_open) ''auto_resolve_stale_open'' MAX_VERSION_RETRY)"
| "auto_resolve_loop (Suc k) env now event_id field_name ingestion_run_id existing_open d =
     (let active_field_claims = find_active_by_event_field event_id field_name d;
          conflict_id = cc_id existing_open
      in if active_field_claims = [] then Inr d
         else if 1 < length (unique_normalised_values active_field_claims) then Inr d
         else
           let winning_claim = cl_id (hd active_field_claims)
           in rbind (update_with_version_check conflict_id (cc_version existing_open)
                       (auto_close_update now winning_claim) (env k d))
              (\<lambda>(updated, d1). case updated of
                  Some u \<Rightarrow>
                    Inr (log_activity now conflict_id (cc_event_id existing_open) (Some OPEN) RESOLVED
                           INGESTION (Some ingestion_run_id)
                           ''Auto-closed because source-record supersession removed the active disagreement''
                           (cc_version u) [] (add_evidence_links conflict_id [winning_claim] d1))
                | None \<Rightarrow>
                    (case conflicts_get conflict_id d1 of
                       None \<Rightarrow> Inr d1
                     | Some reloaded \<Rightarrow>
                         if cc_status reloaded \<noteq> OPEN then Inr d1
                         else auto_resolve_loop k env now event_id field_name ingestion_run_id reloaded d1)))"

definition auto_resolve_stale_open_conflict ::
  "(nat \<Rightarrow> db \<Rightarrow> db) \<Rightarrow> time \<Rightarrow> uuid \<Rightarrow> uuid \<Rightarrow> string \<Rightarrow> db \<Rightarrow> atlas_error + db" where
  "auto_resolve_stale_open_conflict env now event_id ingestion_run_id field_name d =
     (case find_open_by_event_field event_id field_name d of
        None \<Rightarrow> Inr d
      | Some existing_open \<Rightarrow>
          auto_resolve_loop MAX_VERSION_RETRY env now event_id field_name ingestion_run_id existing_open d)"

definition auto_resolve_stale_open_conflicts ::
  "(nat \<Rightarrow> db \<Rightarrow> db) \<Rightarrow> time \<Rightarrow> uuid \<Rightarrow> string list \<Rightarrow> uuid \<Rightarrow> db \<Rightarrow> atlas_error + db" where
  "auto_resolve_stale_open_conflicts env now event_id affected_fields ingestion_run_id =
     rfold (auto_resolve_stale_open_conflict env now event_id ingestion_run_id) affected_fields"

section \<open>New disagreements\<close>

definition open_by_field_of :: "claim_conflict list \<Rightarrow> (string \<rightharpoonup> claim_conflict)" where
  "open_by_field_of existing_conflicts =
     map_of (rev (map (\<lambda>c. (cc_field_name c, c)) (filter (\<lambda>c. cc_status c = OPEN) existing_conflicts)))"

text \<open>Case 3: a brand-new conflict, or the one a concurrent writer has just opened.\<close>

definition open_new_conflict ::
  "(nat \<Rightarrow> db \<Rightarrow> db) \<Rightarrow> time \<Rightarrow> uuid \<Rightarrow> uuid \<Rightarrow> modifier_type \<Rightarrow> claim_conflict \<Rightarrow> db \<Rightarrow> atlas_error + db" where
  "open_new_conflict env now event_id modifier_id modifier_type potential d =
     (let (inserted, d1) = try_add_open potential (env MAX_VERSION_RETRY d)
      in if \<not> inserted then
           (case find_open_by_event_field event_id (cc_field_name potential) d1 of
              None \<Rightarrow> Inr d1
            | Some reloaded_open \<Rightarrow>
                merge_evidence_into_open env now reloaded_open (cc_claim_ids potential) modifier_id
                  ''Merged into concurrent conflict'' modifier_type d1)
         else
           Inr (log_activity now (cc_id potential) (cc_event_id potential) None OPEN modifier_type
                  (Some modifier_id) ''Initial conflict detected'' (cc_version potential) []
                  (fold (add_claim_to_conflict (cc_id potential)) (cc_claim_ids potential) d1)))"

definition contradicted :: "claim list \<Rightarrow> claim \<Rightarrow> bool" where
  "contradicted field_claims winner \<longleftrightarrow>
     list_ex (\<lambda>c. \<not> nval_eq (normalize_value (cl_field_value c)) (normalize_value (cl_field_value winner)))
       field_claims"

definition apply_detected ::
  "(nat \<Rightarrow> db \<Rightarrow> db) \<Rightarrow> time \<Rightarrow> uuid \<Rightarrow> uuid \<Rightarrow> modifier_type \<Rightarrow> claim list
     \<Rightarrow> (string \<rightharpoonup> claim_conflict) \<Rightarrow> (string \<rightharpoonup> claim_conflict) \<Rightarrow> claim_conflict \<Rightarrow> db \<Rightarrow> atlas_error + db" where
  "apply_detected env now event_id modifier_id modifier_type active_claims open_by_field
       resolved_by_field potential d =
     (let field_name = cc_field_name potential;
          field_claims = filter (\<lambda>c. cl_field_name c = field_name) active_claims;
          fresh = open_new_conflict env now event_id modifier_id modifier_type potential d
      in case open_by_field field_name of
           Some existing_open \<Rightarrow>
             merge_evidence_into_open env now existing_open (cc_claim_ids potential) modifier_id
               ''New evidence added to existing conflict'' modifier_type d
         | None \<Rightarrow>
             (case resolved_by_field field_name of
                None \<Rightarrow> fresh
              | Some existing_any \<Rightarrow>
                  (case (case cc_winning_claim_id existing_any of
                           Some w \<Rightarrow> claims_get w d | None \<Rightarrow> None) of
                     None \<Rightarrow> fresh
                   | Some winner \<Rightarrow>
                       if contradicted field_claims winner
                       then reopen_resolved_for_evidence env now existing_any (map cl_id field_claims)
                              modifier_id modifier_type d
                       else fresh)))"

definition detect_and_apply_new_conflicts ::
  "(nat \<Rightarrow> db \<Rightarrow> db) \<Rightarrow> time \<Rightarrow> uuid \<Rightarrow> uuid \<Rightarrow> modifier_type \<Rightarrow> db \<Rightarrow> atlas_error + db" where
  "detect_and_apply_new_conflicts env now event_id modifier_id modifier_type d =
     (let active_claims = find_active_by_event event_id d;
          (detected, n) = detect True now (db_next d) active_claims;
          d1 = d\<lparr>db_next := n\<rparr>
      in if detected = [] then Inr d1
         else
           let existing_conflicts = conflicts_find_by_event event_id d1
           in rfold (apply_detected env now event_id modifier_id modifier_type active_claims
                       (open_by_field_of existing_conflicts)
                       (latest_resolved_conflicts_by_field existing_conflicts)) detected d1)"

section \<open>Lemmas\<close>

lemma fold_add_claim_simps [simp]:
  "db_claims (fold (add_claim_to_conflict i) ids d) = db_claims d"
  "db_conflicts (fold (add_claim_to_conflict i) ids d) = db_conflicts d"
  "db_events (fold (add_claim_to_conflict i) ids d) = db_events d"
  "db_next (fold (add_claim_to_conflict i) ids d) = db_next d"
  "db_activity (fold (add_claim_to_conflict i) ids d) = db_activity d"
  "db_outbox (fold (add_claim_to_conflict i) ids d) = db_outbox d"
  "db_sources (fold (add_claim_to_conflict i) ids d) = db_sources d"
  "set (db_conflict_claims (fold (add_claim_to_conflict i) ids d)) =
     set (db_conflict_claims d) \<union> Pair i ` set ids"
  by (induction ids arbitrary: d) auto

lemma add_evidence_links_simps [simp]:
  "db_claims (add_evidence_links i ids d) = db_claims d"
  "db_conflicts (add_evidence_links i ids d) = db_conflicts d"
  "db_events (add_evidence_links i ids d) = db_events d"
  "db_next (add_evidence_links i ids d) = db_next d"
  "db_activity (add_evidence_links i ids d) = db_activity d"
  "db_outbox (add_evidence_links i ids d) = db_outbox d"
  "db_sources (add_evidence_links i ids d) = db_sources d"
  by (simp_all add: add_evidence_links_def)

lemma links_add_evidence_links [simp]:
  "set (db_conflict_claims (add_evidence_links i ids d)) = set (db_conflict_claims d) \<union> Pair i ` set ids"
  by (auto simp: add_evidence_links_def set_get_claim_ids)

lemma store_inv_fold_add_claim [inv_intros]:
  "store_inv d \<Longrightarrow> store_inv (fold (add_claim_to_conflict i) ids d)"
  by (rule fold_inv) (rule store_inv_add_claim_to_conflict)

lemma store_inv_add_evidence_links [inv_intros]: "store_inv d \<Longrightarrow> store_inv (add_evidence_links i ids d)"
  unfolding add_evidence_links_def by (rule store_inv_fold_add_claim)

lemma update_ok_simps [simp]:
  "cc_id (evidence_update now c) = cc_id c" "cc_id (reopen_update now c) = cc_id c"
  "cc_id (winner_update now w c) = cc_id c" "cc_id (auto_close_update now w c) = cc_id c"
  "cc_event_id (evidence_update now c) = cc_event_id c" "cc_event_id (reopen_update now c) = cc_event_id c"
  "cc_event_id (winner_update now w c) = cc_event_id c" "cc_event_id (auto_close_update now w c) = cc_event_id c"
  "cc_field_name (evidence_update now c) = cc_field_name c" "cc_field_name (reopen_update now c) = cc_field_name c"
  "cc_field_name (winner_update now w c) = cc_field_name c" "cc_field_name (auto_close_update now w c) = cc_field_name c"
  "cc_status (evidence_update now c) = cc_status c" "cc_status (reopen_update now c) = OPEN"
  "cc_status (winner_update now w c) = cc_status c" "cc_status (auto_close_update now w c) = RESOLVED"
  "cc_winning_claim_id (winner_update now w c) = Some w" "cc_winning_claim_id (auto_close_update now w c) = Some w"
  by (simp_all add: evidence_update_def reopen_update_def winner_update_def auto_close_update_def)

text \<open>Evidence and reopening keep the row well formed, except that evidence on a resolved row
  without a winner would not; the reconciler only sends it to open rows.\<close>

lemma reopen_update_ok: "conflict_ok c \<Longrightarrow> conflict_ok (reopen_update now c)"
  by (simp add: conflict_ok_def reopen_update_def)

lemma auto_close_update_ok: "conflict_ok c \<Longrightarrow> conflict_ok (auto_close_update now w c)"
  by (simp add: conflict_ok_def auto_close_update_def)

lemma evidence_update_ok: "conflict_ok c \<Longrightarrow> cc_status c = OPEN \<Longrightarrow> conflict_ok (evidence_update now c)"
  by (simp add: conflict_ok_def evidence_update_def)

lemma winner_update_ok: "conflict_ok c \<Longrightarrow> cc_status c = RESOLVED \<Longrightarrow> conflict_ok (winner_update now w c)"
  by (simp add: conflict_ok_def winner_update_def)

text \<open>A conditional update whose expected version is the stored one.\<close>

lemma update_fenced:
  assumes "store_inv d" and "c \<in> set (db_conflicts d)"
    and "cc_id (f c) = cc_id c" and "conflict_ok (f c)"
    and "cc_status (f c) = OPEN \<Longrightarrow> \<forall>r \<in> set (db_conflicts d). cc_status r = OPEN \<longrightarrow>
       cc_event_id r = cc_event_id (f c) \<longrightarrow> cc_field_name r = cc_field_name (f c) \<longrightarrow> r = c"
  shows "update_with_version_check (cc_id c) (cc_version c) f d =
      Inr (Some (with_links d ((f c)\<lparr>cc_version := cc_version c + 1\<rparr>)),
           d\<lparr>db_conflicts := row_update (\<lambda>r. cc_id r = cc_id c) (\<lambda>_. (f c)\<lparr>cc_version := cc_version c + 1\<rparr>) (db_conflicts d)\<rparr>)"
proof -
  have row: "row_get cc_id (cc_id c) (db_conflicts d) = Some c"
    using assms(2) row_get_Some_iff [OF store_inv_distinct_conflicts [OF assms(1)]] by simp
  have "\<not> open_clash ((f c)\<lparr>cc_version := cc_version c + 1\<rparr>) (filter (\<lambda>r. cc_id r \<noteq> cc_id c) (db_conflicts d))"
    using assms(5) by (auto simp: open_clash_def list_ex_iff)
  then show ?thesis
    unfolding update_with_version_check_def row option.case Let_def if_not_P [of "cc_version c \<noteq> cc_version c"]
    by simp
qed

lemma set_replace_row:
  assumes "distinct (map key rows)" and "c \<in> set rows"
  shows "set (row_update (\<lambda>r. key r = key c) (\<lambda>_. c') rows) = insert c' (set rows - {c})"
  using assms by (auto simp: set_row_update distinct_map inj_on_def image_iff)

text \<open>The effect of a fenced write that logs and links evidence, as all four loops do it.\<close>

lemma fenced_write_inv:
  assumes "store_inv d" and "c \<in> set (db_conflicts d)" and "cc_id (f c) = cc_id c" and "conflict_ok (f c)"
    and "cc_status (f c) = OPEN \<Longrightarrow> \<forall>r \<in> set (db_conflicts d). cc_status r = OPEN \<longrightarrow>
       cc_event_id r = cc_event_id (f c) \<longrightarrow> cc_field_name r = cc_field_name (f c) \<longrightarrow> r = c"
  shows "store_inv (d\<lparr>db_conflicts := row_update (\<lambda>r. cc_id r = cc_id c)
       (\<lambda>_. (f c)\<lparr>cc_version := cc_version c + 1\<rparr>) (db_conflicts d)\<rparr>)"
proof -
  have row: "row_get cc_id (cc_id c) (db_conflicts d) = Some c"
    using assms(2) row_get_Some_iff [OF store_inv_distinct_conflicts [OF assms(1)]] by simp
  have "conflicts_inv (row_update (\<lambda>r. cc_id r = cc_id c) (\<lambda>_. (f c)\<lparr>cc_version := cc_version c + 1\<rparr>) (db_conflicts d)) (db_next d)"
  proof (rule conflicts_inv_replace [OF _ row])
    show "conflicts_inv (db_conflicts d) (db_next d)" using assms(1) by (simp add: store_inv_def)
    show "\<not> open_clash ((f c)\<lparr>cc_version := cc_version c + 1\<rparr>) (filter (\<lambda>r. cc_id r \<noteq> cc_id c) (db_conflicts d))"
      using assms(5) by (auto simp: open_clash_def list_ex_iff)
  qed (use assms(3,4) in \<open>simp_all add: conflict_ok_def\<close>)
  then show ?thesis using assms(1) by (simp add: store_inv_def)
qed

section \<open>Without interference\<close>

text \<open>What one handled disagreement on the field \<open>f\<close> of the event \<open>e\<close> does to the store.\<close>

definition conflict_handled :: "uuid \<Rightarrow> string \<Rightarrow> uuid list \<Rightarrow> uuid \<Rightarrow> db \<Rightarrow> db \<Rightarrow> bool" where
  "conflict_handled e f ids p d d' \<longleftrightarrow>
     db_claims d' = db_claims d \<and> store_inv d' \<and> db_next d \<le> db_next d'
     \<and> (\<forall>c. (cc_event_id c, cc_field_name c) \<noteq> (e, f) \<longrightarrow>
          (c \<in> set (db_conflicts d')) = (c \<in> set (db_conflicts d)))
     \<and> cc_id ` set (db_conflicts d') \<subseteq> insert p (cc_id ` set (db_conflicts d))
     \<and> set (db_conflict_claims d) \<subseteq> set (db_conflict_claims d')
     \<and> (\<exists>c \<in> set (db_conflicts d'). cc_status c = OPEN \<and> cc_event_id c = e \<and> cc_field_name c = f
          \<and> (\<forall>i \<in> set ids. (cc_id c, i) \<in> set (db_conflict_claims d')))"

lemma conflict_handled_fenced:
  assumes "store_inv d" and "c \<in> set (db_conflicts d)" and "cc_event_id c = e" and "cc_field_name c = f"
    and "c' = (g c)\<lparr>cc_version := cc_version c + 1\<rparr>" and "cc_id (g c) = cc_id c" and "conflict_ok (g c)"
    and "cc_event_id (g c) = e" and "cc_field_name (g c) = f" and "cc_status (g c) = OPEN"
    and "\<forall>r \<in> set (db_conflicts d). cc_status r = OPEN \<longrightarrow> cc_event_id r = e \<longrightarrow> cc_field_name r = f \<longrightarrow> r = c"
    and "d1 = d\<lparr>db_conflicts := row_update (\<lambda>r. cc_id r = cc_id c) (\<lambda>_. c') (db_conflicts d)\<rparr>"
  shows "conflict_handled e f ids p d
    (log_activity now (cc_id c) e fs OPEN mt mi r v [] (add_evidence_links (cc_id c) ids d1))"
proof -
  have inv: "store_inv d1" unfolding assms(12) assms(5)
    by (rule fenced_write_inv) (use assms in auto)
  have "set (db_conflicts d1) = insert c' (set (db_conflicts d) - {c})"
    using set_replace_row [OF store_inv_distinct_conflicts [OF assms(1)] assms(2)] by (simp add: assms(12))
  moreover have "db_claims d1 = db_claims d" "db_next d1 = db_next d" "db_conflict_claims d1 = db_conflict_claims d"
    by (simp_all add: assms(12))
  moreover have "store_inv (log_activity now (cc_id c) e fs OPEN mt mi r v [] (add_evidence_links (cc_id c) ids d1))"
    by (intro store_inv_log_activity store_inv_add_evidence_links inv)
  moreover have "cc_id c' = cc_id c" "cc_event_id c' = e" "cc_field_name c' = f" "cc_status c' = OPEN"
    using assms by simp_all
  ultimately show ?thesis
    using assms(2-4) by (auto simp: conflict_handled_def)
qed

lemma merge_evidence_quiet:
  assumes "store_inv d" and "c \<in> set (db_conflicts d)" and "cc_status c = OPEN"
    and "cc_event_id c = e" and "cc_field_name c = f"
    and "cc_id o' = cc_id c" and "cc_version o' = cc_version c" and "cc_event_id o' = e"
  shows "\<exists>d'. merge_evidence_into_open (\<lambda>_ d. d) now o' ids m lr mt d = Inr d' \<and> conflict_handled e f ids p d d'"
proof -
  let ?c' = "(evidence_update now c)\<lparr>cc_version := cc_version c + 1\<rparr>"
  let ?d1 = "d\<lparr>db_conflicts := row_update (\<lambda>r. cc_id r = cc_id c) (\<lambda>_. ?c') (db_conflicts d)\<rparr>"
  have ok: "conflict_ok c" using assms(1,2) by (simp add: store_inv_def conflicts_inv_def)
  have uniq: "\<forall>r \<in> set (db_conflicts d). cc_status r = OPEN \<longrightarrow> cc_event_id r = e \<longrightarrow> cc_field_name r = f \<longrightarrow> r = c"
  proof (intro ballI impI)
    fix r
    assume "r \<in> set (db_conflicts d)" "cc_status r = OPEN" "cc_event_id r = e" "cc_field_name r = f"
    moreover have "open_unique (db_conflicts d)" using assms(1) by (simp add: store_inv_def conflicts_inv_def)
    ultimately show "r = c" using assms(2-5) by (intro open_uniqueD [of "db_conflicts d" r c]) simp_all
  qed
  have "update_with_version_check (cc_id c) (cc_version c) (evidence_update now) d = Inr (Some (with_links d ?c'), ?d1)"
  proof (rule update_fenced [OF assms(1,2)])
    show "conflict_ok (evidence_update now c)" using ok assms(3) by (rule evidence_update_ok)
    show "\<forall>r \<in> set (db_conflicts d). cc_status r = OPEN \<longrightarrow> cc_event_id r = cc_event_id (evidence_update now c)
        \<longrightarrow> cc_field_name r = cc_field_name (evidence_update now c) \<longrightarrow> r = c"
      unfolding update_ok_simps assms(4,5) by (rule uniq)
  qed simp
  then have "merge_evidence_into_open (\<lambda>_ d. d) now o' ids m lr mt d =
      Inr (log_activity now (cc_id c) e (Some OPEN) OPEN mt (Some m) lr (cc_version ?c') [] (add_evidence_links (cc_id c) ids ?d1))"
    using assms(6-8) by (simp add: merge_evidence_into_open_def MAX_VERSION_RETRY_def numeral_eq_Suc Let_def)
  moreover have "conflict_handled e f ids p d
      (log_activity now (cc_id c) e (Some OPEN) OPEN mt (Some m) lr (cc_version ?c') [] (add_evidence_links (cc_id c) ids ?d1))"
    by (rule conflict_handled_fenced [where g = "evidence_update now", OF assms(1,2,4,5) refl _ _ _ _ _ uniq refl])
      (use assms(3-5) ok in \<open>simp_all add: evidence_update_ok\<close>)
  ultimately show ?thesis by blast
qed

lemma reopen_evidence_quiet:
  assumes "store_inv d" and "c \<in> set (db_conflicts d)"
    and "\<forall>r \<in> set (db_conflicts d). cc_status r = OPEN \<longrightarrow> cc_event_id r = e \<longrightarrow> cc_field_name r \<noteq> f"
    and "cc_event_id c = e" and "cc_field_name c = f"
    and "cc_id o' = cc_id c" and "cc_version o' = cc_version c" and "cc_event_id o' = e"
  shows "\<exists>d'. reopen_resolved_for_evidence (\<lambda>_ d. d) now o' ids m mt d = Inr d' \<and> conflict_handled e f ids p d d'
    \<and> (reopen_update now c)\<lparr>cc_version := cc_version c + 1\<rparr> \<in> set (db_conflicts d')
    \<and> (\<forall>i \<in> set ids. (cc_id c, i) \<in> set (db_conflict_claims d'))"
proof -
  let ?c' = "(reopen_update now c)\<lparr>cc_version := cc_version c + 1\<rparr>"
  let ?d1 = "d\<lparr>db_conflicts := row_update (\<lambda>r. cc_id r = cc_id c) (\<lambda>_. ?c') (db_conflicts d)\<rparr>"
  let ?lr = "''Reopened due to contradictory new evidence''"
  have ok: "conflict_ok c" using assms(1,2) by (simp add: store_inv_def conflicts_inv_def)
  have "update_with_version_check (cc_id c) (cc_version c) (reopen_update now) d = Inr (Some (with_links d ?c'), ?d1)"
    by (rule update_fenced) (use assms ok in \<open>auto intro: reopen_update_ok\<close>)
  then have "reopen_resolved_for_evidence (\<lambda>_ d. d) now o' ids m mt d =
      Inr (log_activity now (cc_id c) e (Some RESOLVED) OPEN mt (Some m) ?lr (cc_version ?c') [] (add_evidence_links (cc_id c) ids ?d1))"
    using assms(6-8) by (simp add: reopen_resolved_for_evidence_def MAX_VERSION_RETRY_def numeral_eq_Suc Let_def)
  moreover have "conflict_handled e f ids p d
      (log_activity now (cc_id c) e (Some RESOLVED) OPEN mt (Some m) ?lr (cc_version ?c') [] (add_evidence_links (cc_id c) ids ?d1))"
    by (rule conflict_handled_fenced [where g = "reopen_update now"])
      (use assms(1-5) ok in \<open>auto simp: reopen_update_ok\<close>)
  moreover have "?c' \<in> set (db_conflicts ?d1)" using assms(2) by (auto simp: set_row_update)
  ultimately show ?thesis by auto
qed

lemma open_new_quiet:
  assumes "store_inv d" and "cc_id k < db_next d" and "cc_id k \<notin> cc_id ` set (db_conflicts d)"
    and "\<forall>r \<in> set (db_conflicts d). cc_status r = OPEN \<longrightarrow> cc_event_id r = e \<longrightarrow> cc_field_name r \<noteq> f"
    and "k = new_conflict t (cc_id k) e f ids"
  shows "\<exists>d'. open_new_conflict (\<lambda>_ d. d) now e m mt k d = Inr d' \<and> conflict_handled e f ids (cc_id k) d d'"
proof -
  have k: "cc_status k = OPEN" "cc_event_id k = e" "cc_field_name k = f" "cc_claim_ids k = ids"
    "conflict_ok (k\<lparr>cc_claim_ids := []\<rparr>)"
    by (subst assms(5), simp add: new_conflict_def conflict_ok_def)+
  let ?k = "k\<lparr>cc_claim_ids := []\<rparr>"
  let ?d1 = "d\<lparr>db_conflicts := db_conflicts d @ [?k]\<rparr>"
  have add: "try_add_open k d = (True, ?d1)"
    using assms(4) k by (auto simp: try_add_open_def open_clash_def list_ex_iff)
  have inv: "store_inv ?d1" using store_inv_try_add_open [OF assms(1-3) k(5)] by (simp add: add)
  let ?d' = "log_activity now (cc_id k) e None OPEN mt (Some m) ''Initial conflict detected'' (cc_version k) []
      (fold (add_claim_to_conflict (cc_id k)) ids ?d1)"
  have "open_new_conflict (\<lambda>_ d. d) now e m mt k d = Inr ?d'"
    using k by (simp add: open_new_conflict_def add)
  moreover have "store_inv ?d'" by (intro store_inv_log_activity store_inv_fold_add_claim inv)
  then have "conflict_handled e f ids (cc_id k) d ?d'"
    using k by (auto simp: conflict_handled_def)
  ultimately show ?thesis by blast
qed

lemma open_by_field_of_SomeD:
  assumes "open_by_field_of (conflicts_find_by_event e d) f = Some k"
  shows "\<exists>c \<in> set (db_conflicts d). k = with_links d c \<and> cc_status c = OPEN \<and> cc_event_id c = e \<and> cc_field_name c = f"
  using map_of_SomeD [OF assms [unfolded open_by_field_of_def]] by (auto simp: conflicts_find_by_event_def)

lemma open_by_field_of_NoneD:
  assumes "open_by_field_of (conflicts_find_by_event e d) f = None"
  shows "\<forall>c \<in> set (db_conflicts d). cc_status c = OPEN \<longrightarrow> cc_event_id c = e \<longrightarrow> cc_field_name c \<noteq> f"
proof (intro ballI impI notI)
  fix c
  assume "c \<in> set (db_conflicts d)" "cc_status c = OPEN" "cc_event_id c = e" "cc_field_name c = f"
  then have "with_links d c \<in> set (filter (\<lambda>c. cc_status c = OPEN) (conflicts_find_by_event e d))"
    "cc_field_name (with_links d c) = f"
    by (simp_all add: conflicts_find_by_event_def)
  then have "f \<in> cc_field_name ` set (filter (\<lambda>c. cc_status c = OPEN) (conflicts_find_by_event e d))"
    by (metis imageI)
  then show False using assms by (simp add: open_by_field_of_def map_of_eq_None_iff image_image)
qed

lemma latest_resolved_mem:
  assumes "latest_resolved_conflicts_by_field (conflicts_find_by_event e d) f = Some k"
  shows "\<exists>c \<in> set (db_conflicts d). k = with_links d c \<and> cc_event_id c = e \<and> cc_field_name c = f"
  using latest_resolved_from_sound [OF assms [unfolded latest_resolved_conflicts_by_field_def]]
  by (auto simp: conflicts_find_by_event_def)

text \<open>One pass of the loop over the detected conflicts, in a store whose rows for this field are
  those the maps were built from.\<close>

lemma apply_detected_quiet:
  assumes "store_inv s" and "k = new_conflict now (cc_id k) e f ids"
    and "cc_id k < db_next s" and "cc_id k \<notin> cc_id ` set (db_conflicts s)"
    and same: "\<And>c. cc_event_id c = e \<Longrightarrow> cc_field_name c = f \<Longrightarrow> (c \<in> set (db_conflicts s)) = (c \<in> set (db_conflicts d))"
    and "ids = map cl_id (filter (\<lambda>c. cl_field_name c = f) active)"
  shows "\<exists>s'. apply_detected (\<lambda>_ d. d) now e m mt active (open_by_field_of (conflicts_find_by_event e d))
      (latest_resolved_conflicts_by_field (conflicts_find_by_event e d)) k s = Inr s'
    \<and> conflict_handled e f ids (cc_id k) s s'"
proof -
  have k: "cc_field_name k = f" "cc_claim_ids k = ids"
    by (subst assms(2), simp add: new_conflict_def)+
  show ?thesis
  proof (cases "open_by_field_of (conflicts_find_by_event e d) f")
    case (Some o')
    then obtain c where c: "c \<in> set (db_conflicts d)" "o' = with_links d c" "cc_status c = OPEN"
      "cc_event_id c = e" "cc_field_name c = f"
      using open_by_field_of_SomeD by blast
    then have "c \<in> set (db_conflicts s)" using same by blast
    then show ?thesis
      using merge_evidence_quiet [OF assms(1) _ c(3-5), of o'] c(2,4) Some k
      by (simp add: apply_detected_def Let_def)
  next
    case None
    have no: "\<forall>r \<in> set (db_conflicts s). cc_status r = OPEN \<longrightarrow> cc_event_id r = e \<longrightarrow> cc_field_name r \<noteq> f"
      using open_by_field_of_NoneD [OF None] same by blast
    note new = open_new_quiet [OF assms(1,3,4) no assms(2), of now m mt]
    show ?thesis
    proof (cases "latest_resolved_conflicts_by_field (conflicts_find_by_event e d) f")
      case None': None
      then show ?thesis using new None k by (simp add: apply_detected_def Let_def)
    next
      case (Some k')
      then obtain c where c: "c \<in> set (db_conflicts d)" "k' = with_links d c" "cc_event_id c = e" "cc_field_name c = f"
        using latest_resolved_mem by blast
      then have "c \<in> set (db_conflicts s)" using same by blast
      then have "\<exists>s'. reopen_resolved_for_evidence (\<lambda>_ d. d) now k' ids m mt s = Inr s' \<and> conflict_handled e f ids (cc_id k) s s'"
        using reopen_evidence_quiet [OF assms(1) _ no c(3,4), of k' now ids m mt "cc_id k"] c(2,3) by auto
      then show ?thesis
        using new None Some k assms(6) by (simp add: apply_detected_def Let_def split: option.split)
    qed
  qed
qed

definition potential_of :: "time \<Rightarrow> uuid \<Rightarrow> claim list \<Rightarrow> claim_conflict \<Rightarrow> bool" where
  "potential_of now e active k \<longleftrightarrow>
     k = new_conflict now (cc_id k) e (cc_field_name k)
           (map cl_id (filter (\<lambda>c. cl_field_name c = cc_field_name k) active))"

lemma apply_all_quiet:
  assumes "store_inv s" and "distinct (map cc_field_name ks)" and "distinct (map cc_id ks)"
    and "\<forall>k \<in> set ks. potential_of now e active k \<and> cc_id k < db_next s \<and> cc_id k \<notin> cc_id ` set (db_conflicts s)"
    and "\<And>c. cc_event_id c = e \<Longrightarrow> cc_field_name c \<in> cc_field_name ` set ks \<Longrightarrow>
           (c \<in> set (db_conflicts s)) = (c \<in> set (db_conflicts d))"
  shows "\<exists>s'. rfold (apply_detected (\<lambda>_ d. d) now e m mt active (open_by_field_of (conflicts_find_by_event e d))
      (latest_resolved_conflicts_by_field (conflicts_find_by_event e d))) ks s = Inr s'
    \<and> db_claims s' = db_claims s \<and> store_inv s' \<and> set (db_conflict_claims s) \<subseteq> set (db_conflict_claims s')
    \<and> (\<forall>c. cc_event_id c \<noteq> e \<or> cc_field_name c \<notin> cc_field_name ` set ks \<longrightarrow>
         (c \<in> set (db_conflicts s')) = (c \<in> set (db_conflicts s)))
    \<and> (\<forall>k \<in> set ks. \<exists>c \<in> set (db_conflicts s'). cc_status c = OPEN \<and> cc_event_id c = e
         \<and> cc_field_name c = cc_field_name k
         \<and> (\<forall>x \<in> set active. cl_field_name x = cc_field_name k \<longrightarrow> (cc_id c, cl_id x) \<in> set (db_conflict_claims s')))"
  using assms
proof (induction ks arbitrary: s)
  case Nil
  then show ?case by simp
next
  case (Cons k ks)
  let ?f = "cc_field_name k"
  let ?ids = "map cl_id (filter (\<lambda>c. cl_field_name c = ?f) active)"
  let ?a = "apply_detected (\<lambda>_ d. d) now e m mt active (open_by_field_of (conflicts_find_by_event e d))
      (latest_resolved_conflicts_by_field (conflicts_find_by_event e d))"
  have "\<exists>s1. ?a k s = Inr s1 \<and> conflict_handled e ?f ?ids (cc_id k) s s1"
  proof (rule apply_detected_quiet [OF Cons.prems(1)])
    show "k = new_conflict now (cc_id k) e ?f ?ids" using Cons.prems(4) unfolding potential_of_def by simp
  qed (use Cons.prems(4,5) in auto)
  then obtain s1 where s1: "?a k s = Inr s1" and h: "conflict_handled e ?f ?ids (cc_id k) s s1" by blast
  have "\<forall>x \<in> set ks. potential_of now e active x \<and> cc_id x < db_next s1 \<and> cc_id x \<notin> cc_id ` set (db_conflicts s1)"
  proof
    fix x
    assume x: "x \<in> set ks"
    have "cc_id x \<in> cc_id ` set ks" using x by (rule imageI)
    then have ne: "cc_id x \<noteq> cc_id k" using Cons.prems(3) by auto
    have sub: "cc_id ` set (db_conflicts s1) \<subseteq> insert (cc_id k) (cc_id ` set (db_conflicts s))"
      and nx: "db_next s \<le> db_next s1"
      using h by (simp_all add: conflict_handled_def)
    have old: "potential_of now e active x" "cc_id x < db_next s" "cc_id x \<notin> cc_id ` set (db_conflicts s)"
      using Cons.prems(4) x by simp_all
    have "cc_id x \<notin> cc_id ` set (db_conflicts s1)" using sub ne old(3) by blast
    then show "potential_of now e active x \<and> cc_id x < db_next s1 \<and> cc_id x \<notin> cc_id ` set (db_conflicts s1)"
      using old nx by simp
  qed
  moreover have "(c \<in> set (db_conflicts s1)) = (c \<in> set (db_conflicts d))"
    if "cc_event_id c = e" "cc_field_name c \<in> cc_field_name ` set ks" for c
  proof -
    have "cc_field_name c \<noteq> ?f" using that(2) Cons.prems(2) by auto
    then have "(c \<in> set (db_conflicts s1)) = (c \<in> set (db_conflicts s))" using h by (simp add: conflict_handled_def)
    moreover have "cc_field_name c \<in> cc_field_name ` set (k # ks)" using that(2) by simp
    ultimately show ?thesis using Cons.prems(5) that(1) by simp
  qed
  ultimately obtain s' where s': "rfold ?a ks s1 = Inr s'" "db_claims s' = db_claims s1" "store_inv s'"
    "set (db_conflict_claims s1) \<subseteq> set (db_conflict_claims s')"
    and rest: "\<forall>c. cc_event_id c \<noteq> e \<or> cc_field_name c \<notin> cc_field_name ` set ks \<longrightarrow>
         (c \<in> set (db_conflicts s')) = (c \<in> set (db_conflicts s1))"
    and ks: "\<forall>k \<in> set ks. \<exists>c \<in> set (db_conflicts s'). cc_status c = OPEN \<and> cc_event_id c = e
         \<and> cc_field_name c = cc_field_name k
         \<and> (\<forall>x \<in> set active. cl_field_name x = cc_field_name k \<longrightarrow> (cc_id c, cl_id x) \<in> set (db_conflict_claims s'))"
    using Cons.IH [of s1] Cons.prems(2,3) h by (auto simp: conflict_handled_def)
  obtain c where c: "c \<in> set (db_conflicts s1)" "cc_status c = OPEN" "cc_event_id c = e" "cc_field_name c = ?f"
    "\<forall>i \<in> set ?ids. (cc_id c, i) \<in> set (db_conflict_claims s1)"
    using h by (auto simp: conflict_handled_def)
  have "?f \<notin> cc_field_name ` set ks" using Cons.prems(2) by simp
  then have "c \<in> set (db_conflicts s')" using rest c by auto
  moreover have "\<forall>x \<in> set active. cl_field_name x = ?f \<longrightarrow> (cc_id c, cl_id x) \<in> set (db_conflict_claims s')"
    using c(5) s'(4) by auto
  ultimately have here: "\<exists>c \<in> set (db_conflicts s'). cc_status c = OPEN \<and> cc_event_id c = e \<and> cc_field_name c = ?f
      \<and> (\<forall>x \<in> set active. cl_field_name x = ?f \<longrightarrow> (cc_id c, cl_id x) \<in> set (db_conflict_claims s'))"
    using c(2-4) by blast
  have "\<forall>c. cc_event_id c \<noteq> e \<or> cc_field_name c \<notin> cc_field_name ` set (k # ks) \<longrightarrow>
      (c \<in> set (db_conflicts s')) = (c \<in> set (db_conflicts s))"
    using rest h by (auto simp: conflict_handled_def)
  moreover have "rfold ?a (k # ks) s = Inr s'" using s1 s'(1) by simp
  moreover have "db_claims s' = db_claims s" "set (db_conflict_claims s) \<subseteq> set (db_conflict_claims s')"
    using s'(2,4) h by (auto simp: conflict_handled_def)
  ultimately show ?case using s'(3) ks here by (intro exI [of _ s']) simp
qed

text \<open>Two sources that state different values for a field of the event; NaN differs from every value.\<close>

definition cross_source_dispute :: "uuid \<Rightarrow> string \<Rightarrow> db \<Rightarrow> bool" where
  "cross_source_dispute e f d \<longleftrightarrow>
     (\<exists>a \<in> set (find_active_by_event_field e f d). \<exists>b \<in> set (find_active_by_event_field e f d).
        cl_source_id a \<noteq> cl_source_id b \<and> \<not> same_value a b)"

lemma field_group_active:
  "field_group e f (find_active_by_event e d) = find_active_by_event_field e f d"
  "filter (\<lambda>c. cl_field_name c = f) (find_active_by_event e d) = find_active_by_event_field e f d"
  by (auto simp: field_group_def event_field_def find_active_by_event_def find_active_by_event_field_def
      intro!: filter_cong)

lemma detected_fields:
  "f \<in> cc_field_name ` set (fst (detect True now n (find_active_by_event e d))) \<longleftrightarrow> cross_source_dispute e f d"
proof -
  let ?cs = "find_active_by_event e d"
  have ev: "cc_event_id k = e" if "k \<in> set (fst (detect True now n ?cs))" for k
  proof -
    have "group_conflicts True (field_group (cc_event_id k) (cc_field_name k) ?cs)" using set_detect [OF that] by blast
    from group_conflicts_event_field [OF this] show ?thesis by (auto simp: event_field_def find_active_by_event_def)
  qed
  then have "f \<in> cc_field_name ` set (fst (detect True now n ?cs)) \<longleftrightarrow>
      (\<exists>k \<in> set (fst (detect True now n ?cs)). cc_event_id k = e \<and> cc_field_name k = f)" by auto
  also have "\<dots> \<longleftrightarrow> group_conflicts True (find_active_by_event_field e f d)"
    by (simp add: detect_mem_iff field_group_active)
  also have "\<dots> \<longleftrightarrow> cross_source_dispute e f d"
    unfolding cross_source_dispute_def
    by (rule group_conflicts_cross_source)
  finally show ?thesis .
qed

lemma detect_and_apply_effect:
  assumes "store_inv d"
  shows "\<exists>d'. detect_and_apply_new_conflicts (\<lambda>_ d. d) now e m mt d = Inr d' \<and> store_inv d'
    \<and> db_claims d' = db_claims d
    \<and> (\<forall>f. cross_source_dispute e f d \<longrightarrow>
         (\<exists>c \<in> set (db_conflicts d'). cc_status c = OPEN \<and> cc_event_id c = e \<and> cc_field_name c = f
            \<and> (\<forall>x \<in> set (find_active_by_event_field e f d). (cc_id c, cl_id x) \<in> set (db_conflict_claims d'))))
    \<and> (\<forall>c. cc_event_id c \<noteq> e \<or> \<not> cross_source_dispute e (cc_field_name c) d \<longrightarrow>
         (c \<in> set (db_conflicts d')) = (c \<in> set (db_conflicts d)))"
proof -
  let ?cs = "find_active_by_event e d"
  obtain ks n where det: "detect True now (db_next d) ?cs = (ks, n)" by fastforce
  let ?d1 = "d\<lparr>db_next := n\<rparr>"
  have n: "db_next d \<le> n" using detect_supply [of "db_next d" True now ?cs] det by simp
  have inv: "store_inv ?d1"
    using assms(1) n by (auto simp: store_inv_def intro: claims_inv_mono conflicts_inv_mono)
  have mem: "k = new_conflict now (cc_id k) e (cc_field_name k) (map cl_id (find_active_by_event_field e (cc_field_name k) d))
      \<and> db_next d \<le> cc_id k \<and> cc_id k < n" if "k \<in> set ks" for k
  proof -
    have sd: "group_conflicts True (field_group (cc_event_id k) (cc_field_name k) ?cs)" "db_next d \<le> cc_id k" "cc_id k < n"
      "k = new_conflict now (cc_id k) (cc_event_id k) (cc_field_name k) (map cl_id (field_group (cc_event_id k) (cc_field_name k) ?cs))"
      using set_detect [of k True now "db_next d" ?cs] that det by auto
    have "cc_event_id k = e" using group_conflicts_event_field [OF sd(1)] by (auto simp: event_field_def find_active_by_event_def)
    then show ?thesis using sd by (simp add: field_group_active)
  qed
  have ids: "cc_id k \<notin> cc_id ` set (db_conflicts d)" if "k \<in> set ks" for k
    using mem [OF that] assms(1) by (fastforce simp: store_inv_def conflicts_inv_def ids_below_def)
  have pot: "potential_of now e ?cs k \<and> cc_id k < n" if "k \<in> set ks" for k
    using mem [OF that] unfolding potential_of_def field_group_active by blast
  have dist: "distinct (map cc_id ks)" using detect_ids [of True now "db_next d" ?cs] det by (metis distinct_upt fst_conv)
  have "inj_on cc_field_name (set ks)"
  proof (rule inj_onI)
    fix x y
    assume xy: "x \<in> set ks" "y \<in> set ks" "cc_field_name x = cc_field_name y"
    have "inj_on (\<lambda>k. (cc_event_id k, cc_field_name k)) (set ks)"
      using detect_distinct_keys [of True now "db_next d" ?cs] det by (simp add: distinct_map)
    moreover have "cc_event_id x = e" "cc_event_id y = e"
      by (subst conjunct1 [OF mem [OF xy(1)]], simp add: new_conflict_def)
        (subst conjunct1 [OF mem [OF xy(2)]], simp add: new_conflict_def)
    ultimately show "x = y" using xy by (auto dest: inj_onD)
  qed
  then have flds: "distinct (map cc_field_name ks)" using dist by (simp add: distinct_map)
  have fields: "f \<in> cc_field_name ` set ks \<longleftrightarrow> cross_source_dispute e f d" for f
    using detected_fields [of f now "db_next d" e d] det by simp
  show ?thesis
  proof (cases "ks = []")
    case True
    then have "detect_and_apply_new_conflicts (\<lambda>_ d. d) now e m mt d = Inr ?d1"
      by (simp add: detect_and_apply_new_conflicts_def det Let_def)
    moreover have "\<not> cross_source_dispute e f d" for f using fields [of f] True by simp
    ultimately show ?thesis using inv by (intro exI [of _ ?d1]) simp
  next
    case False
    have "\<exists>s'. rfold (apply_detected (\<lambda>_ d. d) now e m mt ?cs (open_by_field_of (conflicts_find_by_event e ?d1))
        (latest_resolved_conflicts_by_field (conflicts_find_by_event e ?d1))) ks ?d1 = Inr s'
      \<and> db_claims s' = db_claims ?d1 \<and> store_inv s' \<and> set (db_conflict_claims ?d1) \<subseteq> set (db_conflict_claims s')
      \<and> (\<forall>c. cc_event_id c \<noteq> e \<or> cc_field_name c \<notin> cc_field_name ` set ks \<longrightarrow>
           (c \<in> set (db_conflicts s')) = (c \<in> set (db_conflicts ?d1)))
      \<and> (\<forall>k \<in> set ks. \<exists>c \<in> set (db_conflicts s'). cc_status c = OPEN \<and> cc_event_id c = e
           \<and> cc_field_name c = cc_field_name k
           \<and> (\<forall>x \<in> set ?cs. cl_field_name x = cc_field_name k \<longrightarrow> (cc_id c, cl_id x) \<in> set (db_conflict_claims s')))"
      by (rule apply_all_quiet [OF inv flds dist]) (use pot ids in simp_all)
    then obtain s' where s': "detect_and_apply_new_conflicts (\<lambda>_ d. d) now e m mt d = Inr s'"
      "db_claims s' = db_claims d" "store_inv s'"
      and rest: "\<forall>c. cc_event_id c \<noteq> e \<or> cc_field_name c \<notin> cc_field_name ` set ks \<longrightarrow>
           (c \<in> set (db_conflicts s')) = (c \<in> set (db_conflicts d))"
      and each: "\<forall>k \<in> set ks. \<exists>c \<in> set (db_conflicts s'). cc_status c = OPEN \<and> cc_event_id c = e
           \<and> cc_field_name c = cc_field_name k
           \<and> (\<forall>x \<in> set ?cs. cl_field_name x = cc_field_name k \<longrightarrow> (cc_id c, cl_id x) \<in> set (db_conflict_claims s'))"
      using False by (simp add: detect_and_apply_new_conflicts_def det Let_def) blast
    have "\<exists>c \<in> set (db_conflicts s'). cc_status c = OPEN \<and> cc_event_id c = e \<and> cc_field_name c = f
        \<and> (\<forall>x \<in> set (find_active_by_event_field e f d). (cc_id c, cl_id x) \<in> set (db_conflict_claims s'))"
      if "cross_source_dispute e f d" for f
    proof -
      have "f \<in> cc_field_name ` set ks" using that fields [of f] by simp
      then obtain k where "k \<in> set ks" "f = cc_field_name k" by (rule imageE) simp
      then obtain c where "c \<in> set (db_conflicts s')" "cc_status c = OPEN" "cc_event_id c = e" "cc_field_name c = f"
        "\<forall>x \<in> set ?cs. cl_field_name x = f \<longrightarrow> (cc_id c, cl_id x) \<in> set (db_conflict_claims s')"
        using each by blast
      then show ?thesis
        by (intro bexI [of _ c]) (auto simp: find_active_by_event_def find_active_by_event_field_def)
    qed
    then show ?thesis using s' rest fields by blast
  qed
qed

text \<open>C20: Detection of new conflicts is complete and exact: run without interference on a
  well-formed store it always succeeds, keeps the store well formed and the claims as they are,
  and afterwards every field on which two sources disagree (as Python compares values, so NaN disagrees
  with NaN) has an open conflict linked to every active claim of the field, while the conflicts of all
  other fields and events are untouched.\<close>

theorem detect_and_apply_exact:
  assumes "store_inv d"
  shows "\<exists>d'. detect_and_apply_new_conflicts (\<lambda>_ d. d) now e m mt d = Inr d' \<and> store_inv d'
    \<and> db_claims d' = db_claims d
    \<and> (\<forall>f. cross_source_dispute e f d \<longrightarrow>
         (\<exists>c \<in> set (db_conflicts d'). cc_status c = OPEN \<and> cc_event_id c = e \<and> cc_field_name c = f
            \<and> (\<forall>x \<in> set (find_active_by_event_field e f d). (cc_id c, cl_id x) \<in> set (db_conflict_claims d'))))
    \<and> (\<forall>c. cc_event_id c \<noteq> e \<or> \<not> cross_source_dispute e (cc_field_name c) d \<longrightarrow>
         (c \<in> set (db_conflicts d')) = (c \<in> set (db_conflicts d)))"
  by (rule detect_and_apply_effect [OF assms])

lemma conflict_db_dispute:
  "cross_source_dispute 1 ''operator'' conflict_db"
  by (simp add: cross_source_dispute_def find_active_by_event_field_def conflict_db_eval is_active_iff
      same_value_def claim_key_def)

theorem detect_and_apply_exact_witness:
  "\<exists>d'. detect_and_apply_new_conflicts (\<lambda>_ d. d) 5 1 7 INGESTION conflict_db = Inr d'
     \<and> (\<exists>c \<in> set (db_conflicts d'). cc_status c = OPEN \<and> cc_field_name c = ''operator''
          \<and> (cc_id c, 5) \<in> set (db_conflict_claims d'))"
proof -
  obtain d' where d': "detect_and_apply_new_conflicts (\<lambda>_ d. d) 5 1 7 INGESTION conflict_db = Inr d'"
    and all: "\<forall>f. cross_source_dispute 1 f conflict_db \<longrightarrow>
         (\<exists>c \<in> set (db_conflicts d'). cc_status c = OPEN \<and> cc_event_id c = 1 \<and> cc_field_name c = f
            \<and> (\<forall>x \<in> set (find_active_by_event_field 1 f conflict_db). (cc_id c, cl_id x) \<in> set (db_conflict_claims d')))"
    using detect_and_apply_exact [OF conflict_db_inv] by blast
  have "sample_claim 5 1 ''operator'' (JBool True) CONFIRMED \<in> set (find_active_by_event_field 1 ''operator'' conflict_db)"
    by (simp add: find_active_by_event_field_def conflict_db_eval is_active_iff)
  moreover have "cl_id (sample_claim 5 1 ''operator'' (JBool True) CONFIRMED) = 5" by (simp add: sample_claim_def)
  ultimately show ?thesis using d' all conflict_db_dispute by metis
qed

section \<open>Stale winners and stale open conflicts\<close>

lemma unique_values_cases:
  assumes "cs \<noteq> []"
  shows "length (unique_normalised_values cs) = 1 \<longleftrightarrow> claims_agree cs"
proof -
  have "length (unique_normalised_values cs) \<noteq> 0" using assms(1) by simp
  then show ?thesis using unique_values_le_1_iff [of cs] by linarith
qed

text \<open>The common end of the two loops that settle a conflict on the winner \<open>w\<close>.\<close>

lemma settled_write:
  assumes "store_inv d" and "c \<in> set (db_conflicts d)" and "conflict_ok (g c)" and "cc_id (g c) = cc_id c"
    and "cc_status (g c) = RESOLVED" and "cc_winning_claim_id (g c) = Some w"
    and "d1 = d\<lparr>db_conflicts := row_update (\<lambda>r. cc_id r = cc_id c) (\<lambda>_. (g c)\<lparr>cc_version := cc_version c + 1\<rparr>) (db_conflicts d)\<rparr>"
    and "d' = log_activity now (cc_id c) e fs ts mt mi r v sn (add_evidence_links (cc_id c) [w] d1)"
  shows "store_inv d' \<and> db_claims d' = db_claims d
    \<and> set (db_conflicts d') = insert ((g c)\<lparr>cc_version := cc_version c + 1\<rparr>) (set (db_conflicts d) - {c})
    \<and> (cc_id c, w) \<in> set (db_conflict_claims d')"
proof -
  have "store_inv d1" unfolding assms(7) by (rule fenced_write_inv) (use assms in simp_all)
  then have "store_inv d'"
    unfolding assms(8) by (intro store_inv_log_activity store_inv_add_evidence_links)
  then show ?thesis
    using set_replace_row [OF store_inv_distinct_conflicts [OF assms(1)] assms(2)] by (simp add: assms(7,8))
qed

text \<open>A resolved conflict whose winner was superseded never keeps a dangling winner: when the
  field still has active claims, reconciliation succeeds and, if they all agree, the conflict stays
  resolved with one of them as its linked winner, and if they disagree it is reopened with all of
  them as evidence.  (No other conflict of the field is open.)\<close>

theorem stale_winner_reconciled:
  assumes "store_inv d" and "c \<in> set (db_conflicts d)" and "cc_status c = RESOLVED"
    and "\<forall>r \<in> set (db_conflicts d). cc_status r = OPEN \<longrightarrow> cc_event_id r = cc_event_id c \<longrightarrow> cc_field_name r \<noteq> cc_field_name c"
    and "cs = find_active_by_event_field (cc_event_id c) (cc_field_name c) d" and "cs \<noteq> []"
  shows "\<exists>d' c'. reconcile_resolved_winner (\<lambda>_ d. d) now run (with_links d c, repl) d = Inr d' \<and> store_inv d'
    \<and> db_claims d' = db_claims d \<and> c' \<in> set (db_conflicts d') \<and> cc_id c' = cc_id c
    \<and> (if claims_agree cs
       then cc_status c' = RESOLVED \<and> (\<exists>x \<in> set cs. cc_winning_claim_id c' = Some (cl_id x) \<and> (cc_id c, cl_id x) \<in> set (db_conflict_claims d'))
       else cc_status c' = OPEN \<and> (\<forall>x \<in> set cs. (cc_id c', cl_id x) \<in> set (db_conflict_claims d')))"
proof (cases "claims_agree cs")
  case True
  have ok: "conflict_ok c" using assms(1,2) by (simp add: store_inv_def conflicts_inv_def)
  define w where "w = (if cl_field_name repl = cc_field_name c \<and> cl_id repl \<in> set (map cl_id cs)
    then cl_id repl else cl_id (hd cs))"
  let ?c' = "(winner_update now w c)\<lparr>cc_version := cc_version c + 1\<rparr>"
  let ?d1 = "d\<lparr>db_conflicts := row_update (\<lambda>r. cc_id r = cc_id c) (\<lambda>_. ?c') (db_conflicts d)\<rparr>"
  have x: "\<exists>x \<in> set cs. w = cl_id x" using assms(6) by (auto simp: w_def)
  have u: "update_with_version_check (cc_id c) (cc_version c) (winner_update now w) d = Inr (Some (with_links d ?c'), ?d1)"
    by (rule update_fenced) (use assms(1-3) ok in \<open>simp_all add: winner_update_ok\<close>)
  have "reconcile_resolved_winner (\<lambda>_ d. d) now run (with_links d c, repl) d =
      move_winner_loop MAX_VERSION_RETRY (\<lambda>_ d. d) now (with_links d c) w run d"
    using unique_values_cases [OF assms(6)] True assms(6)
    unfolding reconcile_resolved_winner_def Let_def split_beta fst_conv snd_conv with_links_simps assms(5) [symmetric] w_def
    by simp
  then obtain d' where d': "reconcile_resolved_winner (\<lambda>_ d. d) now run (with_links d c, repl) d = Inr d'"
    "d' = log_activity now (cc_id c) (cc_event_id c) (Some RESOLVED) RESOLVED INGESTION (Some run)
      ''Winning claim superseded by source-record correction; winner updated to equivalent replacement''
      (cc_version ?c') [] (add_evidence_links (cc_id c) [w] ?d1)"
    using u by (simp add: MAX_VERSION_RETRY_def numeral_eq_Suc Let_def)
  have "store_inv d' \<and> db_claims d' = db_claims d \<and> set (db_conflicts d') = insert ?c' (set (db_conflicts d) - {c})
      \<and> (cc_id c, w) \<in> set (db_conflict_claims d')"
    by (rule settled_write [where g = "winner_update now w", OF assms(1,2) _ _ _ _ refl d'(2)]) (use assms(3) ok in \<open>simp_all add: winner_update_ok\<close>)
  then show ?thesis using d'(1) True x assms(3) by (intro exI [of _ d'] exI [of _ ?c']) auto
next
  case False
  let ?c' = "(reopen_update now c)\<lparr>cc_version := cc_version c + 1\<rparr>"
  obtain d' where r: "reopen_resolved_for_evidence (\<lambda>_ d. d) now (with_links d c) (map cl_id cs) run INGESTION d = Inr d'"
    and h: "conflict_handled (cc_event_id c) (cc_field_name c) (map cl_id cs) 0 d d'"
    and c': "?c' \<in> set (db_conflicts d')" "\<forall>i \<in> set (map cl_id cs). (cc_id c, i) \<in> set (db_conflict_claims d')"
    using reopen_evidence_quiet [OF assms(1,2,4) refl refl, of "with_links d c" now "map cl_id cs" run INGESTION] by auto
  have "reconcile_resolved_winner (\<lambda>_ d. d) now run (with_links d c, repl) d = Inr d'"
    using unique_values_cases [OF assms(6)] False assms(6) r
    unfolding reconcile_resolved_winner_def Let_def split_beta fst_conv snd_conv with_links_simps assms(5) [symmetric]
    by simp
  moreover have "store_inv d'" "db_claims d' = db_claims d" using h by (simp_all add: conflict_handled_def)
  ultimately show ?thesis using False c' by (intro exI [of _ d'] exI [of _ ?c']) simp
qed

text \<open>A store with one resolved conflict whose winner has been replaced.\<close>

definition stale_conflict :: claim_conflict where
  "stale_conflict = resolved_update 1 4 7 None (new_conflict 0 9 1 ''operator'' [])"

definition stale_db :: db where
  "stale_db = conflict_db\<lparr>db_conflicts := [stale_conflict], db_conflict_claims := [(9, 4)]\<rparr>"

lemmas stale_db_eval = stale_db_def stale_conflict_def resolved_update_def conflict_db_eval

lemma stale_db_inv: "store_inv stale_db"
  by (simp add: stale_db_eval store_inv_def claims_inv_def conflicts_inv_def ids_below_def
      claim_ok_def conflict_ok_def open_unique_def contiguous_log_def activity_of_def)

lemma stale_db_claims:
  "find_active_by_event_field 1 ''operator'' stale_db =
     [sample_claim 5 1 ''operator'' (JBool True) CONFIRMED, sample_claim 6 2 ''operator'' (JBool False) RAW]"
  by (simp add: find_active_by_event_field_def stale_db_eval is_active_iff)

theorem stale_winner_reconciled_witness:
  "\<exists>d' c'. reconcile_resolved_winner (\<lambda>_ d. d) 5 8 (with_links stale_db stale_conflict, sample_claim 5 1 ''operator'' (JBool True) CONFIRMED) stale_db = Inr d'
     \<and> c' \<in> set (db_conflicts d') \<and> cc_id c' = 9 \<and> cc_status c' = OPEN"
proof -
  let ?cs = "[sample_claim 5 1 ''operator'' (JBool True) CONFIRMED, sample_claim 6 2 ''operator'' (JBool False) RAW]"
  have k: "cc_event_id stale_conflict = 1" "cc_field_name stale_conflict = ''operator''" "cc_id stale_conflict = 9"
    "cc_status stale_conflict = RESOLVED" "set (db_conflicts stale_db) = {stale_conflict}"
    by (simp_all add: stale_db_eval)
  have no: "\<not> claims_agree ?cs" by (simp add: claims_agree_def same_value_def claim_key_def sample_claim_def)
  have cs: "?cs = find_active_by_event_field (cc_event_id stale_conflict) (cc_field_name stale_conflict) stale_db"
    by (simp only: k stale_db_claims)
  have mem: "stale_conflict \<in> set (db_conflicts stale_db)"
    and quiet: "\<forall>r \<in> set (db_conflicts stale_db). cc_status r = OPEN \<longrightarrow> cc_event_id r = cc_event_id stale_conflict
        \<longrightarrow> cc_field_name r \<noteq> cc_field_name stale_conflict"
    by (simp_all add: k)
  show ?thesis
    using stale_winner_reconciled [OF stale_db_inv mem k(4) quiet cs, of 5 8 "sample_claim 5 1 ''operator'' (JBool True) CONFIRMED"]
    unfolding if_not_P [OF no] k(3) by blast
qed

text \<open>An open conflict is closed exactly when its disagreement is gone: if the active claims of
  the field agree, the conflict becomes resolved with one of them as its linked winner and no
  conflict of the field stays open; if they disagree, nothing changes.\<close>

theorem stale_open_closed:
  assumes "store_inv d" and "c \<in> set (db_conflicts d)" and "cc_status c = OPEN"
    and "cc_event_id c = e" and "cc_field_name c = f"
    and "cs = find_active_by_event_field e f d" and "cs \<noteq> []"
  shows "\<exists>d'. auto_resolve_stale_open_conflict (\<lambda>_ d. d) now e run f d = Inr d' \<and> store_inv d'
    \<and> (if claims_agree cs
       then db_claims d' = db_claims d
         \<and> (\<forall>r \<in> set (db_conflicts d'). cc_event_id r = e \<longrightarrow> cc_field_name r = f \<longrightarrow> cc_status r = RESOLVED)
         \<and> (\<exists>c' \<in> set (db_conflicts d'). cc_id c' = cc_id c \<and> (\<exists>x \<in> set cs. cc_winning_claim_id c' = Some (cl_id x)
              \<and> (cc_id c, cl_id x) \<in> set (db_conflict_claims d')))
       else d' = d)"
proof -
  have uniq: "r = c" if "r \<in> set (db_conflicts d)" "cc_status r = OPEN" "cc_event_id r = e" "cc_field_name r = f" for r
    using that assms(1-5) by (intro open_uniqueD [of "db_conflicts d" r c]) (simp_all add: store_inv_def conflicts_inv_def)
  have "find (\<lambda>c. cc_event_id c = e \<and> cc_field_name c = f \<and> cc_status c = OPEN) (db_conflicts d) = Some c"
  proof (cases "find (\<lambda>c. cc_event_id c = e \<and> cc_field_name c = f \<and> cc_status c = OPEN) (db_conflicts d)")
    case None
    then show ?thesis using assms(2-5) by (auto simp: find_None_iff)
  next
    case (Some r)
    then have "r = c" by (intro uniq) (auto simp: find_Some_iff)
    then show ?thesis using Some by simp
  qed
  then have o': "find_open_by_event_field e f d = Some (with_links d c)" by (simp add: find_open_by_event_field_def)
  show ?thesis
  proof (cases "claims_agree cs")
    case True
    have ok: "conflict_ok c" using assms(1,2) by (simp add: store_inv_def conflicts_inv_def)
    let ?w = "cl_id (hd cs)"
    let ?c' = "(auto_close_update now ?w c)\<lparr>cc_version := cc_version c + 1\<rparr>"
    let ?d1 = "d\<lparr>db_conflicts := row_update (\<lambda>r. cc_id r = cc_id c) (\<lambda>_. ?c') (db_conflicts d)\<rparr>"
    have u: "update_with_version_check (cc_id c) (cc_version c) (auto_close_update now ?w) d = Inr (Some (with_links d ?c'), ?d1)"
      by (rule update_fenced) (use assms(1,2) ok in \<open>simp_all add: auto_close_update_ok\<close>)
    have len: "\<not> 1 < length (unique_normalised_values cs)" using unique_values_cases [OF assms(7)] True by simp
    obtain d' where d': "auto_resolve_stale_open_conflict (\<lambda>_ d. d) now e run f d = Inr d'"
      "d' = log_activity now (cc_id c) (cc_event_id c) (Some OPEN) RESOLVED INGESTION (Some run)
        ''Auto-closed because source-record supersession removed the active disagreement''
        (cc_version ?c') [] (add_evidence_links (cc_id c) [?w] ?d1)"
      using u len assms(7)
      unfolding auto_resolve_stale_open_conflict_def o' option.case MAX_VERSION_RETRY_def numeral_eq_Suc auto_resolve_loop.simps
        Let_def with_links_simps assms(6) [symmetric]
      by simp
    have s: "store_inv d' \<and> db_claims d' = db_claims d \<and> set (db_conflicts d') = insert ?c' (set (db_conflicts d) - {c})
        \<and> (cc_id c, ?w) \<in> set (db_conflict_claims d')"
      by (rule settled_write [where g = "auto_close_update now ?w", OF assms(1,2) _ _ _ _ refl d'(2)])
        (use ok in \<open>simp_all add: auto_close_update_ok\<close>)
    have "cc_status r = RESOLVED" if "r \<in> set (db_conflicts d')" "cc_event_id r = e" "cc_field_name r = f" for r
    proof (rule ccontr)
      assume "cc_status r \<noteq> RESOLVED"
      then have "cc_status r = OPEN" by (cases "cc_status r") simp_all
      moreover have "r = ?c' \<or> r \<in> set (db_conflicts d) - {c}" using that(1) s by auto
      ultimately show False using uniq [of r] that(2,3) by auto
    qed
    moreover have "\<exists>c' \<in> set (db_conflicts d'). cc_id c' = cc_id c \<and> (\<exists>x \<in> set cs. cc_winning_claim_id c' = Some (cl_id x)
        \<and> (cc_id c, cl_id x) \<in> set (db_conflict_claims d'))"
      using s assms(7) by (intro bexI [of _ ?c'] conjI bexI [of _ "hd cs"]) simp_all
    ultimately show ?thesis unfolding if_P [OF True] using d'(1) s by blast
  next
    case False
    then have "1 < length (unique_normalised_values cs)" using unique_values_cases [OF assms(7)] assms(7)
      by (cases "unique_normalised_values cs") (auto simp: Suc_lessI)
    then have "auto_resolve_stale_open_conflict (\<lambda>_ d. d) now e run f d = Inr d"
      using assms(7)
      unfolding auto_resolve_stale_open_conflict_def o' option.case MAX_VERSION_RETRY_def numeral_eq_Suc auto_resolve_loop.simps
        Let_def assms(6) [symmetric]
      by simp
    then show ?thesis using False assms(1) by simp
  qed
qed

definition agreed_db :: db where
  "agreed_db = conflict_db\<lparr>db_claims := [sample_claim 5 1 ''operator'' (JBool True) RAW]\<rparr>"

theorem stale_open_closed_witness:
  "\<exists>d'. auto_resolve_stale_open_conflict (\<lambda>_ d. d) 5 1 8 ''operator'' agreed_db = Inr d'
     \<and> (\<forall>r \<in> set (db_conflicts d'). cc_event_id r = 1 \<longrightarrow> cc_field_name r = ''operator'' \<longrightarrow> cc_status r = RESOLVED)"
proof -
  let ?c = "new_conflict 0 9 1 ''operator'' []"
  let ?cs = "[sample_claim 5 1 ''operator'' (JBool True) RAW]"
  have "store_inv agreed_db"
    by (simp add: agreed_db_def conflict_db_eval store_inv_def claims_inv_def conflicts_inv_def ids_below_def
        claim_ok_def conflict_ok_def open_unique_def contiguous_log_def activity_of_def)
  moreover have "find_active_by_event_field 1 ''operator'' agreed_db = ?cs"
    by (simp add: find_active_by_event_field_def agreed_db_def conflict_db_eval is_active_iff)
  moreover have "claims_agree ?cs" by (simp add: claims_agree_def)
  moreover have "?c \<in> set (db_conflicts agreed_db)" "cc_status ?c = OPEN" "cc_event_id ?c = 1" "cc_field_name ?c = ''operator''"
    by (simp_all add: agreed_db_def conflict_db_def new_conflict_def)
  ultimately show ?thesis
    using stale_open_closed [of agreed_db ?c 1 "''operator''" ?cs 5 8] by auto
qed

section \<open>Interference\<close>

lemma merge_evidence_loop_atomic:
  assumes "merge_evidence_loop k env now c ids m lr mt d = Inr d'"
  shows "(\<exists>js. length js \<le> k \<and> d' = fold env js d) \<or> (\<forall>i \<in> set ids. (cc_id c, i) \<in> set (db_conflict_claims d'))"
  using assms
proof (induction k arbitrary: c d)
  case (Suc k)
  obtain u d1 where u: "update_with_version_check (cc_id c) (cc_version c) (evidence_update now) (env k d) = Inr (u, d1)"
    using Suc.prems by (auto simp: Let_def)
  show ?case
  proof (cases u)
    case None
    then have d1: "d1 = fold env [k] d" using update_with_version_check_None u by fastforce
    show ?thesis
    proof (cases "\<exists>r. conflicts_get (cc_id c) d1 = Some r \<and> cc_status r = OPEN")
      case True
      then obtain r where r: "conflicts_get (cc_id c) d1 = Some r" "cc_status r = OPEN" by blast
      then have "merge_evidence_loop k env now r ids m lr mt d1 = Inr d'" using Suc.prems u None by (simp add: Let_def)
      moreover have "cc_id r = cc_id c" using conflicts_get_SomeD [OF r(1)] by blast
      ultimately consider js where "length js \<le> k" "d' = fold env js d1"
        | "\<forall>i \<in> set ids. (cc_id c, i) \<in> set (db_conflict_claims d')"
        using Suc.IH by metis
      then show ?thesis
      proof cases
        case 1
        then have "length (k # js) \<le> Suc k \<and> d' = fold env (k # js) d" by (simp add: d1)
        then show ?thesis by blast
      qed simp
    next
      case False
      then have "d' = d1" using Suc.prems u None by (auto simp: Let_def split: option.splits if_splits)
      then have "length [k] \<le> Suc k \<and> d' = fold env [k] d" by (simp add: d1)
      then show ?thesis by blast
    qed
  next
    case (Some x)
    then show ?thesis using Suc.prems u by (auto simp: Let_def)
  qed
qed simp

text \<open>Evidence is added all or nothing under interference: whatever other transactions commit
  between the attempts, adding evidence to an open conflict gives up after at most five attempts;
  when it returns, either every new claim is linked to the conflict, or the store is exactly what
  the other transactions left, with no partial link.\<close>

theorem merge_evidence_atomic:
  assumes "merge_evidence_into_open env now c ids m lr mt d = Inr d'"
  shows "(\<forall>i \<in> set ids. (cc_id c, i) \<in> set (db_conflict_claims d'))
    \<or> (\<exists>js. length js \<le> 5 \<and> d' = fold env js d)"
  using merge_evidence_loop_atomic [of MAX_VERSION_RETRY env now c ids m lr mt d d'] assms
  by (auto simp: merge_evidence_into_open_def MAX_VERSION_RETRY_def)

theorem merge_evidence_atomic_witness:
  "\<exists>d'. merge_evidence_into_open (\<lambda>_ d. d) 5 (with_links conflict_db (new_conflict 0 9 1 ''operator'' [])) [5, 6] 7 [] INGESTION conflict_db = Inr d'
     \<and> ((\<forall>i \<in> set [5, 6]. (9, i) \<in> set (db_conflict_claims d')) \<or> (\<exists>js :: nat list. length js \<le> 5 \<and> d' = fold (\<lambda>_ d. d) js conflict_db))"
proof -
  let ?c = "new_conflict 0 9 1 ''operator'' []"
  have c: "?c \<in> set (db_conflicts conflict_db)" "cc_status ?c = OPEN" "cc_event_id ?c = 1" "cc_field_name ?c = ''operator''" "cc_id ?c = 9"
    by (simp_all add: conflict_db_def new_conflict_def)
  obtain d' where d': "merge_evidence_into_open (\<lambda>_ d. d) 5 (with_links conflict_db ?c) [5, 6] 7 [] INGESTION conflict_db = Inr d'"
    using merge_evidence_quiet [OF conflict_db_inv c(1-4), of "with_links conflict_db ?c" 5 "[5, 6]" 7 "[]" INGESTION] c(3) by auto
  show ?thesis using merge_evidence_atomic [OF d'] d' unfolding with_links_simps c(5) by blast
qed

section \<open>What the reconciler leaves alone\<close>

text \<open>The tables outside the conflict tables.  A property of them that the other transactions
  keep is kept by every operation of the reconciler.\<close>

definition outside_conflicts where
  "outside_conflicts d =
     (db_sources d, db_events d, db_claims d, db_claim_history d, db_projections d,
      db_projection_history d, db_outbox d, db_identity d, db_reviews d, db_snapshots d, db_runs d)"

definition env_keeps where
  "env_keeps P env \<longleftrightarrow> (\<forall>k d. P (outside_conflicts d) \<longrightarrow> P (outside_conflicts (env k d)))"

lemma env_keepsD: "env_keeps P env \<Longrightarrow> P (outside_conflicts d) \<Longrightarrow> P (outside_conflicts (env k d))"
  by (simp add: env_keeps_def)

lemma outside_update [simp]:
  assumes "update_with_version_check i v f d = Inr (r, d')"
  shows "outside_conflicts d' = outside_conflicts d"
  using assms
  by (auto simp: update_with_version_check_def outside_conflicts_def Let_def split: option.splits if_splits)

lemma outside_add_claim [simp]: "outside_conflicts (add_claim_to_conflict i c d) = outside_conflicts d"
  by (simp add: add_claim_to_conflict_def outside_conflicts_def)

lemma outside_fold_add_claim [simp]:
  "outside_conflicts (fold (add_claim_to_conflict i) ids d) = outside_conflicts d"
  by (induction ids arbitrary: d) simp_all

lemma outside_simps [simp]:
  "outside_conflicts (add_evidence_links i ids d) = outside_conflicts d"
  "outside_conflicts (log_activity now c e fs ts mt mi r v sn d) = outside_conflicts d"
  "outside_conflicts (snd (try_add_open k d)) = outside_conflicts d"
  "outside_conflicts (d\<lparr>db_next := n\<rparr>) = outside_conflicts d"
  by (simp_all add: add_evidence_links_def) (simp_all add: outside_conflicts_def try_add_open_def)

lemma outside_merge_evidence_loop:
  assumes "env_keeps P env"
    and "merge_evidence_loop k env now c ids m lr mt d = Inr d'" and "P (outside_conflicts d)"
  shows "P (outside_conflicts d')"
  using assms(2,3)
proof (induction k arbitrary: c d)
  case (Suc k)
  obtain u d1 where u: "update_with_version_check (cc_id c) (cc_version c) (evidence_update now) (env k d) = Inr (u, d1)"
    using Suc.prems(1) by (auto simp: Let_def)
  have p: "P (outside_conflicts d1)" using outside_update [OF u] env_keepsD [OF assms(1) Suc.prems(2)] by simp
  show ?case
    using Suc.prems(1) Suc.IH [OF _ p] u p by (auto simp: Let_def split: option.splits if_splits)
qed simp

lemma outside_reopen_evidence_loop:
  assumes "env_keeps P env"
    and "reopen_evidence_loop k env now c ids m mt d = Inr d'" and "P (outside_conflicts d)"
  shows "P (outside_conflicts d')"
  using assms(2,3)
proof (induction k arbitrary: c d)
  case (Suc k)
  obtain u d1 where u: "update_with_version_check (cc_id c) (cc_version c) (reopen_update now) (env k d) = Inr (u, d1)"
    using Suc.prems(1) by (auto simp: Let_def)
  have p: "P (outside_conflicts d1)" using outside_update [OF u] env_keepsD [OF assms(1) Suc.prems(2)] by simp
  note m = outside_merge_evidence_loop [OF assms(1)]
  show ?case
    using Suc.prems(1) Suc.IH [OF _ p] u p m
    by (auto simp: Let_def merge_evidence_into_open_def split: option.splits if_splits)
qed simp

lemma outside_apply_detected:
  assumes env: "env_keeps P env"
    and a: "apply_detected env now e m mt active op res pot d = Inr d'" and d: "P (outside_conflicts d)"
  shows "P (outside_conflicts d')"
proof -
  note loops = outside_merge_evidence_loop [OF env] outside_reopen_evidence_loop [OF env]
  have new: "P (outside_conflicts d')" if "open_new_conflict env now e m mt pot d = Inr d'"
  proof -
    obtain b d1 where t: "try_add_open pot (env MAX_VERSION_RETRY d) = (b, d1)" by fastforce
    then have "P (outside_conflicts d1)" using outside_simps(3) [of pot "env MAX_VERSION_RETRY d"] env_keepsD [OF env d] by simp
    then show ?thesis
      using that t loops(1)
      by (auto simp: open_new_conflict_def merge_evidence_into_open_def split: option.splits if_splits)
  qed
  show ?thesis
    using a new loops d
    by (auto simp: apply_detected_def Let_def merge_evidence_into_open_def reopen_resolved_for_evidence_def
        split: option.splits if_splits)
qed

lemma outside_detect_and_apply:
  assumes "env_keeps P env"
    and "detect_and_apply_new_conflicts env now e m mt d = Inr d'" and "P (outside_conflicts d)"
  shows "P (outside_conflicts d')"
proof -
  obtain ks n where det: "detect True now (db_next d) (find_active_by_event e d) = (ks, n)" by fastforce
  show ?thesis
  proof (cases "ks = []")
    case True
    then show ?thesis using assms(2,3) by (auto simp: detect_and_apply_new_conflicts_def det Let_def)
  next
    case False
    let ?a = "apply_detected env now e m mt (find_active_by_event e d)
        (open_by_field_of (conflicts_find_by_event e (d\<lparr>db_next := n\<rparr>)))
        (latest_resolved_conflicts_by_field (conflicts_find_by_event e (d\<lparr>db_next := n\<rparr>)))"
    have "rfold ?a ks (d\<lparr>db_next := n\<rparr>) = Inr d'"
      using assms(2) False by (simp add: detect_and_apply_new_conflicts_def det Let_def)
    then show ?thesis
      by (rule rfold_invariant) (use assms(3) outside_apply_detected [OF assms(1)] in auto)
  qed
qed

lemma detect_and_apply_outside:
  assumes "detect_and_apply_new_conflicts (\<lambda>_ d. d) now e m mt d = Inr d'"
  shows "outside_conflicts d' = outside_conflicts d"
  by (rule outside_detect_and_apply [where P = "\<lambda>x. x = outside_conflicts d", OF _ assms]) (simp_all add: env_keeps_def)

lemma find_active_by_event_field_cong:
  "db_claims d = db_claims d' \<Longrightarrow> find_active_by_event_field e f d = find_active_by_event_field e f d'"
  "db_claims d = db_claims d' \<Longrightarrow> find_active_by_event e d = find_active_by_event e d'"
  "db_claims d = db_claims d' \<Longrightarrow> cross_source_dispute e f d = cross_source_dispute e f d'"
  by (simp_all add: find_active_by_event_field_def find_active_by_event_def cross_source_dispute_def)

lemma outside_conflictsD:
  assumes "outside_conflicts d' = outside_conflicts d"
  shows "db_claims d' = db_claims d" "db_events d' = db_events d" "db_outbox d' = db_outbox d"
    "db_projections d' = db_projections d" "db_reviews d' = db_reviews d" "db_identity d' = db_identity d"
  using assms by (simp_all add: outside_conflicts_def)

text \<open>Every disagreement on a field of the event is an open conflict linked to all its claims.\<close>

definition disputes_open :: "uuid \<Rightarrow> db \<Rightarrow> bool" where
  "disputes_open e d \<longleftrightarrow> (\<forall>f. cross_source_dispute e f d \<longrightarrow>
     (\<exists>c \<in> set (db_conflicts d). cc_status c = OPEN \<and> cc_event_id c = e \<and> cc_field_name c = f
        \<and> (\<forall>x \<in> set (find_active_by_event_field e f d). (cc_id c, cl_id x) \<in> set (db_conflict_claims d))))"

end
