(* ===== verification/Event_Identity.thy ===== *)
theory Event_Identity
  imports Store "HOL-Library.Multiset"
begin

text \<open>
  Which rows stand for the same accident: the synchronous identity index
  (\<open>repositories/identity.py\<close>), the queue of duplicate reviews (\<open>repositories/reviews.py\<close>) and
  the walks along \<open>merged_into_event_id\<close> to the surviving event, which four use cases make, each
  with its own answer for a missing event and for a cycle.
\<close>

section \<open>The identity index\<close>

text \<open>SQL \<open>COALESCE\<close> of two columns, and the array of an optional element.\<close>

definition coalesce :: "'a option \<Rightarrow> 'a option \<Rightarrow> 'a option" where
  "coalesce a b = (case a of Some x \<Rightarrow> Some x | None \<Rightarrow> b)"

definition option_array :: "'a option \<Rightarrow> 'a list" where
  "option_array v = (case v of Some x \<Rightarrow> [x] | None \<Rightarrow> [])"

text \<open>
  \<open>_capped_jsonb_union_sql\<close>: the inner query groups the elements with the ordinal of their last
  occurrence and keeps those with the highest ordinals, the outer one lists them by ordinal.  No
  two groups share an ordinal, so the second sort keys never decide.
\<close>

definition last_pos :: "'a list \<Rightarrow> 'a \<Rightarrow> nat" where
  "last_pos xs x = Max (set (map Suc (filter (\<lambda>i. xs ! i = x) [0..<length xs])))"

definition capped_jsonb_union :: "string list \<Rightarrow> string list" where
  "capped_jsonb_union xs =
     (let groups = map (\<lambda>x. (x, last_pos xs x)) (dict_fromkeys xs);
          capped_aliases = take MAX_REGISTRATION_ALIASES (rev (sort_key snd groups))
      in map fst (sort_key snd capped_aliases))"

text \<open>\<open>jsonb_agg(DISTINCT elem)\<close> sorts to remove duplicates.\<close>

definition jsonb_distinct :: "string list \<Rightarrow> string list" where
  "jsonb_distinct xs = sorted_set xs"

definition identity_get :: "uuid \<Rightarrow> db \<Rightarrow> event_identity_index option" where
  "identity_get e d = row_get ii_event_id e (db_identity d)"

text \<open>\<open>INSERT ... ON CONFLICT (event_id) DO UPDATE\<close>.\<close>

definition identity_on_conflict ::
  "(event_identity_index \<Rightarrow> event_identity_index \<Rightarrow> event_identity_index) \<Rightarrow> event_identity_index
     \<Rightarrow> db \<Rightarrow> db" where
  "identity_on_conflict do_update excluded d =
     (if identity_get (ii_event_id excluded) d = None
      then d\<lparr>db_identity := db_identity d @ [excluded]\<rparr>
      else d\<lparr>db_identity := row_update (\<lambda>r. ii_event_id r = ii_event_id excluded)
                              (\<lambda>r. do_update r excluded) (db_identity d)\<rparr>)"

text \<open>\<open>upsert\<close>: incoming scalars win, arrays are united.\<close>

definition upsert_row ::
  "event_identity_index \<Rightarrow> event_identity_index \<Rightarrow> event_identity_index" where
  "upsert_row r excluded =
     r\<lparr>ii_event_date_norm := coalesce (ii_event_date_norm excluded) (ii_event_date_norm r),
       ii_registration_norm := coalesce (ii_registration_norm excluded) (ii_registration_norm r),
       ii_operator_norm := coalesce (ii_operator_norm excluded) (ii_operator_norm r),
       ii_location_norm := coalesce (ii_location_norm excluded) (ii_location_norm r),
       ii_aircraft_type_norm := coalesce (ii_aircraft_type_norm excluded) (ii_aircraft_type_norm r),
       ii_source_record_ids :=
         jsonb_distinct (ii_source_record_ids r @ ii_source_record_ids excluded),
       ii_registration_norms :=
         capped_jsonb_union (ii_registration_norms r @ ii_registration_norms excluded),
       ii_updated_at := ii_updated_at excluded\<rparr>"

definition identity_upsert :: "event_identity_index \<Rightarrow> db \<Rightarrow> db" where
  "identity_upsert = identity_on_conflict upsert_row"

text \<open>\<open>enrich_identity_index_from_alias\<close>: stored scalars win, arrays are united.\<close>

definition enrich_row ::
  "event_identity_index \<Rightarrow> event_identity_index \<Rightarrow> event_identity_index" where
  "enrich_row r excluded =
     r\<lparr>ii_event_date_norm := coalesce (ii_event_date_norm r) (ii_event_date_norm excluded),
       ii_registration_norm := coalesce (ii_registration_norm r) (ii_registration_norm excluded),
       ii_operator_norm := coalesce (ii_operator_norm r) (ii_operator_norm excluded),
       ii_location_norm := coalesce (ii_location_norm r) (ii_location_norm excluded),
       ii_aircraft_type_norm := coalesce (ii_aircraft_type_norm r) (ii_aircraft_type_norm excluded),
       ii_source_record_ids :=
         jsonb_distinct (ii_source_record_ids r @ ii_source_record_ids excluded),
       ii_registration_norms :=
         capped_jsonb_union (ii_registration_norms r @ ii_registration_norms excluded
           @ option_array (ii_registration_norm excluded)),
       ii_updated_at := ii_updated_at excluded\<rparr>"

definition enrich_identity_index_from_alias :: "event_identity_index \<Rightarrow> db \<Rightarrow> db" where
  "enrich_identity_index_from_alias = identity_on_conflict enrich_row"

text \<open>
  \<open>merge_identity_index\<close>: the row selected from the absorbed event is inserted for the target, or
  fills the gaps of the target's row.  Without a row for the absorbed event nothing happens.
\<close>

definition merge_identity_index :: "time \<Rightarrow> uuid \<Rightarrow> uuid \<Rightarrow> db \<Rightarrow> db" where
  "merge_identity_index now source_event_id target_event_id d =
     (case identity_get source_event_id d of
        None \<Rightarrow> d
      | Some src \<Rightarrow>
          identity_on_conflict enrich_row
            (src\<lparr>ii_event_id := target_event_id,
                 ii_registration_norms :=
                   capped_jsonb_union (ii_registration_norms src @ option_array (ii_registration_norm src)),
                 ii_updated_at := now\<rparr>) d)"

section \<open>Duplicate reviews\<close>

definition reviews_get :: "uuid \<Rightarrow> db \<Rightarrow> pending_duplicate_review option" where
  "reviews_get i d = row_get rv_id i (db_reviews d)"

definition pair_filter :: "uuid \<Rightarrow> uuid \<Rightarrow> pending_duplicate_review \<Rightarrow> bool" where
  "pair_filter a b r \<longleftrightarrow> rv_event_id_a r = a \<and> rv_event_id_b r = b
     \<or> rv_event_id_a r = b \<and> rv_event_id_b r = a"

text \<open>\<open>ORDER BY ... DESC LIMIT 1\<close>.\<close>

definition first_desc :: "('r \<Rightarrow> 'k::linorder) \<Rightarrow> 'r list \<Rightarrow> 'r option" where
  "first_desc key rows = (case py_sorted_rev key rows of [] \<Rightarrow> None | r # _ \<Rightarrow> Some r)"

definition find_pending_pair :: "uuid \<Rightarrow> uuid \<Rightarrow> db \<Rightarrow> pending_duplicate_review option" where
  "find_pending_pair a b d =
     first_desc (\<lambda>r. (rv_created_at r, rv_id r))
       (filter (\<lambda>r. pair_filter a b r \<and> rv_status r = REVIEW_PENDING) (db_reviews d))"

text \<open>A pending review comes first, then the newest.\<close>

definition find_existing_pair :: "uuid \<Rightarrow> uuid \<Rightarrow> db \<Rightarrow> pending_duplicate_review option" where
  "find_existing_pair a b d =
     first_desc (\<lambda>r. (rv_status r = REVIEW_PENDING, rv_created_at r, rv_id r))
       (filter (pair_filter a b) (db_reviews d))"

text \<open>The partial unique index on the unordered pair of a pending review.\<close>

definition reviews_add ::
  "pending_duplicate_review \<Rightarrow> db \<Rightarrow> pending_duplicate_review option \<times> db" where
  "reviews_add review d =
     (if rv_status review = REVIEW_PENDING
         \<and> list_ex (\<lambda>r. rv_status r = REVIEW_PENDING
                      \<and> pair_filter (rv_event_id_a review) (rv_event_id_b review) r) (db_reviews d)
      then (find_pending_pair (rv_event_id_a review) (rv_event_id_b review) d, d)
      else (Some review, d\<lparr>db_reviews := db_reviews d @ [review]\<rparr>))"

definition find_pending_for_event :: "uuid \<Rightarrow> db \<Rightarrow> pending_duplicate_review list" where
  "find_pending_for_event e d =
     filter (\<lambda>r. (rv_event_id_a r = e \<or> rv_event_id_b r = e) \<and> rv_status r = REVIEW_PENDING)
       (db_reviews d)"

definition review_decided ::
  "time \<Rightarrow> duplicate_review_status \<Rightarrow> uuid option \<Rightarrow> string option
     \<Rightarrow> pending_duplicate_review \<Rightarrow> pending_duplicate_review" where
  "review_decided now status resolved_by resolution_note r =
     r\<lparr>rv_status := status, rv_resolved_at := (if status \<noteq> REVIEW_PENDING then Some now else None),
       rv_resolved_by := resolved_by, rv_resolution_note := resolution_note\<rparr>"

definition reviews_update_status ::
  "time \<Rightarrow> uuid \<Rightarrow> duplicate_review_status \<Rightarrow> uuid option \<Rightarrow> string option \<Rightarrow> db
     \<Rightarrow> pending_duplicate_review option \<times> db" where
  "reviews_update_status now i status resolved_by resolution_note d =
     (let f = review_decided now status resolved_by resolution_note
      in (map_option f (reviews_get i d),
          d\<lparr>db_reviews := row_update (\<lambda>r. rv_id r = i) f (db_reviews d)\<rparr>))"

section \<open>The walk to the surviving event\<close>

datatype walk = Missing uuid | Found accident_event | Cycle accident_event

text \<open>The loop shared by the four walks, with the identifiers it has seen.\<close>

function canonical_walk :: "accident_event list \<Rightarrow> uuid list \<Rightarrow> uuid \<Rightarrow> walk" where
  "canonical_walk rows seen current_id =
     (case row_get ev_id current_id rows of
        None \<Rightarrow> Missing current_id
      | Some event \<Rightarrow>
          (case ev_merged_into_event_id event of
             None \<Rightarrow> Found event
           | Some t \<Rightarrow>
               if ev_id event \<in> set seen then Cycle event
               else canonical_walk rows (ev_id event # seen) t))"
  by pat_completeness auto

termination
proof (relation "measure (\<lambda>(rows, seen, i). card (ev_id ` set rows - set seen))", goal_cases)
  case (2 rows seen i e t)
  then have "e \<in> set rows" by (blast dest: row_get_SomeD)
  then have "ev_id ` set rows - set (ev_id e # seen) \<subset> ev_id ` set rows - set seen"
    using 2 by auto
  then show ?case by (simp add: psubset_card_mono)
qed simp

declare canonical_walk.simps [simp del]

text \<open>\<open>EventResolutionService._canonical_event_for\<close>.\<close>

definition resolution_canonical :: "uuid \<Rightarrow> db \<Rightarrow> atlas_error + accident_event option" where
  "resolution_canonical i d =
     (case canonical_walk (db_events d) [] i of
        Missing _ \<Rightarrow> Inr None
      | Found e \<Rightarrow> Inr (Some e)
      | Cycle e \<Rightarrow> Inl (EventAlreadyMergedError (ev_id e)))"

text \<open>\<open>SourceRecordContinuityService._canonical_event_for\<close>.\<close>

definition continuity_canonical :: "uuid \<Rightarrow> db \<Rightarrow> atlas_error + accident_event" where
  "continuity_canonical i d =
     (case canonical_walk (db_events d) [] i of
        Missing j \<Rightarrow> Inl (EventNotFoundError j)
      | Found e \<Rightarrow> Inr e
      | Cycle e \<Rightarrow> Inl (EventAlreadyMergedError (ev_id e)))"

text \<open>\<open>IngestionIdempotencyService._canonical_event_id\<close>.\<close>

definition replay_canonical :: "uuid \<Rightarrow> db \<Rightarrow> atlas_error + uuid" where
  "replay_canonical i d =
     (case canonical_walk (db_events d) [] i of
        Missing j \<Rightarrow> Inl (EventNotFoundError j)
      | Found e \<Rightarrow> Inr (ev_id e)
      | Cycle e \<Rightarrow> Inl (EventAlreadyMergedError (ev_id e)))"

text \<open>\<open>QueryAccidentPublicView._canonical_event_id\<close> and its caller.\<close>

definition query_canonical :: "uuid \<Rightarrow> db \<Rightarrow> uuid option" where
  "query_canonical i d =
     (case canonical_walk (db_events d) [] i of
        Missing j \<Rightarrow> Some j | Found e \<Rightarrow> Some (ev_id e) | Cycle e \<Rightarrow> None)"

definition query_accident_public_view :: "uuid \<Rightarrow> db \<Rightarrow> projected_accident_record option" where
  "query_accident_public_view i d =
     (case query_canonical i d of None \<Rightarrow> None | Some c \<Rightarrow> projections_get c d)"

text \<open>\<open>_canonical_event_id_for\<close> of the public event pages.\<close>

definition public_canonical :: "uuid \<Rightarrow> db \<Rightarrow> uuid option" where
  "public_canonical i d =
     (case canonical_walk (db_events d) [] i of
        Missing _ \<Rightarrow> None | Found e \<Rightarrow> Some (ev_id e) | Cycle e \<Rightarrow> None)"

section \<open>The capped union\<close>

lemma dict_fromkeys_from_filter:
  "dict_fromkeys_from (s @ t) xs = filter (\<lambda>x. x \<notin> set s) (dict_fromkeys_from t xs)"
proof (induction xs arbitrary: s t)
  case (Cons x xs)
  have "dict_fromkeys_from (s @ x # t) xs = filter (\<lambda>y. y \<notin> set s) (dict_fromkeys_from (x # t) xs)"
    using Cons by blast
  moreover have "dict_fromkeys_from (x # s @ t) xs = dict_fromkeys_from (s @ x # t) xs"
    using Cons [of "x # s" t] Cons [of "s @ [x]" t] by (auto intro: filter_cong)
  ultimately show ?case using Cons [of s t] Cons [of "x # s" t]
  proof (cases "x \<in> set s")
    case True
    have "filter (\<lambda>y. y \<notin> set s) (dict_fromkeys_from (x # t) xs) = filter (\<lambda>y. y \<notin> set s) (dict_fromkeys_from t xs)"
      using Cons [of "[x]" t] True by (auto intro!: filter_cong)
    then show ?thesis using True Cons [of s t] by simp
  qed simp
qed simp

lemma dict_fromkeys_Cons: "dict_fromkeys (x # xs) = x # filter (\<lambda>y. y \<noteq> x) (dict_fromkeys xs)"
  using dict_fromkeys_from_filter [of "[x]" "[]" xs] by (simp add: dict_fromkeys_def)

text \<open>The loop of the entity's validator is a prefix of the distinct elements.\<close>

lemma cap_loop_take:
  "length capped < MAX_REGISTRATION_ALIASES \<Longrightarrow>
     cap_loop capped xs = take MAX_REGISTRATION_ALIASES (capped @ dict_fromkeys_from capped xs)"
proof (induction capped xs rule: cap_loop.induct)
  case (2 capped x xs)
  have swap: "dict_fromkeys_from (x # capped) xs = dict_fromkeys_from (capped @ [x]) xs"
    using dict_fromkeys_from_filter [of "x # capped" "[]" xs] dict_fromkeys_from_filter [of "capped @ [x]" "[]" xs]
    by (auto intro: filter_cong)
  show ?case
  proof (cases "x \<in> set capped \<or> length (capped @ [x]) < MAX_REGISTRATION_ALIASES")
    case True
    then show ?thesis using 2 swap by (auto simp: not_le)
  next
    case False
    then have "\<not> Suc (length capped) < MAX_REGISTRATION_ALIASES" by simp
    then have m: "MAX_REGISTRATION_ALIASES - length capped = Suc 0" "MAX_REGISTRATION_ALIASES = Suc (length capped)"
      using "2.prems" by linarith+
    show ?thesis using False m(2) by (simp add: m(1))
  qed
qed simp

lemma cap_registration_norms_take:
  "cap_registration_norms v = rev (take MAX_REGISTRATION_ALIASES (dict_fromkeys (rev v)))"
  using cap_loop_take [of "[]" "rev v"]
  by (simp add: cap_registration_norms_def dict_fromkeys_def MAX_REGISTRATION_ALIASES_def)

lemma last_pos_Max: "last_pos xs x = Max {Suc i | i. i < length xs \<and> xs ! i = x}"
  unfolding last_pos_def by (rule arg_cong [where f = Max]) auto

lemma last_pos_snoc: "last_pos (xs @ [x]) y = (if y = x then Suc (length xs) else last_pos xs y)"
proof (cases "y = x")
  case True
  have "Max {Suc i | i. i < length (xs @ [x]) \<and> (xs @ [x]) ! i = y} = Suc (length xs)"
    using True by (intro Max_eqI) auto
  then show ?thesis using True by (simp add: last_pos_Max)
next
  case False
  then have "{Suc i | i. i < length (xs @ [x]) \<and> (xs @ [x]) ! i = y} = {Suc i | i. i < length xs \<and> xs ! i = y}"
    by (auto simp: nth_append less_Suc_eq split: if_splits)
  then show ?thesis using False by (simp add: last_pos_Max)
qed

lemma last_pos_le: "y \<in> set xs \<Longrightarrow> last_pos xs y \<le> length xs"
  by (induction xs rule: rev_induct) (auto simp: last_pos_snoc)

lemma last_pos_sorted:
  "sorted_wrt (<) (map (last_pos xs) (rev (dict_fromkeys (rev xs))))"
proof (induction xs rule: rev_induct)
  case Nil
  show ?case by (simp add: dict_fromkeys_def)
next
  case (snoc x xs)
  let ?ys = "filter (\<lambda>y. y \<noteq> x) (rev (dict_fromkeys (rev xs)))"
  have "sorted_wrt (\<lambda>a b. last_pos xs a < last_pos xs b) ?ys"
    using snoc by (simp add: sorted_wrt_map sorted_wrt_filter)
  then have "sorted_wrt (<) (map (last_pos (xs @ [x])) ?ys)"
    unfolding sorted_wrt_map by (rule sorted_wrt_mono_rel [rotated]) (simp add: last_pos_snoc)
  moreover have "last_pos (xs @ [x]) y < Suc (length xs)" if "y \<in> set ?ys" for y
    using that last_pos_le [of y xs] by (simp add: last_pos_snoc less_Suc_eq_le)
  moreover have "rev (dict_fromkeys (rev (xs @ [x]))) = ?ys @ [x]"
    by (simp add: dict_fromkeys_Cons rev_filter)
  moreover have "last_pos (xs @ [x]) x = Suc (length xs)" by (simp add: last_pos_snoc)
  ultimately show ?case by (simp only: map_append list.map sorted_wrt_append) simp
qed

lemma capped_union_groups:
  "sort_key snd (map (\<lambda>x. (x, last_pos xs x)) (dict_fromkeys xs)) =
     map (\<lambda>x. (x, last_pos xs x)) (rev (dict_fromkeys (rev xs)))"
    (is "sort_key snd ?a = ?b")
proof (rule sort_key_inj_key_eq)
  have "mset (dict_fromkeys xs) = mset (rev (dict_fromkeys (rev xs)))"
    by (subst set_eq_iff_mset_eq_distinct [symmetric]) simp_all
  then show "mset ?a = mset ?b" by (simp only: mset_map)
  have "inj_on (last_pos xs) (set (rev (dict_fromkeys (rev xs))))"
    using last_pos_sorted [of xs] by (metis distinct_map strict_sorted_iff)
  then show "inj_on snd (set ?a)" by (auto simp: inj_on_def)
  show "sorted (map snd ?b)"
    using last_pos_sorted [of xs] by (simp add: comp_def strict_sorted_imp_sorted)
qed

text \<open>The registration aliases kept by the SQL union are those the entity's validator keeps:
  for every array the capped \<open>JSONB\<close> union equals \<open>cap_registration_norms\<close>, the five most
  recently listed distinct values in the order of their last occurrence.\<close>

theorem capped_union_is_validator:
  "capped_jsonb_union xs = cap_registration_norms xs"
proof -
  let ?m = "map (\<lambda>x. (x, last_pos xs x))"
  let ?ys = "rev (take MAX_REGISTRATION_ALIASES (dict_fromkeys (rev xs)))"
  have "rev (sort_key snd (?m (dict_fromkeys xs))) = ?m (dict_fromkeys (rev xs))"
    by (simp add: capped_union_groups rev_map)
  then have c: "capped_jsonb_union xs = map fst (sort_key snd (rev (?m ?ys)))"
    by (simp add: capped_jsonb_union_def Let_def take_map rev_map)
  have ys: "?ys = drop (length (dict_fromkeys (rev xs)) - MAX_REGISTRATION_ALIASES) (rev (dict_fromkeys (rev xs)))"
    by (simp add: rev_take)
  have "sorted_wrt (<) (map (last_pos xs) ?ys)"
    using last_pos_sorted [of xs] unfolding ys drop_map [symmetric] by (rule sorted_wrt_drop)
  then have "sorted (map (last_pos xs) ?ys)" "inj_on (last_pos xs) (set ?ys)"
    by (simp_all only: strict_sorted_iff distinct_map)
  then have "sorted (map snd (?m ?ys))" "inj_on snd (set (?m ?ys))"
    by (simp_all only: list.map_comp comp_def snd_conv) (auto simp: inj_on_def)
  then have "sort_key snd (rev (?m ?ys)) = ?m ?ys"
    by (intro sort_key_inj_key_eq) simp_all
  then show ?thesis by (simp add: c comp_def cap_registration_norms_take)
qed

section \<open>Merge pointers\<close>

definition merge_links :: "accident_event list \<Rightarrow> (uuid \<times> uuid) set" where
  "merge_links rows = {(ev_id e, t) | e t. e \<in> set rows \<and> ev_merged_into_event_id e = Some t}"

text \<open>
  The merge pointers form a forest: keys are unique, every pointer leads to an event, and no chain
  of pointers returns to its start.
\<close>

definition merge_forest :: "accident_event list \<Rightarrow> bool" where
  "merge_forest rows \<longleftrightarrow>
     distinct (map ev_id rows) \<and> snd ` merge_links rows \<subseteq> ev_id ` set rows \<and> acyclic (merge_links rows)"

text \<open>The surviving event of an event: an unmerged event its chain of pointers leads to.\<close>

definition survives :: "accident_event list \<Rightarrow> uuid \<Rightarrow> accident_event \<Rightarrow> bool" where
  "survives rows i e \<longleftrightarrow>
     e \<in> set rows \<and> ev_merged_into_event_id e = None \<and> (i, ev_id e) \<in> (merge_links rows)\<^sup>*"

lemma merge_links_simps [simp]:
  "merge_links [] = {}"
  "merge_links (e # rows) =
     (case ev_merged_into_event_id e of None \<Rightarrow> merge_links rows
      | Some t \<Rightarrow> insert (ev_id e, t) (merge_links rows))"
  by (auto simp: merge_links_def split: option.split)

lemma event_key_unique:
  "distinct (map ev_id rows) \<Longrightarrow> e \<in> set rows \<Longrightarrow> f \<in> set rows \<Longrightarrow> ev_id e = ev_id f \<Longrightarrow> e = f"
  unfolding distinct_map by (blast dest: inj_onD)

lemma merge_linksD: "(i, t) \<in> merge_links rows \<Longrightarrow> \<exists>e \<in> set rows. ev_id e = i \<and> ev_merged_into_event_id e = Some t"
  by (auto simp: merge_links_def)

lemma merge_links_unique:
  assumes "distinct (map ev_id rows)" and "(i, a) \<in> merge_links rows" and "(i, b) \<in> merge_links rows"
  shows "a = b"
proof -
  obtain e f where "e \<in> set rows" "f \<in> set rows" "ev_id e = i" "ev_id f = i"
    and t: "ev_merged_into_event_id e = Some a" "ev_merged_into_event_id f = Some b"
    using merge_linksD [OF assms(2)] merge_linksD [OF assms(3)] by blast
  then have "e = f" using event_key_unique [OF assms(1)] by metis
  then show ?thesis using t by simp
qed

lemma root_no_link:
  assumes "distinct (map ev_id rows)" and "e \<in> set rows" and "ev_merged_into_event_id e = None"
  shows "(ev_id e, t) \<notin> merge_links rows"
proof
  assume "(ev_id e, t) \<in> merge_links rows"
  then obtain f where "f \<in> set rows" "ev_id f = ev_id e" "ev_merged_into_event_id f = Some t"
    using merge_linksD by blast
  then show False using event_key_unique [OF assms(1), of f e] assms(2,3) by simp
qed

lemma survives_unique:
  assumes "distinct (map ev_id rows)" and "survives rows i a" and "survives rows i b"
  shows "a = b"
proof -
  have sv: "single_valued (merge_links rows)"
    using merge_links_unique [OF assms(1)] by (auto simp: single_valued_def)
  have "(ev_id a, ev_id b) \<in> (merge_links rows)\<^sup>* \<or> (ev_id b, ev_id a) \<in> (merge_links rows)\<^sup>*"
    using single_valued_confluent [OF sv] assms(2,3) unfolding survives_def by blast
  then have "ev_id a = ev_id b"
    using assms root_no_link [OF assms(1)] by (auto simp: survives_def elim: converse_rtranclE)
  then show ?thesis using assms by (auto simp: survives_def distinct_map dest: inj_onD)
qed

text \<open>In a forest the walk finds the surviving event, whatever identifiers below the start it has
  seen.\<close>

lemma canonical_walk_found:
  assumes "merge_forest rows" and "i \<in> ev_id ` set rows"
    and "\<forall>s \<in> set seen. (s, i) \<in> (merge_links rows)\<^sup>+"
  shows "\<exists>e. canonical_walk rows seen i = Found e \<and> survives rows i e"
  using assms
proof (induction rows seen i rule: canonical_walk.induct)
  case (1 rows seen i)
  obtain e where e: "row_get ev_id i rows = Some e"
    using "1.prems"(2) row_get_None_iff [of ev_id i rows] by auto
  then have mem: "e \<in> set rows" "ev_id e = i" using row_get_SomeD [OF e] by simp_all
  show ?case
  proof (cases "ev_merged_into_event_id e")
    case None
    then show ?thesis using e mem by (simp add: canonical_walk.simps survives_def)
  next
    case (Some t)
    have link: "(i, t) \<in> merge_links rows" using mem Some by (auto simp: merge_links_def)
    have "(i, i) \<notin> (merge_links rows)\<^sup>+" using "1.prems"(1) by (simp add: merge_forest_def acyclic_def)
    then have fresh: "i \<notin> set seen" using "1.prems"(3) by auto
    have "snd (i, t) \<in> ev_id ` set rows" using "1.prems"(1) link unfolding merge_forest_def by blast
    moreover have "\<forall>s \<in> set (ev_id e # seen). (s, t) \<in> (merge_links rows)\<^sup>+"
      using "1.prems"(3) link mem(2) by (auto intro: trancl_into_trancl)
    ultimately obtain f where "canonical_walk rows (ev_id e # seen) t = Found f" "survives rows t f"
      using "1.IH" [OF e Some] "1.prems"(1) fresh mem(2) by auto
    then show ?thesis
      using e Some fresh mem(2) link by (auto simp: canonical_walk.simps [of rows seen] survives_def)
  qed
qed

text \<open>C23: Following merge pointers ends: when the pointers form a forest, every existing event has
  exactly one surviving event, and all five walks along the pointers (anonymous resolution, source
  record continuity, idempotent replay, the public view and the public pages) return it.\<close>

theorem canonical_walks_agree:
  assumes "merge_forest (db_events d)" and "events_get i d = Some e0"
  shows "\<exists>e. (\<forall>f. survives (db_events d) i f \<longleftrightarrow> f = e)
    \<and> resolution_canonical i d = Inr (Some e) \<and> continuity_canonical i d = Inr e
    \<and> replay_canonical i d = Inr (ev_id e) \<and> query_canonical i d = Some (ev_id e)
    \<and> public_canonical i d = Some (ev_id e)"
proof -
  have dist: "distinct (map ev_id (db_events d))" using assms(1) by (simp add: merge_forest_def)
  have "i \<in> ev_id ` set (db_events d)"
    using assms(2) row_get_SomeD [of ev_id i "db_events d"] by (auto simp: events_get_def)
  then obtain e where e: "canonical_walk (db_events d) [] i = Found e" "survives (db_events d) i e"
    using canonical_walk_found [OF assms(1), of i "[]"] by auto
  have "survives (db_events d) i f \<longleftrightarrow> f = e" for f using survives_unique [OF dist e(2)] e(2) by blast
  then show ?thesis
    using e(1) by (intro exI [of _ e]) (simp add: resolution_canonical_def continuity_canonical_def
        replay_canonical_def query_canonical_def public_canonical_def)
qed

text \<open>Three events merged in a chain.\<close>

definition merge_event :: "uuid \<Rightarrow> uuid option \<Rightarrow> accident_event" where
  "merge_event i t = \<lparr>ev_id = i, ev_created_at = 0, ev_merged_into_event_id = t\<rparr>"

definition chain_db :: db where
  "chain_db = empty_db\<lparr>db_events := [merge_event 1 (Some 2), merge_event 2 (Some 3), merge_event 3 None]\<rparr>"

lemma merge_event_simps [simp]:
  "ev_id (merge_event i t) = i" "ev_merged_into_event_id (merge_event i t) = t"
  by (simp_all add: merge_event_def)

lemma chain_db_links:
  "db_events chain_db = [merge_event 1 (Some 2), merge_event 2 (Some 3), merge_event 3 None]"
  "merge_links (db_events chain_db) = {(1, 2), (2, 3)}"
  by (simp_all add: chain_db_def)

lemma chain_db_forest: "merge_forest (db_events chain_db)"
proof -
  have "acyclic {(1::uuid, 2::uuid), (2, 3)}"
    by (rule acyclic_subset [OF wf_acyclic [OF wf_less]]) auto
  then show ?thesis
    unfolding merge_forest_def chain_db_links(2) by (simp add: chain_db_links(1))
qed

theorem canonical_walks_agree_witness:
  "continuity_canonical 1 chain_db = Inr (merge_event 3 None) \<and> query_canonical 1 chain_db = Some 3"
proof -
  have get: "events_get 1 chain_db = Some (merge_event 1 (Some 2))"
    by (simp add: events_get_def chain_db_links(1))
  have "(1, 3) \<in> {(1::uuid, 2::uuid), (2, 3)}\<^sup>*"
    by (rule converse_rtrancl_into_rtrancl [of _ 2]) auto
  then have sv: "survives (db_events chain_db) 1 (merge_event 3 None)"
    unfolding survives_def chain_db_links(2) by (simp add: chain_db_links(1))
  obtain e where e: "\<forall>f. survives (db_events chain_db) 1 f \<longleftrightarrow> f = e"
    "continuity_canonical 1 chain_db = Inr e" "query_canonical 1 chain_db = Some (ev_id e)"
    using canonical_walks_agree [OF chain_db_forest get] by (elim exE conjE)
  have "e = merge_event 3 None" using iffD1 [OF spec [OF e(1)] sv] by (rule sym)
  then show ?thesis using e(2,3) by (simp only: merge_event_simps simp_thms)
qed

end
