(* ===== verification/Merge.thy ===== *)
theory Merge
  imports Event_Identity Reconciler Outbox
begin

text \<open>
  The curator's merge of two events (\<open>merge_duplicate_events.py\<close>) and the decision on a queued
  duplicate review (\<open>review_duplicate.py\<close>).  \<open>lock_env i\<close> is what other transactions commit while
  the merge waits for the row lock of the event \<open>i\<close>; \<open>env\<close> is the interference in the retry loops
  of the reconciler.
\<close>

section \<open>Merging\<close>

record merge_result =
  mr_target_event_id :: uuid
  mr_source_event_id :: uuid
  mr_claims_transferred :: nat
  mr_review_id :: "uuid option"

definition colon_note :: "string \<Rightarrow> string" where
  "colon_note note = (if note = [] then [] else '': '' @ note)"

text \<open>\<open>lock_for_update\<close> on each identifier, in the order given.\<close>

fun lock_events ::
  "(uuid \<Rightarrow> db \<Rightarrow> db) \<Rightarrow> uuid list \<Rightarrow> db \<Rightarrow> atlas_error + ((uuid \<times> accident_event) list \<times> db)" where
  "lock_events lock_env [] d = Inr ([], d)"
| "lock_events lock_env (i # is) d =
     (case events_get i (lock_env i d) of
        None \<Rightarrow> Inl (EventNotFoundError i)
      | Some e \<Rightarrow>
          rbind (lock_events lock_env is (lock_env i d)) (\<lambda>(locked, d'). Inr ((i, e) # locked, d')))"

definition transferred_claim :: "uuid \<Rightarrow> uuid \<Rightarrow> claim \<Rightarrow> claim" where
  "transferred_claim i target_event_id old =
     \<lparr>cl_id = i, cl_event_id = target_event_id, cl_source_id = cl_source_id old,
      cl_raw_snapshot_id = cl_raw_snapshot_id old, cl_field_name = cl_field_name old,
      cl_field_value = cl_field_value old, cl_claim_type = cl_claim_type old,
      cl_created_at = cl_created_at old, cl_created_by = cl_created_by old,
      cl_superseded_by_claim_id = None\<rparr>"

text \<open>Step 1: the copies on the target; returns \<open>old_to_new\<close>.\<close>

fun transfer_claims ::
  "time \<Rightarrow> uuid \<Rightarrow> uuid \<Rightarrow> uuid \<Rightarrow> string \<Rightarrow> claim list \<Rightarrow> db \<Rightarrow> (uuid \<times> uuid) list \<times> db" where
  "transfer_claims now source_event_id target_event_id resolved_by note [] d = ([], d)"
| "transfer_claims now source_event_id target_event_id resolved_by note (old # olds) d =
     (let i = fst (uuid4 d);
          d1 = claims_add (transferred_claim i target_event_id old) (snd (uuid4 d));
          d2 = log_claim_history now i target_event_id None (Some (cl_field_value old)) None
                 (cl_claim_type old) ''merged''
                 (''Transferred from event '' @ str_uuid source_event_id @ '' during merge by ''
                    @ str_uuid resolved_by @ colon_note note)
                 USER (Some resolved_by) d1;
          (m, d3) = transfer_claims now source_event_id target_event_id resolved_by note olds d2
      in ((cl_id old, i) # m, d3))"

text \<open>Step 2: each source claim is superseded by its copy.\<close>

definition supersede_transferred ::
  "time \<Rightarrow> uuid \<Rightarrow> uuid \<Rightarrow> string \<Rightarrow> (uuid \<rightharpoonup> uuid) \<Rightarrow> claim \<Rightarrow> db \<Rightarrow> atlas_error + db" where
  "supersede_transferred now target_event_id resolved_by note old_to_new old d =
     (case old_to_new (cl_id old) of
        None \<Rightarrow> Inl KeyError
      | Some new \<Rightarrow>
          Inr (log_claim_history now (cl_id old) (cl_event_id old) (Some (cl_field_value old))
                 (Some (cl_field_value old)) (Some (cl_claim_type old)) SUPERSEDED ''superseded''
                 (''Superseded by merge into '' @ str_uuid target_event_id @ colon_note note)
                 USER (Some resolved_by) (snd (bulk_supersede [cl_id old] new d))))"

text \<open>Step 4: the open conflicts of the absorbed event are closed and logged.\<close>

definition tombstone_conflicts :: "time \<Rightarrow> uuid \<Rightarrow> uuid \<Rightarrow> string \<Rightarrow> db \<Rightarrow> db" where
  "tombstone_conflicts now source_event_id target_event_id merge_conflict_note d =
     (let (source_conflicts, d1) =
            close_event_conflicts_as_merged now source_event_id merge_conflict_note d
      in fold (\<lambda>conflict. log_activity now (cc_id conflict) (cc_event_id conflict) (Some OPEN)
                 RESOLVED SYSTEM None merge_conflict_note (cc_version conflict)
                 [(''event_merged_into'', [target_event_id]), (''previous_winning_claim_id'', [])])
           source_conflicts d1)"

text \<open>Step 8: \<open>_close_review\<close>.\<close>

definition close_review ::
  "time \<Rightarrow> uuid \<Rightarrow> uuid \<Rightarrow> uuid option \<Rightarrow> uuid \<Rightarrow> string \<Rightarrow> db \<Rightarrow> uuid option \<times> db" where
  "close_review now source_id target_id review_id resolved_by note d =
     (let note_text = take 500 (or_default note ''Merged via admin action'')
      in case review_id of
           Some i \<Rightarrow> (Some i, snd (reviews_update_status now i MERGED (Some resolved_by) (Some note_text) d))
         | None \<Rightarrow>
             (case find_existing_pair source_id target_id d of
                None \<Rightarrow> (None, d)
              | Some existing \<Rightarrow>
                  if rv_status existing = REVIEW_PENDING
                  then (Some (rv_id existing),
                        snd (reviews_update_status now (rv_id existing) MERGED (Some resolved_by)
                               (Some note_text) d))
                  else (None, d)))"

text \<open>Steps 0 to 8, once both rows are locked and the merge is claimed.\<close>

definition absorb_event ::
  "(nat \<Rightarrow> db \<Rightarrow> db) \<Rightarrow> time \<Rightarrow> uuid \<Rightarrow> uuid \<Rightarrow> uuid \<Rightarrow> string \<Rightarrow> uuid option \<Rightarrow> db
     \<Rightarrow> atlas_error + (merge_result \<times> db)" where
  "absorb_event env now source_event_id target_event_id resolved_by note review_id d =
     (let d1 = merge_identity_index now source_event_id target_event_id d;
          source_active = find_active_by_event source_event_id d1;
          (old_to_new, d2) =
            transfer_claims now source_event_id target_event_id resolved_by note source_active d1
      in rbind (rfold (supersede_transferred now target_event_id resolved_by note (map_of old_to_new))
                  source_active d2)
         (\<lambda>d3.
         rbind (detect_and_apply_new_conflicts env now target_event_id resolved_by USER
                  (tombstone_conflicts now source_event_id target_event_id
                     (''Event merged into '' @ str_uuid target_event_id @ '' by '' @ str_uuid resolved_by
                        @ colon_note note) d3))
         (\<lambda>d4.
            let d5 = outbox_add (new_outbox_event now (fst (uuid4 d4)) CLAIMS_UPDATED target_event_id
                       [(''event_id'', target_event_id), (''merged_from'', source_event_id)])
                       (snd (uuid4 d4));
                d6 = projections_delete source_event_id d5;
                (closed_review_id, d7) =
                  close_review now source_event_id target_event_id review_id resolved_by note d6
            in Inr (\<lparr>mr_target_event_id = target_event_id, mr_source_event_id = source_event_id,
                     mr_claims_transferred = length source_active, mr_review_id = closed_review_id\<rparr>,
                    d7))))"

definition merge_duplicate_events ::
  "(uuid \<Rightarrow> db \<Rightarrow> db) \<Rightarrow> (nat \<Rightarrow> db \<Rightarrow> db) \<Rightarrow> time \<Rightarrow> uuid \<Rightarrow> uuid \<Rightarrow> uuid \<Rightarrow> string \<Rightarrow> uuid option \<Rightarrow> db
     \<Rightarrow> atlas_error + (merge_result \<times> db)" where
  "merge_duplicate_events lock_env env now source_event_id target_event_id resolved_by note review_id d =
     (if source_event_id = target_event_id then Inl (CannotMergeIntoSelfError source_event_id)
      else if events_get source_event_id d = None then Inl (EventNotFoundError source_event_id)
      else if events_get target_event_id d = None then Inl (EventNotFoundError target_event_id)
      else
        rbind (lock_events lock_env (sort [source_event_id, target_event_id]) d)
        (\<lambda>(locked, d1).
          case (map_of locked source_event_id, map_of locked target_event_id) of
            (Some source, Some target) \<Rightarrow>
              if is_merged source then Inl (EventAlreadyMergedError source_event_id)
              else if is_merged target then Inl (EventAlreadyMergedError target_event_id)
              else
                let (claimed, d2) = try_atomic_merge source_event_id target_event_id d1
                in if \<not> claimed then Inl (EventAlreadyMergedError source_event_id)
                   else absorb_event env now source_event_id target_event_id resolved_by note review_id d2
          | _ \<Rightarrow> Inl KeyError))"

section \<open>Deciding a duplicate review\<close>

text \<open>\<open>ReviewDuplicate.execute\<close>; the merge result is \<open>None\<close> for a rejection.\<close>

definition review_duplicate ::
  "(uuid \<Rightarrow> db \<Rightarrow> db) \<Rightarrow> (nat \<Rightarrow> db \<Rightarrow> db) \<Rightarrow> time \<Rightarrow> uuid \<Rightarrow> string \<Rightarrow> uuid \<Rightarrow> string \<Rightarrow> uuid option \<Rightarrow> db
     \<Rightarrow> atlas_error + (merge_result option \<times> db)" where
  "review_duplicate lock_env env now review_id action resolved_by note source_event_id d =
     (case reviews_get review_id d of
        None \<Rightarrow> Inl (ReviewNotFoundError review_id)
      | Some review \<Rightarrow>
          if rv_status review \<noteq> REVIEW_PENDING then Inl (ReviewAlreadyResolvedError review_id)
          else if py_upper action = ''CONFIRM'' then
            rbind (case source_event_id of
                     Some s \<Rightarrow>
                       if s \<noteq> rv_event_id_a review \<and> s \<noteq> rv_event_id_b review
                       then Inl DomainValidationError
                       else Inr (s, if s = rv_event_id_a review then rv_event_id_b review
                                    else rv_event_id_a review)
                   | None \<Rightarrow> Inr (rv_event_id_b review, rv_event_id_a review))
            (\<lambda>(resolved_source, resolved_target).
               rbind (merge_duplicate_events lock_env env now resolved_source resolved_target
                        resolved_by (or_default note ''Confirmed duplicate via review'')
                        (Some review_id) d)
               (\<lambda>(r, d'). Inr (Some r, d')))
          else if py_upper action = ''REJECT'' then
            Inr (None, snd (reviews_update_status now review_id REJECTED (Some resolved_by)
                              (Some (take 500 (or_default note ''Not a duplicate''))) d))
          else Inl DomainValidationError)"

section \<open>The transfer of the claims\<close>

lemma merge_identity_index_simps [simp]:
  "db_claims (merge_identity_index now s t d) = db_claims d"
  "db_conflicts (merge_identity_index now s t d) = db_conflicts d"
  "db_conflict_claims (merge_identity_index now s t d) = db_conflict_claims d"
  "db_activity (merge_identity_index now s t d) = db_activity d"
  "db_events (merge_identity_index now s t d) = db_events d"
  "db_next (merge_identity_index now s t d) = db_next d"
  "db_outbox (merge_identity_index now s t d) = db_outbox d"
  "db_reviews (merge_identity_index now s t d) = db_reviews d"
  "db_projections (merge_identity_index now s t d) = db_projections d"
  "db_projection_history (merge_identity_index now s t d) = db_projection_history d"
  by (simp_all add: merge_identity_index_def identity_on_conflict_def split: option.split)

lemma store_inv_merge_identity_index [inv_intros]:
  "store_inv d \<Longrightarrow> store_inv (merge_identity_index now s t d)"
  by (simp add: store_inv_def)

text \<open>What a claim says, apart from its identity and the event it is attached to.\<close>

definition claim_content where
  "claim_content c = (cl_source_id c, cl_raw_snapshot_id c, cl_field_name c, cl_field_value c,
     cl_claim_type c, cl_created_at c, cl_created_by c)"

text \<open>The copies the loop creates, with the identifiers it draws from \<open>n\<close> on.\<close>

fun transfer_copies :: "uuid \<Rightarrow> uuid \<Rightarrow> claim list \<Rightarrow> claim list" where
  "transfer_copies n t [] = []"
| "transfer_copies n t (old # olds) = transferred_claim n t old # transfer_copies (Suc (Suc n)) t olds"

lemma transferred_claim_simps [simp]:
  "cl_id (transferred_claim i t c) = i" "cl_event_id (transferred_claim i t c) = t"
  "claim_content (transferred_claim i t c) = claim_content c"
  "is_active (transferred_claim i t c) = is_active c"
  "cl_field_name (transferred_claim i t c) = cl_field_name c"
  "claim_key (transferred_claim i t c) = claim_key c"
  by (simp_all add: transferred_claim_def claim_content_def is_active_iff claim_key_def)

lemma transfer_copies_simps [simp]:
  "length (transfer_copies n t olds) = length olds"
  "map claim_content (transfer_copies n t olds) = map claim_content olds"
  by (induction n t olds rule: transfer_copies.induct) simp_all

lemma transfer_copies_mem:
  "c \<in> set (transfer_copies n t olds) \<Longrightarrow> cl_event_id c = t \<and> n \<le> cl_id c \<and> (\<exists>old \<in> set olds. is_active c = is_active old \<and> claim_key c = claim_key old)"
proof (induction n t olds rule: transfer_copies.induct)
  case (2 n t old olds)
  then consider "c = transferred_claim n t old" | "c \<in> set (transfer_copies (Suc (Suc n)) t olds)" by auto
  then show ?case
  proof cases
    case 2
    with "2.IH" have "cl_event_id c = t" "Suc (Suc n) \<le> cl_id c"
      "\<exists>old \<in> set olds. is_active c = is_active old \<and> claim_key c = claim_key old"
      by blast+
    then show ?thesis by auto
  qed simp
qed simp

lemma transfer_claims_frame:
  "fst (transfer_claims now s t u nt olds d) = zip (map cl_id olds) (map cl_id (transfer_copies (db_next d) t olds))"
  "db_claims (snd (transfer_claims now s t u nt olds d)) = db_claims d @ transfer_copies (db_next d) t olds"
  "db_conflicts (snd (transfer_claims now s t u nt olds d)) = db_conflicts d"
  "db_events (snd (transfer_claims now s t u nt olds d)) = db_events d"
  "db_outbox (snd (transfer_claims now s t u nt olds d)) = db_outbox d"
  "db_projections (snd (transfer_claims now s t u nt olds d)) = db_projections d"
  "db_reviews (snd (transfer_claims now s t u nt olds d)) = db_reviews d"
  by (induction olds arbitrary: d) (simp_all add: Let_def claims_add_def case_prod_beta)

lemma store_inv_transfer_claims:
  "transfer_claims now s t u nt olds d = (m, d') \<Longrightarrow> store_inv d \<Longrightarrow> \<forall>c \<in> set olds. is_active c \<Longrightarrow> store_inv d'"
proof (induction olds arbitrary: d m d')
  case (Cons old olds)
  have ok: "claim_ok (transferred_claim (db_next d) t old)"
    using Cons.prems(3) by (simp add: claim_ok_def transferred_claim_def is_active_iff)
  let ?d2 = "log_claim_history now (db_next d) t None (Some (cl_field_value old)) None (cl_claim_type old) ''merged''
      (''Transferred from event '' @ str_uuid s @ '' during merge by '' @ str_uuid u @ colon_note nt)
      USER (Some u) (claims_add (transferred_claim (db_next d) t old) (snd (uuid4 d)))"
  obtain m2 d2 where r: "transfer_claims now s t u nt olds ?d2 = (m2, d2)" by fastforce
  have "store_inv ?d2"
    by (intro store_inv_log_claim_history store_inv_claims_add Cons.prems(2) ok) simp
  then have "store_inv d2" using Cons.IH [OF r] Cons.prems(3) by simp
  then show ?case using Cons.prems(1) r by (simp add: Let_def)
qed simp

lemma bulk_supersede_one:
  "db_claims (snd (bulk_supersede [i] w d)) =
     row_update (\<lambda>c. cl_id c = i \<and> is_active c) (supersede w) (db_claims d)"
  by (auto simp: bulk_supersede_def Let_def row_update_def)

lemma bulk_supersede_frame [simp]:
  "db_conflicts (snd (bulk_supersede ids w d)) = db_conflicts d"
  "db_conflict_claims (snd (bulk_supersede ids w d)) = db_conflict_claims d"
  "db_activity (snd (bulk_supersede ids w d)) = db_activity d"
  "db_events (snd (bulk_supersede ids w d)) = db_events d"
  "db_outbox (snd (bulk_supersede ids w d)) = db_outbox d"
  "db_projections (snd (bulk_supersede ids w d)) = db_projections d"
  "db_reviews (snd (bulk_supersede ids w d)) = db_reviews d"
  by (simp_all add: bulk_supersede_def Let_def)

lemma supersede_transferred_all:
  assumes "\<forall>old \<in> set olds. m (cl_id old) \<noteq> None" and "store_inv d"
  shows "\<exists>d'. rfold (supersede_transferred now t u nt m) olds d = Inr d' \<and> store_inv d'
    \<and> db_claims d' = row_update (\<lambda>c. cl_id c \<in> cl_id ` set olds \<and> is_active c)
        (\<lambda>c. supersede (the (m (cl_id c))) c) (db_claims d)
    \<and> db_conflicts d' = db_conflicts d \<and> db_events d' = db_events d \<and> db_outbox d' = db_outbox d
    \<and> db_projections d' = db_projections d \<and> db_reviews d' = db_reviews d"
  using assms
proof (induction olds arbitrary: d)
  case Nil
  then show ?case by (simp add: row_update_def)
next
  case (Cons old olds)
  obtain w where w: "m (cl_id old) = Some w" using Cons.prems(1) by auto
  let ?d1 = "log_claim_history now (cl_id old) (cl_event_id old) (Some (cl_field_value old)) (Some (cl_field_value old))
      (Some (cl_claim_type old)) SUPERSEDED ''superseded'' (''Superseded by merge into '' @ str_uuid t @ colon_note nt)
      USER (Some u) (snd (bulk_supersede [cl_id old] w d))"
  have "store_inv ?d1" by (intro store_inv_log_claim_history store_inv_bulk_supersede Cons.prems(2))
  then obtain d' where d': "rfold (supersede_transferred now t u nt m) olds ?d1 = Inr d'" "store_inv d'"
    "db_claims d' = row_update (\<lambda>c. cl_id c \<in> cl_id ` set olds \<and> is_active c)
        (\<lambda>c. supersede (the (m (cl_id c))) c) (db_claims ?d1)"
    "db_conflicts d' = db_conflicts ?d1 \<and> db_events d' = db_events ?d1 \<and> db_outbox d' = db_outbox ?d1
    \<and> db_projections d' = db_projections ?d1 \<and> db_reviews d' = db_reviews ?d1"
    using Cons.IH [of ?d1] Cons.prems(1) by auto
  have "db_claims ?d1 = row_update (\<lambda>c. cl_id c = cl_id old \<and> is_active c) (supersede w) (db_claims d)"
    by (simp add: bulk_supersede_one)
  then have "db_claims d' = row_update (\<lambda>c. cl_id c \<in> cl_id ` set (old # olds) \<and> is_active c)
        (\<lambda>c. supersede (the (m (cl_id c))) c) (db_claims d)"
    unfolding d'(3) by (auto simp: row_update_def w)
  moreover have "supersede_transferred now t u nt m old d = Inr ?d1" by (simp add: supersede_transferred_def w)
  then have "rfold (supersede_transferred now t u nt m) (old # olds) d = Inr d'"
    by (simp only: rfold.simps rbind.simps d'(1))
  ultimately show ?case using d'(2,4) by (intro exI [of _ d']) simp
qed

text \<open>The active claims of each event after both loops.\<close>

lemma filter_superseded:
  "filter (\<lambda>c. cl_event_id c = e \<and> is_active c)
      (row_update (\<lambda>c. cl_event_id c = s \<and> is_active c) (\<lambda>c. supersede (f c) c) rows) =
   (if e = s then [] else filter (\<lambda>c. cl_event_id c = e \<and> is_active c) rows)"
  by (induction rows) auto

lemma move_claims:
  assumes "store_inv d" and "s \<noteq> t" and "olds = find_active_by_event s d"
    and "transfer_claims now s t u nt olds d = (m, d2)"
  shows "\<exists>d3. rfold (supersede_transferred now t u nt (map_of m)) olds d2 = Inr d3 \<and> store_inv d3
    \<and> db_claims d3 = row_update (\<lambda>c. cl_event_id c = s \<and> is_active c)
        (\<lambda>c. supersede (the (map_of m (cl_id c))) c) (db_claims d) @ transfer_copies (db_next d) t olds
    \<and> db_conflicts d3 = db_conflicts d \<and> db_events d3 = db_events d \<and> db_outbox d3 = db_outbox d
    \<and> db_projections d3 = db_projections d \<and> db_reviews d3 = db_reviews d"
proof -
  note T = transfer_claims_frame [of now s t u nt olds d, unfolded assms(4) fst_conv snd_conv]
  have "fst ` set m = cl_id ` set olds" unfolding T(1) by (simp add: zip_map_fst_snd set_zip_leftD flip: set_map)
  then have m: "\<forall>old \<in> set olds. map_of m (cl_id old) \<noteq> None" by (simp add: map_of_eq_None_iff)
  have dist: "inj_on cl_id (set (db_claims d))" and below: "\<forall>c \<in> set (db_claims d). cl_id c < db_next d"
    using assms(1) by (simp_all add: store_inv_def claims_inv_def ids_below_def distinct_map)
  have inv2: "store_inv d2" by (rule store_inv_transfer_claims [OF assms(4,1)]) (simp add: assms(3) find_active_by_event_def)
  obtain d3 where d3: "rfold (supersede_transferred now t u nt (map_of m)) olds d2 = Inr d3" "store_inv d3"
    "db_claims d3 = row_update (\<lambda>c. cl_id c \<in> cl_id ` set olds \<and> is_active c)
        (\<lambda>c. supersede (the (map_of m (cl_id c))) c) (db_claims d2)"
    "db_conflicts d3 = db_conflicts d2 \<and> db_events d3 = db_events d2 \<and> db_outbox d3 = db_outbox d2
    \<and> db_projections d3 = db_projections d2 \<and> db_reviews d3 = db_reviews d2"
    using supersede_transferred_all [OF m inv2] by blast
  have old: "cl_id c \<in> cl_id ` set olds \<longleftrightarrow> cl_event_id c = s" if "c \<in> set (db_claims d)" "is_active c" for c
    using that dist by (auto simp: assms(3) find_active_by_event_def dest: inj_onD)
  have "row_update (\<lambda>c. cl_id c \<in> cl_id ` set olds \<and> is_active c) (\<lambda>c. supersede (the (map_of m (cl_id c))) c) (db_claims d) =
      row_update (\<lambda>c. cl_event_id c = s \<and> is_active c) (\<lambda>c. supersede (the (map_of m (cl_id c))) c) (db_claims d)"
    unfolding row_update_def using old by (intro map_cong) auto
  moreover have "row_update (\<lambda>c. cl_id c \<in> cl_id ` set olds \<and> is_active c) (\<lambda>c. supersede (the (map_of m (cl_id c))) c)
      (transfer_copies (db_next d) t olds) = transfer_copies (db_next d) t olds"
  proof (rule row_update_idle)
    fix c
    assume "c \<in> set (transfer_copies (db_next d) t olds)"
    then have "db_next d \<le> cl_id c" using transfer_copies_mem by blast
    then show "\<not> (cl_id c \<in> cl_id ` set olds \<and> is_active c)"
      using below by (auto simp: assms(3) find_active_by_event_def)
  qed
  ultimately show ?thesis using d3 T by (intro exI [of _ d3]) simp
qed

section \<open>The merge without interference\<close>

lemma fold_log_activity [simp]:
  "outside_conflicts (fold (\<lambda>k. log_activity now (f k) (e k) fs ts mt mi r (v k) sn) ks d) = outside_conflicts d"
  "db_conflicts (fold (\<lambda>k. log_activity now (f k) (e k) fs ts mt mi r (v k) sn) ks d) = db_conflicts d"
  by (induction ks arbitrary: d) simp_all

lemma row_update_mem:
  "c \<in> set (row_update p f rows) \<Longrightarrow> (\<exists>r. p r \<and> c = f r) \<or> \<not> p c"
  by (auto simp: set_row_update)

lemma row_update_mem_other:
  assumes "\<And>r. p r \<Longrightarrow> key r = k" and "\<And>r. key (f r) = key r" and "key c \<noteq> k"
  shows "c \<in> set (row_update p f rows) \<longleftrightarrow> c \<in> set rows"
proof -
  have "p r \<Longrightarrow> c \<noteq> f r \<and> c \<noteq> r" for r using assms by metis
  then show ?thesis by (induction rows) auto
qed

lemma tombstone_conflicts_effect:
  assumes "store_inv d"
  shows "store_inv (tombstone_conflicts now s t nt d)"
    and "outside_conflicts (tombstone_conflicts now s t nt d) = outside_conflicts d"
    and "c \<in> set (db_conflicts (tombstone_conflicts now s t nt d)) \<Longrightarrow> cc_event_id c = s \<Longrightarrow> cc_status c = RESOLVED"
    and "cc_event_id c \<noteq> s \<Longrightarrow>
      c \<in> set (db_conflicts (tombstone_conflicts now s t nt d)) \<longleftrightarrow> c \<in> set (db_conflicts d)"
proof -
  have "store_inv (fold (\<lambda>k. log_activity now (cc_id k) (cc_event_id k) (Some OPEN) RESOLVED SYSTEM None nt
      (cc_version k) sn) ks d')" if "store_inv d'" for ks d' sn
    by (rule fold_inv) (use that in \<open>auto intro: store_inv_log_activity\<close>)
  then show "store_inv (tombstone_conflicts now s t nt d)"
    unfolding tombstone_conflicts_def Let_def case_prod_beta
    using store_inv_close_event_conflicts [OF assms] by blast
  show "outside_conflicts (tombstone_conflicts now s t nt d) = outside_conflicts d"
    by (simp add: tombstone_conflicts_def case_prod_beta)
      (simp add: close_event_conflicts_as_merged_def outside_conflicts_def Let_def)
  define F where "F = (\<lambda>c :: claim_conflict. c\<lparr>cc_status := RESOLVED, cc_winning_claim_id := None,
      cc_resolved_at := Some now, cc_last_modified_reason := SYSTEM_AUTO_CLOSED,
      cc_last_modified_note := Some (take 255 nt), cc_updated_at := now, cc_version := cc_version c + 1\<rparr>)"
  have rows: "db_conflicts (tombstone_conflicts now s t nt d) =
      row_update (\<lambda>c. cc_event_id c = s \<and> cc_status c = OPEN) F (db_conflicts d)"
    and F: "\<And>c. cc_status (F c) = RESOLVED" "\<And>c. cc_event_id (F c) = cc_event_id c"
    by (simp_all add: F_def tombstone_conflicts_def close_event_conflicts_as_merged_def Let_def)
  show "cc_status c = RESOLVED"
    if "c \<in> set (db_conflicts (tombstone_conflicts now s t nt d))" "cc_event_id c = s"
    using row_update_mem [OF that(1) [unfolded rows]] F(1) that(2) by (cases "cc_status c") auto
  show "c \<in> set (db_conflicts (tombstone_conflicts now s t nt d)) \<longleftrightarrow> c \<in> set (db_conflicts d)"
    if "cc_event_id c \<noteq> s"
    unfolding rows by (rule row_update_mem_other [where key = cc_event_id, OF _ _ that]) (simp_all add: F)
qed

lemma close_review_frame:
  "close_review now s t rv u nt d = (r, d') \<Longrightarrow> d' = d\<lparr>db_reviews := db_reviews d'\<rparr>"
  by (auto simp: close_review_def reviews_update_status_def Let_def split: option.splits if_splits)

text \<open>The claim table after the merge of \<open>s\<close> into \<open>t\<close>.\<close>

definition moved_claims :: "uuid \<Rightarrow> uuid \<Rightarrow> db \<Rightarrow> claim list" where
  "moved_claims s t d =
     (let olds = find_active_by_event s d;
          copies = transfer_copies (db_next d) t olds;
          old_to_new = map_of (zip (map cl_id olds) (map cl_id copies))
      in row_update (\<lambda>c. cl_event_id c = s \<and> is_active c) (\<lambda>c. supersede (the (old_to_new (cl_id c))) c)
           (db_claims d) @ copies)"

lemma active_moved:
  assumes "db_claims d' = moved_claims s t d" and "s \<noteq> t"
  shows "find_active_by_event e d' =
    (if e = s then [] else if e = t then find_active_by_event t d @ transfer_copies (db_next d) t (find_active_by_event s d)
     else find_active_by_event e d)"
proof -
  let ?cs = "transfer_copies (db_next d) t (find_active_by_event s d)"
  have act: "cl_event_id c = t \<and> is_active c" if "c \<in> set ?cs" for c
    using transfer_copies_mem [OF that] by (auto simp: find_active_by_event_def)
  have copies: "filter (\<lambda>c. cl_event_id c = e \<and> is_active c) ?cs = (if e = t then ?cs else [])"
  proof (cases "e = t")
    case True
    then show ?thesis using act by (simp add: filter_id_conv)
  next
    case False
    then show ?thesis using act by (simp add: filter_empty_conv)
  qed
  have "find_active_by_event e d' = (if e = s then [] else find_active_by_event e d) @ (if e = t then ?cs else [])"
    unfolding find_active_by_event_def [of e d'] assms(1) moved_claims_def Let_def filter_append filter_superseded copies
    by (simp add: find_active_by_event_def [of e d])
  then show ?thesis using assms(2) by simp
qed

lemma absorb_quiet:
  assumes inv: "store_inv d" and st: "s \<noteq> t"
  shows "\<exists>r d'. absorb_event (\<lambda>_ d. d) now s t u nt rv d = Inr (r, d') \<and> store_inv d'
    \<and> mr_claims_transferred r = length (find_active_by_event s d)
    \<and> db_claims d' = moved_claims s t d \<and> db_events d' = db_events d
    \<and> (\<forall>c \<in> set (db_conflicts d'). cc_event_id c = s \<longrightarrow> cc_status c = RESOLVED)
    \<and> disputes_open t d'
    \<and> db_projections d' = filter (\<lambda>p. pr_event_id p \<noteq> s) (db_projections d)
    \<and> (\<exists>i. db_outbox d' = db_outbox d @
         [new_outbox_event now i CLAIMS_UPDATED t [(''event_id'', t), (''merged_from'', s)]])"
proof -
  let ?d1 = "merge_identity_index now s t d"
  let ?olds = "find_active_by_event s ?d1"
  have olds: "?olds = find_active_by_event s d" by (rule find_active_by_event_field_cong) simp
  have inv1: "store_inv ?d1" by (rule store_inv_merge_identity_index [OF inv])
  obtain m d2 where tr: "transfer_claims now s t u nt ?olds ?d1 = (m, d2)" by fastforce
  have m: "m = zip (map cl_id ?olds) (map cl_id (transfer_copies (db_next ?d1) t ?olds))"
    using transfer_claims_frame(1) [of now s t u nt ?olds ?d1] tr by simp
  obtain d3 where d3: "rfold (supersede_transferred now t u nt (map_of m)) ?olds d2 = Inr d3" "store_inv d3"
    "db_claims d3 = row_update (\<lambda>c. cl_event_id c = s \<and> is_active c)
        (\<lambda>c. supersede (the (map_of m (cl_id c))) c) (db_claims ?d1) @ transfer_copies (db_next ?d1) t ?olds"
    "db_conflicts d3 = db_conflicts ?d1" "db_events d3 = db_events ?d1" "db_outbox d3 = db_outbox ?d1"
    "db_projections d3 = db_projections ?d1"
    using move_claims [OF inv1 st refl tr] by blast
  have cl3: "db_claims d3 = moved_claims s t d" unfolding d3(3) m moved_claims_def Let_def by (simp add: olds)
  define tn where "tn = ''Event merged into '' @ str_uuid t @ '' by '' @ str_uuid u @ colon_note nt"
  note tomb = tombstone_conflicts_effect [OF d3(2), where now = now and s = s and t = t and nt = tn]
  let ?dt = "tombstone_conflicts now s t tn d3"
  have clt: "db_claims ?dt = moved_claims s t d" using outside_conflictsD(1) [OF tomb(2)] cl3 by simp
  obtain d4 where d4: "detect_and_apply_new_conflicts (\<lambda>_ d. d) now t u USER ?dt = Inr d4" "store_inv d4"
    "db_claims d4 = db_claims ?dt"
    and disp: "\<forall>f. cross_source_dispute t f ?dt \<longrightarrow>
         (\<exists>c \<in> set (db_conflicts d4). cc_status c = OPEN \<and> cc_event_id c = t \<and> cc_field_name c = f
            \<and> (\<forall>x \<in> set (find_active_by_event_field t f ?dt). (cc_id c, cl_id x) \<in> set (db_conflict_claims d4)))"
    and rest: "\<forall>c. cc_event_id c \<noteq> t \<or> \<not> cross_source_dispute t (cc_field_name c) ?dt \<longrightarrow>
         (c \<in> set (db_conflicts d4)) = (c \<in> set (db_conflicts ?dt))"
    using detect_and_apply_effect [OF tomb(1), of now t u USER] by blast
  note out4 = outside_conflictsD [OF detect_and_apply_outside [OF d4(1)]] outside_conflictsD [OF tomb(2)]
  have "disputes_open t d4"
    unfolding disputes_open_def using disp find_active_by_event_field_cong [OF d4(3)] by simp
  define d6 where "d6 = projections_delete s (outbox_add (new_outbox_event now (fst (uuid4 d4)) CLAIMS_UPDATED t
      [(''event_id'', t), (''merged_from'', s)]) (snd (uuid4 d4)))"
  obtain ri d7 where cr: "close_review now s t rv u nt d6 = (ri, d7)" by fastforce
  note d7 = close_review_frame [OF cr]
  have same: "db_claims d7 = db_claims d4" "db_conflicts d7 = db_conflicts d4" "db_conflict_claims d7 = db_conflict_claims d4"
    "db_events d7 = db_events d4" "db_projections d7 = filter (\<lambda>p. pr_event_id p \<noteq> s) (db_projections d4)"
    "db_outbox d7 = db_outbox d4 @ [new_outbox_event now (db_next d4) CLAIMS_UPDATED t [(''event_id'', t), (''merged_from'', s)]]"
    by (subst d7, simp add: d6_def projections_delete_def outbox_add_def)+
  have inv6: "store_inv d6" unfolding d6_def
    by (rule store_inv_projections_delete) (use store_inv_uuid4 [OF d4(2)] in \<open>simp add: store_inv_def outbox_add_def\<close>)
  have "store_inv d7" by (subst d7) (use inv6 in \<open>simp add: store_inv_def\<close>)
  moreover have "disputes_open t d7"
    using \<open>disputes_open t d4\<close> find_active_by_event_field_cong [OF same(1)] same(2,3) by (simp add: disputes_open_def)
  moreover have "\<forall>c \<in> set (db_conflicts d7). cc_event_id c = s \<longrightarrow> cc_status c = RESOLVED"
    using rest tomb(3) st same(2) by auto
  moreover define r where "r = \<lparr>mr_target_event_id = t, mr_source_event_id = s,
      mr_claims_transferred = length ?olds, mr_review_id = ri\<rparr>"
  have "absorb_event (\<lambda>_ d. d) now s t u nt rv d = Inr (r, d7)"
    unfolding absorb_event_def Let_def tr prod.case d3(1) rbind.simps tn_def [symmetric] d4(1) d6_def [symmetric] cr r_def ..
  moreover have "mr_claims_transferred r = length (find_active_by_event s d)" by (simp add: r_def olds)
  moreover have "db_claims d7 = moved_claims s t d" using same(1) d4(3) clt by simp
  moreover have "db_events d7 = db_events d" using same(4) out4 d3(5) by simp
  moreover have "db_projections d7 = filter (\<lambda>p. pr_event_id p \<noteq> s) (db_projections d)"
    using same(5) out4 d3(7) by simp
  moreover have "db_outbox d7 = db_outbox d @
      [new_outbox_event now (db_next d4) CLAIMS_UPDATED t [(''event_id'', t), (''merged_from'', s)]]"
    using same(6) out4 d3(6) by simp
  ultimately show ?thesis by blast
qed

text \<open>The refusals of the merge, in the order the code checks them.\<close>

definition merge_guard :: "uuid \<Rightarrow> uuid \<Rightarrow> db \<Rightarrow> atlas_error option" where
  "merge_guard s t d =
     (if s = t then Some (CannotMergeIntoSelfError s)
      else case events_get s d of
          None \<Rightarrow> Some (EventNotFoundError s)
        | Some a \<Rightarrow>
            (case events_get t d of
               None \<Rightarrow> Some (EventNotFoundError t)
             | Some b \<Rightarrow>
                 if is_merged a then Some (EventAlreadyMergedError s)
                 else if is_merged b then Some (EventAlreadyMergedError t)
                 else None))"

lemma lock_events_quiet:
  "\<forall>i \<in> set is. events_get i d \<noteq> None \<Longrightarrow>
     lock_events (\<lambda>_ d. d) is d = Inr (map (\<lambda>i. (i, the (events_get i d))) is, d)"
  by (induction "is") auto

lemma merge_quiet:
  "merge_duplicate_events (\<lambda>_ d. d) env now s t u nt rv d =
     (case merge_guard s t d of
        Some e \<Rightarrow> Inl e
      | None \<Rightarrow> absorb_event env now s t u nt rv (snd (try_atomic_merge s t d)))"
proof (cases "s = t \<or> events_get s d = None \<or> events_get t d = None")
  case True
  then show ?thesis by (auto simp: merge_duplicate_events_def merge_guard_def split: option.splits)
next
  case False
  then obtain a b where e: "events_get s d = Some a" "events_get t d = Some b" and st: "s \<noteq> t" by auto
  let ?l = "map (\<lambda>i. (i, the (events_get i d))) (sort [s, t])"
  have lock: "lock_events (\<lambda>_ d. d) (sort [s, t]) d = Inr (?l, d)"
    by (rule lock_events_quiet) (use e in auto)
  have l: "map_of ?l s = Some a" "map_of ?l t = Some b" using e st by (auto simp: map_of_map_restrict)
  have claimed: "fst (try_atomic_merge s t d)" if "\<not> is_merged a"
    using that row_get_SomeD [of ev_id s "db_events d" a] e(1)
    by (auto simp: try_atomic_merge_def is_merged_def list_ex_iff events_get_def Let_def)
  show ?thesis
    unfolding merge_duplicate_events_def lock rbind.simps prod.case l option.case
    using e st claimed by (simp add: merge_guard_def case_prod_beta)
qed

lemma try_atomic_merge_frame [simp]:
  "db_claims (snd (try_atomic_merge s t d)) = db_claims d" "db_next (snd (try_atomic_merge s t d)) = db_next d"
  "db_projections (snd (try_atomic_merge s t d)) = db_projections d"
  "db_outbox (snd (try_atomic_merge s t d)) = db_outbox d"
  "store_inv (snd (try_atomic_merge s t d)) = store_inv d"
  by (simp_all add: try_atomic_merge_def Let_def store_inv_def)

lemma merge_quiet_effect:
  assumes "store_inv d" and "merge_guard s t d = None"
  shows "\<exists>r d'. merge_duplicate_events (\<lambda>_ d. d) (\<lambda>_ d. d) now s t u nt rv d = Inr (r, d') \<and> store_inv d'
    \<and> mr_claims_transferred r = length (find_active_by_event s d)
    \<and> db_claims d' = moved_claims s t d \<and> db_events d' = db_events (snd (try_atomic_merge s t d))
    \<and> (\<forall>c \<in> set (db_conflicts d'). cc_event_id c = s \<longrightarrow> cc_status c = RESOLVED)
    \<and> disputes_open t d'
    \<and> db_projections d' = filter (\<lambda>p. pr_event_id p \<noteq> s) (db_projections d)
    \<and> (\<exists>i. db_outbox d' = db_outbox d @
         [new_outbox_event now i CLAIMS_UPDATED t [(''event_id'', t), (''merged_from'', s)]])"
proof -
  let ?d = "snd (try_atomic_merge s t d)"
  have st: "s \<noteq> t" using assms(2) by (auto simp: merge_guard_def)
  have a: "find_active_by_event e ?d = find_active_by_event e d" for e
    by (rule find_active_by_event_field_cong) simp
  have m: "moved_claims s t ?d = moved_claims s t d" by (simp add: moved_claims_def a)
  have "store_inv ?d" using assms(1) by simp
  from absorb_quiet [OF this st, of now u nt rv] show ?thesis
    unfolding merge_quiet assms(2) option.case a m try_atomic_merge_frame .
qed

text \<open>Each claim of the absorbed event is superseded by its own copy.\<close>

lemma moved_copy:
  assumes "store_inv d" and "db_claims d' = moved_claims s t d" and "c \<in> set (find_active_by_event s d)"
  shows "\<exists>n \<in> set (transfer_copies (db_next d) t (find_active_by_event s d)).
    claim_content n = claim_content c \<and> supersede (cl_id n) c \<in> set (db_claims d')"
proof -
  let ?olds = "find_active_by_event s d"
  let ?new = "transfer_copies (db_next d) t ?olds"
  let ?m = "map_of (zip (map cl_id ?olds) (map cl_id ?new))"
  obtain k where k: "k < length ?olds" "c = ?olds ! k" using assms(3) by (auto simp: in_set_conv_nth)
  have "distinct (map cl_id ?olds)"
    using assms(1) by (auto simp: find_active_by_event_def store_inv_def claims_inv_def ids_below_def distinct_map_filter)
  then have "?m (map cl_id ?olds ! k) = Some (map cl_id ?new ! k)"
    using k(1) by (intro map_of_zip_nth) simp_all
  then have m: "?m (cl_id c) = Some (cl_id (?new ! k))" using k by simp
  have "claim_content (?new ! k) = map claim_content ?new ! k" using k(1) by (simp del: transfer_copies_simps(2))
  then have content: "claim_content (?new ! k) = claim_content c" using k by (simp only: transfer_copies_simps nth_map)
  have "c \<in> set (db_claims d)" "cl_event_id c = s \<and> is_active c" using assms(3) by (simp_all add: find_active_by_event_def)
  then have "supersede (the (?m (cl_id c))) c \<in> set (row_update (\<lambda>c. cl_event_id c = s \<and> is_active c)
      (\<lambda>c. supersede (the (?m (cl_id c))) c) (db_claims d))"
    by (auto simp: set_row_update)
  then have "supersede (cl_id (?new ! k)) c \<in> set (db_claims d')"
    unfolding assms(2) moved_claims_def Let_def set_append m option.sel by (rule UnI1)
  then show ?thesis using content k(1) by (intro bexI [of _ "?new ! k"]) simp_all
qed

text \<open>Two events with one claim each, which disagree, and a pending review of the pair.\<close>

definition merge_db :: db where
  "merge_db = empty_db\<lparr>db_events := [merge_event 1 None, merge_event 2 None],
     db_claims := [sample_claim 5 1 ''operator'' (JBool True) RAW,
                   (sample_claim 6 2 ''operator'' (JBool False) RAW)\<lparr>cl_event_id := 2\<rparr>],
     db_reviews := [\<lparr>rv_id = 8, rv_event_id_a = 1, rv_event_id_b = 2, rv_status = REVIEW_PENDING,
       rv_match_score = 1, rv_matched_fields = [], rv_created_at = 0, rv_resolved_at = None,
       rv_resolved_by = None, rv_resolution_note = None\<rparr>]\<rparr>"

lemma merge_db_inv: "store_inv merge_db"
  by (simp add: merge_db_def empty_db_def sample_claim_def store_inv_def claims_inv_def conflicts_inv_def
      ids_below_def claim_ok_def open_unique_def contiguous_log_def activity_of_def)

lemma merge_db_guard: "merge_guard 2 1 merge_db = None"
  by (simp add: merge_guard_def events_get_def merge_db_def is_merged_def)

lemma merge_db_active:
  "find_active_by_event 2 merge_db = [(sample_claim 6 2 ''operator'' (JBool False) RAW)\<lparr>cl_event_id := 2\<rparr>]"
  "find_active_by_event 1 merge_db = [sample_claim 5 1 ''operator'' (JBool True) RAW]"
  by (simp_all add: find_active_by_event_def merge_db_def sample_claim_def is_active_iff)

text \<open>C21: A merge transfers the evidence exactly: if both events exist, are different and neither is merged, a
  merge during which no other transaction writes succeeds, whatever the claims say; afterwards the absorbed event has no active claim, the target has its former
  active claims followed by one copy of each active claim of the absorbed event with the same
  source, snapshot, field, value, type, author and time, each original claim is kept and marked
  as superseded by its own copy, and the active claims of every other event are untouched.\<close>

theorem merge_transfers_claims:
  assumes "store_inv d" and "merge_guard s t d = None"
  shows "\<exists>r d'. merge_duplicate_events (\<lambda>_ d. d) (\<lambda>_ d. d) now s t u nt rv d = Inr (r, d') \<and> store_inv d'
    \<and> mr_claims_transferred r = length (find_active_by_event s d)
    \<and> find_active_by_event s d' = []
    \<and> map claim_content (find_active_by_event t d') =
        map claim_content (find_active_by_event t d) @ map claim_content (find_active_by_event s d)
    \<and> (\<forall>c \<in> set (find_active_by_event s d). \<exists>n \<in> set (find_active_by_event t d').
         claim_content n = claim_content c \<and> supersede (cl_id n) c \<in> set (db_claims d'))
    \<and> (\<forall>e. e \<noteq> s \<longrightarrow> e \<noteq> t \<longrightarrow> find_active_by_event e d' = find_active_by_event e d)"
proof -
  have st: "s \<noteq> t" using assms(2) by (auto simp: merge_guard_def)
  obtain r d' where m: "merge_duplicate_events (\<lambda>_ d. d) (\<lambda>_ d. d) now s t u nt rv d = Inr (r, d')" "store_inv d'"
    "mr_claims_transferred r = length (find_active_by_event s d)" "db_claims d' = moved_claims s t d"
    using merge_quiet_effect [OF assms] by blast
  note act = active_moved [OF m(4) st]
  have t: "find_active_by_event t d' = find_active_by_event t d @ transfer_copies (db_next d) t (find_active_by_event s d)"
    unfolding act [of t] using st by simp
  have "\<forall>c \<in> set (find_active_by_event s d). \<exists>n \<in> set (find_active_by_event t d').
      claim_content n = claim_content c \<and> supersede (cl_id n) c \<in> set (db_claims d')"
    using moved_copy [OF assms(1) m(4)] unfolding t set_append by blast
  moreover have "find_active_by_event s d' = []" unfolding act [of s] by simp
  moreover have "find_active_by_event e d' = find_active_by_event e d" if "e \<noteq> s" "e \<noteq> t" for e
    unfolding act [of e] using that by simp
  moreover have "map claim_content (find_active_by_event t d') =
      map claim_content (find_active_by_event t d) @ map claim_content (find_active_by_event s d)"
    unfolding t by simp
  ultimately show ?thesis using m(1-3) by blast
qed

theorem merge_transfers_claims_witness:
  "\<exists>r d'. merge_duplicate_events (\<lambda>_ d. d) (\<lambda>_ d. d) 10 2 1 7 [] None merge_db = Inr (r, d')
     \<and> mr_claims_transferred r = 1 \<and> find_active_by_event 2 d' = []"
proof -
  obtain r d' where "merge_duplicate_events (\<lambda>_ d. d) (\<lambda>_ d. d) 10 2 1 7 [] None merge_db = Inr (r, d')"
    "mr_claims_transferred r = length (find_active_by_event 2 merge_db)" "find_active_by_event 2 d' = []"
    using merge_transfers_claims [OF merge_db_inv merge_db_guard] by blast
  then show ?thesis by (simp add: merge_db_active)
qed

text \<open>A merge leaves nothing open behind: after it the source event points to the target, all
  other events are unchanged, no conflict of the absorbed event is open, every disagreement among
  the united claims of the target is an open conflict linked to all the claims of its field, the
  projection of the absorbed event is gone and a pending outbox event asks for the reprojection of
  the target.\<close>

theorem merge_settles_events:
  assumes "store_inv d" and "merge_guard s t d = None"
  shows "\<exists>r d'. merge_duplicate_events (\<lambda>_ d. d) (\<lambda>_ d. d) now s t u nt rv d = Inr (r, d')
    \<and> map_option ev_merged_into_event_id (events_get s d') = Some (Some t)
    \<and> (\<forall>e. e \<noteq> s \<longrightarrow> events_get e d' = events_get e d)
    \<and> (\<forall>c \<in> set (db_conflicts d'). cc_event_id c = s \<longrightarrow> cc_status c = RESOLVED)
    \<and> disputes_open t d' \<and> projections_get s d' = None
    \<and> (\<exists>o' \<in> set (db_outbox d'). ob_event_type o' = CLAIMS_UPDATED \<and> ob_aggregate_id o' = t \<and> ob_status o' = PENDING)"
proof -
  obtain r d' i where m: "merge_duplicate_events (\<lambda>_ d. d) (\<lambda>_ d. d) now s t u nt rv d = Inr (r, d')"
    "db_events d' = db_events (snd (try_atomic_merge s t d))"
    "\<forall>c \<in> set (db_conflicts d'). cc_event_id c = s \<longrightarrow> cc_status c = RESOLVED" "disputes_open t d'"
    "db_projections d' = filter (\<lambda>p. pr_event_id p \<noteq> s) (db_projections d)"
    "db_outbox d' = db_outbox d @ [new_outbox_event now i CLAIMS_UPDATED t [(''event_id'', t), (''merged_from'', s)]]"
    using merge_quiet_effect [OF assms] by blast
  let ?hit = "\<lambda>e. ev_id e = s \<and> ev_merged_into_event_id e = None"
  have get: "events_get e d' = map_option (\<lambda>x. if ?hit x then x\<lparr>ev_merged_into_event_id := Some t\<rparr> else x) (events_get e d)" for e
    unfolding events_get_def m(2) try_atomic_merge_def Let_def snd_conv
    by (simp add: row_get_update)
  obtain a where a: "events_get s d = Some a" "ev_merged_into_event_id a = None" "ev_id a = s"
    using assms(2) row_get_SomeD [of ev_id s "db_events d"]
    by (auto simp: merge_guard_def is_merged_def events_get_def split: if_splits option.splits)
  have "map_option ev_merged_into_event_id (events_get s d') = Some (Some t)" unfolding get a(1) using a(2,3) by simp
  moreover have "events_get e d' = events_get e d" if "e \<noteq> s" for e
    unfolding get using that row_get_SomeD [of ev_id e "db_events d"] by (cases "events_get e d") (auto simp: events_get_def)
  moreover have "projections_get s d' = None" unfolding projections_get_def m(5) row_get_None_iff by auto
  moreover have "\<exists>o' \<in> set (db_outbox d'). ob_event_type o' = CLAIMS_UPDATED \<and> ob_aggregate_id o' = t \<and> ob_status o' = PENDING"
    unfolding m(6) by (simp add: new_outbox_event_def)
  ultimately show ?thesis using m(1,3,4) by blast
qed

theorem merge_settles_events_witness:
  "\<exists>r d'. merge_duplicate_events (\<lambda>_ d. d) (\<lambda>_ d. d) 10 2 1 7 [] None merge_db = Inr (r, d')
     \<and> map_option ev_merged_into_event_id (events_get 2 d') = Some (Some 1) \<and> disputes_open 1 d'"
  using merge_settles_events [OF merge_db_inv merge_db_guard] by blast

text \<open>The refusals are exact: without interference the merge fails with an error exactly when
  the two identifiers are equal, an event is missing or an event is already merged, and the error
  names the first of these that applies.\<close>

theorem merge_refused_iff:
  assumes "store_inv d"
  shows "merge_duplicate_events (\<lambda>_ d. d) (\<lambda>_ d. d) now s t u nt rv d = Inl e \<longleftrightarrow> merge_guard s t d = Some e"
proof (cases "merge_guard s t d")
  case None
  then show ?thesis using merge_quiet_effect [OF assms None, of now u nt rv] by auto
next
  case (Some x)
  then show ?thesis by (auto simp: merge_quiet)
qed

theorem merge_refused_iff_witness:
  "merge_duplicate_events (\<lambda>_ d. d) (\<lambda>_ d. d) 10 2 3 7 [] None merge_db = Inl (EventNotFoundError 3)"
proof -
  have "merge_guard 2 3 merge_db = Some (EventNotFoundError 3)"
    by (simp add: merge_guard_def events_get_def merge_db_def)
  then show ?thesis using merge_refused_iff [OF merge_db_inv] by blast
qed

section \<open>Merge pointers under interference\<close>

lemma merge_links_mark:
  assumes "a \<in> set rows" and "ev_id a = s" and "ev_merged_into_event_id a = None"
  shows "merge_links (row_update (\<lambda>e. ev_id e = s \<and> ev_merged_into_event_id e = None)
      (\<lambda>e. e\<lparr>ev_merged_into_event_id := Some t\<rparr>) rows) = insert (s, t) (merge_links rows)"
    (is "merge_links (?mark rows) = _")
proof -
  have "merge_links (?mark xs) = (if \<exists>e \<in> set xs. ev_id e = s \<and> ev_merged_into_event_id e = None then {(s, t)} else {})
      \<union> merge_links xs" for xs
    by (induction xs) (auto split: option.split)
  moreover have "\<exists>e \<in> set rows. ev_id e = s \<and> ev_merged_into_event_id e = None" using assms by blast
  ultimately show ?thesis by simp
qed

text \<open>Marking an unmerged event as merged into another unmerged event keeps the forest.\<close>

lemma merge_forest_mark:
  assumes "merge_forest rows" and "s \<noteq> t"
    and "row_get ev_id s rows = Some a" and "ev_merged_into_event_id a = None"
    and "row_get ev_id t rows = Some b" and "ev_merged_into_event_id b = None"
  shows "merge_forest (row_update (\<lambda>e. ev_id e = s \<and> ev_merged_into_event_id e = None)
      (\<lambda>e. e\<lparr>ev_merged_into_event_id := Some t\<rparr>) rows)" (is "merge_forest ?rows")
proof -
  have a: "a \<in> set rows" "ev_id a = s" and b: "b \<in> set rows" "ev_id b = t"
    using row_get_SomeD [OF assms(3)] row_get_SomeD [OF assms(5)] by simp_all
  have dist: "distinct (map ev_id rows)" using assms(1) by (simp add: merge_forest_def)
  have ids: "map ev_id ?rows = map ev_id rows" by (rule map_row_update) simp
  then have set_ids: "ev_id ` set ?rows = ev_id ` set rows" by (metis list.set_map)
  have "(t, s) \<notin> (merge_links rows)\<^sup>*"
  proof
    assume "(t, s) \<in> (merge_links rows)\<^sup>*"
    then obtain y where "(t, y) \<in> merge_links rows" using assms(2) by (blast elim: converse_rtranclE)
    then show False using root_no_link [OF dist b(1) assms(6)] b(2) by simp
  qed
  then have "acyclic (insert (s, t) (merge_links rows))"
    using assms(1) by (simp add: merge_forest_def acyclic_insert)
  moreover have "t \<in> ev_id ` set rows" using b by blast
  ultimately show ?thesis
    using assms(1) ids set_ids merge_links_mark [OF a assms(4)] unfolding merge_forest_def by simp
qed

lemma supersede_transferred_events:
  "supersede_transferred now t u nt m old d = Inr d' \<Longrightarrow> db_events d' = db_events d"
  by (auto simp: supersede_transferred_def split: option.splits)

lemma absorb_keeps_forest:
  assumes "absorb_event env now s t u nt rv d = Inr (r, d')" and "merge_forest (db_events d)"
    and "\<And>k d. merge_forest (db_events d) \<Longrightarrow> merge_forest (db_events (env k d))"
  shows "merge_forest (db_events d')"
proof -
  let ?d1 = "merge_identity_index now s t d"
  let ?olds = "find_active_by_event s ?d1"
  obtain m d2 where tr: "transfer_claims now s t u nt ?olds ?d1 = (m, d2)" by fastforce
  define tn where "tn = ''Event merged into '' @ str_uuid t @ '' by '' @ str_uuid u @ colon_note nt"
  obtain d3 d4 where d3: "rfold (supersede_transferred now t u nt (map_of m)) ?olds d2 = Inr d3"
    and d4: "detect_and_apply_new_conflicts env now t u USER (tombstone_conflicts now s t tn d3) = Inr d4"
    and d': "d' = snd (close_review now s t rv u nt (projections_delete s (outbox_add (new_outbox_event now (fst (uuid4 d4))
        CLAIMS_UPDATED t [(''event_id'', t), (''merged_from'', s)]) (snd (uuid4 d4)))))"
    using assms(1) unfolding absorb_event_def Let_def tr prod.case tn_def [symmetric] rbind_Inr_iff case_prod_beta
    by auto
  have "db_events d2 = db_events d" using transfer_claims_frame(4) [of now s t u nt ?olds ?d1] tr by simp
  then have "db_events d3 = db_events d"
    using rfold_invariant [where P = "\<lambda>x. db_events x = db_events d", OF d3] supersede_transferred_events by metis
  moreover have "db_events (tombstone_conflicts now s t tn d3) = db_events d3"
    by (simp add: tombstone_conflicts_def case_prod_beta outside_conflictsD(2) [OF fold_log_activity(1)])
      (simp add: close_event_conflicts_as_merged_def Let_def)
  moreover have "env_keeps (\<lambda>x. merge_forest (fst (snd x))) env"
    using assms(3) by (simp add: env_keeps_def outside_conflicts_def)
  ultimately have "merge_forest (db_events d4)"
    using outside_detect_and_apply [OF _ d4, where P = "\<lambda>x. merge_forest (fst (snd x))"] assms(2)
    by (simp add: outside_conflicts_def)
  moreover have "db_events (snd (close_review now s t rv u nt x)) = db_events x" for x
    using close_review_frame [of now s t rv u nt x] by (metis db.select_convs(2) db.update_convs(12) db.surjective prod.collapse)
  ultimately show ?thesis unfolding d' by (simp add: projections_delete_def outbox_add_def)
qed

text \<open>The two rows as read under their locks, when the first lock protects its row while the second
  is awaited.\<close>

lemma lock_events_both:
  assumes "lock_events lock_env (sort [s, t]) d = Inr (locked, d1)" and "s \<noteq> t"
    and "events_get (min s t) (lock_env (max s t) (lock_env (min s t) d)) = events_get (min s t) (lock_env (min s t) d)"
  shows "d1 = lock_env (max s t) (lock_env (min s t) d)"
    and "map_of locked s = events_get s d1" and "map_of locked t = events_get t d1"
proof -
  have sort: "sort [s, t] = [min s t, max s t]" by (auto simp: min_def max_def)
  have "d1 = lock_env (max s t) (lock_env (min s t) d) \<and> (\<exists>a b. locked = [(min s t, a), (max s t, b)]
      \<and> events_get (min s t) (lock_env (min s t) d) = Some a \<and> events_get (max s t) d1 = Some b)"
    using assms(1) unfolding sort by (auto split: option.splits)
  then obtain a b where *: "d1 = lock_env (max s t) (lock_env (min s t) d)" "locked = [(min s t, a), (max s t, b)]"
    "events_get (min s t) d1 = Some a" "events_get (max s t) d1 = Some b"
    using assms(3) by auto
  show "d1 = lock_env (max s t) (lock_env (min s t) d)" by (rule *(1))
  show "map_of locked s = events_get s d1" "map_of locked t = events_get t d1"
    using *(2-4) assms(2) by (auto simp: min_def max_def split: if_splits)
qed

text \<open>C22: Merge pointers stay a forest under concurrency: if the other transactions keep the
  pointers a forest and do not change a row this merge holds locked, then whatever they commit
  while the merge waits for its locks or retries, a merge that succeeds leaves a forest, so no
  chain of pointers ever becomes a cycle.\<close>

theorem merge_keeps_forest:
  assumes "merge_duplicate_events lock_env env now s t u nt rv d = Inr (r, d')"
    and "merge_forest (db_events d)"
    and "\<And>i d. merge_forest (db_events d) \<Longrightarrow> merge_forest (db_events (lock_env i d))"
    and "\<And>k d. merge_forest (db_events d) \<Longrightarrow> merge_forest (db_events (env k d))"
    and "events_get (min s t) (lock_env (max s t) (lock_env (min s t) d)) = events_get (min s t) (lock_env (min s t) d)"
  shows "merge_forest (db_events d')"
proof -
  have st: "s \<noteq> t" using assms(1) by (auto simp: merge_duplicate_events_def)
  obtain locked d1 where lk: "lock_events lock_env (sort [s, t]) d = Inr (locked, d1)"
    using assms(1) by (auto simp: merge_duplicate_events_def split: if_splits)
  note L = lock_events_both [OF lk st assms(5)]
  obtain a b d2 where a: "events_get s d1 = Some a" "\<not> is_merged a" and b: "events_get t d1 = Some b" "\<not> is_merged b"
    and d2: "try_atomic_merge s t d1 = (True, d2)" "absorb_event env now s t u nt rv d2 = Inr (r, d')"
    using assms(1) unfolding merge_duplicate_events_def lk rbind.simps prod.case L(2,3)
    by (auto split: if_splits option.splits prod.splits)
  have "merge_forest (db_events d1)" unfolding L(1) by (intro assms(2,3))
  then have "merge_forest (row_update (\<lambda>e. ev_id e = s \<and> ev_merged_into_event_id e = None)
      (\<lambda>e. e\<lparr>ev_merged_into_event_id := Some t\<rparr>) (db_events d1))"
    by (rule merge_forest_mark [OF _ st, of _ a b]) (use a b in \<open>simp_all add: events_get_def is_merged_def\<close>)
  then have "merge_forest (db_events d2)" using d2(1) by (auto simp: try_atomic_merge_def Let_def)
  then show ?thesis by (rule absorb_keeps_forest [OF d2(2) _ assms(4)])
qed

theorem merge_keeps_forest_witness:
  "\<exists>r d'. merge_duplicate_events (\<lambda>_ d. d) (\<lambda>_ d. d) 10 2 1 7 [] None merge_db = Inr (r, d')
     \<and> merge_forest (db_events d')"
proof -
  obtain r d' where m: "merge_duplicate_events (\<lambda>_ d. d) (\<lambda>_ d. d) 10 2 1 7 [] None merge_db = Inr (r, d')"
    using merge_quiet_effect [OF merge_db_inv merge_db_guard] by blast
  have "merge_forest (db_events merge_db)" by (simp add: merge_forest_def merge_db_def acyclic_def)
  from merge_keeps_forest [OF m this] m show ?thesis by blast
qed

section \<open>Reviews are decided once\<close>

lemma reviews_update_status_get:
  "reviews_get i (snd (reviews_update_status now i st by nt d)) = Some r \<Longrightarrow> rv_status r = st"
  by (auto simp: reviews_get_def reviews_update_status_def Let_def row_get_update review_decided_def
      dest: row_get_SomeD)

lemma merge_closes_review:
  assumes "merge_duplicate_events lock_env env now s t u nt (Some i) d = Inr (r, d')"
  shows "reviews_get i d' = Some rv \<Longrightarrow> rv_status rv = MERGED"
    and "mr_source_event_id r = s" and "mr_target_event_id r = t"
proof -
  obtain d2 where "absorb_event env now s t u nt (Some i) d2 = Inr (r, d')"
    using assms by (auto simp: merge_duplicate_events_def case_prod_beta split: if_splits option.splits)
  then have "(\<exists>x. d' = snd (close_review now s t (Some i) u nt x)) \<and> mr_source_event_id r = s \<and> mr_target_event_id r = t"
    unfolding absorb_event_def Let_def case_prod_beta by auto
  then show "reviews_get i d' = Some rv \<Longrightarrow> rv_status rv = MERGED" "mr_source_event_id r = s" "mr_target_event_id r = t"
    by (auto simp: close_review_def Let_def dest: reviews_update_status_get)
qed

text \<open>A duplicate review is decided once: when a decision on a pending review succeeds, a merge
  joins exactly the two events of the review in the chosen direction (by default the newcomer
  \<open>b\<close> into \<open>a\<close>), and every later decision on the same review, with whatever action, user and
  interference, is refused.\<close>

theorem review_decided_once:
  assumes "review_duplicate lock_env env now i action u nt src d = Inr (res, d')"
    and "reviews_get i d = Some rv"
  shows "(case res of
       None \<Rightarrow> py_upper action = ''REJECT''
     | Some r \<Rightarrow> py_upper action = ''CONFIRM''
         \<and> {mr_source_event_id r, mr_target_event_id r} = {rv_event_id_a rv, rv_event_id_b rv}
         \<and> mr_source_event_id r = (case src of Some s \<Rightarrow> s | None \<Rightarrow> rv_event_id_b rv))
    \<and> review_duplicate lock_env' env' now' i action' u' nt' src' d'
        \<in> {Inl (ReviewAlreadyResolvedError i), Inl (ReviewNotFoundError i)}"
proof -
  have pend: "rv_status rv = REVIEW_PENDING" using assms by (auto simp: review_duplicate_def split: if_splits)
  have done': "review_duplicate lock_env' env' now' i action' u' nt' src' d'
      \<in> {Inl (ReviewAlreadyResolvedError i), Inl (ReviewNotFoundError i)}"
    if "\<And>x. reviews_get i d' = Some x \<Longrightarrow> rv_status x \<noteq> REVIEW_PENDING"
    using that by (auto simp: review_duplicate_def split: option.split)
  consider (confirm) "py_upper action = ''CONFIRM''" | (reject) "py_upper action \<noteq> ''CONFIRM''" "py_upper action = ''REJECT''"
    using assms pend by (auto simp: review_duplicate_def split: if_splits)
  then show ?thesis
  proof cases
    case confirm
    then obtain s t r where m: "merge_duplicate_events lock_env env now s t u
        (or_default nt ''Confirmed duplicate via review'') (Some i) d = Inr (r, d')" "res = Some r"
      and dir: "s = (case src of Some x \<Rightarrow> x | None \<Rightarrow> rv_event_id_b rv)" "{s, t} = {rv_event_id_a rv, rv_event_id_b rv}"
      using assms pend
      by (auto simp: review_duplicate_def insert_commute split: option.splits if_splits)
    note M = merge_closes_review [OF m(1)]
    then show ?thesis using confirm m(2) dir done' by auto
  next
    case reject
    then have "res = None" "d' = snd (reviews_update_status now i REJECTED (Some u) (Some (take 500 (or_default nt ''Not a duplicate''))) d)"
      using assms pend by (simp_all add: review_duplicate_def)
    then show ?thesis using reject done' reviews_update_status_get by auto
  qed
qed

theorem review_decided_once_witness:
  "\<exists>d'. review_duplicate (\<lambda>_ d. d) (\<lambda>_ d. d) 10 8 ''reject'' 7 [] None merge_db = Inr (None, d')
     \<and> review_duplicate (\<lambda>_ d. d) (\<lambda>_ d. d) 11 8 ''CONFIRM'' 7 [] None d'
         \<in> {Inl (ReviewAlreadyResolvedError 8), Inl (ReviewNotFoundError 8)}"
proof -
  obtain rv where rv: "reviews_get 8 merge_db = Some rv" "rv_status rv = REVIEW_PENDING"
    by (simp add: reviews_get_def merge_db_def)
  have "py_upper ''reject'' = ''REJECT''" by code_simp
  then obtain d' where d': "review_duplicate (\<lambda>_ d. d) (\<lambda>_ d. d) 10 8 ''reject'' 7 [] None merge_db = Inr (None, d')"
    using rv by (simp add: review_duplicate_def)
  show ?thesis using review_decided_once [OF d' rv(1)] d' by blast
qed

end
