(* ===== verification/Claim_Writer.thy ===== *)
theory Claim_Writer
  imports Reconciler
begin

text \<open>
  \<open>ClaimWriter\<close> (\<open>application/ingestion/_claim_writer.py\<close>) below the normaliser: the duplicate
  check and \<open>write_normalised\<close>, which creates one raw claim per item, supersedes the previous
  claims of the same source record, and reports the resolved conflicts whose winner it superseded.
\<close>

section \<open>Claim items\<close>

text \<open>A claim of the request after normalisation; the value is \<open>None\<close> when the key is missing.\<close>

record claim_item =
  it_field_name :: string
  it_field_value :: "json option"

text \<open>The loop of \<open>_assert_no_duplicate_fields\<close> with \<open>seen\<close> and \<open>duplicates\<close>.\<close>

fun duplicate_loop :: "string list \<Rightarrow> string list \<Rightarrow> claim_item list \<Rightarrow> string list" where
  "duplicate_loop seen dups [] = dups"
| "duplicate_loop seen dups (item # items) =
     (let f = it_field_name item
      in duplicate_loop (f # seen) (if f \<in> set seen then f # dups else dups) items)"

definition assert_no_duplicate_fields :: "claim_item list \<Rightarrow> atlas_error + unit" where
  "assert_no_duplicate_fields items =
     (let duplicates = duplicate_loop [] [] items
      in if duplicates = [] then Inr () else Inl (DuplicateClaimFieldError (sorted_set duplicates)))"

section \<open>Writing\<close>

record claim_write_result =
  wr_new_claims :: "claim list"
  wr_superseded_claims :: "claim list"
  wr_affected_fields :: "string list"
  wr_resolved_conflicts_to_reconcile :: "(claim_conflict \<times> claim) list"

text \<open>\<open>prior_claims_by_field.get(field_name, [])\<close>, from the store before the first write.\<close>

definition prior_claims :: "uuid \<Rightarrow> uuid \<Rightarrow> string option \<Rightarrow> db \<Rightarrow> string \<Rightarrow> claim list" where
  "prior_claims event_id source_id source_record_id d field_name =
     (case source_record_id of
        Some rid \<Rightarrow> filter (\<lambda>c. cl_field_name c = field_name) (find_active_by_source_record source_id rid d)
      | None \<Rightarrow> filter (\<lambda>c. cl_source_id c = source_id) (find_active_by_event_field event_id field_name d))"

definition raw_claim :: "time \<Rightarrow> uuid \<Rightarrow> uuid \<Rightarrow> uuid \<Rightarrow> uuid \<Rightarrow> string \<Rightarrow> json \<Rightarrow> claim" where
  "raw_claim now i event_id source_id snapshot_id field_name value =
     \<lparr>cl_id = i, cl_event_id = event_id, cl_source_id = source_id,
      cl_raw_snapshot_id = Some snapshot_id, cl_field_name = field_name, cl_field_value = value,
      cl_claim_type = RAW, cl_created_at = now, cl_created_by = None,
      cl_superseded_by_claim_id = None\<rparr>"

definition superseded_history :: "time \<Rightarrow> uuid \<Rightarrow> string option \<Rightarrow> claim \<Rightarrow> db \<Rightarrow> db" where
  "superseded_history now ingestion_run_id source_record_id old =
     log_claim_history now (cl_id old) (cl_event_id old) (Some (cl_field_value old))
       (Some (cl_field_value old)) (Some (cl_claim_type old)) SUPERSEDED ''superseded''
       (''Superseded by same-source re-ingestion (''
          @ (case source_record_id of Some r \<Rightarrow> or_default r ''no source_record_id''
             | None \<Rightarrow> ''no source_record_id'') @ '')'')
       INGESTION (Some ingestion_run_id)"

text \<open>The body of the loop over the items.\<close>

definition write_item ::
  "time \<Rightarrow> uuid \<Rightarrow> uuid \<Rightarrow> uuid \<Rightarrow> uuid \<Rightarrow> string option \<Rightarrow> (string \<Rightarrow> claim list) \<Rightarrow> claim_item
     \<Rightarrow> claim_write_result \<times> db \<Rightarrow> atlas_error + (claim_write_result \<times> db)" where
  "write_item now event_id source_id snapshot_id ingestion_run_id source_record_id
       prior_claims_by_field item st =
     (case it_field_value item of
        None \<Rightarrow> Inl DomainValidationError
      | Some value \<Rightarrow>
          let (result, d) = st;
              field_name = it_field_name item;
              claim = raw_claim now (fst (uuid4 d)) event_id source_id snapshot_id field_name value;
              d1 = claims_add claim (snd (uuid4 d));
              d2 = log_claim_history now (cl_id claim) event_id None (Some value) None RAW ''created''
                     ''Initial ingestion'' INGESTION (Some ingestion_run_id) d1;
              (superseded, d3) = bulk_supersede (map cl_id (prior_claims_by_field field_name)) (cl_id claim) d2
          in Inr (result\<lparr>wr_new_claims := wr_new_claims result @ [claim],
                    wr_superseded_claims := wr_superseded_claims result @ superseded,
                    wr_affected_fields :=
                      (if superseded = [] then wr_affected_fields result
                       else List.insert field_name (wr_affected_fields result))\<rparr>,
                  fold (superseded_history now ingestion_run_id source_record_id) superseded d3))"

text \<open>The resolved conflicts a superseded claim had won, each with the claim that replaces it.\<close>

definition conflicts_to_reconcile ::
  "claim list \<Rightarrow> claim list \<Rightarrow> db \<Rightarrow> (claim_conflict \<times> claim) list" where
  "conflicts_to_reconcile new_claims superseded_claims d =
     (let resolved_by_winner = find_resolved_by_winning_claims (map cl_id superseded_claims) d
      in List.map_filter
           (\<lambda>old. case resolved_by_winner (cl_id old) of
               None \<Rightarrow> None
             | Some resolved_won \<Rightarrow>
                 map_option (\<lambda>replacement. (resolved_won, replacement))
                   (find (\<lambda>nc. cl_field_name nc = cl_field_name old) new_claims))
           superseded_claims)"

definition write_normalised ::
  "time \<Rightarrow> uuid \<Rightarrow> uuid \<Rightarrow> uuid \<Rightarrow> claim_item list \<Rightarrow> uuid \<Rightarrow> string option \<Rightarrow> db
     \<Rightarrow> atlas_error + (claim_write_result \<times> db)" where
  "write_normalised now event_id source_id snapshot_id normalised_claims ingestion_run_id
       source_record_id d =
     rbind (assert_no_duplicate_fields normalised_claims)
     (\<lambda>_. rbind (rfold (write_item now event_id source_id snapshot_id ingestion_run_id source_record_id
                      (prior_claims event_id source_id source_record_id d))
              normalised_claims
              (\<lparr>wr_new_claims = [], wr_superseded_claims = [], wr_affected_fields = [],
                wr_resolved_conflicts_to_reconcile = []\<rparr>, d))
     (\<lambda>(result, d'). Inr (result\<lparr>wr_resolved_conflicts_to_reconcile :=
         conflicts_to_reconcile (wr_new_claims result) (wr_superseded_claims result) d'\<rparr>, d')))"

section \<open>The duplicate check\<close>

lemma duplicate_loop_Nil_iff:
  "duplicate_loop seen dups items = [] \<longleftrightarrow>
     dups = [] \<and> distinct (map it_field_name items) \<and> set seen \<inter> it_field_name ` set items = {}"
  by (induction seen dups items rule: duplicate_loop.induct) (auto simp: Let_def)

lemma assert_no_duplicate_fields_iff [simp]:
  "assert_no_duplicate_fields items = Inr u \<longleftrightarrow> distinct (map it_field_name items)"
  by (auto simp: assert_no_duplicate_fields_def Let_def duplicate_loop_Nil_iff)

section \<open>The loop over the items\<close>

text \<open>What happens to an old row when the claims \<open>news\<close> replace the prior claims \<open>P\<close>.\<close>

definition replaced :: "claim list \<Rightarrow> (string \<Rightarrow> claim list) \<Rightarrow> claim \<Rightarrow> claim" where
  "replaced news P c =
     (case find (\<lambda>n. cl_field_name n = cl_field_name c) news of
        None \<Rightarrow> c
      | Some n \<Rightarrow>
          if cl_id c \<in> cl_id ` set (P (cl_field_name c)) \<and> is_active c then supersede (cl_id n) c else c)"

lemma replaced_simps [simp]:
  "cl_id (replaced news P c) = cl_id c" "cl_field_name (replaced news P c) = cl_field_name c"
  "cl_event_id (replaced news P c) = cl_event_id c" "cl_source_id (replaced news P c) = cl_source_id c"
  "cl_raw_snapshot_id (replaced news P c) = cl_raw_snapshot_id c"
  "cl_field_value (replaced news P c) = cl_field_value c"
  by (simp_all add: replaced_def split: option.split)

definition new_claim_for :: "uuid \<Rightarrow> uuid \<Rightarrow> uuid \<Rightarrow> claim_item \<Rightarrow> claim \<Rightarrow> bool" where
  "new_claim_for e s snap item c \<longleftrightarrow>
     cl_event_id c = e \<and> cl_source_id c = s \<and> cl_raw_snapshot_id c = Some snap
     \<and> cl_field_name c = it_field_name item \<and> Some (cl_field_value c) = it_field_value item
     \<and> cl_claim_type c = RAW"

text \<open>Prior claims are rows of the table, found by their field.\<close>

definition priors_ok :: "(string \<Rightarrow> claim list) \<Rightarrow> uuid \<Rightarrow> claim list \<Rightarrow> bool" where
  "priors_ok P n rows \<longleftrightarrow> (\<forall>f. \<forall>c \<in> set (P f). cl_id c < n)
     \<and> (\<forall>c \<in> set rows. \<forall>f. cl_id c \<in> cl_id ` set (P f) \<longrightarrow> cl_field_name c = f)"

definition same_but_claims :: "db \<Rightarrow> db \<Rightarrow> bool" where
  "same_but_claims d d' \<longleftrightarrow>
     db_conflicts d' = db_conflicts d \<and> db_conflict_claims d' = db_conflict_claims d
     \<and> db_events d' = db_events d \<and> db_snapshots d' = db_snapshots d \<and> db_runs d' = db_runs d
     \<and> db_outbox d' = db_outbox d \<and> db_identity d' = db_identity d \<and> db_reviews d' = db_reviews d
     \<and> db_sources d' = db_sources d \<and> db_projections d' = db_projections d
     \<and> db_activity d' = db_activity d \<and> db_projection_history d' = db_projection_history d
     \<and> db_next d \<le> db_next d'"

lemma fold_superseded_history [simp]:
  "db_claims (fold (superseded_history now run rid) cs d) = db_claims d"
  "same_but_claims d (fold (superseded_history now run rid) cs d)"
  "store_inv d \<Longrightarrow> store_inv (fold (superseded_history now run rid) cs d)"
proof -
  show "db_claims (fold (superseded_history now run rid) cs d) = db_claims d"
    by (induction cs arbitrary: d) (simp_all add: superseded_history_def)
  show "same_but_claims d (fold (superseded_history now run rid) cs d)"
  proof (induction cs arbitrary: d)
    case (Cons c cs)
    from Cons [of "superseded_history now run rid c d"] show ?case
      by (simp add: same_but_claims_def superseded_history_def)
  qed (simp add: same_but_claims_def)
  show "store_inv d \<Longrightarrow> store_inv (fold (superseded_history now run rid) cs d)"
    by (rule fold_inv) (auto simp: superseded_history_def intro: store_inv_log_claim_history)
qed

lemma bulk_supersede_eq:
  "bulk_supersede ids w d =
     (filter (\<lambda>c. cl_id c \<in> set ids \<and> is_active c) (db_claims d),
      d\<lparr>db_claims := row_update (\<lambda>c. cl_id c \<in> set ids \<and> is_active c) (supersede w) (db_claims d)\<rparr>)"
proof (cases "ids = []")
  case True
  then show ?thesis by (simp add: bulk_supersede_def row_update_def)
next
  case False
  have "row_update (\<lambda>c. cl_id c \<in> cl_id ` set (filter (\<lambda>c. cl_id c \<in> set ids \<and> is_active c) (db_claims d)) \<and> is_active c)
      (supersede w) (db_claims d) = row_update (\<lambda>c. cl_id c \<in> set ids \<and> is_active c) (supersede w) (db_claims d)"
    by (auto simp: row_update_def)
  then show ?thesis using False by (simp only: bulk_supersede_def Let_def if_False)
qed

text \<open>The claims one pass of the loop over \<open>news\<close> supersedes.\<close>

definition hit_claims :: "claim list \<Rightarrow> (string \<Rightarrow> claim list) \<Rightarrow> claim list \<Rightarrow> claim set" where
  "hit_claims news P rows =
     {c \<in> set rows. is_active c \<and> cl_field_name c \<in> cl_field_name ` set news
        \<and> cl_id c \<in> cl_id ` set (P (cl_field_name c))}"

lemma hit_claims_map:
  assumes "\<And>x. x \<in> set rows \<Longrightarrow> cl_field_name x \<in> cl_field_name ` set news \<Longrightarrow> u x = x"
    and "\<And>x. cl_field_name (u x) = cl_field_name x"
  shows "hit_claims news P (map u rows) = hit_claims news P rows"
proof (rule set_eqI)
  fix c
  have "c \<in> set (map u rows) \<longleftrightarrow> c \<in> set rows" if f: "cl_field_name c \<in> cl_field_name ` set news"
  proof
    assume "c \<in> set (map u rows)"
    then obtain x where x: "x \<in> set rows" "c = u x" by auto
    then have "u x = x" using assms f by simp
    then show "c \<in> set rows" using x by simp
  next
    assume "c \<in> set rows"
    then show "c \<in> set (map u rows)" using assms(1) [OF _ f] by (metis image_eqI list.set_map)
  qed
  then show "c \<in> hit_claims news P (map u rows) \<longleftrightarrow> c \<in> hit_claims news P rows" unfolding hit_claims_def by blast
qed

lemma find_None_field: "f \<notin> cl_field_name ` set news \<Longrightarrow> find (\<lambda>n. cl_field_name n = f) news = None"
  by (auto simp: find_None_iff)

lemma replaced_no_field: "cl_field_name c \<notin> cl_field_name ` set news \<Longrightarrow> replaced news P c = c"
  by (simp add: replaced_def find_None_field)

lemma replaced_not_prior: "cl_id c \<notin> cl_id ` set (P (cl_field_name c)) \<Longrightarrow> replaced news P c = c"
  by (simp add: replaced_def split: option.split)

text \<open>One item first, then the others.\<close>

lemma replaced_step:
  assumes "cl_id c \<in> cl_id ` set (P (cl_field_name n)) \<longrightarrow> cl_field_name c = cl_field_name n"
    and "cl_field_name n \<notin> cl_field_name ` set news"
  shows "replaced news P (if cl_id c \<in> cl_id ` set (P (cl_field_name n)) \<and> is_active c then supersede (cl_id n) c else c)
    = replaced (n # news) P c"
proof (cases "cl_field_name c = cl_field_name n")
  case True
  then show ?thesis using assms(2) by (simp add: replaced_no_field) (simp add: replaced_def)
next
  case False
  then show ?thesis using assms(1) by (simp add: replaced_def)
qed

lemma write_item_Inr:
  assumes "write_item now e s snap run rid P item (r, d) = Inr (r', d')" and "store_inv d"
    and "priors_ok P (db_next d) (db_claims d)"
  obtains c where "new_claim_for e s snap item c" "wr_new_claims r' = wr_new_claims r @ [c]"
    "db_next d \<le> cl_id c" "store_inv d'" "same_but_claims d d'"
    "db_claims d' = map (\<lambda>x. if cl_id x \<in> cl_id ` set (P (cl_field_name c)) \<and> is_active x then supersede (cl_id c) x else x)
       (db_claims d) @ [c]"
    "set (wr_superseded_claims r') = set (wr_superseded_claims r) \<union> hit_claims [c] P (db_claims d)"
    "set (wr_affected_fields r') = set (wr_affected_fields r) \<union> cl_field_name ` hit_claims [c] P (db_claims d)"
proof -
  obtain v where v: "it_field_value item = Some v" using assms(1) by (auto simp: write_item_def split: option.splits)
  define c where "c = raw_claim now (db_next d) e s snap (it_field_name item) v"
  have c: "cl_id c = db_next d" "cl_field_name c = it_field_name item" "is_active c" "claim_ok c" "new_claim_for e s snap item c"
    by (simp_all add: c_def raw_claim_def is_active_iff claim_ok_def new_claim_for_def v)
  define d2 where "d2 = log_claim_history now (db_next d) e None (Some v) None RAW ''created''
      ''Initial ingestion'' INGESTION (Some run) (claims_add c (snd (uuid4 d)))"
  have inv2: "store_inv d2" unfolding d2_def
    by (intro store_inv_log_claim_history store_inv_claims_add assms(2) c(1,4))
  have d2: "db_claims d2 = db_claims d @ [c]" "same_but_claims d d2"
    by (simp_all add: d2_def claims_add_def same_but_claims_def)
  let ?ids = "map cl_id (P (it_field_name item))"
  let ?d3 = "snd (bulk_supersede ?ids (cl_id c) d2)"
  let ?sup = "fst (bulk_supersede ?ids (cl_id c) d2)"
  have notc: "cl_id c \<notin> set ?ids" using assms(3) c(1) unfolding priors_ok_def set_map by (metis imageE less_irrefl)
  have res: "r' = r\<lparr>wr_new_claims := wr_new_claims r @ [c], wr_superseded_claims := wr_superseded_claims r @ ?sup,
        wr_affected_fields := (if ?sup = [] then wr_affected_fields r else List.insert (it_field_name item) (wr_affected_fields r))\<rparr>"
    "d' = fold (superseded_history now run rid) ?sup ?d3"
    using assms(1) c(1) by (auto simp: write_item_def v Let_def case_prod_beta c_def [symmetric] d2_def [symmetric])
  have sup: "?sup = filter (\<lambda>x. cl_id x \<in> set ?ids \<and> is_active x) (db_claims d)"
    using notc by (simp add: bulk_supersede_eq d2(1))
  have field: "cl_field_name x = it_field_name item" if "x \<in> set (db_claims d)" "cl_id x \<in> set ?ids" for x
    using assms(3) that by (auto simp: priors_ok_def)
  have hit: "set ?sup = hit_claims [c] P (db_claims d)"
    unfolding sup hit_claims_def using field by (auto simp: c(2))
  have "db_claims d' = map (\<lambda>x. if cl_id x \<in> cl_id ` set (P (cl_field_name c)) \<and> is_active x then supersede (cl_id c) x else x) (db_claims d) @ [c]"
    unfolding res(2) fold_superseded_history using notc by (simp add: bulk_supersede_eq d2(1) row_update_def c(2))
  moreover have "store_inv d'" unfolding res(2)
    by (rule fold_superseded_history(3)) (rule store_inv_bulk_supersede [OF inv2])
  moreover have "same_but_claims d2 ?d3" by (simp add: bulk_supersede_eq same_but_claims_def)
  then have "same_but_claims d d'" unfolding res(2)
    using d2(2) fold_superseded_history(2) [of ?d3 now run rid ?sup] by (simp add: same_but_claims_def)
  moreover have "cl_field_name ` set ?sup = (if ?sup = [] then {} else {it_field_name item})"
    unfolding sup using field by (auto simp: filter_empty_conv image_iff)
  then have "set (wr_affected_fields r') = set (wr_affected_fields r) \<union> cl_field_name ` set ?sup"
    by (simp add: res(1))
  ultimately show thesis
    using that [OF c(5)] c(1) hit by (simp add: res(1))
qed

lemma write_items_effect:
  assumes "rfold (write_item now e s snap run rid P) items (r, d) = Inr (r', d')" and "store_inv d"
    and "distinct (map it_field_name items)" and "priors_ok P (db_next d) (db_claims d)"
  shows "\<exists>news. wr_new_claims r' = wr_new_claims r @ news \<and> list_all2 (new_claim_for e s snap) items news
    \<and> (\<forall>c \<in> set news. db_next d \<le> cl_id c) \<and> store_inv d' \<and> same_but_claims d d'
    \<and> db_claims d' = map (replaced news P) (db_claims d) @ news
    \<and> set (wr_superseded_claims r') = set (wr_superseded_claims r) \<union> hit_claims news P (db_claims d)
    \<and> set (wr_affected_fields r') = set (wr_affected_fields r) \<union> cl_field_name ` hit_claims news P (db_claims d)"
  using assms
proof (induction items arbitrary: r d)
  case Nil
  then show ?case by (auto simp: replaced_def hit_claims_def same_but_claims_def intro!: map_idI [symmetric])
next
  case (Cons item items)
  obtain r1 d1 where st: "write_item now e s snap run rid P item (r, d) = Inr (r1, d1)"
    and rest: "rfold (write_item now e s snap run rid P) items (r1, d1) = Inr (r', d')"
    using Cons.prems(1) by auto
  from st Cons.prems(2,4) obtain c where c: "new_claim_for e s snap item c" "wr_new_claims r1 = wr_new_claims r @ [c]"
    "db_next d \<le> cl_id c" and inv1: "store_inv d1" and sb: "same_but_claims d d1"
    and cl1: "db_claims d1 = map (\<lambda>x. if cl_id x \<in> cl_id ` set (P (cl_field_name c)) \<and> is_active x then supersede (cl_id c) x else x)
       (db_claims d) @ [c]"
    and sup1: "set (wr_superseded_claims r1) = set (wr_superseded_claims r) \<union> hit_claims [c] P (db_claims d)"
    and aff1: "set (wr_affected_fields r1) = set (wr_affected_fields r) \<union> cl_field_name ` hit_claims [c] P (db_claims d)"
    by (rule write_item_Inr)
  let ?u = "\<lambda>x. if cl_id x \<in> cl_id ` set (P (cl_field_name c)) \<and> is_active x then supersede (cl_id c) x else x"
  have u: "cl_id (?u x) = cl_id x" "cl_field_name (?u x) = cl_field_name x" for x by simp_all
  have P: "\<forall>f. \<forall>x \<in> set (P f). cl_id x < db_next d"
    and F: "\<And>x f. x \<in> set (db_claims d) \<Longrightarrow> cl_id x \<in> cl_id ` set (P f) \<Longrightarrow> cl_field_name x = f"
    using Cons.prems(4) unfolding priors_ok_def by blast+
  have notc: "cl_id c \<notin> cl_id ` set (P f)" for f using P c(3) by (metis imageE leD)
  have le: "db_next d \<le> db_next d1" using sb by (simp add: same_but_claims_def)
  have "priors_ok P (db_next d1) (db_claims d1)"
    unfolding priors_ok_def cl1
  proof (intro conjI allI ballI impI)
    fix f x assume "x \<in> set (P f)"
    then show "cl_id x < db_next d1" using P le by (meson less_le_trans)
  next
    fix x f assume x: "x \<in> set (map ?u (db_claims d) @ [c])" "cl_id x \<in> cl_id ` set (P f)"
    then have "x \<noteq> c" using notc by blast
    then have "x \<in> ?u ` set (db_claims d)" using x(1) unfolding set_append set_map list.set by blast
    then obtain y where y: "x = ?u y" "y \<in> set (db_claims d)" by (rule imageE)
    have "cl_field_name y = f" by (rule F [OF y(2)]) (use x(2) in \<open>simp only: y(1) u\<close>)
    then show "cl_field_name x = f" by (simp only: y(1) u)
  qed
  then obtain news where n: "wr_new_claims r' = wr_new_claims r1 @ news" "list_all2 (new_claim_for e s snap) items news"
    "\<forall>c \<in> set news. db_next d1 \<le> cl_id c" "store_inv d'" "same_but_claims d1 d'"
    "db_claims d' = map (replaced news P) (db_claims d1) @ news"
    "set (wr_superseded_claims r') = set (wr_superseded_claims r1) \<union> hit_claims news P (db_claims d1)"
    "set (wr_affected_fields r') = set (wr_affected_fields r1) \<union> cl_field_name ` hit_claims news P (db_claims d1)"
    using Cons.IH [OF rest inv1] Cons.prems(3) by auto
  have names: "map cl_field_name news = map it_field_name items"
    using n(2) by (induction rule: list_all2_induct) (simp_all add: new_claim_for_def)
  have fc: "cl_field_name c = it_field_name item" using c(1) by (simp add: new_claim_for_def)
  have fresh: "cl_field_name c \<notin> cl_field_name ` set news"
    using Cons.prems(3) names fc by (metis distinct.simps(2) list.set_map list.simps(9))
  have "replaced news P (?u x) = replaced (c # news) P x" if "x \<in> set (db_claims d)" for x
    by (rule replaced_step [OF _ fresh]) (use F [OF that] in blast)
  moreover have "replaced news P c = c" using notc by (intro replaced_not_prior)
  ultimately have claims: "db_claims d' = map (replaced (c # news) P) (db_claims d) @ c # news"
    unfolding n(6) cl1 by simp
  have "hit_claims news P (db_claims d1) = hit_claims news P (db_claims d)"
  proof -
    have "?u x = x" if "x \<in> set (db_claims d)" "cl_field_name x \<in> cl_field_name ` set news" for x
    proof -
      have "cl_field_name x \<noteq> cl_field_name c" using fresh that(2) by metis
      then have "cl_id x \<notin> cl_id ` set (P (cl_field_name c))" using F [OF that(1)] by blast
      then show ?thesis by simp
    qed
    then have "x \<in> hit_claims news P (map ?u (db_claims d)) \<longleftrightarrow> x \<in> hit_claims news P (db_claims d)" for x
      using hit_claims_map [of "db_claims d" news ?u P] u by blast
    moreover have "c \<notin> hit_claims news P [c]" using fresh by (simp add: hit_claims_def)
    ultimately show ?thesis unfolding cl1 hit_claims_def by auto
  qed
  moreover have "hit_claims (c # news) P (db_claims d) = hit_claims [c] P (db_claims d) \<union> hit_claims news P (db_claims d)"
    by (auto simp: hit_claims_def)
  ultimately have "set (wr_superseded_claims r') = set (wr_superseded_claims r) \<union> hit_claims (c # news) P (db_claims d)"
    "set (wr_affected_fields r') = set (wr_affected_fields r) \<union> cl_field_name ` hit_claims (c # news) P (db_claims d)"
    using n(7,8) sup1 aff1 by auto
  moreover have "\<forall>x \<in> set (c # news). db_next d \<le> cl_id x" using c(3) n(3) le by (auto intro: order_trans)
  moreover have "same_but_claims d d'" using sb n(5) unfolding same_but_claims_def by simp
  ultimately show ?case using n(1,2,4) c(1,2) claims by (intro exI [of _ "c # news"]) simp
qed

section \<open>One active claim per source record and field\<close>

text \<open>The scope a claim of the source stands in, apart from its field and its type.\<close>

definition in_scope :: "uuid \<Rightarrow> uuid \<Rightarrow> string option \<Rightarrow> raw_snapshot list \<Rightarrow> claim \<Rightarrow> bool" where
  "in_scope e s rid snaps c \<longleftrightarrow> cl_source_id c = s \<and>
     (case rid of
        None \<Rightarrow> cl_event_id c = e
      | Some x \<Rightarrow> \<exists>n \<in> set snaps. Some (sn_id n) = cl_raw_snapshot_id c \<and> sn_source_id n = s \<and> sn_source_record_id n = Some x)"

lemma prior_claims_filter:
  "prior_claims e s rid d f =
     filter (\<lambda>c. in_scope e s rid (db_snapshots d) c \<and> cl_field_name c = f \<and> is_active c) (db_claims d)"
  by (auto simp: prior_claims_def find_active_by_source_record_def find_active_by_event_field_def
      in_scope_def list_ex_iff split: option.split intro!: filter_cong)

lemma in_scope_replaced [simp]: "in_scope e s rid snaps (replaced news P c) = in_scope e s rid snaps c"
  by (simp add: in_scope_def split: option.split)

lemma priors_ok_prior_claims:
  assumes "store_inv d"
  shows "priors_ok (prior_claims e s rid d) (db_next d) (db_claims d)"
proof -
  have "inj_on cl_id (set (db_claims d))" "\<forall>c \<in> set (db_claims d). cl_id c < db_next d"
    using assms by (simp_all add: store_inv_def claims_inv_def ids_below_def distinct_map)
  then show ?thesis unfolding priors_ok_def prior_claims_filter by (auto dest: inj_onD)
qed

lemma filter_unique_field:
  "distinct (map cl_field_name news) \<Longrightarrow> n \<in> set news \<Longrightarrow> filter (\<lambda>c. cl_field_name c = cl_field_name n) news = [n]"
proof (induction news)
  case (Cons x xs)
  show ?case
  proof (cases "n = x")
    case True
    then have "cl_field_name n \<notin> cl_field_name ` set xs" using Cons.prems(1) by simp
    then have "filter (\<lambda>c. cl_field_name c = cl_field_name n) xs = []"
      by (auto simp: filter_empty_conv image_iff)
    then show ?thesis using True by simp
  next
    case False
    then have "n \<in> set xs" using Cons.prems(2) by simp
    moreover have "cl_field_name x \<noteq> cl_field_name n" using Cons.prems(1) calculation by (metis distinct.simps(2) image_eqI list.set_map list.simps(9))
    ultimately show ?thesis using Cons by simp
  qed
qed simp

lemma claim_write_effect:
  assumes "store_inv d" and "write_normalised now e s snap items run rid d = Inr (r, d')"
    and "\<And>x. rid = Some x \<Longrightarrow> \<exists>n \<in> set (db_snapshots d). sn_id n = snap \<and> sn_source_id n = s \<and> sn_source_record_id n = Some x"
  shows "store_inv d' \<and> list_all2 (new_claim_for e s snap) items (wr_new_claims r)
    \<and> (\<forall>n \<in> set (wr_new_claims r). prior_claims e s rid d' (cl_field_name n) = [n])
    \<and> set (wr_superseded_claims r) = (\<Union>item \<in> set items. set (prior_claims e s rid d (it_field_name item)))
    \<and> (\<forall>c \<in> set (wr_superseded_claims r). \<exists>n \<in> set (wr_new_claims r).
         cl_field_name n = cl_field_name c \<and> supersede (cl_id n) c \<in> set (db_claims d'))
    \<and> (\<forall>c \<in> set (db_claims d). c \<in> set (wr_superseded_claims r) \<or> c \<in> set (db_claims d'))"
proof -
  let ?P = "prior_claims e s rid d"
  let ?r0 = "\<lparr>wr_new_claims = [], wr_superseded_claims = [], wr_affected_fields = [], wr_resolved_conflicts_to_reconcile = []\<rparr>"
  obtain r1 where dist: "distinct (map it_field_name items)"
    and loop: "rfold (write_item now e s snap run rid ?P) items (?r0, d) = Inr (r1, d')"
    and r: "wr_new_claims r = wr_new_claims r1" "wr_superseded_claims r = wr_superseded_claims r1"
    using assms(2) by (auto simp: write_normalised_def)
  obtain news where n: "wr_new_claims r = news" "list_all2 (new_claim_for e s snap) items news"
    "\<forall>c \<in> set news. db_next d \<le> cl_id c" "store_inv d'" "same_but_claims d d'"
    "db_claims d' = map (replaced news ?P) (db_claims d) @ news"
    "set (wr_superseded_claims r) = hit_claims news ?P (db_claims d)"
    using write_items_effect [OF loop assms(1) dist priors_ok_prior_claims [OF assms(1)]] by (auto simp: r)
  have names: "map cl_field_name news = map it_field_name items"
    using n(2) by (induction rule: list_all2_induct) (simp_all add: new_claim_for_def)
  have snaps: "db_snapshots d' = db_snapshots d" using n(5) by (simp add: same_but_claims_def)
  have new: "in_scope e s rid (db_snapshots d) c \<and> is_active c" if "c \<in> set news" for c
  proof -
    have "\<exists>i. new_claim_for e s snap i c" using n(2) that by (metis in_set_conv_nth list_all2_conv_all_nth)
    then show ?thesis using assms(3) by (auto simp: new_claim_for_def in_scope_def is_active_iff split: option.split)
  qed
  have prior: "c \<in> set (?P (cl_field_name c))"
    if "c \<in> set (db_claims d)" "in_scope e s rid (db_snapshots d) c" "is_active c" for c
    using that by (simp add: prior_claims_filter)
  have inj: "inj_on cl_id (set (db_claims d))"
    using assms(1) by (simp add: store_inv_def claims_inv_def ids_below_def distinct_map)
  have mine: "cl_id c \<in> cl_id ` set (?P f) \<longleftrightarrow> c \<in> set (?P f)" if "c \<in> set (db_claims d)" for c f
    using that inj by (auto simp: prior_claims_filter dest: inj_onD)
  have one: "prior_claims e s rid d' (cl_field_name x) = [x]" if x: "x \<in> set news" for x
  proof -
    have "\<not> (in_scope e s rid (db_snapshots d) (replaced news ?P c) \<and> cl_field_name (replaced news ?P c) = cl_field_name x
        \<and> is_active (replaced news ?P c))" if "c \<in> set (db_claims d)" for c
    proof
      assume a: "in_scope e s rid (db_snapshots d) (replaced news ?P c) \<and> cl_field_name (replaced news ?P c) = cl_field_name x
        \<and> is_active (replaced news ?P c)"
      then have act: "is_active c" by (auto simp: replaced_def split: option.splits if_splits)
      then have "cl_id c \<in> cl_id ` set (?P (cl_field_name c))" using prior [OF that _ act] a by auto
      moreover have "find (\<lambda>n. cl_field_name n = cl_field_name c) news \<noteq> None"
        using a x by (auto simp: find_None_iff)
      ultimately show False using a act by (auto simp: replaced_def)
    qed
    then have "filter (\<lambda>c. in_scope e s rid (db_snapshots d) c \<and> cl_field_name c = cl_field_name x \<and> is_active c)
        (map (replaced news ?P) (db_claims d)) = []"
      by (simp add: filter_empty_conv)
    moreover have "filter (\<lambda>c. in_scope e s rid (db_snapshots d) c \<and> cl_field_name c = cl_field_name x \<and> is_active c) news
        = filter (\<lambda>c. cl_field_name c = cl_field_name x) news"
      using new by (intro filter_cong) auto
    moreover have "distinct (map cl_field_name news)" using names dist by simp
    ultimately show ?thesis
      unfolding prior_claims_filter snaps n(6) filter_append using filter_unique_field x by simp
  qed
  have fields: "cl_field_name ` set news = it_field_name ` set items" using names by (metis list.set_map)
  have hits: "hit_claims news ?P (db_claims d) = (\<Union>item \<in> set items. set (?P (it_field_name item)))"
  proof -
    have "c \<in> hit_claims news ?P (db_claims d) \<longleftrightarrow> (\<exists>f \<in> it_field_name ` set items. c \<in> set (?P f))" for c
      unfolding hit_claims_def fields using mine by (auto simp: prior_claims_filter)
    then show ?thesis by auto
  qed
  have "\<exists>x \<in> set news. cl_field_name x = cl_field_name c \<and> supersede (cl_id x) c \<in> set (db_claims d')"
    if c: "c \<in> hit_claims news ?P (db_claims d)" for c
  proof -
    have "find (\<lambda>n. cl_field_name n = cl_field_name c) news \<noteq> None"
      using c by (auto simp: hit_claims_def find_None_iff)
    then obtain x where x: "find (\<lambda>n. cl_field_name n = cl_field_name c) news = Some x" by blast
    then have "x \<in> set news" "cl_field_name x = cl_field_name c" by (auto simp: find_Some_iff)
    moreover have "replaced news ?P c = supersede (cl_id x) c" using x c by (simp add: replaced_def hit_claims_def)
    moreover have "replaced news ?P c \<in> set (db_claims d')" using c by (simp add: n(6) hit_claims_def)
    ultimately show ?thesis by auto
  qed
  moreover have "c \<in> hit_claims news ?P (db_claims d) \<or> c \<in> set (db_claims d')" if c: "c \<in> set (db_claims d)" for c
  proof (cases "replaced news ?P c = c")
    case True
    then show ?thesis using c unfolding n(6) by (metis UnI1 image_eqI list.set_map set_append)
  next
    case False
    then show ?thesis using c replaced_no_field [of c news ?P]
      by (auto simp: hit_claims_def replaced_def split: option.splits if_splits)
  qed
  ultimately show ?thesis using n(2,4) one unfolding n(1,7) hits by blast
qed

text \<open>Writing a submission replaces exactly the source's previous statements: when it succeeds,
  every item has become one new raw claim; for each of its fields the new claim is the only active
  claim of that source record (of that source on the event when there is no record id); the claims
  it reports as superseded are exactly the active claims of the same scope and fields, each now
  marked as superseded by the new claim of its field; and every other claim row is unchanged.\<close>

theorem claim_write_exclusive:
  assumes "store_inv d" and "write_normalised now e s snap items run rid d = Inr (r, d')"
    and "\<And>x. rid = Some x \<Longrightarrow> \<exists>n \<in> set (db_snapshots d). sn_id n = snap \<and> sn_source_id n = s \<and> sn_source_record_id n = Some x"
  shows "store_inv d' \<and> list_all2 (new_claim_for e s snap) items (wr_new_claims r)
    \<and> (\<forall>n \<in> set (wr_new_claims r). prior_claims e s rid d' (cl_field_name n) = [n])
    \<and> set (wr_superseded_claims r) = (\<Union>item \<in> set items. set (prior_claims e s rid d (it_field_name item)))
    \<and> (\<forall>c \<in> set (wr_superseded_claims r). \<exists>n \<in> set (wr_new_claims r).
         cl_field_name n = cl_field_name c \<and> supersede (cl_id n) c \<in> set (db_claims d'))
    \<and> (\<forall>c \<in> set (db_claims d). c \<in> set (wr_superseded_claims r) \<or> c \<in> set (db_claims d'))"
  by (rule claim_write_effect [OF assms(1,2)]) (rule assms(3))

text \<open>A source corrects its operator; the other source and the other field stay.\<close>

definition writer_db :: db where
  "writer_db = conflict_db\<lparr>db_claims := [sample_claim 5 1 ''operator'' (JStr ''A'') RAW,
     sample_claim 6 2 ''operator'' (JStr ''B'') RAW, sample_claim 7 1 ''location'' (JStr ''C'') RAW]\<rparr>"

definition writer_items :: "claim_item list" where
  "writer_items = [\<lparr>it_field_name = ''operator'', it_field_value = Some (JStr ''D'')\<rparr>]"

theorem claim_write_exclusive_witness:
  "\<exists>r d'. write_normalised 9 1 1 3 writer_items 4 None writer_db = Inr (r, d')
     \<and> set (wr_superseded_claims r) = {sample_claim 5 1 ''operator'' (JStr ''A'') RAW}
     \<and> (\<forall>n \<in> set (wr_new_claims r). prior_claims 1 1 None d' (cl_field_name n) = [n])"
proof -
  have inv: "store_inv writer_db"
    by (simp add: writer_db_def conflict_db_eval store_inv_def claims_inv_def conflicts_inv_def ids_below_def
        claim_ok_def conflict_ok_def open_unique_def contiguous_log_def activity_of_def)
  have p: "prior_claims 1 1 None writer_db ''operator'' = [sample_claim 5 1 ''operator'' (JStr ''A'') RAW]"
    by (simp add: prior_claims_def find_active_by_event_field_def writer_db_def sample_claim_def is_active_iff)
  have "\<exists>r d'. write_normalised 9 1 1 3 writer_items 4 None writer_db = Inr (r, d')"
    by (simp add: write_normalised_def assert_no_duplicate_fields_def writer_items_def write_item_def case_prod_beta Let_def)
  then obtain r d' where w: "write_normalised 9 1 1 3 writer_items 4 None writer_db = Inr (r, d')" by blast
  have "\<And>x. None = Some x \<Longrightarrow> \<exists>n \<in> set (db_snapshots writer_db). sn_id n = 3 \<and> sn_source_id n = 1 \<and> sn_source_record_id n = Some x"
    by simp
  from claim_write_exclusive [OF inv w this] have
    "set (wr_superseded_claims r) = (\<Union>item \<in> set writer_items. set (prior_claims 1 1 None writer_db (it_field_name item)))"
    "\<forall>n \<in> set (wr_new_claims r). prior_claims 1 1 None d' (cl_field_name n) = [n]"
    by blast+
  then show ?thesis using w p by (simp add: writer_items_def)
qed

end
