(* ===== verification/Py_Dates.thy ===== *)
theory Py_Dates
  imports Py_Strings
begin

text \<open>
  Python's \<open>date\<close>: a proleptic Gregorian calendar date of the years 1 to 9999, its ISO text and
  the step to a neighbouring day.  \<open>iso_date\<close> is \<open>date.fromisoformat\<close> on text without an
  upper-case \<open>W\<close> (the week formats need one): \<open>YYYY-MM-DD\<close>, \<open>YYYYMMDD\<close>, and, as the
  implementation does not look past the day, \<open>YYYYMMDD\<close> with two more characters.
\<close>

type_synonym cdate = "nat \<times> nat \<times> nat"

definition leap_year :: "nat \<Rightarrow> bool" where
  "leap_year y \<longleftrightarrow> y mod 4 = 0 \<and> (y mod 100 \<noteq> 0 \<or> y mod 400 = 0)"

definition days_in_month :: "nat \<Rightarrow> nat \<Rightarrow> nat" where
  "days_in_month y m =
     (if m = 2 then (if leap_year y then 29 else 28) else if m \<in> {4, 6, 9, 11} then 30 else 31)"

definition valid_date :: "cdate \<Rightarrow> bool" where
  "valid_date t \<longleftrightarrow> (case t of (y, m, d) \<Rightarrow>
     1 \<le> y \<and> y \<le> 9999 \<and> 1 \<le> m \<and> m \<le> 12 \<and> 1 \<le> d \<and> d \<le> days_in_month y m)"

definition two_digits :: "nat \<Rightarrow> string" where
  "two_digits n = [char_of (48 + n div 10), char_of (48 + n mod 10)]"

definition four_digits :: "nat \<Rightarrow> string" where
  "four_digits n = two_digits (n div 100) @ two_digits (n mod 100)"

definition date_isoformat :: "cdate \<Rightarrow> string" where
  "date_isoformat t = (case t of (y, m, d) \<Rightarrow>
     four_digits y @ ''-'' @ two_digits m @ ''-'' @ two_digits d)"

text \<open>A run of exactly \<open>n\<close> digits at the start of the text.\<close>

definition parse_digits :: "nat \<Rightarrow> string \<Rightarrow> (nat \<times> string) option" where
  "parse_digits n s =
     (if length (take n s) = n \<and> list_all py_digit (take n s)
      then Some (nat_of_digits (map digit_val (take n s)), drop n s) else None)"

definition make_date :: "nat \<Rightarrow> nat \<Rightarrow> nat \<Rightarrow> cdate option" where
  "make_date y m d = (if valid_date (y, m, d) then Some (y, m, d) else None)"

definition iso_date :: "string \<Rightarrow> cdate option" where
  "iso_date s =
     (if length s \<noteq> 8 \<and> length s \<noteq> 10 then None
      else case parse_digits 4 s of None \<Rightarrow> None | Some (y, r) \<Rightarrow>
        let sep = (r \<noteq> [] \<and> hd r = CHR ''-'')
        in case parse_digits 2 (if sep then tl r else r) of None \<Rightarrow> None | Some (m, r1) \<Rightarrow>
          if (r1 \<noteq> [] \<and> hd r1 = CHR ''-'') \<noteq> sep then None
          else case parse_digits 2 (if sep then tl r1 else r1) of None \<Rightarrow> None | Some (d, _) \<Rightarrow>
            make_date y m d)"

text \<open>\<open>date + timedelta(days=1)\<close> and \<open>date - timedelta(days=1)\<close>; \<open>None\<close> is \<open>OverflowError\<close>.\<close>

definition next_day :: "cdate \<Rightarrow> cdate option" where
  "next_day t = (case t of (y, m, d) \<Rightarrow>
     if d < days_in_month y m then Some (y, m, d + 1)
     else if m < 12 then Some (y, m + 1, 1)
     else if y < 9999 then Some (y + 1, 1, 1) else None)"

definition prev_day :: "cdate \<Rightarrow> cdate option" where
  "prev_day t = (case t of (y, m, d) \<Rightarrow>
     if 1 < d then Some (y, m, d - 1)
     else if 1 < m then Some (y, m - 1, days_in_month y (m - 1))
     else if 1 < y then Some (y - 1, 12, 31) else None)"

section \<open>Lemmas\<close>

lemma days_in_month_bounds: "1 \<le> days_in_month y m \<and> days_in_month y m \<le> 31"
  by (simp add: days_in_month_def)

lemma digit_char:
  assumes "k < 10"
  shows "py_digit (char_of (48 + k)) \<and> digit_val (char_of (48 + k)) = k"
proof -
  have "(of_char (char_of (48 + k) :: char) :: nat) = 48 + k" using assms by simp
  then show ?thesis using assms by (simp add: py_digit_def digit_val_def Let_def)
qed

lemma length_two_digits [simp]: "length (two_digits n) = 2" "length (four_digits n) = 4"
  by (simp_all add: two_digits_def four_digits_def)

lemma parse_two_digits: "n < 100 \<Longrightarrow> parse_digits 2 (two_digits n @ r) = Some (n, r)"
proof -
  assume "n < 100"
  then have "n div 10 < 10" "n mod 10 < 10" by (auto simp: less_mult_imp_div_less)
  then show ?thesis
    using digit_char [of "n div 10"] digit_char [of "n mod 10"]
    by (simp add: parse_digits_def two_digits_def nat_of_digits_def del: of_char_of)
qed

lemma parse_four_digits: "n < 10000 \<Longrightarrow> parse_digits 4 (four_digits n @ r) = Some (n, r)"
proof -
  assume n: "n < 10000"
  then have "n div 100 < 100" by (simp add: less_mult_imp_div_less)
  then have k: "n div 100 div 10 < 10" "n div 100 mod 10 < 10" "n mod 100 div 10 < 10" "n mod 100 mod 10 < 10"
    by (auto simp: less_mult_imp_div_less)
  have "1000 * (n div 100 div 10) + 100 * (n div 100 mod 10) + 10 * (n mod 100 div 10) + n mod 100 mod 10 = n"
    using mult_div_mod_eq [of 100 n] mult_div_mod_eq [of 10 "n div 100"] mult_div_mod_eq [of 10 "n mod 100"] by linarith
  then show ?thesis
    using digit_char [OF k(1)] digit_char [OF k(2)] digit_char [OF k(3)] digit_char [OF k(4)]
    by (simp add: parse_digits_def four_digits_def two_digits_def nat_of_digits_def del: of_char_of)
qed

text \<open>Every valid date is read back from its ISO text.\<close>

lemma iso_date_isoformat:
  assumes "valid_date t"
  shows "iso_date (date_isoformat t) = Some t"
proof -
  obtain y m d where t: "t = (y, m, d)" by (cases t) auto
  have b: "y < 10000" "m < 100" "d < 100"
    using assms days_in_month_bounds [of y m] by (auto simp: valid_date_def t)
  have "parse_digits 4 (date_isoformat t) = Some (y, ''-'' @ two_digits m @ ''-'' @ two_digits d)"
    using parse_four_digits [OF b(1)] by (simp add: date_isoformat_def t)
  moreover have "parse_digits 2 (two_digits m @ ''-'' @ two_digits d) = Some (m, ''-'' @ two_digits d)"
    by (rule parse_two_digits [OF b(2)])
  moreover have "parse_digits 2 (two_digits d) = Some (d, [])"
    using parse_two_digits [OF b(3), of "[]"] by simp
  moreover have "length (date_isoformat t) = 10" by (simp add: date_isoformat_def t)
  ultimately show ?thesis
    using assms by (simp add: iso_date_def make_date_def t Let_def)
qed

lemma iso_date_valid: "iso_date s = Some t \<Longrightarrow> valid_date t"
  by (auto simp: iso_date_def make_date_def Let_def split: if_splits option.splits prod.splits)

lemma next_day_valid: "valid_date t \<Longrightarrow> next_day t = Some u \<Longrightarrow> valid_date u"
  using days_in_month_bounds by (auto simp: valid_date_def next_day_def split: if_splits)

lemma prev_day_valid: "valid_date t \<Longrightarrow> prev_day t = Some u \<Longrightarrow> valid_date u"
  using days_in_month_bounds by (auto simp: valid_date_def prev_day_def days_in_month_def split: if_splits)

lemma prev_next_day:
  assumes "valid_date t" and "next_day t = Some u"
  shows "prev_day u = Some t"
  using assms by (auto simp: valid_date_def next_day_def prev_day_def days_in_month_def split: if_splits)

end
