(* ===== verification/Source_Normalizer.thy ===== *)
theory Source_Normalizer
  imports Claim_Writer Py_Dates
begin

text \<open>
  The normalisation of submitted claims (\<open>domain/services/ingestion.py\<close>) and
  \<open>ClaimWriter.normalise_claims\<close>: field names are mapped to canonical names, known fields are
  coerced to their type.  Two parts of Python are parameters: \<open>rep\<close> is \<open>str()\<close> of a float or a
  container, and \<open>dt\<close> is the date of \<open>datetime.fromisoformat\<close>, or \<open>None\<close> for its \<open>ValueError\<close>.
\<close>

section \<open>Text of a value\<close>

fun py_str :: "(json \<Rightarrow> string) \<Rightarrow> json \<Rightarrow> string" where
  "py_str rep JNull = ''None''"
| "py_str rep (JBool b) = (if b then ''True'' else ''False'')"
| "py_str rep (JInt i) = str_of_int i"
| "py_str rep (JStr s) = s"
| "py_str rep v = rep v"

definition opt_str :: "string option \<Rightarrow> json" where
  "opt_str v = (case v of None \<Rightarrow> JNull | Some s \<Rightarrow> JStr s)"

section \<open>Coercions\<close>

text \<open>\<open>_ISO_DATE_RE\<close> and \<open>_YMD_DATE_RE\<close>.\<close>

definition iso_shape :: "string \<Rightarrow> bool" where
  "iso_shape s \<longleftrightarrow> length s = 10 \<and> list_all py_digit (take 4 s) \<and> s ! 4 = CHR ''-''
     \<and> list_all py_digit (take 2 (drop 5 s)) \<and> s ! 7 = CHR ''-'' \<and> list_all py_digit (drop 8 s)"

definition slash_or_dot :: "string \<Rightarrow> string option" where
  "slash_or_dot s = (case s of c # r \<Rightarrow> if c = CHR ''/'' \<or> c = CHR ''.'' then Some r else None | [] \<Rightarrow> None)"

definition short_number :: "string \<Rightarrow> (nat \<times> string) option" where
  "short_number s =
     (let ds = takeWhile py_digit s
      in if 1 \<le> length ds \<and> length ds \<le> 2
         then Some (nat_of_digits (map digit_val ds), dropWhile py_digit s) else None)"

definition ymd_match :: "string \<Rightarrow> (nat \<times> nat \<times> nat) option" where
  "ymd_match s =
     Option.bind (parse_digits 4 s) (\<lambda>(y, r).
     Option.bind (slash_or_dot r) (\<lambda>r1.
     Option.bind (short_number r1) (\<lambda>(m, r2).
     Option.bind (slash_or_dot r2) (\<lambda>r3.
     Option.bind (short_number r3) (\<lambda>(d, r4). if r4 = [] then Some (y, m, d) else None)))))"

definition replace_Z :: "string \<Rightarrow> string" where
  "replace_Z s = concat (map (\<lambda>c. if c = CHR ''Z'' then ''+00:00'' else [c]) s)"

definition coerce_date ::
  "(json \<Rightarrow> string) \<Rightarrow> (string \<Rightarrow> cdate option) \<Rightarrow> json \<Rightarrow> atlas_error + json" where
  "coerce_date rep dt value =
     (if value = JNull then Inr JNull
      else let txt = py_strip (py_str rep value)
      in if txt = [] then Inr JNull
         else if iso_shape txt then
           (case iso_date txt of Some t \<Rightarrow> Inr (JStr (date_isoformat t)) | None \<Rightarrow> Inl NormalizationError)
         else case dt (replace_Z txt) of
             Some t \<Rightarrow> Inr (JStr (date_isoformat t))
           | None \<Rightarrow>
               (case ymd_match txt of
                  Some (y, m, d) \<Rightarrow>
                    (case make_date y m d of
                       Some t \<Rightarrow> Inr (JStr (date_isoformat t)) | None \<Rightarrow> Inl NormalizationError)
                | None \<Rightarrow> Inl NormalizationError))"

text \<open>\<open>int(f)\<close> of a float.\<close>

definition int_of_float :: "pyfloat \<Rightarrow> atlas_error + int" where
  "int_of_float f = (case f of
       Fin q \<Rightarrow> Inr (if 0 \<le> q then \<lfloor>q\<rfloor> else \<lceil>q\<rceil>)
     | NaN \<Rightarrow> Inl ValueError
     | _ \<Rightarrow> Inl OverflowError)"

text \<open>Only \<open>ValueError\<close> and \<open>TypeError\<close> become \<open>NormalizationError\<close>.\<close>

definition coerce_non_negative_int :: "(json \<Rightarrow> string) \<Rightarrow> json \<Rightarrow> atlas_error + json" where
  "coerce_non_negative_int rep value =
     (if value = JNull then Inr JNull
      else let txt = py_strip (py_str rep value)
      in rbind (if CHR ''.'' \<in> set txt
                then (case py_float txt of
                        None \<Rightarrow> Inl NormalizationError
                      | Some f \<Rightarrow> rbind (int_of_float f) (\<lambda>i.
                          if float_eq f (Fin (of_int i)) then Inr () else Inl NormalizationError))
                else Inr ())
         (\<lambda>_. case py_float txt of
             None \<Rightarrow> Inl NormalizationError
           | Some f \<Rightarrow>
               (case int_of_float f of
                  Inl e \<Rightarrow> Inl (if e = ValueError then NormalizationError else e)
                | Inr result \<Rightarrow> if result < 0 then Inl NormalizationError else Inr (JInt result))))"

definition coerce_text :: "(json \<Rightarrow> string) \<Rightarrow> json \<Rightarrow> string option" where
  "coerce_text rep value =
     (if value = JNull then None
      else let cleaned = collapse_ws (py_str rep value) in if cleaned = [] then None else Some cleaned)"

definition coerce_string :: "(json \<Rightarrow> string) \<Rightarrow> json \<Rightarrow> atlas_error + json" where
  "coerce_string rep value = Inr (opt_str (coerce_text rep value))"

definition coerce_registration :: "(json \<Rightarrow> string) \<Rightarrow> json \<Rightarrow> atlas_error + json" where
  "coerce_registration rep value = Inr (opt_str (map_option py_upper (coerce_text rep value)))"

definition coerce_flight_phase :: "(json \<Rightarrow> string) \<Rightarrow> json \<Rightarrow> atlas_error + json" where
  "coerce_flight_phase rep value = Inr (opt_str (map_option py_lower (coerce_text rep value)))"

text \<open>\<open>_field_coercers.get(field_name)\<close>.\<close>

definition field_coercer ::
  "(json \<Rightarrow> string) \<Rightarrow> (string \<Rightarrow> cdate option) \<Rightarrow> string \<Rightarrow> (json \<Rightarrow> atlas_error + json) option" where
  "field_coercer rep dt f =
     (if f = ''event_date'' then Some (coerce_date rep dt)
      else if f = ''fatalities_total'' \<or> f = ''injuries_total'' then Some (coerce_non_negative_int rep)
      else if f = ''location'' \<or> f = ''aircraft_type'' \<or> f = ''operator'' \<or> f = ''narrative''
        then Some (coerce_string rep)
      else if f = ''registration'' then Some (coerce_registration rep)
      else if f = ''flight_phase'' then Some (coerce_flight_phase rep)
      else None)"

section \<open>Field names\<close>

definition is_lower_or_digit :: "char \<Rightarrow> bool" where
  "is_lower_or_digit c \<longleftrightarrow> py_digit c \<or> (let n = (of_char c :: nat) in 97 \<le> n \<and> n \<le> 122)"

definition is_upper_letter :: "char \<Rightarrow> bool" where
  "is_upper_letter c \<longleftrightarrow> (let n = (of_char c :: nat) in 65 \<le> n \<and> n \<le> 90)"

definition is_alnum :: "char \<Rightarrow> bool" where
  "is_alnum c \<longleftrightarrow> is_lower_or_digit c \<or> is_upper_letter c"

text \<open>\<open>re.sub(r"([a-z0-9])([A-Z])", r"\1_\2", text)\<close>.\<close>

fun split_camel :: "string \<Rightarrow> string" where
  "split_camel (a # b # cs) =
     (if is_lower_or_digit a \<and> is_upper_letter b then a # CHR ''_'' # split_camel (b # cs)
      else a # split_camel (b # cs))"
| "split_camel cs = cs"

text \<open>\<open>re.sub(r"[^0-9A-Za-z]+", "_", text)\<close>; \<open>inside\<close> a run already replaced.\<close>

fun sub_non_alnum :: "bool \<Rightarrow> string \<Rightarrow> string" where
  "sub_non_alnum inside [] = []"
| "sub_non_alnum inside (c # cs) =
     (if is_alnum c then c # sub_non_alnum False cs
      else (if inside then [] else [CHR ''_'']) @ sub_non_alnum True cs)"

definition strip_underscores :: "string \<Rightarrow> string" where
  "strip_underscores s =
     rev (dropWhile (\<lambda>c. c = CHR ''_'') (rev (dropWhile (\<lambda>c. c = CHR ''_'') s)))"

definition normalise_field_key :: "string \<Rightarrow> string" where
  "normalise_field_key value =
     strip_underscores (py_lower (sub_non_alnum False (split_camel (py_strip value))))"

definition canonical_field_value :: "string \<Rightarrow> atlas_error + string" where
  "canonical_field_value value =
     (let key = normalise_field_key value
      in if key \<in> set DEFAULT_REQUIRED_FIELDS then Inr key else Inl ValueError)"

text \<open>\<open>SourceFieldMapper(aliases)\<close>: the normalised alias table; a later key replaces an earlier one.\<close>

fun field_mapper :: "(string \<times> string) list \<Rightarrow> atlas_error + (string \<times> string) list" where
  "field_mapper [] = Inr []"
| "field_mapper ((raw, canonical) # aliases) =
     rbind (canonical_field_value canonical) (\<lambda>c.
       rbind (field_mapper aliases) (\<lambda>m. Inr ((normalise_field_key raw, c) # m)))"

definition map_field_name :: "(string \<times> string) list \<Rightarrow> string \<Rightarrow> string" where
  "map_field_name aliases raw_field_name =
     (let key = normalise_field_key raw_field_name
      in case map_of (rev aliases) key of Some c \<Rightarrow> c | None \<Rightarrow> key)"

definition generic_aliases :: "(string \<times> string) list" where
  "generic_aliases =
     [(''accident_date'', ''event_date''), (''incident_date'', ''event_date''),
      (''eventdate'', ''event_date''), (''tail_number'', ''registration''),
      (''tail_num'', ''registration''), (''tailnumber'', ''registration''),
      (''aircraft_registration'', ''registration''), (''aircraftregistration'', ''registration''),
      (''registration_number'', ''registration''), (''registrationnumber'', ''registration''),
      (''reg'', ''registration''), (''airline_name'', ''operator''), (''operator_name'', ''operator''),
      (''operatorname'', ''operator''), (''aircraft_model'', ''aircraft_type''),
      (''aircraftmodel'', ''aircraft_type''), (''aircraft_make_model'', ''aircraft_type''),
      (''fatalities'', ''fatalities_total''), (''injuries'', ''injuries_total'')]"

section \<open>The normalisers\<close>

definition canonical_name :: "(string \<times> string) list option \<Rightarrow> string \<Rightarrow> string" where
  "canonical_name mapper raw_field_name =
     (case mapper of
        None \<Rightarrow> map_field_name generic_aliases raw_field_name
      | Some m \<Rightarrow>
          let field_name = map_field_name m raw_field_name
          in if field_name = normalise_field_key raw_field_name
             then map_field_name generic_aliases raw_field_name else field_name)"

definition value_or_null :: "claim_item \<Rightarrow> json" where
  "value_or_null claim = (case it_field_value claim of Some v \<Rightarrow> v | None \<Rightarrow> JNull)"

definition is_present_blank :: "(json \<Rightarrow> string) \<Rightarrow> json \<Rightarrow> bool" where
  "is_present_blank rep v \<longleftrightarrow> v \<noteq> JNull \<and> py_strip (py_str rep v) = []"

text \<open>
  The body of the loop of \<open>ExternalSourceNormalizer.normalize\<close>.  A value that cannot be coerced
  rejects the submission when the field decides the event's identity, else it is kept as it is;
  an error other than \<open>NormalizationError\<close> is not caught.
\<close>

definition normalize_claim ::
  "(json \<Rightarrow> string) \<Rightarrow> (string \<Rightarrow> cdate option) \<Rightarrow> (string \<times> string) list option \<Rightarrow> claim_item
     \<Rightarrow> atlas_error + claim_item" where
  "normalize_claim rep dt mapper claim =
     (let field_name = canonical_name mapper (it_field_name claim); value = value_or_null claim
      in case field_coercer rep dt field_name of
          None \<Rightarrow> Inr (claim\<lparr>it_field_name := field_name\<rparr>)
        | Some coercer \<Rightarrow>
            if field_name = ''event_date'' \<and> is_present_blank rep value then Inl NormalizationError
            else case coercer value of
                Inr v \<Rightarrow> Inr (claim\<lparr>it_field_name := field_name, it_field_value := Some v\<rparr>)
              | Inl e \<Rightarrow>
                  if e \<noteq> NormalizationError then Inl e
                  else if field_name = ''event_date'' \<or> field_name = ''registration'' then Inl e
                  else Inr (claim\<lparr>it_field_name := field_name, it_field_value := Some value\<rparr>))"

fun rmap :: "('a \<Rightarrow> 'e + 'b) \<Rightarrow> 'a list \<Rightarrow> 'e + 'b list" where
  "rmap f [] = Inr []"
| "rmap f (x # xs) = rbind (f x) (\<lambda>y. rbind (rmap f xs) (\<lambda>ys. Inr (y # ys)))"

text \<open>\<open>_coerce_kind\<close>: the kind by its value, or by its upper-cased value.\<close>

definition coerce_kind :: "string \<Rightarrow> source_kind option" where
  "coerce_kind s =
     (let k = (\<lambda>t. if t = ''EXTERNAL'' then Some EXTERNAL else if t = ''INTERNAL'' then Some INTERNAL else None)
      in case k s of Some x \<Rightarrow> Some x | None \<Rightarrow> k (py_upper s))"

text \<open>
  \<open>SourceNormalizerRegistry.normalize\<close>; \<open>registered\<close> are the mappers registered in memory.  The
  stored mapping of the source wins over them.
\<close>

definition registry_normalize ::
  "(json \<Rightarrow> string) \<Rightarrow> (string \<Rightarrow> cdate option) \<Rightarrow> (uuid \<rightharpoonup> (string \<times> string) list) \<Rightarrow> string
     \<Rightarrow> claim_item list \<Rightarrow> uuid option \<Rightarrow> (string \<times> string) list \<Rightarrow> atlas_error + claim_item list" where
  "registry_normalize rep dt registered source_kind claims source_id source_field_mapping =
     rbind (if source_field_mapping \<noteq> [] then rbind (field_mapper source_field_mapping) (\<lambda>m. Inr (Some m))
            else Inr (Option.bind source_id registered))
     (\<lambda>mapper. case coerce_kind source_kind of
         Some EXTERNAL \<Rightarrow> rmap (normalize_claim rep dt mapper) claims
       | _ \<Rightarrow> Inr claims)"

definition normalise_claims ::
  "(json \<Rightarrow> string) \<Rightarrow> (string \<Rightarrow> cdate option) \<Rightarrow> (uuid \<rightharpoonup> (string \<times> string) list) \<Rightarrow> string
     \<Rightarrow> claim_item list \<Rightarrow> uuid option \<Rightarrow> (string \<times> string) list \<Rightarrow> atlas_error + claim_item list" where
  "normalise_claims rep dt registered source_kind claims_data source_id source_field_mapping =
     rbind (registry_normalize rep dt registered source_kind claims_data source_id source_field_mapping)
     (\<lambda>normalised. rbind (assert_no_duplicate_fields normalised) (\<lambda>_. Inr normalised))"

text \<open>\<open>register_source_mapper\<close> with a plain mapping.\<close>

definition register_source_mapper ::
  "uuid \<Rightarrow> (string \<times> string) list \<Rightarrow> (uuid \<rightharpoonup> (string \<times> string) list)
     \<Rightarrow> atlas_error + (uuid \<rightharpoonup> (string \<times> string) list)" where
  "register_source_mapper source_id mapper registered =
     rbind (field_mapper mapper) (\<lambda>m. Inr (registered(source_id \<mapsto> m)))"

definition claim_writer_write ::
  "(json \<Rightarrow> string) \<Rightarrow> (string \<Rightarrow> cdate option) \<Rightarrow> (uuid \<rightharpoonup> (string \<times> string) list) \<Rightarrow> time \<Rightarrow> uuid \<Rightarrow> uuid
     \<Rightarrow> uuid \<Rightarrow> string \<Rightarrow> claim_item list \<Rightarrow> uuid \<Rightarrow> string option \<Rightarrow> (string \<times> string) list \<Rightarrow> db
     \<Rightarrow> atlas_error + (claim_write_result \<times> db)" where
  "claim_writer_write rep dt registered now event_id source_id snapshot_id source_kind claims_data
       ingestion_run_id source_record_id source_field_mapping d =
     rbind (normalise_claims rep dt registered source_kind claims_data (Some source_id) source_field_mapping)
     (\<lambda>normalised. write_normalised now event_id source_id snapshot_id normalised ingestion_run_id
                     source_record_id d)"

definition extract_normalised_fields ::
  "(json \<Rightarrow> string) \<Rightarrow> (string \<Rightarrow> cdate option) \<Rightarrow> (uuid \<rightharpoonup> (string \<times> string) list) \<Rightarrow> string
     \<Rightarrow> claim_item list \<Rightarrow> uuid option \<Rightarrow> (string \<times> string) list \<Rightarrow> atlas_error + (string \<times> json) list" where
  "extract_normalised_fields rep dt registered source_kind claims_data source_id source_field_mapping =
     rbind (normalise_claims rep dt registered source_kind claims_data source_id source_field_mapping)
     (\<lambda>normalised. Inr (map (\<lambda>item. (it_field_name item, value_or_null item)) normalised))"

section \<open>Canonical field names\<close>

text \<open>A canonical key: lower-case words and digits, separated by single underscores.\<close>

definition key_chars :: "string \<Rightarrow> bool" where
  "key_chars s \<longleftrightarrow> list_all (\<lambda>c. is_lower_or_digit c \<or> c = CHR ''_'') s
     \<and> successively (\<lambda>a b. \<not> (a = CHR ''_'' \<and> b = CHR ''_'')) s"

definition canonical_key :: "string \<Rightarrow> bool" where
  "canonical_key s \<longleftrightarrow> key_chars s \<and> (s \<noteq> [] \<longrightarrow> hd s \<noteq> CHR ''_'' \<and> last s \<noteq> CHR ''_'')"

lemma char_classes:
  "is_lower_or_digit c \<Longrightarrow> \<not> is_upper_letter c" "is_lower_or_digit c \<Longrightarrow> \<not> py_space c"
  "is_lower_or_digit c \<Longrightarrow> is_alnum c" "is_lower_or_digit c \<Longrightarrow> py_lower_char c = c"
  "\<not> is_alnum CHR ''_''" "\<not> py_space CHR ''_''" "py_lower_char CHR ''_'' = CHR ''_''" "\<not> is_upper_letter CHR ''_''"
  by (auto simp: is_lower_or_digit_def is_upper_letter_def py_space_def is_alnum_def py_digit_def py_lower_char_def Let_def)

lemma is_alnum_lower: "is_alnum c \<Longrightarrow> is_lower_or_digit (py_lower_char c)"
proof -
  assume c: "is_alnum c"
  show ?thesis
  proof (cases "is_lower_or_digit c")
    case True
    then show ?thesis using char_classes(4) by simp
  next
    case False
    then have u: "65 \<le> (of_char c :: nat)" "(of_char c :: nat) \<le> 90"
      using c by (simp_all add: is_alnum_def is_upper_letter_def Let_def)
    then have "(of_char (char_of (of_char c + 32 :: nat) :: char) :: nat) = of_char c + 32" by simp
    then show ?thesis using u by (simp add: is_lower_or_digit_def py_lower_char_def Let_def del: of_char_of)
  qed
qed

lemma sub_non_alnum_chars: "list_all (\<lambda>c. is_alnum c \<or> c = CHR ''_'') (sub_non_alnum inside s)"
  by (induction inside s rule: sub_non_alnum.induct) simp_all

lemma sub_non_alnum_inside: "sub_non_alnum True s = [] \<or> is_alnum (hd (sub_non_alnum True s))"
  by (induction s) simp_all

lemma single_underscores_Cons:
  "successively (\<lambda>a b. \<not> (a = CHR ''_'' \<and> b = CHR ''_'')) xs \<Longrightarrow> c \<noteq> CHR ''_'' \<or> xs = [] \<or> hd xs \<noteq> CHR ''_''
     \<Longrightarrow> successively (\<lambda>a b. \<not> (a = CHR ''_'' \<and> b = CHR ''_'')) (c # xs)"
  by (cases xs) auto

lemma sub_non_alnum_single:
  "successively (\<lambda>a b. \<not> (a = CHR ''_'' \<and> b = CHR ''_'')) (sub_non_alnum inside s)"
proof (induction inside s rule: sub_non_alnum.induct)
  case (2 inside c cs)
  show ?case
  proof (cases "is_alnum c")
    case True
    then have "c \<noteq> CHR ''_''" using char_classes(5) by metis
    then show ?thesis using True "2.IH"(1) single_underscores_Cons by simp
  next
    case False
    have "sub_non_alnum True cs = [] \<or> hd (sub_non_alnum True cs) \<noteq> CHR ''_''"
      using sub_non_alnum_inside [of cs] char_classes(5) by metis
    then show ?thesis using False "2.IH"(2) single_underscores_Cons by simp
  qed
qed simp

lemma key_chars_lower_sub: "key_chars (py_lower (sub_non_alnum b s))"
proof -
  let ?t = "sub_non_alnum b s"
  have t: "list_all (\<lambda>c. is_alnum c \<or> c = CHR ''_'') ?t" by (rule sub_non_alnum_chars)
  have low: "is_alnum c \<Longrightarrow> py_lower_char c \<noteq> CHR ''_''" for c
    using is_alnum_lower [of c] by (auto simp: is_lower_or_digit_def py_digit_def)
  have "list_all (\<lambda>c. is_lower_or_digit c \<or> c = CHR ''_'') (py_lower ?t)"
    using t is_alnum_lower char_classes(7) by (auto simp: py_lower_def list_all_iff)
  moreover have "successively (\<lambda>a b. \<not> (a = CHR ''_'' \<and> b = CHR ''_'')) (py_lower ?t)"
    unfolding py_lower_def successively_map
    by (rule successively_mono [OF sub_non_alnum_single]) (use t low in \<open>auto simp: list_all_iff\<close>)
  ultimately show ?thesis by (simp add: key_chars_def)
qed

lemma key_chars_append: "key_chars (a @ b) \<Longrightarrow> key_chars a \<and> key_chars b"
  by (auto simp: key_chars_def successively_append_iff)

lemma strip_both_ends:
  assumes "a = dropWhile P s" "r = rev (dropWhile P (rev a))" "r \<noteq> []"
  shows "\<not> P (hd r)" "\<not> P (last r)"
proof -
  have a: "a = r @ rev (takeWhile P (rev a))"
    unfolding assms(2) rev_append [symmetric] takeWhile_dropWhile_id by simp
  then have "hd a = hd r" using assms(3) hd_append2 by metis
  moreover have "a \<noteq> []" using a assms(3) by auto
  ultimately show "\<not> P (hd r)" unfolding assms(1) using hd_dropWhile by metis
  have "dropWhile P (rev a) \<noteq> []" using assms(2,3) by simp
  then show "\<not> P (last r)" unfolding assms(2) last_rev by (rule hd_dropWhile)
qed

lemma strip_underscores_canonical:
  assumes "key_chars s"
  shows "canonical_key (strip_underscores s)"
proof -
  define a where "a = dropWhile (\<lambda>c. c = CHR ''_'') s"
  define r where "r = rev (dropWhile (\<lambda>c. c = CHR ''_'') (rev a))"
  have "s = takeWhile (\<lambda>c. c = CHR ''_'') s @ a" by (simp add: a_def)
  then have "key_chars a" using assms key_chars_append by metis
  moreover have "a = r @ rev (takeWhile (\<lambda>c. c = CHR ''_'') (rev a))"
    unfolding r_def rev_append [symmetric] takeWhile_dropWhile_id by simp
  ultimately have "key_chars r" using key_chars_append by metis
  moreover have "r \<noteq> [] \<longrightarrow> hd r \<noteq> CHR ''_'' \<and> last r \<noteq> CHR ''_''"
    using strip_both_ends [OF a_def r_def] by blast
  ultimately show ?thesis by (simp add: canonical_key_def strip_underscores_def r_def a_def)
qed

lemma canonical_key_normalise: "canonical_key (normalise_field_key s)"
  unfolding normalise_field_key_def by (intro strip_underscores_canonical key_chars_lower_sub)

lemma split_camel_id: "list_all (\<lambda>c. \<not> is_upper_letter c) s \<Longrightarrow> split_camel s = s"
  by (induction s rule: split_camel.induct) auto

lemma sub_non_alnum_id:
  "key_chars s \<Longrightarrow> (inside \<longrightarrow> s = [] \<or> hd s \<noteq> CHR ''_'') \<Longrightarrow> sub_non_alnum inside s = s"
proof (induction inside s rule: sub_non_alnum.induct)
  case (2 inside c cs)
  have cs: "key_chars cs" using "2.prems"(1) key_chars_append [of "[c]" cs] by simp
  have "is_lower_or_digit c \<or> c = CHR ''_''" using "2.prems"(1) by (simp add: key_chars_def)
  moreover have "c = CHR ''_'' \<Longrightarrow> cs = [] \<or> hd cs \<noteq> CHR ''_''"
    using "2.prems"(1) by (cases cs) (auto simp: key_chars_def)
  ultimately show ?case using 2 cs char_classes(3,5) by auto
qed simp

text \<open>Normalising a name twice changes nothing more.\<close>

lemma normalise_canonical_key:
  assumes "canonical_key s"
  shows "normalise_field_key s = s"
proof -
  have ch: "c \<in> set s \<Longrightarrow> is_lower_or_digit c \<or> c = CHR ''_''" for c
    using assms by (auto simp: canonical_key_def key_chars_def list_all_iff)
  have sp: "c \<in> set s \<Longrightarrow> \<not> py_space c" for c using ch char_classes(2,6) by blast
  have "dropWhile py_space xs = xs" if "set xs \<subseteq> set s" for xs using that sp by (cases xs) auto
  then have strip: "py_strip s = s" by (simp add: py_strip_def py_lstrip_def)
  have camel: "split_camel s = s"
    by (rule split_camel_id) (use ch char_classes(1,8) in \<open>auto simp: list_all_iff\<close>)
  have sub: "sub_non_alnum False s = s" by (rule sub_non_alnum_id) (use assms in \<open>simp_all add: canonical_key_def\<close>)
  have low: "py_lower s = s" unfolding py_lower_def by (rule map_idI) (use ch char_classes(4,7) in auto)
  have "dropWhile (\<lambda>c. c = CHR ''_'') s = s" using assms by (cases s) (auto simp: canonical_key_def)
  moreover have "dropWhile (\<lambda>c. c = CHR ''_'') (rev s) = rev s"
    using assms by (cases "rev s") (auto simp: canonical_key_def hd_rev [symmetric])
  ultimately have "strip_underscores s = s" by (simp add: strip_underscores_def)
  then show ?thesis unfolding normalise_field_key_def strip camel sub low .
qed
section \<open>Typed claims\<close>

text \<open>What a normalised claim may hold, by field.\<close>

definition clean_text :: "(string \<Rightarrow> string) \<Rightarrow> json option \<Rightarrow> bool" where
  "clean_text f v \<longleftrightarrow> (case v of
       Some JNull \<Rightarrow> True
     | Some (JStr s) \<Rightarrow> s \<noteq> [] \<and> collapse_ws s = s \<and> f s = s
     | _ \<Rightarrow> False)"

definition iso_date_text :: "json option \<Rightarrow> bool" where
  "iso_date_text v \<longleftrightarrow> (case v of
       Some JNull \<Rightarrow> True
     | Some (JStr s) \<Rightarrow> (case iso_date s of Some t \<Rightarrow> date_isoformat t = s | None \<Rightarrow> False)
     | _ \<Rightarrow> False)"

definition count_or_raw :: "(json \<Rightarrow> string) \<Rightarrow> json option \<Rightarrow> bool" where
  "count_or_raw rep v \<longleftrightarrow> (case v of
       None \<Rightarrow> False
     | Some JNull \<Rightarrow> True
     | Some x \<Rightarrow> (case x of JInt i \<Rightarrow> 0 \<le> i | _ \<Rightarrow> False)
         \<or> coerce_non_negative_int rep x = Inl NormalizationError)"

definition typed_claim :: "(json \<Rightarrow> string) \<Rightarrow> claim_item \<Rightarrow> bool" where
  "typed_claim rep n \<longleftrightarrow>
     (let f = it_field_name n; v = it_field_value n
      in if f = ''event_date'' then iso_date_text v
         else if f = ''registration'' then clean_text py_upper v
         else if f = ''flight_phase'' then clean_text py_lower v
         else if f = ''fatalities_total'' \<or> f = ''injuries_total'' then count_or_raw rep v
         else if f = ''location'' \<or> f = ''aircraft_type'' \<or> f = ''operator'' \<or> f = ''narrative''
           then clean_text (\<lambda>s. s) v
         else True)"

lemma py_case_space [simp]:
  "py_space (py_upper_char c) = py_space c" "py_space (py_lower_char c) = py_space c"
  by (auto simp: py_space_def py_upper_char_def py_lower_char_def Let_def)

lemma py_case_idem [simp]:
  "py_upper_char (py_upper_char c) = py_upper_char c" "py_lower_char (py_lower_char c) = py_lower_char c"
  by (auto simp: py_upper_char_def py_lower_char_def Let_def)

lemma py_case_blank [simp]: "py_upper_char CHR '' '' = CHR '' ''" "py_lower_char CHR '' '' = CHR '' ''"
  by (simp_all add: py_upper_char_def py_lower_char_def)

lemma map_join_space: "f CHR '' '' = CHR '' '' \<Longrightarrow> map f (join_space ws) = join_space (map (map f) ws)"
  by (induction ws rule: join_space.induct) simp_all

lemma collapse_ws_map:
  assumes "f CHR '' '' = CHR '' ''" and "\<And>c. py_space (f c) = py_space c"
  shows "collapse_ws (map f (collapse_ws s)) = map f (collapse_ws s)"
proof -
  define ws where "ws = map (map f) (py_split (py_strip s))"
  have ok: "\<forall>w \<in> set ws. w \<noteq> [] \<and> (\<forall>c \<in> set w. \<not> py_space c)"
    using py_split_words assms(2) by (fastforce simp: ws_def)
  have "map f (collapse_ws s) = join_space ws"
    using map_join_space [of f] assms(1) by (simp add: collapse_ws_def ws_def)
  then show ?thesis using strip_join [OF ok] py_split_acc_join [OF ok] by (simp add: collapse_ws_def py_split_def)
qed

lemma coerced_text_clean:
  "clean_text (\<lambda>s. s) (Some (opt_str (coerce_text rep v)))"
  "clean_text py_upper (Some (opt_str (map_option py_upper (coerce_text rep v))))"
  "clean_text py_lower (Some (opt_str (map_option py_lower (coerce_text rep v))))"
  by (auto simp: clean_text_def opt_str_def coerce_text_def Let_def py_upper_def py_lower_def collapse_ws_idem collapse_ws_map)

lemma iso_date_text_isoformat: "valid_date t \<Longrightarrow> iso_date_text (Some (JStr (date_isoformat t)))"
  by (simp add: iso_date_text_def iso_date_isoformat)

lemma coerce_date_typed:
  assumes dt: "\<And>s t. dt s = Some t \<Longrightarrow> valid_date t" and r: "coerce_date rep dt v = Inr w"
  shows "iso_date_text (Some w)"
proof -
  have make: "make_date y m d = Some t \<Longrightarrow> valid_date t" for y m d t
    by (simp add: make_date_def split: if_splits)
  consider "w = JNull" | t where "w = JStr (date_isoformat t)" "valid_date t"
    using r dt iso_date_valid make
    by (auto simp: coerce_date_def Let_def split: if_splits option.splits)
  then show ?thesis using iso_date_text_isoformat by cases (auto simp: iso_date_text_def)
qed

lemma coerce_date_error: "coerce_date rep dt v = Inl e \<Longrightarrow> e = NormalizationError"
  by (auto simp: coerce_date_def Let_def split: if_splits option.splits)

lemma coerce_count_typed: "coerce_non_negative_int rep v = Inr w \<Longrightarrow> count_or_raw rep (Some w)"
  by (auto simp: coerce_non_negative_int_def count_or_raw_def Let_def split: if_splits option.splits sum.splits)

lemma count_or_raw_kept: "coerce_non_negative_int rep v = Inl NormalizationError \<Longrightarrow> count_or_raw rep (Some v)"
  by (cases v) (auto simp: count_or_raw_def)

lemma field_mapper_targets: "field_mapper a = Inr m \<Longrightarrow> snd ` set m \<subseteq> set DEFAULT_REQUIRED_FIELDS"
  by (induction a arbitrary: m rule: field_mapper.induct)
    (force simp: canonical_field_value_def Let_def split: if_splits)+

lemma required_fields_canonical: "f \<in> set DEFAULT_REQUIRED_FIELDS \<Longrightarrow> normalise_field_key f = f"
proof -
  have "list_all (\<lambda>f. normalise_field_key f = f) DEFAULT_REQUIRED_FIELDS" by code_simp
  then show "f \<in> set DEFAULT_REQUIRED_FIELDS \<Longrightarrow> normalise_field_key f = f" by (simp add: list_all_iff)
qed

lemma map_field_name_canonical:
  assumes "snd ` set m \<subseteq> set DEFAULT_REQUIRED_FIELDS"
  shows "normalise_field_key (map_field_name m raw) = map_field_name m raw"
proof (cases "map_of (rev m) (normalise_field_key raw)")
  case None
  then show ?thesis
    using normalise_canonical_key [OF canonical_key_normalise] by (simp add: map_field_name_def Let_def)
next
  case (Some c)
  then have "c \<in> snd ` set m" using map_of_SomeD [OF Some] by force
  then show ?thesis using Some assms required_fields_canonical by (auto simp: map_field_name_def Let_def)
qed

lemma generic_aliases_targets: "snd ` set generic_aliases \<subseteq> set DEFAULT_REQUIRED_FIELDS"
proof -
  have "list_all (\<lambda>p. snd p \<in> set DEFAULT_REQUIRED_FIELDS) generic_aliases" by code_simp
  then show ?thesis by (auto simp: list_all_iff)
qed

lemma canonical_name_canonical:
  assumes "\<And>m. mapper = Some m \<Longrightarrow> snd ` set m \<subseteq> set DEFAULT_REQUIRED_FIELDS"
  shows "normalise_field_key (canonical_name mapper raw) = canonical_name mapper raw"
  using assms map_field_name_canonical generic_aliases_targets
  by (auto simp: canonical_name_def Let_def split: option.splits)

lemma typed_claim_field [simp]:
  "it_field_name n = ''event_date'' \<Longrightarrow> typed_claim rep n = iso_date_text (it_field_value n)"
  "it_field_name n = ''registration'' \<Longrightarrow> typed_claim rep n = clean_text py_upper (it_field_value n)"
  "it_field_name n = ''flight_phase'' \<Longrightarrow> typed_claim rep n = clean_text py_lower (it_field_value n)"
  "it_field_name n = ''fatalities_total'' \<Longrightarrow> typed_claim rep n = count_or_raw rep (it_field_value n)"
  "it_field_name n = ''injuries_total'' \<Longrightarrow> typed_claim rep n = count_or_raw rep (it_field_value n)"
  "it_field_name n \<in> {''location'', ''aircraft_type'', ''operator'', ''narrative''}
     \<Longrightarrow> typed_claim rep n = clean_text (\<lambda>s. s) (it_field_value n)"
  by (auto simp: typed_claim_def Let_def)

lemma typed_claim_other: "field_coercer rep dt (it_field_name n) = None \<Longrightarrow> typed_claim rep n"
  by (simp add: field_coercer_def typed_claim_def Let_def split: if_splits)

lemma normalize_claim_typed:
  assumes dt: "\<And>s t. dt s = Some t \<Longrightarrow> valid_date t" and r: "normalize_claim rep dt mapper c = Inr n"
  shows "it_field_name n = canonical_name mapper (it_field_name c) \<and> typed_claim rep n"
proof -
  define f v where "f = canonical_name mapper (it_field_name c)" and "v = value_or_null c"
  note body = r [unfolded normalize_claim_def Let_def f_def [symmetric] v_def [symmetric]]
  show ?thesis
  proof (cases "field_coercer rep dt f")
    case None
    then have "n = c\<lparr>it_field_name := f\<rparr>" using body by simp
    then show ?thesis using typed_claim_other [of rep dt n] None by (simp add: f_def)
  next
    case (Some co)
    consider w where "co v = Inr w" "n = c\<lparr>it_field_name := f, it_field_value := Some w\<rparr>"
      | "co v = Inl NormalizationError" "f \<noteq> ''event_date''" "f \<noteq> ''registration''"
        "n = c\<lparr>it_field_name := f, it_field_value := Some v\<rparr>"
      using body Some by (auto split: if_splits sum.splits)
    then show ?thesis
    proof cases
      case 1
      then show ?thesis
        using Some coerce_date_typed [OF dt] coerce_count_typed coerced_text_clean
        by (auto simp: f_def field_coercer_def coerce_string_def coerce_registration_def coerce_flight_phase_def
            split: if_splits)
    next
      case 2
      then show ?thesis
        using Some count_or_raw_kept
        by (auto simp: f_def field_coercer_def coerce_string_def coerce_registration_def coerce_flight_phase_def
            split: if_splits)
    qed
  qed
qed

lemma rmap_Inr_iff: "rmap f xs = Inr ys \<longleftrightarrow> list_all2 (\<lambda>x y. f x = Inr y) xs ys"
proof (induction xs arbitrary: ys)
  case (Cons x xs)
  then show ?case by (cases ys) auto
qed auto

lemma list_all2_source: "list_all2 P xs ys \<Longrightarrow> y \<in> set ys \<Longrightarrow> \<exists>x. P x y"
  by (induction xs ys rule: list_all2_induct) auto

lemma case_Inr_E: "(case r of Inl _ \<Rightarrow> False | Inr x \<Rightarrow> P x) \<Longrightarrow> \<exists>x. r = Inr x \<and> P x"
  by (cases r) simp_all

lemma registry_normalize_external:
  assumes "\<forall>u m. registered u = Some m \<longrightarrow> (\<exists>a. field_mapper a = Inr m)"
    and "coerce_kind kind = Some EXTERNAL"
    and "registry_normalize rep dt registered kind claims sid mapping = Inr ns"
  shows "\<exists>mapper. (\<forall>m. mapper = Some m \<longrightarrow> snd ` set m \<subseteq> set DEFAULT_REQUIRED_FIELDS)
    \<and> list_all2 (\<lambda>c n. normalize_claim rep dt mapper c = Inr n) claims ns"
proof -
  obtain mapper where m: "(if mapping \<noteq> [] then rbind (field_mapper mapping) (\<lambda>m. Inr (Some m))
        else Inr (Option.bind sid registered)) = Inr mapper"
    and n: "rmap (normalize_claim rep dt mapper) claims = Inr ns"
    using assms(2,3) by (auto simp: registry_normalize_def)
  have "\<exists>a. field_mapper a = Inr x" if "mapper = Some x" for x
    using m that assms(1) by (auto split: if_splits bind_splits)
  then have "snd ` set x \<subseteq> set DEFAULT_REQUIRED_FIELDS" if "mapper = Some x" for x
    using that field_mapper_targets by metis
  then show ?thesis using n [unfolded rmap_Inr_iff] by blast
qed

text \<open>C24: Every claim of an external source that the normaliser lets through has a canonical field
  name, no two of them share one, and its value has the type of its field: an event date is an
  ISO date or null, a registration is upper-case text without surplus space, a count is a
  non-negative integer or the submitted value that is none.\<close>

theorem normalised_claims_typed:
  assumes "\<And>s t. dt s = Some t \<Longrightarrow> valid_date t"
    and "\<And>u m. registered u = Some m \<Longrightarrow> \<exists>aliases. field_mapper aliases = Inr m"
    and "coerce_kind source_kind = Some EXTERNAL"
    and "normalise_claims rep dt registered source_kind claims_data source_id source_field_mapping = Inr ns"
  shows "length ns = length claims_data \<and> distinct (map it_field_name ns)
    \<and> (\<forall>n \<in> set ns. normalise_field_key (it_field_name n) = it_field_name n \<and> typed_claim rep n)"
proof -
  have reg: "registry_normalize rep dt registered source_kind claims_data source_id source_field_mapping = Inr ns"
    and dist: "distinct (map it_field_name ns)"
    using assms(4) by (auto simp: normalise_claims_def)
  have mappers: "\<forall>u m. registered u = Some m \<longrightarrow> (\<exists>a. field_mapper a = Inr m)" using assms(2) by blast
  obtain mapper where m: "\<forall>m. mapper = Some m \<longrightarrow> snd ` set m \<subseteq> set DEFAULT_REQUIRED_FIELDS"
    and all: "list_all2 (\<lambda>c n. normalize_claim rep dt mapper c = Inr n) claims_data ns"
    using registry_normalize_external [OF mappers assms(3) reg] by (elim exE conjE) (rule that)
  have "normalise_field_key (it_field_name n) = it_field_name n \<and> typed_claim rep n" if n: "n \<in> set ns" for n
  proof -
    obtain c where "normalize_claim rep dt mapper c = Inr n" using list_all2_source [OF all n] by blast
    then have "it_field_name n = canonical_name mapper (it_field_name c) \<and> typed_claim rep n"
      by (rule normalize_claim_typed [rotated]) (rule assms(1))
    then have n: "it_field_name n = canonical_name mapper (it_field_name c)" "typed_claim rep n"
      by (rule conjunct1, rule conjunct2)
    have "normalise_field_key (it_field_name n) = it_field_name n"
      unfolding n(1) by (rule canonical_name_canonical) (rule m [rule_format])
    then show ?thesis using n(2) by blast
  qed
  then show ?thesis using dist list_all2_lengthD [OF all] by simp
qed

definition sample_items :: "claim_item list" where
  "sample_items =
     [\<lparr>it_field_name = ''Accident Date'', it_field_value = Some (JStr ''2024/6/3'')\<rparr>,
      \<lparr>it_field_name = ''tailNumber'', it_field_value = Some (JStr '' n12  ab'')\<rparr>,
      \<lparr>it_field_name = ''crew'', it_field_value = Some (JStr ''4'')\<rparr>]"

definition sample_normalised :: "claim_item list" where
  "sample_normalised =
     [\<lparr>it_field_name = ''event_date'', it_field_value = Some (JStr ''2024-06-03'')\<rparr>,
      \<lparr>it_field_name = ''registration'', it_field_value = Some (JStr ''N12 AB'')\<rparr>,
      \<lparr>it_field_name = ''injuries_total'', it_field_value = Some (JInt 4)\<rparr>]"

lemma sample_item_normalises:
  "i < 3 \<Longrightarrow> normalize_claim (\<lambda>_. []) (\<lambda>_. None) (Some [(''crew'', ''injuries_total'')]) (sample_items ! i)
     = Inr (sample_normalised ! i)"
proof -
  let ?f = "normalize_claim (\<lambda>_. []) (\<lambda>_. None) (Some [(''crew'', ''injuries_total'')])"
  have a: "?f (sample_items ! 0) = Inr (sample_normalised ! 0)" by code_simp
  have b: "?f (sample_items ! 1) = Inr (sample_normalised ! 1)" by code_simp
  have k: "normalise_field_key ''crew'' = ''crew''" by code_simp
  have n: "canonical_name (Some [(''crew'', ''injuries_total'')]) ''crew'' = ''injuries_total''"
    by (simp add: canonical_name_def map_field_name_def k)
  have q: "py_strip ''4'' = ''4''" "split_sign ''4'' = (1, ''4'')" "py_lower ''4'' = ''4''" "unsigned_decimal ''4'' = Some 4"
    by code_simp+
  have "py_float ''4'' = Some (Fin 4)" using to_float_of_int [of 4] by (simp add: py_float_def q)
  then have v: "coerce_non_negative_int (\<lambda>_. []) (JStr ''4'') = Inr (JInt 4)"
    by (simp add: coerce_non_negative_int_def q int_of_float_def)
  have c: "?f (sample_items ! 2) = Inr (sample_normalised ! 2)"
    by (simp add: normalize_claim_def sample_items_def sample_normalised_def n v field_coercer_def value_or_null_def
        del: typed_claim_field)
  assume "i < 3"
  then have "i = 0 \<or> i = 1 \<or> i = 2" by linarith
  then show ?thesis
  proof (elim disjE)
    assume "i = 0" then show ?thesis using a by (simp only:)
  next
    assume "i = 1" then show ?thesis using b by (simp only:)
  next
    assume "i = 2" then show ?thesis using c by (simp only:)
  qed
qed

lemma sample_normalises:
  "normalise_claims (\<lambda>_. []) (\<lambda>_. None) (\<lambda>_. None) ''external'' sample_items None [(''crew'', ''injuries_total'')]
     = Inr sample_normalised"
proof -
  have m: "field_mapper [(''crew'', ''injuries_total'')] = Inr [(''crew'', ''injuries_total'')]" by code_simp
  have k: "coerce_kind ''external'' = Some EXTERNAL" by code_simp
  have len: "length sample_items = 3" "length sample_normalised = 3"
    by (simp_all add: sample_items_def sample_normalised_def)
  have "rmap (normalize_claim (\<lambda>_. []) (\<lambda>_. None) (Some [(''crew'', ''injuries_total'')])) sample_items
      = Inr sample_normalised"
    unfolding rmap_Inr_iff list_all2_conv_all_nth using sample_item_normalises len by simp
  moreover have "assert_no_duplicate_fields sample_normalised = Inr ()" by code_simp
  ultimately show ?thesis
    unfolding normalise_claims_def registry_normalize_def m k by (simp only: rbind.simps list.distinct if_True not_False_eq_True option.case source_kind.case)
qed

theorem normalised_claims_typed_witness:
  "length sample_normalised = length sample_items \<and> distinct (map it_field_name sample_normalised)
    \<and> list_all (\<lambda>n. normalise_field_key (it_field_name n) = it_field_name n \<and> typed_claim (\<lambda>_. []) n)
        sample_normalised"
proof -
  have k: "coerce_kind ''external'' = Some EXTERNAL" by code_simp
  show ?thesis
    unfolding list_all_iff by (rule normalised_claims_typed [OF _ _ k sample_normalises]) simp_all
qed

end
