(* ===== verification/Event_Matching.thy ===== *)
theory Event_Matching
  imports Source_Normalizer Event_Identity
begin

text \<open>
  \<open>domain/services/event_matching.py\<close>: the weighted score of submitted fields against a row of the
  identity index and the decision to attach, to ask a curator or to create a new event.  Scores are
  binary64 numbers; each operation of the source is rounded with \<open>fl\<close>.  Submitted values are JSON,
  the fields of an identity row are text.
\<close>

section \<open>Normalisation\<close>

definition HIGH_CONFIDENCE :: rat where
  "HIGH_CONFIDENCE = 3 / 4"

definition UNCERTAIN_LOW :: rat where
  "UNCERTAIN_LOW = fl (2 / 5)"

definition match_weights :: "(string \<times> rat) list" where
  "match_weights =
     [(''registration'', fl (45 / 100)), (''event_date'', fl (30 / 100)), (''operator'', fl (10 / 100)),
      (''location'', fl (8 / 100)), (''aircraft_type'', fl (7 / 100))]"

definition norm_text :: "string \<Rightarrow> string" where
  "norm_text s = sub_spaces (py_strip (py_lower s))"

text \<open>\<open>_norm\<close> of a JSON value.\<close>

definition norm_value :: "(json \<Rightarrow> string) \<Rightarrow> json \<Rightarrow> string" where
  "norm_value rep v = (if v = JNull then [] else norm_text (py_str rep v))"

text \<open>\<open>_norm_date\<close> of text: \<open>YYYY-MM-DD\<close> with \<open>-\<close> or \<open>/\<close>, else whatever \<open>date.fromisoformat\<close> reads.\<close>

definition dash_or_slash :: "char \<Rightarrow> bool" where
  "dash_or_slash c \<longleftrightarrow> c = CHR ''-'' \<or> c = CHR ''/''"

definition year_first_shape :: "string \<Rightarrow> bool" where
  "year_first_shape s \<longleftrightarrow> length s = 10 \<and> list_all py_digit (take 4 s) \<and> dash_or_slash (s ! 4)
     \<and> list_all py_digit (take 2 (drop 5 s)) \<and> dash_or_slash (s ! 7) \<and> list_all py_digit (drop 8 s)"

definition norm_date :: "string \<Rightarrow> string" where
  "norm_date v =
     (let s = norm_text v
      in if year_first_shape s
         then (let candidate = take 4 s @ ''-'' @ take 2 (drop 5 s) @ ''-'' @ drop 8 s
               in if iso_date candidate = None then [] else candidate)
         else (case iso_date s of Some t \<Rightarrow> date_isoformat t | None \<Rightarrow> []))"

section \<open>Scores\<close>

definition date_score :: "string \<Rightarrow> string \<Rightarrow> rat" where
  "date_score a b =
     (if a = [] \<or> b = [] then 0
      else if a = b then 1
      else case (iso_date a, iso_date b) of
          (Some da, Some db) \<Rightarrow> if next_day da = Some db \<or> next_day db = Some da then 1 / 2 else 0
        | _ \<Rightarrow> 0)"

text \<open>\<open>len(ta & tb) / len(ta | tb)\<close> on the sets of tokens.\<close>

definition token_overlap :: "string \<Rightarrow> string \<Rightarrow> rat" where
  "token_overlap a b =
     (if a = [] \<or> b = [] then 0
      else let ta = py_split a; tb = py_split b
      in if ta = [] \<or> tb = [] then 0
         else fl (of_nat (card (set ta \<inter> set tb)) / of_nat (card (set ta \<union> set tb))))"

definition field_score :: "string \<Rightarrow> string \<Rightarrow> string \<Rightarrow> rat" where
  "field_score field_name iv cv =
     (if iv = [] \<or> cv = [] then 0
      else if field_name = ''event_date'' then date_score (norm_date iv) (norm_date cv)
      else if field_name = ''registration'' then
        (if strip_separators iv = strip_separators cv then 1 else 0)
      else token_overlap iv cv)"

record match_result =
  mr_score :: rat
  mr_matched_fields :: "string list"
  mr_candidate_event_id :: "uuid option"
  mr_ambiguous_tie :: bool
  mr_tied_candidate_event_ids :: "uuid list"

text \<open>The values the loop of \<open>score_match\<close> compares.\<close>

definition incoming_norm :: "(json \<Rightarrow> string) \<Rightarrow> (string \<times> json) list \<Rightarrow> string \<Rightarrow> string" where
  "incoming_norm rep incoming f = (case map_of incoming f of Some v \<Rightarrow> norm_value rep v | None \<Rightarrow> [])"

definition candidate_norm :: "(string \<times> string) list \<Rightarrow> string \<Rightarrow> string" where
  "candidate_norm scalars f = (case map_of scalars f of Some v \<Rightarrow> norm_text v | None \<Rightarrow> [])"

definition score_step ::
  "(string \<Rightarrow> rat) \<Rightarrow> string \<times> rat \<Rightarrow> rat \<times> string list \<Rightarrow> rat \<times> string list" where
  "score_step fs fw st =
     (case fw of (fname, weight) \<Rightarrow>
        (fl (fst st + fl (weight * fs fname)),
         if 0 < fs fname then snd st @ [fname] else snd st))"

text \<open>Python's truth value of a JSON value; every container but the empty one is true.\<close>

fun json_truthy :: "json \<Rightarrow> bool" where
  "json_truthy JNull = False"
| "json_truthy (JBool b) = b"
| "json_truthy (JInt i) = (i \<noteq> 0)"
| "json_truthy (JFloat q) = (q \<noteq> 0)"
| "json_truthy (JStr s) = (s \<noteq> [])"
| "json_truthy (JList xs) = (xs \<noteq> [])"
| "json_truthy (JDict kvs) = (kvs \<noteq> [])"

definition alias_hit :: "(json \<Rightarrow> string) \<Rightarrow> (string \<times> json) list \<Rightarrow> string list \<Rightarrow> bool" where
  "alias_hit rep incoming aliases =
     (aliases \<noteq> [] \<and>
      (case map_of incoming ''registration'' of
         None \<Rightarrow> False
       | Some inc_reg \<Rightarrow>
           json_truthy inc_reg
           \<and> (let iv_norm = strip_separators (norm_value rep inc_reg)
              in iv_norm \<noteq> [] \<and> iv_norm \<in> set aliases)))"

definition score_match ::
  "(json \<Rightarrow> string) \<Rightarrow> (string \<times> json) list \<Rightarrow> identity_fields \<Rightarrow> rat \<times> string list" where
  "score_match rep incoming_fields candidate =
     (let fs = (\<lambda>f. field_score f (incoming_norm rep incoming_fields f) (candidate_norm (if_scalars candidate) f));
          (total, matched) = fold (score_step fs) match_weights (0, []);
          (total, matched) =
            (if ''registration'' \<notin> set matched
                \<and> alias_hit rep incoming_fields (if_registration_norms candidate)
             then (py_round4 (fl (total + fl (1 / 2 * fl (45 / 100)))), matched @ [''registration_alias''])
             else (total, matched))
      in (py_round4 total, matched))"

section \<open>The matcher\<close>

text \<open>The body of the loop of \<open>best_match\<close>: the best result so far and the tied candidates.\<close>

definition best_step ::
  "(event_identity_index \<Rightarrow> rat \<times> string list) \<Rightarrow> event_identity_index \<Rightarrow> match_result \<times> uuid list
     \<Rightarrow> match_result \<times> uuid list" where
  "best_step score candidate st =
     (let (best, tied) = st; (s, matched) = score candidate
      in if mr_score best < s
         then (\<lparr>mr_score = s, mr_matched_fields = matched,
                mr_candidate_event_id = Some (ii_event_id candidate), mr_ambiguous_tie = False,
                mr_tied_candidate_event_ids = []\<rparr>, [ii_event_id candidate])
         else if s = mr_score best \<and> 0 < s
         then (best, (if tied = [] then option_array (mr_candidate_event_id best) else tied)
                       @ [ii_event_id candidate])
         else (best, tied))"

definition no_match :: match_result where
  "no_match = \<lparr>mr_score = 0, mr_matched_fields = [], mr_candidate_event_id = None,
     mr_ambiguous_tie = False, mr_tied_candidate_event_ids = []\<rparr>"

definition best_match ::
  "rat \<Rightarrow> (event_identity_index \<Rightarrow> rat \<times> string list) \<Rightarrow> event_identity_index list \<Rightarrow> match_result" where
  "best_match uncertain score candidates =
     (let (best, tied) = fold (best_step score) candidates (no_match, [])
      in if 1 < length tied \<and> uncertain \<le> mr_score best
         then best\<lparr>mr_ambiguous_tie := True, mr_tied_candidate_event_ids := dict_fromkeys tied\<rparr>
         else best)"

datatype match_action = Attach | Review | New_Event

record match_decision =
  md_action :: match_action
  md_score :: rat
  md_matched_fields :: "string list"
  md_candidate_event_id :: "uuid option"
  md_tied_candidate_event_ids :: "uuid list"

definition decide_match ::
  "rat \<Rightarrow> rat \<Rightarrow> (event_identity_index \<Rightarrow> rat \<times> string list) \<Rightarrow> event_identity_index list
     \<Rightarrow> match_decision" where
  "decide_match high uncertain score candidates =
     (let m = best_match uncertain score candidates
      in if high \<le> mr_score m \<and> \<not> mr_ambiguous_tie m
         then \<lparr>md_action = Attach, md_score = mr_score m, md_matched_fields = mr_matched_fields m,
               md_candidate_event_id = mr_candidate_event_id m,
               md_tied_candidate_event_ids = mr_tied_candidate_event_ids m\<rparr>
         else if uncertain \<le> mr_score m
         then \<lparr>md_action = Review, md_score = mr_score m, md_matched_fields = mr_matched_fields m,
               md_candidate_event_id = mr_candidate_event_id m,
               md_tied_candidate_event_ids = mr_tied_candidate_event_ids m\<rparr>
         else \<lparr>md_action = New_Event, md_score = mr_score m, md_matched_fields = mr_matched_fields m,
               md_candidate_event_id = None, md_tied_candidate_event_ids = []\<rparr>)"

text \<open>\<open>EventMatcher().decide\<close> with the default thresholds.\<close>

definition decide ::
  "(json \<Rightarrow> string) \<Rightarrow> (string \<times> json) list \<Rightarrow> event_identity_index list \<Rightarrow> match_decision" where
  "decide rep incoming_fields candidates =
     decide_match HIGH_CONFIDENCE UNCERTAIN_LOW
       (\<lambda>c. score_match rep incoming_fields (identity_fields_of c)) candidates"
section \<open>Scores lie between 0 and 1\<close>

text \<open>A crude bound on the rounding error, enough for sums of a few terms.\<close>

lemma fl_close:
  assumes "0 \<le> q" and "q < 2"
  shows "\<bar>fl q - q\<bar> \<le> 1 / 1000000" "fl q \<le> q + 1 / 1000000"
proof -
  have "\<bar>q\<bar> < exp2 1" using assms by (simp add: exp2_def)
  then have "\<bar>fl q - q\<bar> \<le> exp2 (1 - 54)" by (rule fl_error) simp
  also have "\<dots> \<le> 1 / 1000000" by (simp add: exp2_def)
  finally show "\<bar>fl q - q\<bar> \<le> 1 / 1000000" .
  from abs_le_D1 [OF this] show "fl q \<le> q + 1 / 1000000" by linarith
qed

lemma score_add_close:
  assumes "0 \<le> t" "t \<le> 13 / 10" "0 \<le> w" "w \<le> 1 / 2" "0 \<le> f" "f \<le> 1"
  shows "\<bar>fl (t + fl (fl w * f)) - (t + w * f)\<bar> \<le> 3 / 1000000" "0 \<le> fl (t + fl (fl w * f))"
proof -
  define e :: rat where "e = 1 / 1000000"
  have w: "\<bar>fl w - w\<bar> \<le> e" "0 \<le> fl w" unfolding e_def using assms by (intro fl_close fl_nonneg; simp)+
  have "\<bar>fl w - w\<bar> * f \<le> e * 1" using w assms by (intro mult_mono) auto
  then have wf: "\<bar>fl w * f - w * f\<bar> \<le> e"
    using assms(5) by (simp add: left_diff_distrib [symmetric] abs_mult)
  have "w * f \<le> 1 / 2 * 1" using assms by (intro mult_mono) auto
  then have p: "0 \<le> w * f" "w * f \<le> 1 / 2" using assms by simp_all
  have q: "0 \<le> fl w * f" "fl w * f \<le> 3 / 5" using w assms wf p by (simp, unfold abs_le_iff e_def, linarith)
  have r: "\<bar>fl (fl w * f) - fl w * f\<bar> \<le> e" "0 \<le> fl (fl w * f)"
    unfolding e_def using q by (intro fl_close fl_nonneg; simp)+
  have t: "0 \<le> t + fl (fl w * f)" "t + fl (fl w * f) < 2"
    using r q assms unfolding abs_le_iff e_def by linarith+
  have u: "\<bar>fl (t + fl (fl w * f)) - (t + fl (fl w * f))\<bar> \<le> e" unfolding e_def using t by (rule fl_close)
  show "\<bar>fl (t + fl (fl w * f)) - (t + w * f)\<bar> \<le> 3 / 1000000"
    using u r(1) wf unfolding abs_le_iff e_def by linarith
  show "0 \<le> fl (t + fl (fl w * f))" by (rule fl_nonneg [OF t(1)])
qed

lemma py_round4_unit:
  assumes "0 \<le> x" and "x < 20001 / 20000"
  shows "0 \<le> py_round4 x \<and> py_round4 x \<le> 1"
proof -
  have "\<bar>rat_of_int (half_even (x * 10000)) - x * 10000\<bar> \<le> 1 / 2" by (rule half_even_error)
  from abs_le_D1 [OF this] have "rat_of_int (half_even (x * 10000)) < rat_of_int 10001"
    using assms by (simp only: of_int_numeral)
  then have "half_even (x * 10000) \<le> 10000" by (simp only: of_int_less_iff)
  then have le: "rat_of_int (half_even (x * 10000)) / 10000 \<le> 1" by simp
  have "0 \<le> rat_of_int (half_even (x * 10000)) / 10000" using assms half_even_nonneg by simp
  then show ?thesis using le fl_le_1 fl_nonneg by (simp add: py_round4_def)
qed

lemma token_overlap_unit: "0 \<le> token_overlap a b \<and> token_overlap a b \<le> 1"
proof -
  let ?r = "rat_of_nat (card (set (py_split a) \<inter> set (py_split b))) / rat_of_nat (card (set (py_split a) \<union> set (py_split b)))"
  have "card (set (py_split a) \<inter> set (py_split b)) \<le> card (set (py_split a) \<union> set (py_split b))"
    by (rule card_mono) auto
  then have "rat_of_nat (card (set (py_split a) \<inter> set (py_split b))) \<le> rat_of_nat (card (set (py_split a) \<union> set (py_split b)))"
    by (simp only: of_nat_le_iff)
  then have "0 \<le> ?r" "?r \<le> 1" by (simp, intro divide_le_eq_1 [THEN iffD2]) auto
  then have "0 \<le> fl ?r" "fl ?r \<le> 1" using fl_nonneg fl_le_1 by blast+
  then show ?thesis by (simp add: token_overlap_def Let_def)
qed

lemma field_score_unit: "0 \<le> field_score f a b \<and> field_score f a b \<le> 1"
  using token_overlap_unit
  by (simp add: field_score_def date_score_def split: option.split)

definition weighted_total :: "(string \<Rightarrow> rat) \<Rightarrow> rat" where
  "weighted_total fs = fst (fold (score_step fs) match_weights (0, []))"

lemma matched_iff:
  "''registration'' \<in> set (snd (fold (score_step fs) match_weights (0, []))) \<longleftrightarrow> 0 < fs ''registration''"
  by (simp add: match_weights_def score_step_def)

text \<open>The exact value of the weighted sum.\<close>

definition exact_total :: "(string \<Rightarrow> rat) \<Rightarrow> rat" where
  "exact_total fs = 45 / 100 * fs ''registration'' + 30 / 100 * fs ''event_date'' + 10 / 100 * fs ''operator''
     + 8 / 100 * fs ''location'' + 7 / 100 * fs ''aircraft_type''"

lemma weighted_total_close:
  assumes fs: "\<And>f. 0 \<le> fs f \<and> fs f \<le> 1"
  shows "\<bar>weighted_total fs - exact_total fs\<bar> \<le> 15 / 1000000" "0 \<le> weighted_total fs"
proof -
  define a b c d e where
    "a = fs ''registration''" and "b = fs ''event_date''" and "c = fs ''operator''"
    and "d = fs ''location''" and "e = fs ''aircraft_type''"
  have u: "0 \<le> a" "a \<le> 1" "0 \<le> b" "b \<le> 1" "0 \<le> c" "c \<le> 1" "0 \<le> d" "d \<le> 1" "0 \<le> e" "e \<le> 1"
    using fs by (simp_all add: a_def b_def c_def d_def e_def)
  define t1 where "t1 = fl (0 + fl (fl (45 / 100) * a))"
  define t2 where "t2 = fl (t1 + fl (fl (30 / 100) * b))"
  define t3 where "t3 = fl (t2 + fl (fl (10 / 100) * c))"
  define t4 where "t4 = fl (t3 + fl (fl (8 / 100) * d))"
  define t5 where "t5 = fl (t4 + fl (fl (7 / 100) * e))"
  have t: "weighted_total fs = t5"
    by (simp add: weighted_total_def match_weights_def score_step_def t1_def t2_def t3_def t4_def t5_def
        a_def b_def c_def d_def e_def)
  have s1: "\<bar>t1 - (0 + 45 / 100 * a)\<bar> \<le> 3 / 1000000" "0 \<le> t1"
    unfolding t1_def by (rule score_add_close; use u in simp)+
  then have b1: "t1 \<le> 13 / 10" using u unfolding abs_le_iff by linarith
  have s2: "\<bar>t2 - (t1 + 30 / 100 * b)\<bar> \<le> 3 / 1000000" "0 \<le> t2"
    unfolding t2_def by (rule score_add_close; use u s1 b1 in simp)+
  then have b2: "t2 \<le> 13 / 10" using u s1 unfolding abs_le_iff by linarith
  have s3: "\<bar>t3 - (t2 + 10 / 100 * c)\<bar> \<le> 3 / 1000000" "0 \<le> t3"
    unfolding t3_def by (rule score_add_close; use u s2 b2 in simp)+
  then have b3: "t3 \<le> 13 / 10" using u s1 s2 unfolding abs_le_iff by linarith
  have s4: "\<bar>t4 - (t3 + 8 / 100 * d)\<bar> \<le> 3 / 1000000" "0 \<le> t4"
    unfolding t4_def by (rule score_add_close; use u s3 b3 in simp)+
  then have b4: "t4 \<le> 13 / 10" using u s1 s2 s3 unfolding abs_le_iff by linarith
  have s5: "\<bar>t5 - (t4 + 7 / 100 * e)\<bar> \<le> 3 / 1000000" "0 \<le> t5"
    unfolding t5_def by (rule score_add_close; use u s4 b4 in simp)+
  show "0 \<le> weighted_total fs" using s5(2) t by simp
  have "exact_total fs = 45 / 100 * a + 30 / 100 * b + 10 / 100 * c + 8 / 100 * d + 7 / 100 * e"
    by (simp add: exact_total_def a_def b_def c_def d_def e_def)
  then show "\<bar>weighted_total fs - exact_total fs\<bar> \<le> 15 / 1000000"
    using s1(1) s2(1) s3(1) s4(1) s5(1) unfolding t abs_le_iff by linarith
qed

lemma exact_total_bound:
  assumes fs: "\<And>f. 0 \<le> fs f \<and> fs f \<le> 1"
  shows "exact_total fs \<le> 55 / 100 + 45 / 100 * fs ''registration''"
  using fs [of "''event_date''"] fs [of "''operator''"] fs [of "''location''"] fs [of "''aircraft_type''"]
  by (simp add: exact_total_def)

lemma score_match_total:
  assumes "fs = (\<lambda>f. field_score f (incoming_norm rep inc f) (candidate_norm (if_scalars c) f))"
  shows "fst (score_match rep inc c) = py_round4
    (if fs ''registration'' \<le> 0 \<and> alias_hit rep inc (if_registration_norms c)
     then py_round4 (fl (weighted_total fs + fl (1 / 2 * fl (45 / 100)))) else weighted_total fs)"
proof -
  have "''registration'' \<notin> set (snd (fold (score_step fs) match_weights (0, []))) \<longleftrightarrow> fs ''registration'' \<le> 0"
    by (simp add: matched_iff not_less)
  then show ?thesis
    by (simp add: score_match_def Let_def assms [symmetric] weighted_total_def case_prod_beta)
qed

lemma score_match_unit: "0 \<le> fst (score_match rep inc c) \<and> fst (score_match rep inc c) \<le> 1"
proof -
  define fs where "fs = (\<lambda>f. field_score f (incoming_norm rep inc f) (candidate_norm (if_scalars c) f))"
  have u: "\<And>f. 0 \<le> fs f \<and> fs f \<le> 1" using field_score_unit by (simp add: fs_def)
  let ?hit = "fs ''registration'' \<le> 0 \<and> alias_hit rep inc (if_registration_norms c)"
  note eq = score_match_total [OF fs_def]
  note close = weighted_total_close [of fs, OF u]
  have reg: "fs ''registration'' \<le> 1" using u by blast
  show ?thesis
  proof (cases ?hit)
    case True
    then have "fs ''registration'' = 0" using u [of "''registration''"] by simp
    then have t: "weighted_total fs \<le> 56 / 100"
      using close(1) exact_total_bound [of fs, OF u] unfolding abs_le_iff by simp
    have h: "\<bar>fl (weighted_total fs + fl (fl (45 / 100) * (1 / 2))) - (weighted_total fs + 45 / 100 * (1 / 2))\<bar> \<le> 3 / 1000000"
      "0 \<le> fl (weighted_total fs + fl (fl (45 / 100) * (1 / 2)))"
      by (rule score_add_close; use close(2) t in simp)+
    have h: "0 \<le> fl (weighted_total fs + fl (1 / 2 * fl (45 / 100)))" "fl (weighted_total fs + fl (1 / 2 * fl (45 / 100))) < 20001 / 20000"
      using h t unfolding abs_le_iff mult.commute [of "fl (45 / 100)"] by linarith+
    have "0 \<le> py_round4 (fl (weighted_total fs + fl (1 / 2 * fl (45 / 100)))) \<and>
        py_round4 (fl (weighted_total fs + fl (1 / 2 * fl (45 / 100)))) \<le> 1"
      by (rule py_round4_unit [OF h])
    then show ?thesis unfolding eq if_P [OF True] by (intro py_round4_unit) auto
  next
    case False
    have "weighted_total fs < 20001 / 20000"
      using close(1) exact_total_bound [of fs, OF u] reg unfolding abs_le_iff by linarith
    then show ?thesis unfolding eq if_not_P [OF False] using close(2) by (intro py_round4_unit) auto
  qed
qed

section \<open>The best candidate\<close>

text \<open>What the loop knows after the candidates \<open>cs\<close>.\<close>

definition best_so_far ::
  "(event_identity_index \<Rightarrow> rat \<times> string list) \<Rightarrow> event_identity_index list \<Rightarrow> match_result \<times> uuid list \<Rightarrow> bool" where
  "best_so_far score cs st \<longleftrightarrow>
     (let (best, tied) = st; tops = filter (\<lambda>c. fst (score c) = mr_score best) cs
      in (\<forall>c \<in> set cs. fst (score c) \<le> mr_score best)
         \<and> (if mr_score best = 0 then best = no_match \<and> tied = []
            else 0 < mr_score best \<and> tops \<noteq> [] \<and> tied = map ii_event_id tops
                 \<and> best = \<lparr>mr_score = mr_score best, mr_matched_fields = snd (score (hd tops)),
                      mr_candidate_event_id = Some (ii_event_id (hd tops)), mr_ambiguous_tie = False,
                      mr_tied_candidate_event_ids = []\<rparr>))"

lemma best_so_far_step:
  assumes "best_so_far score cs st"
  shows "best_so_far score (cs @ [c]) (best_step score c st)"
proof -
  obtain best tied where st: "st = (best, tied)" by (cases st)
  obtain s m where sc: "score c = (s, m)" by (cases "score c")
  note inv = assms [unfolded best_so_far_def st Let_def prod.case]
  have nonneg: "0 \<le> mr_score best" using inv by (auto split: if_splits)
  consider "mr_score best < s" | "s = mr_score best" "0 < s" | "s \<le> mr_score best" "s < mr_score best \<or> s \<le> 0"
    by linarith
  then show ?thesis
  proof cases
    case 1
    then have "filter (\<lambda>c. fst (score c) = s) cs = []" using inv by (auto simp: filter_empty_conv)
    then show ?thesis using 1 inv nonneg by (auto simp: best_so_far_def best_step_def st sc Let_def)
  next
    case 2
    then show ?thesis using inv by (auto simp: best_so_far_def best_step_def st sc Let_def)
  next
    case 3
    then have "s \<noteq> mr_score best \<or> mr_score best = 0" using nonneg by linarith
    then show ?thesis using 3 inv by (auto simp: best_so_far_def best_step_def st sc Let_def)
  qed
qed

lemma best_so_far_fold: "best_so_far score cs (fold (best_step score) cs (no_match, []))"
proof (induction cs rule: rev_induct)
  case Nil
  show ?case by (simp add: best_so_far_def no_match_def)
next
  case (snoc c cs)
  then show ?case using best_so_far_step by simp
qed

lemma best_match_top:
  assumes "best_match uncertain score cs = m" and "0 < mr_score m" and "uncertain \<le> mr_score m"
  shows "\<exists>c cs'. filter (\<lambda>c. fst (score c) = mr_score m) cs = c # cs'
    \<and> mr_candidate_event_id m = Some (ii_event_id c) \<and> (\<forall>x \<in> set cs. fst (score x) \<le> mr_score m)
    \<and> mr_matched_fields m = snd (score c)
    \<and> mr_ambiguous_tie m = (cs' \<noteq> [])
    \<and> (cs' \<noteq> [] \<longrightarrow> mr_tied_candidate_event_ids m = dict_fromkeys (map ii_event_id (c # cs')))
    \<and> (cs' = [] \<longrightarrow> mr_tied_candidate_event_ids m = [])"
proof -
  obtain best tied where f: "fold (best_step score) cs (no_match, []) = (best, tied)" by (cases "fold (best_step score) cs (no_match, [])")
  have m: "m = (if 1 < length tied \<and> uncertain \<le> mr_score best
      then best\<lparr>mr_ambiguous_tie := True, mr_tied_candidate_event_ids := dict_fromkeys tied\<rparr> else best)"
    using assms(1) by (simp add: best_match_def f)
  then have s: "mr_score best = mr_score m" by simp
  note inv = best_so_far_fold [of score cs, unfolded f best_so_far_def Let_def prod.case s]
  define tops where "tops = filter (\<lambda>c. fst (score c) = mr_score m) cs"
  have "mr_score m \<noteq> 0" using assms(2) by simp
  then have i: "\<forall>c \<in> set cs. fst (score c) \<le> mr_score m" "tops \<noteq> []" "tied = map ii_event_id tops"
    "best = \<lparr>mr_score = mr_score m, mr_matched_fields = snd (score (hd tops)),
       mr_candidate_event_id = Some (ii_event_id (hd tops)), mr_ambiguous_tie = False, mr_tied_candidate_event_ids = []\<rparr>"
    using inv by (simp_all add: tops_def)
  obtain c cs' where t: "tops = c # cs'" using i(2) by (cases tops) auto
  have c: "1 < length tied \<and> uncertain \<le> mr_score best \<longleftrightarrow> cs' \<noteq> []" using assms(3) by (simp add: i(3) t s)
  have "m = (if cs' \<noteq> [] then best\<lparr>mr_ambiguous_tie := True, mr_tied_candidate_event_ids := dict_fromkeys tied\<rparr> else best)"
    by (rule m [unfolded c])
  moreover have "mr_matched_fields best = snd (score c)" "mr_candidate_event_id best = Some (ii_event_id c)"
    "\<not> mr_ambiguous_tie best" "mr_tied_candidate_event_ids best = []"
    by (subst i(4), simp add: t)+
  ultimately have "mr_candidate_event_id m = Some (ii_event_id c) \<and> mr_matched_fields m = snd (score c)
      \<and> mr_ambiguous_tie m = (cs' \<noteq> [])
      \<and> (cs' \<noteq> [] \<longrightarrow> mr_tied_candidate_event_ids m = dict_fromkeys (map ii_event_id (c # cs')))
      \<and> (cs' = [] \<longrightarrow> mr_tied_candidate_event_ids m = [])"
    by (cases "cs' = []") (simp_all add: i(3) t)
  then show ?thesis unfolding tops_def [symmetric] t using i(1) by blast
qed

lemma best_match_score:
  "0 \<le> mr_score (best_match uncertain score cs)
    \<and> (\<forall>x \<in> set cs. fst (score x) \<le> mr_score (best_match uncertain score cs))
    \<and> (mr_score (best_match uncertain score cs) = 0 \<or>
        (\<exists>x \<in> set cs. mr_score (best_match uncertain score cs) = fst (score x)))"
proof -
  obtain best tied where f: "fold (best_step score) cs (no_match, []) = (best, tied)" by (cases "fold (best_step score) cs (no_match, [])")
  note inv = best_so_far_fold [of score cs, unfolded f best_so_far_def Let_def prod.case]
  have "mr_score (best_match uncertain score cs) = mr_score best" by (simp add: best_match_def f)
  moreover have "0 \<le> mr_score best \<and> (\<forall>x \<in> set cs. fst (score x) \<le> mr_score best)
      \<and> (mr_score best = 0 \<or> (\<exists>x \<in> set cs. mr_score best = fst (score x)))"
  proof (cases "mr_score best = 0")
    case True
    then show ?thesis using inv by simp
  next
    case False
    then have "0 < mr_score best" "filter (\<lambda>c. fst (score c) = mr_score best) cs \<noteq> []" using inv by simp_all
    then show ?thesis using inv by (auto simp: filter_empty_conv intro: sym)
  qed
  ultimately show ?thesis by simp
qed

lemma thresholds: "0 < UNCERTAIN_LOW" "UNCERTAIN_LOW < HIGH_CONFIDENCE"
proof -
  have e: "\<bar>fl (2 / 5) - 2 / 5\<bar> \<le> 1 / 1000000" by (rule fl_close(1)) simp_all
  show "0 < UNCERTAIN_LOW" using abs_le_D2 [OF e] by (simp add: UNCERTAIN_LOW_def)
  show "UNCERTAIN_LOW < HIGH_CONFIDENCE" using abs_le_D1 [OF e] by (simp add: UNCERTAIN_LOW_def HIGH_CONFIDENCE_def)
qed

text \<open>The rows with the highest score.\<close>

definition top_candidates ::
  "(json \<Rightarrow> string) \<Rightarrow> (string \<times> json) list \<Rightarrow> event_identity_index list \<Rightarrow> rat \<Rightarrow> event_identity_index list" where
  "top_candidates rep incoming candidates s =
     filter (\<lambda>c. fst (score_match rep incoming (identity_fields_of c)) = s) candidates"

text \<open>C8: The routing of a submission without an event id.  The score of the decision lies between 0
  and 1 and no candidate scores higher.  The submission is attached exactly when the score reaches
  the high threshold and only one candidate has it, and then to that candidate's event.  A score
  from the lower threshold on that is not attached goes to review, with the first of the best
  candidates, and with all of them when they tie; below the lower threshold the event is new.\<close>

theorem match_decision_exact:
  assumes "decide rep incoming candidates = d"
  shows "0 \<le> md_score d \<and> md_score d \<le> 1
    \<and> (\<forall>c \<in> set candidates. fst (score_match rep incoming (identity_fields_of c)) \<le> md_score d)
    \<and> (md_action d = Attach \<longleftrightarrow>
         HIGH_CONFIDENCE \<le> md_score d \<and> length (top_candidates rep incoming candidates (md_score d)) = 1)
    \<and> (md_action d = New_Event \<longleftrightarrow> md_score d < UNCERTAIN_LOW)
    \<and> (md_action d \<noteq> New_Event \<longrightarrow> (\<exists>c cs. top_candidates rep incoming candidates (md_score d) = c # cs
         \<and> md_candidate_event_id d = Some (ii_event_id c)
         \<and> (cs \<noteq> [] \<longrightarrow> md_tied_candidate_event_ids d = dict_fromkeys (map ii_event_id (c # cs)))))"
proof -
  define score where "score = (\<lambda>c. score_match rep incoming (identity_fields_of c))"
  define m where "m = best_match UNCERTAIN_LOW score candidates"
  have d: "d = (if HIGH_CONFIDENCE \<le> mr_score m \<and> \<not> mr_ambiguous_tie m
      then \<lparr>md_action = Attach, md_score = mr_score m, md_matched_fields = mr_matched_fields m,
            md_candidate_event_id = mr_candidate_event_id m,
            md_tied_candidate_event_ids = mr_tied_candidate_event_ids m\<rparr>
      else if UNCERTAIN_LOW \<le> mr_score m
      then \<lparr>md_action = Review, md_score = mr_score m, md_matched_fields = mr_matched_fields m,
            md_candidate_event_id = mr_candidate_event_id m,
            md_tied_candidate_event_ids = mr_tied_candidate_event_ids m\<rparr>
      else \<lparr>md_action = New_Event, md_score = mr_score m, md_matched_fields = mr_matched_fields m,
            md_candidate_event_id = None, md_tied_candidate_event_ids = []\<rparr>)"
    unfolding assms [symmetric] decide_def decide_match_def Let_def m_def score_def by (rule refl)
  then have s: "md_score d = mr_score m" by simp
  have b: "0 \<le> mr_score m" "\<forall>x \<in> set candidates. fst (score x) \<le> mr_score m"
    "mr_score m = 0 \<or> (\<exists>x \<in> set candidates. mr_score m = fst (score x))"
    using best_match_score [of UNCERTAIN_LOW score candidates] unfolding m_def [symmetric] by blast+
  have one: "mr_score m \<le> 1" using b(3) score_match_unit by (auto simp: score_def)
  have tops: "top_candidates rep incoming candidates x = filter (\<lambda>c. fst (score c) = x) candidates" for x
    by (simp add: top_candidates_def score_def)
  show ?thesis
  proof (cases "UNCERTAIN_LOW \<le> mr_score m")
    case False
    then have "\<not> HIGH_CONFIDENCE \<le> mr_score m" using thresholds by linarith
    then show ?thesis using False b one d s by (simp add: score_def)
  next
    case True
    then have "0 < mr_score m" using thresholds by linarith
    then obtain c cs where t: "filter (\<lambda>c. fst (score c) = mr_score m) candidates = c # cs"
      and i: "mr_candidate_event_id m = Some (ii_event_id c)" "mr_ambiguous_tie m = (cs \<noteq> [])"
        "cs \<noteq> [] \<longrightarrow> mr_tied_candidate_event_ids m = dict_fromkeys (map ii_event_id (c # cs))"
      using best_match_top [OF m_def [symmetric] _ True] by blast
    have act: "md_action d = (if HIGH_CONFIDENCE \<le> mr_score m \<and> cs = [] then Attach else Review)"
      and cand: "md_candidate_event_id d = Some (ii_event_id c)"
        "md_tied_candidate_event_ids d = mr_tied_candidate_event_ids m"
      using d True i by simp_all
    show ?thesis unfolding s tops t using act cand i(3) b(1,2) one True by (simp add: score_def)
  qed
qed

section \<open>Two submissions\<close>

text \<open>Decimal rounding finds the multiple of \<open>1 / 10000\<close> a value is close to.\<close>

lemma half_even_near:
  assumes "\<bar>q - of_int n\<bar> < 1 / 2"
  shows "half_even q = n"
proof -
  have "\<bar>of_int (half_even q) - q\<bar> \<le> 1 / 2" by (rule half_even_error)
  then have "\<bar>rat_of_int (half_even q) - rat_of_int n\<bar> < 1"
    using assms unfolding abs_le_iff abs_less_iff by linarith
  then have "\<bar>rat_of_int (half_even q - n)\<bar> < 1" by simp
  then have "\<bar>half_even q - n\<bar> < 1" by (metis of_int_abs of_int_less_1_iff)
  then show ?thesis by simp
qed

lemma py_round4_near:
  assumes "\<bar>x - of_int n / 10000\<bar> \<le> 1 / 40000"
  shows "py_round4 x = fl (of_int n / 10000)"
proof -
  have "\<bar>x * 10000 - of_int n\<bar> < 1 / 2"
    using assms unfolding abs_le_iff abs_less_iff by linarith
  then show ?thesis unfolding py_round4_def by (simp add: half_even_near)
qed

definition sample_incoming :: "(string \<times> json) list" where
  "sample_incoming =
     [(''event_date'', JStr ''2024-06-03''), (''registration'', JStr ''N123AB''),
      (''operator'', JStr ''Acme Air''), (''location'', JStr ''Oslo''), (''aircraft_type'', JStr ''B738'')]"

definition sample_identity :: "string \<Rightarrow> string list \<Rightarrow> event_identity_index" where
  "sample_identity reg aliases =
     \<lparr>ii_event_id = 7, ii_event_date_norm = Some ''2024-06-03'', ii_registration_norm = Some reg,
      ii_operator_norm = Some ''acme air'', ii_location_norm = Some ''oslo'',
      ii_aircraft_type_norm = Some ''b738'', ii_source_record_ids = [], ii_registration_norms = aliases,
      ii_updated_at = 0\<rparr>"

abbreviation (input) sample_score :: "string \<Rightarrow> string list \<Rightarrow> string \<Rightarrow> rat" where
  "sample_score reg aliases f \<equiv>
     field_score f (incoming_norm (\<lambda>_. []) sample_incoming f)
       (candidate_norm (if_scalars (identity_fields_of (sample_identity reg aliases))) f)"

lemma fl_1: "fl 1 = 1"
  using fl_of_int [of 1] by simp

lemma token_overlap_same: "py_split a \<noteq> [] \<Longrightarrow> token_overlap a a = 1"
  by (auto simp: token_overlap_def Let_def fl_1 card_gt_0_iff py_split_def)

lemma sample_norms:
  "incoming_norm (\<lambda>_. []) sample_incoming ''operator'' = ''acme air''"
  "incoming_norm (\<lambda>_. []) sample_incoming ''location'' = ''oslo''"
  "incoming_norm (\<lambda>_. []) sample_incoming ''aircraft_type'' = ''b738''"
  "incoming_norm (\<lambda>_. []) sample_incoming ''event_date'' = ''2024-06-03''"
  "incoming_norm (\<lambda>_. []) sample_incoming ''registration'' = ''n123ab''"
  "norm_text ''acme air'' = ''acme air''" "norm_text ''oslo'' = ''oslo''" "norm_text ''b738'' = ''b738''"
  "norm_text ''2024-06-03'' = ''2024-06-03''" "norm_date ''2024-06-03'' = ''2024-06-03''"
  "py_split ''acme air'' \<noteq> []" "py_split ''oslo'' \<noteq> []" "py_split ''b738'' \<noteq> []"
  by code_simp+

lemma sample_fields:
  "sample_score reg aliases ''event_date'' = 1" "sample_score reg aliases ''operator'' = 1"
  "sample_score reg aliases ''location'' = 1" "sample_score reg aliases ''aircraft_type'' = 1"
  unfolding sample_norms
  by (cases reg; simp add: candidate_norm_def identity_fields_of_def sample_identity_def truthy_field_def
      field_score_def date_score_def sample_norms token_overlap_same)+

lemma sample_score_full: "fst (score_match (\<lambda>_. []) sample_incoming (identity_fields_of (sample_identity ''n123ab'' []))) = 1"
proof -
  let ?fs = "sample_score ''n123ab'' []"
  have r: "?fs ''registration'' = 1"
    unfolding sample_norms by code_simp
  have "exact_total ?fs = 1" unfolding exact_total_def r sample_fields by simp
  then have "\<bar>weighted_total ?fs - of_int 10000 / 10000\<bar> \<le> 1 / 40000"
    using weighted_total_close(1) [of ?fs, OF field_score_unit] by simp
  then have "py_round4 (weighted_total ?fs) = 1" using py_round4_near [of "weighted_total ?fs" 10000] fl_1 by simp
  then show ?thesis unfolding score_match_total [OF refl] using r by simp
qed

theorem match_decision_exact_witness:
  "md_action (decide (\<lambda>_. []) sample_incoming [sample_identity ''n123ab'' []]) = Attach
   \<and> md_candidate_event_id (decide (\<lambda>_. []) sample_incoming [sample_identity ''n123ab'' []]) = Some 7"
proof -
  let ?d = "decide (\<lambda>_. []) sample_incoming [sample_identity ''n123ab'' []]"
  note d = match_decision_exact [OF refl, of "\<lambda>_. []" sample_incoming "[sample_identity ''n123ab'' []]"]
  have s: "md_score ?d = 1" using d sample_score_full by simp
  have t: "top_candidates (\<lambda>_. []) sample_incoming [sample_identity ''n123ab'' []] 1 = [sample_identity ''n123ab'' []]"
    by (simp add: top_candidates_def sample_score_full)
  have "md_action ?d = Attach" using d unfolding s t by (simp add: HIGH_CONFIDENCE_def)
  moreover have "md_candidate_event_id ?d = Some (ii_event_id (sample_identity ''n123ab'' []))"
    using d calculation unfolding s t by auto
  ultimately show ?thesis by (simp add: sample_identity_def)
qed

text \<open>
  The comment of \<open>score_match\<close> promises that a historical registration alone never attaches a
  submission.  It does when date, operator, location and type agree: the score is 0.775.
\<close>

lemma alias_match_attaches:
  "md_action (decide (\<lambda>_. []) sample_incoming [sample_identity ''n999zz'' [''n123ab'']]) = Attach"
proof -
  let ?r = "sample_identity ''n999zz'' [''n123ab'']"
  let ?fs = "sample_score ''n999zz'' [''n123ab'']"
  let ?t = "fl (weighted_total ?fs + fl (1 / 2 * fl (45 / 100)))"
  have r: "?fs ''registration'' = 0" unfolding sample_norms by code_simp
  have a: "alias_hit (\<lambda>_. []) sample_incoming (if_registration_norms (identity_fields_of ?r))" by code_simp
  have x: "exact_total ?fs = 55 / 100" unfolding exact_total_def r sample_fields by simp
  note w = weighted_total_close [of ?fs, OF field_score_unit, unfolded x]
  then have "weighted_total ?fs \<le> 13 / 10" unfolding abs_le_iff by linarith
  then have "\<bar>fl (weighted_total ?fs + fl (fl (45 / 100) * (1 / 2))) - (weighted_total ?fs + 45 / 100 * (1 / 2))\<bar> \<le> 3 / 1000000"
    using w(2) by (intro score_add_close) simp_all
  then have "\<bar>?t - of_int 7750 / 10000\<bar> \<le> 1 / 40000"
    using w(1) unfolding abs_le_iff mult.commute [of "fl (45 / 100)"] by (simp add: field_simps)
  then have t: "py_round4 ?t = fl (7750 / 10000)" using py_round4_near [of ?t 7750] by simp
  have f: "\<bar>fl (7750 / 10000) - 7750 / 10000\<bar> \<le> 1 / 1000000" by (rule fl_close) simp_all
  then have "py_round4 (fl (7750 / 10000)) = fl (7750 / 10000)"
    using py_round4_near [of "fl (7750 / 10000)" 7750] by simp
  then have s: "fst (score_match (\<lambda>_. []) sample_incoming (identity_fields_of ?r)) = fl (7750 / 10000)"
    unfolding score_match_total [OF refl] using r a t by simp
  have "3 / 4 \<le> fl (7750 / 10000)" "fl (7750 / 10000) \<noteq> 0" using f unfolding abs_le_iff by (linarith, auto)
  then show ?thesis
    unfolding decide_def decide_match_def best_match_def
    using thresholds s by (auto simp: best_step_def no_match_def Let_def HIGH_CONFIDENCE_def case_prod_beta)
qed

end
