(* ===== verification/Identity_Resolution.thy ===== *)
theory Identity_Resolution
  imports Event_Matching
begin

text \<open>
  From a submission to its event: the candidate queries of the identity index
  (\<open>repositories/identity.py\<close>), the identity entry of a submission
  (\<open>ingestion/_identity_index_updater.py\<close>), the resolution of anonymous submissions
  (\<open>_event_resolution.py\<close>) and the continuity of source records (\<open>_continuity.py\<close>).
  \<open>conc p\<close> is what other transactions commit while this one waits at the point \<open>p\<close>.
\<close>

datatype wait_point = Record_Lock | Snapshot_Insert | Identity_Lock | Event_Lock

section \<open>Candidate queries\<close>

text \<open>The dates from the day before to the day after, as text; \<open>None\<close> when the text is no date.\<close>

definition day_range :: "string \<Rightarrow> atlas_error + (string \<times> string) option" where
  "day_range event_date_norm =
     (case iso_date event_date_norm of
        None \<Rightarrow> Inr None
      | Some centre \<Rightarrow>
          (case (prev_day centre, next_day centre) of
             (Some lo, Some hi) \<Rightarrow> Inr (Some (date_isoformat lo, date_isoformat hi))
           | _ \<Rightarrow> Inl OverflowError))"

definition date_between :: "string \<times> string \<Rightarrow> event_identity_index \<Rightarrow> bool" where
  "date_between bounds r \<longleftrightarrow> (case ii_event_date_norm r of
       None \<Rightarrow> False | Some t \<Rightarrow> fst bounds \<le> t \<and> t \<le> snd bounds)"

text \<open>Rows joined with their event: surviving events first, then the latest update.\<close>

definition joined_rows :: "db \<Rightarrow> (event_identity_index \<times> accident_event) list" where
  "joined_rows d =
     List.map_filter (\<lambda>r. map_option (Pair r) (events_get (ii_event_id r) d)) (db_identity d)"

definition load_identity :: "event_identity_index \<Rightarrow> event_identity_index" where
  "load_identity r = r\<lparr>ii_registration_norms := cap_registration_norms (ii_registration_norms r)\<rparr>"

definition find_candidates :: "string \<Rightarrow> nat \<Rightarrow> db \<Rightarrow> atlas_error + event_identity_index list" where
  "find_candidates event_date_norm limit d =
     rbind (day_range event_date_norm) (\<lambda>bounds. case bounds of
         None \<Rightarrow> Inr []
       | Some lohi \<Rightarrow>
           Inr (map (load_identity \<circ> fst)
             (take limit
               (sort_key (\<lambda>(r, e). (is_merged e, - ii_updated_at r))
                 (filter (\<lambda>(r, e). date_between lohi r) (joined_rows d))))))"

definition normalise_registration_lookup :: "string \<Rightarrow> string" where
  "normalise_registration_lookup value = strip_separators (py_strip (py_lower value))"

definition find_by_registration ::
  "string \<Rightarrow> string \<Rightarrow> db \<Rightarrow> atlas_error + event_identity_index list" where
  "find_by_registration registration_norm event_date_norm d =
     (let reg = normalise_registration_lookup registration_norm
      in rbind (if event_date_norm = [] then Inr None else day_range event_date_norm) (\<lambda>bounds.
         Inr (map (load_identity \<circ> fst)
           (take 20
             (sort_key (\<lambda>(r, e). (is_merged e, - ii_updated_at r, ii_event_id r))
               (filter (\<lambda>(r, e). (ii_registration_norm r = Some reg \<or> reg \<in> set (ii_registration_norms r))
                               \<and> (case bounds of None \<Rightarrow> True | Some lohi \<Rightarrow> date_between lohi r))
                 (joined_rows d)))))))"

section \<open>The identity entry of a submission\<close>

definition or_none :: "string \<Rightarrow> string option" where
  "or_none s = (if s = [] then None else Some s)"

definition norm_reg :: "(json \<Rightarrow> string) \<Rightarrow> json \<Rightarrow> string option" where
  "norm_reg rep v = (if json_truthy v then or_none (strip_separators (norm_value rep v)) else None)"

fun iter_registration_alias_values :: "json \<Rightarrow> json list" where
  "iter_registration_alias_values (JStr s) = [JStr s]"
| "iter_registration_alias_values (JList xs) = xs"
| "iter_registration_alias_values _ = []"

definition incoming_value :: "(string \<times> json) list \<Rightarrow> string \<Rightarrow> json" where
  "incoming_value incoming f = (case map_of incoming f of Some v \<Rightarrow> v | None \<Rightarrow> JNull)"

definition append_alias :: "string option \<Rightarrow> string list \<Rightarrow> string list" where
  "append_alias v aliases = (case v of
       None \<Rightarrow> aliases | Some n \<Rightarrow> if n \<in> set aliases then aliases else aliases @ [n])"

definition registration_norm_aliases :: "(json \<Rightarrow> string) \<Rightarrow> (string \<times> json) list \<Rightarrow> string list" where
  "registration_norm_aliases rep incoming =
     fold (\<lambda>v. append_alias (norm_reg rep v))
       (incoming_value incoming ''registration''
          # iter_registration_alias_values (incoming_value incoming ''aircraft_registration_numbers'')) []"

definition build_identity_entry ::
  "(json \<Rightarrow> string) \<Rightarrow> time \<Rightarrow> uuid \<Rightarrow> (string \<times> json) list \<Rightarrow> string option \<Rightarrow> event_identity_index" where
  "build_identity_entry rep now event_id incoming source_record_id =
     (let val = incoming_value incoming;
          txt = (\<lambda>f. or_none (norm_value rep (val f)))
      in \<lparr>ii_event_id = event_id,
          ii_event_date_norm =
            (if json_truthy (val ''event_date'') then Some (norm_date (py_str rep (val ''event_date''))) else None),
          ii_registration_norm = norm_reg rep (val ''registration''),
          ii_operator_norm = txt ''operator'', ii_location_norm = txt ''location'',
          ii_aircraft_type_norm = txt ''aircraft_type'',
          ii_source_record_ids =
            (case source_record_id of Some r \<Rightarrow> if r = [] then [] else [r] | None \<Rightarrow> []),
          ii_registration_norms = cap_registration_norms (registration_norm_aliases rep incoming),
          ii_updated_at = now\<rparr>)"

text \<open>\<open>IdentityIndexUpdater.update\<close>.\<close>

definition identity_index_update ::
  "(json \<Rightarrow> string) \<Rightarrow> time \<Rightarrow> uuid \<Rightarrow> (string \<times> json) list \<Rightarrow> string option \<Rightarrow> db \<Rightarrow> db" where
  "identity_index_update rep now event_id incoming source_record_id =
     identity_upsert (build_identity_entry rep now event_id incoming source_record_id)"

section \<open>Anonymous submissions\<close>

record resolution =
  re_event :: accident_event
  re_reviews :: "pending_duplicate_review list"
  re_created :: bool
  re_attached_by :: string

text \<open>\<open>AccidentEvent(id=uuid4())\<close> with its identity row.\<close>

definition create_event ::
  "(json \<Rightarrow> string) \<Rightarrow> time \<Rightarrow> (string \<times> json) list \<Rightarrow> string option \<Rightarrow> db \<Rightarrow> accident_event \<times> db" where
  "create_event rep now incoming source_record_id d =
     (let event = \<lparr>ev_id = fst (uuid4 d), ev_created_at = now, ev_merged_into_event_id = None\<rparr>
      in (event, identity_index_update rep now (ev_id event) incoming source_record_id
                   (events_add event (snd (uuid4 d)))))"

text \<open>
  The loop that maps the best candidates to their surviving events, without repetitions and at most
  \<open>max_duplicate_reviews\<close> of them.
\<close>

fun canonical_candidates ::
  "uuid \<Rightarrow> nat \<Rightarrow> db \<Rightarrow> uuid list \<Rightarrow> uuid list \<Rightarrow> atlas_error + uuid list" where
  "canonical_candidates new_id max_reviews d acc [] = Inr acc"
| "canonical_candidates new_id max_reviews d acc (raw # raws) =
     rbind (resolution_canonical raw d) (\<lambda>canonical.
       let c = (case canonical of Some e \<Rightarrow> ev_id e | None \<Rightarrow> raw)
       in canonical_candidates new_id max_reviews d
            (if c = new_id \<or> c \<in> set acc \<or> max_reviews \<le> length acc then acc else acc @ [c]) raws)"

definition queue_review ::
  "time \<Rightarrow> uuid \<Rightarrow> match_decision \<Rightarrow> uuid \<Rightarrow> pending_duplicate_review list \<times> db
     \<Rightarrow> pending_duplicate_review list \<times> db" where
  "queue_review now event_id decision candidate_event_id st =
     (let (reviews, d) = st
      in case find_existing_pair candidate_event_id event_id d of
          Some existing_review \<Rightarrow> (reviews @ [existing_review], d)
        | None \<Rightarrow>
            let review = \<lparr>rv_id = fst (uuid4 d), rv_event_id_a = candidate_event_id, rv_event_id_b = event_id,
                  rv_status = REVIEW_PENDING, rv_match_score = md_score decision,
                  rv_matched_fields = md_matched_fields decision, rv_created_at = now,
                  rv_resolved_at = None, rv_resolved_by = None, rv_resolution_note = None\<rparr>;
                (stored_review, d') = reviews_add review (snd (uuid4 d))
            in (reviews @ [case stored_review of Some r \<Rightarrow> r | None \<Rightarrow> review], d'))"

text \<open>The candidates of the date, then those of the registration that are not among them.\<close>

definition resolution_candidates ::
  "string \<Rightarrow> string option \<Rightarrow> db \<Rightarrow> atlas_error + event_identity_index list" where
  "resolution_candidates event_date_norm registration_norm d =
     rbind (find_candidates event_date_norm 50 d) (\<lambda>candidates.
       case registration_norm of
         None \<Rightarrow> Inr candidates
       | Some reg \<Rightarrow>
           if reg = [] then Inr candidates
           else rbind (find_by_registration reg event_date_norm d) (\<lambda>reg_candidates.
             Inr (fold (\<lambda>rc cs. if ii_event_id rc \<in> ii_event_id ` set cs then cs else cs @ [rc])
                    reg_candidates candidates)))"

definition attach_to :: 
  "(json \<Rightarrow> string) \<Rightarrow> time \<Rightarrow> uuid option \<Rightarrow> accident_event \<Rightarrow> (string \<times> json) list \<Rightarrow> string option \<Rightarrow> db
     \<Rightarrow> resolution \<times> db" where
  "attach_to rep now candidate existing incoming source_record_id d =
     (let entry = build_identity_entry rep now (ev_id existing) incoming source_record_id
      in (\<lparr>re_event = existing, re_reviews = [], re_created = False, re_attached_by = ''identity_match''\<rparr>,
          if candidate = Some (ev_id existing) then identity_upsert entry d
          else enrich_identity_index_from_alias entry d))"

definition create_with_reviews ::
  "(json \<Rightarrow> string) \<Rightarrow> time \<Rightarrow> nat \<Rightarrow> match_decision \<Rightarrow> (string \<times> json) list \<Rightarrow> string option \<Rightarrow> db
     \<Rightarrow> atlas_error + (resolution \<times> db)" where
  "create_with_reviews rep now max_reviews decision incoming source_record_id d =
     (let (event, d1) = create_event rep now incoming source_record_id d;
          candidate_event_ids =
            (if md_tied_candidate_event_ids decision \<noteq> [] then md_tied_candidate_event_ids decision
             else option_array (md_candidate_event_id decision));
          plain = \<lparr>re_event = event, re_reviews = [], re_created = True, re_attached_by = ''new_event''\<rparr>
      in if md_action decision = Review \<and> candidate_event_ids \<noteq> []
         then rbind (canonical_candidates (ev_id event) max_reviews d1 [] candidate_event_ids) (\<lambda>ids.
           let (reviews, d2) = fold (queue_review now (ev_id event) decision) ids ([], d1)
           in Inr (if reviews = [] then plain
                   else plain\<lparr>re_reviews := reviews, re_attached_by := ''duplicate_review''\<rparr>, d2))
         else Inr (plain, d1))"

definition resolve_with_reviews ::
  "(json \<Rightarrow> string) \<Rightarrow> (wait_point \<Rightarrow> db \<Rightarrow> db) \<Rightarrow> time \<Rightarrow> (string \<times> json) list \<Rightarrow> string option \<Rightarrow> nat \<Rightarrow> db
     \<Rightarrow> atlas_error + (resolution \<times> db)" where
  "resolve_with_reviews rep conc now incoming source_record_id max_duplicate_reviews d =
     (if max_duplicate_reviews = 0 then Inl DomainValidationError
      else let event_date_raw = incoming_value incoming ''event_date''
      in if event_date_raw = JNull then
           (let (event, d1) = create_event rep now incoming source_record_id d
            in Inr (\<lparr>re_event = event, re_reviews = [], re_created = True, re_attached_by = ''new_event''\<rparr>, d1))
         else
           let event_date_norm = norm_date (py_str rep event_date_raw);
               registration_raw = incoming_value incoming ''registration'';
               registration_norm =
                 (if json_truthy registration_raw
                  then Some (strip_separators (norm_value rep registration_raw)) else None);
               d1 = conc Identity_Lock d
           in rbind (resolution_candidates event_date_norm registration_norm d1) (\<lambda>candidates.
              let decision = decide rep incoming candidates
              in if md_action decision = Attach
                 then (case md_candidate_event_id decision of
                     None \<Rightarrow> create_with_reviews rep now max_duplicate_reviews decision incoming source_record_id d1
                   | Some c \<Rightarrow>
                       rbind (resolution_canonical c d1) (\<lambda>existing. case existing of
                           Some e \<Rightarrow> Inr (attach_to rep now (Some c) e incoming source_record_id d1)
                         | None \<Rightarrow> create_with_reviews rep now max_duplicate_reviews decision incoming source_record_id d1))
                 else create_with_reviews rep now max_duplicate_reviews decision incoming source_record_id d1))"

text \<open>\<open>EventResolutionService.resolve\<close>: only the first review, with the default cap of reviews.\<close>

definition resolve_primary ::
  "(json \<Rightarrow> string) \<Rightarrow> (wait_point \<Rightarrow> db \<Rightarrow> db) \<Rightarrow> time \<Rightarrow> (string \<times> json) list \<Rightarrow> string option \<Rightarrow> db
     \<Rightarrow> atlas_error + ((accident_event \<times> pending_duplicate_review option \<times> bool \<times> string) \<times> db)" where
  "resolve_primary rep conc now incoming source_record_id d =
     rbind (resolve_with_reviews rep conc now incoming source_record_id 10 d) (\<lambda>(r, d').
       Inr ((re_event r, (case re_reviews r of v # _ \<Rightarrow> Some v | [] \<Rightarrow> None), re_created r, re_attached_by r), d'))"

section \<open>Continuity of source records\<close>

text \<open>The newest snapshot of the record that has a claim, then the newest claim.\<close>

definition find_latest_event_id_by_source_record_id :: "uuid \<Rightarrow> string \<Rightarrow> db \<Rightarrow> uuid option" where
  "find_latest_event_id_by_source_record_id source_id source_record_id d =
     map_option (cl_event_id \<circ> snd)
       (first_desc (\<lambda>(s, c). (sn_created_at s, cl_created_at c))
         [(s, c). s \<leftarrow> db_snapshots d, c \<leftarrow> db_claims d,
            cl_raw_snapshot_id c = Some (sn_id s) \<and> sn_source_id s = source_id
            \<and> sn_source_record_id s = Some source_record_id])"

definition continuity_resolve ::
  "(wait_point \<Rightarrow> db \<Rightarrow> db) \<Rightarrow> uuid \<Rightarrow> string \<Rightarrow> accident_event option \<Rightarrow> db
     \<Rightarrow> atlas_error + (accident_event option \<times> db)" where
  "continuity_resolve conc source_id source_record_id explicit_event d =
     (let d1 = conc Record_Lock d
      in case find_latest_event_id_by_source_record_id source_id source_record_id d1 of
          None \<Rightarrow> Inr (None, d1)
        | Some prior_event_id \<Rightarrow>
            rbind (continuity_canonical prior_event_id d1) (\<lambda>prior_event.
              case explicit_event of
                Some ex \<Rightarrow>
                  if ev_id ex \<noteq> ev_id prior_event
                  then Inl (SourceRecordEventMismatchError (ev_id ex) (ev_id prior_event))
                  else Inr (Some prior_event, d1)
              | None \<Rightarrow> Inr (Some prior_event, d1)))"

end
