(* ===== verification/Py_Json.thy ===== *)
theory Py_Json
  imports Reproject Source_Normalizer
begin

text \<open>
  \<open>json.dumps(value, sort_keys=True, separators=(",", ":"), allow_nan=False)\<close>: the compact JSON
  text with sorted keys.  Every character outside the printable ASCII range is escaped.  The text
  of a float is \<open>rep\<close>; a float of the model is finite, so the call never fails.
\<close>

definition json_char :: "char \<Rightarrow> string" where
  "json_char c =
     (let n = (of_char c :: nat)
      in if n = 34 then [CHR 0x5C, CHR 0x22]
         else if n = 92 then [CHR 0x5C, CHR 0x5C]
         else if n = 10 then [CHR 0x5C, CHR ''n'']
         else if n = 13 then [CHR 0x5C, CHR ''r'']
         else if n = 9 then [CHR 0x5C, CHR ''t'']
         else if n = 12 then [CHR 0x5C, CHR ''f'']
         else if n = 8 then [CHR 0x5C, CHR ''b'']
         else if n < 32 \<or> 126 < n then [CHR 0x5C, CHR ''u''] @ hex_digits 4 n
         else [c])"

definition json_string :: "string \<Rightarrow> string" where
  "json_string s = [CHR 0x22] @ concat (map json_char s) @ [CHR 0x22]"

fun join_comma :: "string list \<Rightarrow> string" where
  "join_comma [] = []"
| "join_comma [w] = w"
| "join_comma (w # ws) = w @ '','' @ join_comma ws"

fun json_text :: "(json \<Rightarrow> string) \<Rightarrow> json \<Rightarrow> string" where
  "json_text rep JNull = ''null''"
| "json_text rep (JBool b) = (if b then ''true'' else ''false'')"
| "json_text rep (JInt i) = str_of_int i"
| "json_text rep (JFloat q) = rep (JFloat q)"
| "json_text rep (JStr s) = json_string s"
| "json_text rep (JList xs) = ''['' @ join_comma (map (json_text rep) xs) @ '']''"
| "json_text rep (JDict m) =
     ''{'' @ join_comma (map (\<lambda>(k, v). json_string k @ '':'' @ json_text rep v) m) @ ''}''"

definition canonical_json :: "(json \<Rightarrow> string) \<Rightarrow> json \<Rightarrow> string" where
  "canonical_json rep v = json_text rep (sort_keys v)"

end
