(* ===== verification/Reconcile_Invariants.thy ===== *)
theory Reconcile_Invariants
  imports Claim_Writer
begin

text \<open>
  What the reconciler keeps when it succeeds without interference: the store stays well formed, the
  tables outside the conflicts are untouched, and a conflict row changes only together with its
  version.  The last point carries the facts about the conflicts the claim writer hands over from
  one reconciliation to the next.
\<close>

definition fenced :: "db \<Rightarrow> db \<Rightarrow> bool" where
  "fenced d d' \<longleftrightarrow> store_inv d' \<and> outside_conflicts d' = outside_conflicts d
     \<and> (\<forall>r' \<in> set (db_conflicts d'). \<exists>r \<in> set (db_conflicts d). cc_id r = cc_id r' \<and> cc_version r \<le> cc_version r'
          \<and> (cc_version r = cc_version r' \<longrightarrow> r = r'))"

lemma fenced_refl: "store_inv d \<Longrightarrow> fenced d d"
  by (auto simp: fenced_def)

lemma fenced_trans:
  assumes "fenced a b" and "fenced b c"
  shows "fenced a c"
proof -
  have "\<exists>x \<in> set (db_conflicts a). cc_id x = cc_id z \<and> cc_version x \<le> cc_version z \<and> (cc_version x = cc_version z \<longrightarrow> x = z)"
    if z: "z \<in> set (db_conflicts c)" for z
  proof -
    obtain y where y: "y \<in> set (db_conflicts b)" "cc_id y = cc_id z" "cc_version y \<le> cc_version z" "cc_version y = cc_version z \<longrightarrow> y = z"
      using assms(2) z unfolding fenced_def by blast
    obtain x where x: "x \<in> set (db_conflicts a)" "cc_id x = cc_id y" "cc_version x \<le> cc_version y" "cc_version x = cc_version y \<longrightarrow> x = y"
      using assms(1) y(1) unfolding fenced_def by blast
    have "x = z" if eq: "cc_version x = cc_version z"
    proof -
      have "cc_version y = cc_version z" "cc_version x = cc_version y" using eq x(3) y(3) by linarith+
      then show ?thesis using x(4) y(4) by blast
    qed
    moreover have "cc_id x = cc_id z" "cc_version x \<le> cc_version z" using x(2,3) y(2,3) by (simp, linarith)
    ultimately show ?thesis using x(1) by blast
  qed
  then show ?thesis using assms unfolding fenced_def by simp
qed

lemma fenced_logged:
  assumes "fenced d d1"
  shows "fenced d (log_activity now c e fs ts mt mi r v sn (add_evidence_links i ids d1))"
proof -
  have "store_inv (log_activity now c e fs ts mt mi r v sn (add_evidence_links i ids d1))"
    by (intro store_inv_log_activity store_inv_add_evidence_links) (use assms in \<open>simp add: fenced_def\<close>)
  then show ?thesis using assms by (simp add: fenced_def)
qed

lemma fenced_update:
  assumes "store_inv d" and "update_with_version_check i v f d = Inr (u, d1)"
    and "\<And>c. c \<in> set (db_conflicts d) \<Longrightarrow> cc_id c = i \<Longrightarrow> cc_version c = v \<Longrightarrow> conflict_ok c \<Longrightarrow> conflict_ok (f c)"
    and "\<And>c. cc_id (f c) = cc_id c"
  shows "fenced d d1"
proof (cases "d1 = d")
  case True
  then show ?thesis using fenced_refl [OF assms(1)] by simp
next
  case False
  then obtain c where row: "row_get cc_id i (db_conflicts d) = Some c" and v: "cc_version c = v"
    and nc: "\<not> open_clash ((f c)\<lparr>cc_version := cc_version c + 1\<rparr>) (filter (\<lambda>r. cc_id r \<noteq> i) (db_conflicts d))"
    and d1: "d1 = d\<lparr>db_conflicts := row_update (\<lambda>r. cc_id r = i) (\<lambda>_. (f c)\<lparr>cc_version := cc_version c + 1\<rparr>) (db_conflicts d)\<rparr>"
    using assms(2) by (auto simp: update_with_version_check_def Let_def split: option.splits if_splits)
  have c: "c \<in> set (db_conflicts d)" "cc_id c = i" using row_get_SomeD [OF row] by auto
  have inv: "conflicts_inv (db_conflicts d) (db_next d)" using assms(1) by (simp add: store_inv_def)
  have "conflict_ok (f c)" using assms(3) c v inv by (simp add: conflicts_inv_def)
  then have "conflict_ok ((f c)\<lparr>cc_version := cc_version c + 1\<rparr>)" by (simp add: conflict_ok_def)
  then have "conflicts_inv (row_update (\<lambda>r. cc_id r = i) (\<lambda>_. (f c)\<lparr>cc_version := cc_version c + 1\<rparr>) (db_conflicts d)) (db_next d)"
    using conflicts_inv_replace [OF inv row _ _ nc] c assms(4) by simp
  then have "store_inv d1" using assms(1) by (simp add: store_inv_def d1)
  moreover have "\<exists>r \<in> set (db_conflicts d). cc_id r = cc_id r' \<and> cc_version r \<le> cc_version r' \<and> (cc_version r = cc_version r' \<longrightarrow> r = r')"
    if "r' \<in> set (db_conflicts d1)" for r'
  proof (cases "r' \<in> set (db_conflicts d)")
    case False
    then have "r' = (f c)\<lparr>cc_version := cc_version c + 1\<rparr>" using that by (auto simp: d1 set_row_update split: if_splits)
    then show ?thesis using c assms(4) by (intro bexI [of _ c]) simp_all
  qed blast
  ultimately show ?thesis using outside_update [OF assms(2)] by (simp add: fenced_def)
qed

text \<open>The rows a loop may write when it expects the version of \<open>c\<close>.\<close>

definition expects :: "conflict_status \<Rightarrow> claim_conflict \<Rightarrow> db \<Rightarrow> bool" where
  "expects st c d \<longleftrightarrow>
     (\<forall>r \<in> set (db_conflicts d). cc_id r = cc_id c \<and> cc_version r = cc_version c \<longrightarrow> cc_status r = st)"

lemma expects_get:
  assumes "store_inv d" and "conflicts_get i d = Some c" and "cc_status c = st"
  shows "expects st c d"
proof -
  obtain r where r: "row_get cc_id i (db_conflicts d) = Some r" "c = with_links d r"
    using assms(2) by (auto simp: conflicts_get_def)
  have "x = r" if "x \<in> set (db_conflicts d)" "cc_id x = cc_id c" for x
    using that r row_get_SomeD [OF r(1)] row_get_Some_iff [OF store_inv_distinct_conflicts [OF assms(1)], of i x] by simp
  then show ?thesis using r(2) assms(3) by (auto simp: expects_def)
qed

lemma merge_evidence_fenced:
  assumes "store_inv d" and "expects OPEN c d" and "merge_evidence_loop k (\<lambda>_ d. d) now c ids m lr mt d = Inr d'"
  shows "fenced d d'"
  using assms
proof (induction k arbitrary: c d)
  case (Suc k)
  obtain u d1 where u: "update_with_version_check (cc_id c) (cc_version c) (evidence_update now) d = Inr (u, d1)"
    using Suc.prems(3) by (auto simp: Let_def)
  have f: "fenced d d1"
    by (rule fenced_update [OF Suc.prems(1) u])
      (use Suc.prems(2) in \<open>auto simp: expects_def intro: evidence_update_ok\<close>)
  then have inv: "store_inv d1" by (simp add: fenced_def)
  show ?case
  proof (cases u)
    case (Some x)
    then show ?thesis using Suc.prems(3) u fenced_logged [OF f] by (auto simp: Let_def)
  next
    case None
    then show ?thesis
      using Suc.prems(3) u f
      by (auto simp: Let_def split: option.splits if_splits
          intro: fenced_trans [OF f Suc.IH [OF inv expects_get [OF inv]]])
  qed
qed simp

lemma reopen_evidence_fenced:
  assumes "store_inv d" and "reopen_evidence_loop k (\<lambda>_ d. d) now c ids m mt d = Inr d'"
  shows "fenced d d'"
  using assms
proof (induction k arbitrary: c d)
  case (Suc k)
  obtain u d1 where u: "update_with_version_check (cc_id c) (cc_version c) (reopen_update now) d = Inr (u, d1)"
    using Suc.prems(2) by (auto simp: Let_def)
  have f: "fenced d d1"
    by (rule fenced_update [OF Suc.prems(1) u]) (auto intro: reopen_update_ok)
  then have inv: "store_inv d1" by (simp add: fenced_def)
  show ?case
  proof (cases u)
    case (Some x)
    then show ?thesis using Suc.prems(2) u fenced_logged [OF f] by (auto simp: Let_def)
  next
    case None
    then show ?thesis
      using Suc.prems(2) u f
      by (auto simp: Let_def merge_evidence_into_open_def split: option.splits if_splits
          intro: fenced_trans [OF f Suc.IH [OF inv]] fenced_trans [OF f merge_evidence_fenced [OF inv expects_get [OF inv]]])
  qed
qed simp

lemma move_winner_fenced:
  assumes "store_inv d" and "expects RESOLVED c d" and "move_winner_loop k (\<lambda>_ d. d) now c w run d = Inr d'"
  shows "fenced d d'"
  using assms
proof (induction k arbitrary: c d)
  case 0
  then show ?case using fenced_refl by simp
next
  case (Suc k)
  obtain u d1 where u: "update_with_version_check (cc_id c) (cc_version c) (winner_update now w) d = Inr (u, d1)"
    using Suc.prems(3) by (auto simp: Let_def)
  have f: "fenced d d1"
    by (rule fenced_update [OF Suc.prems(1) u])
      (use Suc.prems(2) in \<open>auto simp: expects_def intro: winner_update_ok\<close>)
  then have inv: "store_inv d1" by (simp add: fenced_def)
  show ?case
  proof (cases u)
    case (Some x)
    then show ?thesis using Suc.prems(3) u fenced_logged [OF f] by (auto simp: Let_def)
  next
    case None
    then show ?thesis
      using Suc.prems(3) u f
      by (auto simp: Let_def split: option.splits if_splits
          intro: fenced_trans [OF f Suc.IH [OF inv expects_get [OF inv]]])
  qed
qed

lemma auto_resolve_fenced:
  assumes "store_inv d" and "auto_resolve_loop k (\<lambda>_ d. d) now e fn run c d = Inr d'"
  shows "fenced d d'"
  using assms
proof (induction k arbitrary: c d)
  case (Suc k)
  show ?case
  proof (cases "find_active_by_event_field e fn d = [] \<or> 1 < length (unique_normalised_values (find_active_by_event_field e fn d))")
    case True
    then have "d' = d" using Suc.prems(2) by (auto simp: Let_def split: if_splits)
    then show ?thesis using fenced_refl [OF Suc.prems(1)] by simp
  next
    case False
    define w where "w = cl_id (hd (find_active_by_event_field e fn d))"
    obtain u d1 where u: "update_with_version_check (cc_id c) (cc_version c) (auto_close_update now w) d = Inr (u, d1)"
      using Suc.prems(2) False by (auto simp: Let_def w_def)
    have f: "fenced d d1"
      by (rule fenced_update [OF Suc.prems(1) u]) (auto intro: auto_close_update_ok)
    then have inv: "store_inv d1" by (simp add: fenced_def)
    show ?thesis
    proof (cases u)
      case (Some x)
      then show ?thesis using Suc.prems(2) False u fenced_logged [OF f] by (auto simp: Let_def w_def)
    next
      case None
      then show ?thesis
        using Suc.prems(2) False u f
        by (auto simp: Let_def w_def split: option.splits if_splits intro: fenced_trans [OF f Suc.IH [OF inv]])
    qed
  qed
qed simp

lemma same_conflict:
  "store_inv d \<Longrightarrow> x \<in> set (db_conflicts d) \<Longrightarrow> y \<in> set (db_conflicts d) \<Longrightarrow> cc_id x = cc_id y \<Longrightarrow> x = y"
  using store_inv_distinct_conflicts [of d] by (auto simp: distinct_map dest: inj_onD)

lemma expects_fenced:
  assumes "store_inv a" and "fenced a b" and "r \<in> set (db_conflicts a)" and "cc_status r = st"
    and "cc_id c = cc_id r" and "cc_version c = cc_version r"
  shows "expects st c b"
  unfolding expects_def
proof (intro ballI impI)
  fix y
  assume y: "y \<in> set (db_conflicts b)" "cc_id y = cc_id c \<and> cc_version y = cc_version c"
  then obtain x where x: "x \<in> set (db_conflicts a)" "cc_id x = cc_id y" "cc_version x = cc_version y \<longrightarrow> x = y"
    using assms(2) unfolding fenced_def by blast
  have "cc_id x = cc_id r" using x(2) y(2) assms(5) by simp
  then have "x = r" by (rule same_conflict [OF assms(1) x(1) assms(3)])
  then show "cc_status y = st" using x(3) y(2) assms(4,6) by auto
qed

lemma reconcile_winners_fenced:
  assumes "store_inv d" and "\<And>c x. (c, x) \<in> set ps \<Longrightarrow> \<exists>r \<in> set (db_conflicts d). cc_status r = RESOLVED \<and> cc_id c = cc_id r \<and> cc_version c = cc_version r"
    and "reconcile_superseded_winners (\<lambda>_ d. d) now run ps d = Inr d'"
  shows "fenced d d'"
  using assms(3) unfolding reconcile_superseded_winners_def
proof (rule rfold_invariant)
  show "fenced d d" by (rule fenced_refl [OF assms(1)])
  fix p a b
  assume a: "fenced d a" and p: "p \<in> set ps" and r: "reconcile_resolved_winner (\<lambda>_ d. d) now run p a = Inr b"
  obtain c x where px: "p = (c, x)" by (cases p)
  have inv: "store_inv a" using a by (simp add: fenced_def)
  obtain r where "r \<in> set (db_conflicts d)" "cc_status r = RESOLVED" "cc_id c = cc_id r" "cc_version c = cc_version r"
    using assms(2) p px by blast
  then have ex: "expects RESOLVED c a" using expects_fenced [OF assms(1) a] by blast
  have "fenced a b"
    using r move_winner_fenced [OF inv ex] reopen_evidence_fenced [OF inv] fenced_refl [OF inv]
    by (auto simp: reconcile_resolved_winner_def px Let_def reopen_resolved_for_evidence_def split: if_splits)
  then show "fenced d b" by (rule fenced_trans [OF a])
qed

lemma auto_resolve_all_fenced:
  assumes "store_inv d" and "auto_resolve_stale_open_conflicts (\<lambda>_ d. d) now e fs run d = Inr d'"
  shows "fenced d d'"
  using assms(2) unfolding auto_resolve_stale_open_conflicts_def
proof (rule rfold_invariant)
  show "fenced d d" by (rule fenced_refl [OF assms(1)])
  fix f a b
  assume a: "fenced d a" and r: "auto_resolve_stale_open_conflict (\<lambda>_ d. d) now e run f a = Inr b"
  have inv: "store_inv a" using a by (simp add: fenced_def)
  have "fenced a b"
    using r auto_resolve_fenced [OF inv] fenced_refl [OF inv]
    by (auto simp: auto_resolve_stale_open_conflict_def split: option.splits)
  then show "fenced d b" by (rule fenced_trans [OF a])
qed

text \<open>The conflicts the claim writer hands over are resolved rows of the store it returns.\<close>

lemma handed_over_resolved:
  assumes "write_normalised now e s snap items run rid d = Inr (r, d')" and "(c, x) \<in> set (wr_resolved_conflicts_to_reconcile r)"
  shows "\<exists>k \<in> set (db_conflicts d'). cc_status k = RESOLVED \<and> cc_id c = cc_id k \<and> cc_version c = cc_version k"
proof -
  obtain news sup where "wr_resolved_conflicts_to_reconcile r = conflicts_to_reconcile news sup d'"
    using assms(1) by (auto simp: write_normalised_def)
  then obtain w where "find_resolved_by_winning_claims (map cl_id sup) d' w = Some c"
    using assms(2) by (auto simp: conflicts_to_reconcile_def Let_def List.map_filter_def split: option.splits)
  then show ?thesis
    by (auto simp: find_resolved_by_winning_claims_def find_Some_iff split: if_splits) (metis nth_mem set_rev length_rev)
qed

section \<open>With interference\<close>

text \<open>A property of the tables outside the conflicts that other transactions keep survives the
  two reconciliations of an ingestion.\<close>

lemma outside_move_winner_loop:
  assumes "env_keeps P env" and "move_winner_loop k env now c w run d = Inr d'" and "P (outside_conflicts d)"
  shows "P (outside_conflicts d')"
  using assms(2,3)
proof (induction k arbitrary: c d)
  case (Suc k)
  obtain u d1 where u: "update_with_version_check (cc_id c) (cc_version c) (winner_update now w) (env k d) = Inr (u, d1)"
    using Suc.prems(1) by (auto simp: Let_def)
  have p: "P (outside_conflicts d1)" using outside_update [OF u] env_keepsD [OF assms(1) Suc.prems(2)] by simp
  show ?case using Suc.prems(1) Suc.IH [OF _ p] u p by (auto simp: Let_def split: option.splits if_splits)
qed simp

lemma outside_auto_resolve_loop:
  assumes "env_keeps P env" and "auto_resolve_loop k env now e f run c d = Inr d'" and "P (outside_conflicts d)"
  shows "P (outside_conflicts d')"
  using assms(2,3)
proof (induction k arbitrary: c d)
  case (Suc k)
  show ?case
  proof (cases "find_active_by_event_field e f d = [] \<or> 1 < length (unique_normalised_values (find_active_by_event_field e f d))")
    case True
    then have "d' = d" using Suc.prems(1) by (auto simp: Let_def split: if_splits)
    then show ?thesis using Suc.prems(2) by simp
  next
    case False
    define w where "w = cl_id (hd (find_active_by_event_field e f d))"
    obtain u d1 where u: "update_with_version_check (cc_id c) (cc_version c) (auto_close_update now w) (env k d) = Inr (u, d1)"
      using Suc.prems(1) False by (auto simp: Let_def w_def)
    have p: "P (outside_conflicts d1)" using outside_update [OF u] env_keepsD [OF assms(1) Suc.prems(2)] by simp
    show ?thesis
      using Suc.prems(1) Suc.IH [OF _ p] False u p by (auto simp: Let_def w_def split: option.splits if_splits)
  qed
qed simp

lemma outside_reconcile_winners:
  assumes "env_keeps P env" and "reconcile_superseded_winners env now run ps d = Inr d'" and "P (outside_conflicts d)"
  shows "P (outside_conflicts d')"
  using assms(2) unfolding reconcile_superseded_winners_def
proof (rule rfold_invariant)
  fix p a b
  assume "P (outside_conflicts a)" and "reconcile_resolved_winner env now run p a = Inr b"
  then show "P (outside_conflicts b)"
    using outside_move_winner_loop [OF assms(1)] outside_reopen_evidence_loop [OF assms(1)]
    by (auto simp: reconcile_resolved_winner_def Let_def reopen_resolved_for_evidence_def split: if_splits prod.splits)
qed (rule assms(3))

lemma outside_auto_resolve_all:
  assumes "env_keeps P env" and "auto_resolve_stale_open_conflicts env now e fs run d = Inr d'" and "P (outside_conflicts d)"
  shows "P (outside_conflicts d')"
  using assms(2) unfolding auto_resolve_stale_open_conflicts_def
proof (rule rfold_invariant)
  fix f a b
  assume "P (outside_conflicts a)" and "auto_resolve_stale_open_conflict env now e run f a = Inr b"
  then show "P (outside_conflicts b)"
    using outside_auto_resolve_loop [OF assms(1)]
    by (auto simp: auto_resolve_stale_open_conflict_def split: option.splits)
qed (rule assms(3))

text \<open>What the claim writer leaves alone.\<close>

lemma write_normalised_frame:
  assumes "store_inv d" and "write_normalised now e s snap items run rid d = Inr (r, d')"
  shows "same_but_claims d d'"
proof -
  let ?r0 = "\<lparr>wr_new_claims = [], wr_superseded_claims = [], wr_affected_fields = [], wr_resolved_conflicts_to_reconcile = []\<rparr>"
  obtain r1 where dist: "distinct (map it_field_name items)"
    and loop: "rfold (write_item now e s snap run rid (prior_claims e s rid d)) items (?r0, d) = Inr (r1, d')"
    using assms(2) by (auto simp: write_normalised_def)
  show ?thesis
    using write_items_effect [OF loop assms(1) dist priors_ok_prior_claims [OF assms(1)]] by blast
qed

lemma write_normalised_snapshots:
  assumes "write_normalised now e s snap items run rid d = Inr (r, d')"
  shows "db_snapshots d' = db_snapshots d"
proof -
  let ?r0 = "\<lparr>wr_new_claims = [], wr_superseded_claims = [], wr_affected_fields = [], wr_resolved_conflicts_to_reconcile = []\<rparr>"
  obtain r1 where loop: "rfold (write_item now e s snap run rid (prior_claims e s rid d)) items (?r0, d) = Inr (r1, d')"
    using assms by (auto simp: write_normalised_def)
  have item: "db_snapshots (snd b) = db_snapshots (snd a)"
    if "write_item now e s snap run rid P item a = Inr b" for P item a b
  proof -
    have "db_snapshots (fold (superseded_history now run rid) cs x) = db_snapshots x" for cs x
      using fold_superseded_history(2) [of x now run rid cs] by (simp add: same_but_claims_def)
    then show ?thesis
      using that
      by (auto simp: write_item_def Let_def claims_add_def log_claim_history_def claim_history_add_def bulk_supersede_eq
          split: option.splits prod.splits)
  qed
  have "db_snapshots (snd (r1, d')) = db_snapshots d"
    by (rule rfold_invariant [where P = "\<lambda>st. db_snapshots (snd st) = db_snapshots d", OF loop]) (simp_all add: item)
  then show ?thesis by simp
qed

end
