(* ===== verification/Ingestion.thy ===== *)
theory Ingestion
  imports Identity_Resolution Py_Json Outbox Reconcile_Invariants
begin

text \<open>
  The ingestion use case (\<open>use_cases/ingest_source_data.py\<close>) with the repositories of snapshots and
  runs and the idempotency service (\<open>ingestion/_idempotency.py\<close>): a submission is validated and
  hashed, replayed when its run is known, else normalised, stored, attached to an event, written as
  claims and reconciled with the conflicts of the event, all in one transaction.
\<close>

section \<open>Submissions and results\<close>

record submission =
  su_source_id :: uuid
  su_raw_payload :: json
  su_ingestion_run_id :: uuid
  su_claims_data :: "(string \<times> json) list"
  su_captured_at :: "time option"
  su_event_id :: "uuid option"
  su_source_record_id :: "string option"

record ingestion_settings =
  st_max_claims_per_request :: nat
  st_max_raw_payload_bytes :: nat
  st_max_duplicate_reviews_per_ingestion :: nat

text \<open>
  What the use case takes from outside: \<open>str()\<close> of floats and containers, \<open>datetime.fromisoformat\<close>,
  the hexadecimal SHA-256 digest, \<open>isoformat\<close> of a time, Pydantic's reading of a stored result, and
  the field mappers registered in the process.
\<close>

record platform =
  pf_rep :: "json \<Rightarrow> string"
  pf_dt :: "string \<Rightarrow> cdate option"
  pf_sha256 :: "string \<Rightarrow> string"
  pf_iso :: "time \<Rightarrow> string"
  pf_validate :: "json \<Rightarrow> (int \<times> uuid option \<times> uuid option \<times> bool \<times> uuid option \<times> uuid list \<times> string) option"
  pf_registered :: "uuid \<rightharpoonup> (string \<times> string) list"

record ingestion_result =
  ir_event_id :: uuid
  ir_event_created :: bool
  ir_snapshot_created :: bool
  ir_idempotent_replay :: bool
  ir_pending_review_id :: "uuid option"
  ir_pending_review_ids :: "uuid list"
  ir_attached_by :: string

text \<open>\<open>IngestionResult.__post_init__\<close>: the primary review comes first.\<close>

definition post_init :: "ingestion_result \<Rightarrow> ingestion_result" where
  "post_init r =
     (let ids = dict_fromkeys (ir_pending_review_ids r);
          primary = (case ir_pending_review_id r of
                       Some p \<Rightarrow> Some p | None \<Rightarrow> (case ids of i # _ \<Rightarrow> Some i | [] \<Rightarrow> None))
      in r\<lparr>ir_pending_review_id := primary,
           ir_pending_review_ids :=
             (case primary of Some p \<Rightarrow> p # filter (\<lambda>i. i \<noteq> p) ids | None \<Rightarrow> ids)\<rparr>)"

text \<open>\<open>IngestionClaimDTO\<close>: the field name is stripped and must not be blank.\<close>

definition ingestion_claim_dto :: "string \<Rightarrow> json \<Rightarrow> atlas_error + (string \<times> json)" where
  "ingestion_claim_dto field_name field_value =
     (let value = py_strip field_name in if value = [] then Inl ValueError else Inr (value, field_value))"

section \<open>Hashes\<close>

definition normalise_source_record_id :: "string option \<Rightarrow> string option" where
  "normalise_source_record_id rid = (case rid of None \<Rightarrow> None | Some r \<Rightarrow> or_none (py_strip r))"

definition source_mapping_hash :: "platform \<Rightarrow> (string \<times> string) list \<Rightarrow> string" where
  "source_mapping_hash P mapping =
     pf_sha256 P (canonical_json (pf_rep P) (JDict (map (\<lambda>(k, v). (k, JStr v)) mapping)))"

definition claim_fingerprint_item :: "string \<times> json \<Rightarrow> json" where
  "claim_fingerprint_item c = JDict [(''field_name'', JStr (fst c)), (''field_value'', snd c)]"

definition sorted_claims :: "platform \<Rightarrow> (string \<times> json) list \<Rightarrow> (string \<times> json) list" where
  "sorted_claims P = sort_key (\<lambda>c. (fst c, canonical_json (pf_rep P) (snd c)))"

definition ingestion_submission_fingerprint ::
  "platform \<Rightarrow> json \<Rightarrow> submission \<Rightarrow> json \<Rightarrow> json \<Rightarrow> (string \<times> json) list" where
  "ingestion_submission_fingerprint P raw_payload_hash s mapping_hash normalizer_version =
     [(''schema_version'', JInt 1), (''raw_payload_hash'', raw_payload_hash),
      (''claims_data'', JList (map claim_fingerprint_item (sorted_claims P (su_claims_data s)))),
      (''source_record_id'', opt_str (su_source_record_id s)),
      (''event_id'', opt_str (map_option str_uuid (su_event_id s))),
      (''captured_at'', opt_str (map_option (pf_iso P) (su_captured_at s))),
      (''source_mapping_hash'', mapping_hash), (''normalizer_version'', normalizer_version)]"

text \<open>The mapping and the normaliser version are not part of the idempotency hash.\<close>

definition ingestion_submission_hash_material :: "platform \<Rightarrow> submission \<Rightarrow> json" where
  "ingestion_submission_hash_material P s =
     JDict ((''raw_payload'', su_raw_payload s)
       # filter (\<lambda>(k, v). k \<noteq> ''source_mapping_hash'' \<and> k \<noteq> ''normalizer_version'')
           (ingestion_submission_fingerprint P JNull s JNull JNull))"

definition hex_val :: "char \<Rightarrow> nat" where
  "hex_val c = (if py_digit c then digit_val c else (of_char c :: nat) - 87)"

text \<open>The first 16 bytes of the digest are the first 32 characters of its hexadecimal text.\<close>

definition derive_ingestion_run_id :: "platform \<Rightarrow> uuid \<Rightarrow> string \<Rightarrow> uuid" where
  "derive_ingestion_run_id P source_id idempotency_key =
     foldl (\<lambda>a c. 16 * a + hex_val c) 0 (take 32 (pf_sha256 P (str_uuid source_id @ '':'' @ idempotency_key)))"

text \<open>\<open>_validate_and_hash\<close>: the raw payload hash and the submission hash.\<close>

fun duplicate_fields :: "string list \<Rightarrow> (string \<times> json) list \<Rightarrow> string list" where
  "duplicate_fields seen [] = []"
| "duplicate_fields seen (c # cs) =
     (if fst c \<in> set seen then [fst c] else []) @ duplicate_fields (fst c # seen) cs"

definition validate_and_hash ::
  "platform \<Rightarrow> ingestion_settings \<Rightarrow> submission \<Rightarrow> atlas_error + (string \<times> string)" where
  "validate_and_hash P settings s =
     (if su_claims_data s = [] then Inl DomainValidationError
      else if st_max_claims_per_request settings < length (su_claims_data s) then Inl TooManyClaimsError
      else let canonical_raw_payload = canonical_json (pf_rep P) (su_raw_payload s)
      in if st_max_raw_payload_bytes settings < length canonical_raw_payload then Inl PayloadTooLargeError
      else let canonical_submission =
             canonical_json (pf_rep P) (ingestion_submission_hash_material P s)
      in if st_max_raw_payload_bytes settings < length canonical_submission then Inl PayloadTooLargeError
      else let dups = duplicate_fields [] (su_claims_data s)
      in if dups \<noteq> [] then Inl (DuplicateClaimFieldError (sorted_set dups))
      else Inr (pf_sha256 P canonical_raw_payload, pf_sha256 P canonical_submission))"

section \<open>Snapshots and runs\<close>

definition snapshots_add :: "raw_snapshot \<Rightarrow> db \<Rightarrow> atlas_error + db" where
  "snapshots_add snapshot d =
     (if list_ex (\<lambda>r. sn_id r = sn_id snapshot \<or> sn_source_id r = sn_source_id snapshot
                    \<and> sn_ingestion_run_id r = sn_ingestion_run_id snapshot) (db_snapshots d)
      then Inl IntegrityError else Inr (d\<lparr>db_snapshots := db_snapshots d @ [snapshot]\<rparr>))"

definition snapshots_get :: "uuid \<Rightarrow> db \<Rightarrow> raw_snapshot option" where
  "snapshots_get i d = row_get sn_id i (db_snapshots d)"

definition find_latest_by_source_record_id :: "uuid \<Rightarrow> string \<Rightarrow> db \<Rightarrow> raw_snapshot option" where
  "find_latest_by_source_record_id source_id source_record_id d =
     first_desc sn_created_at
       (filter (\<lambda>r. sn_source_id r = source_id \<and> sn_source_record_id r = Some source_record_id) (db_snapshots d))"

definition find_by_source_run :: "uuid \<Rightarrow> uuid \<Rightarrow> db \<Rightarrow> raw_snapshot option" where
  "find_by_source_run source_id run_id d =
     first_desc sn_created_at
       (filter (\<lambda>r. sn_source_id r = source_id \<and> sn_ingestion_run_id r = run_id) (db_snapshots d))"

text \<open>\<open>ON CONFLICT DO NOTHING\<close> on the pair of source and run.\<close>

definition try_add_unique :: "raw_snapshot \<Rightarrow> db \<Rightarrow> bool \<times> db" where
  "try_add_unique snapshot d =
     (if list_ex (\<lambda>r. sn_source_id r = sn_source_id snapshot
                    \<and> sn_ingestion_run_id r = sn_ingestion_run_id snapshot) (db_snapshots d)
      then (False, d) else (True, d\<lparr>db_snapshots := db_snapshots d @ [snapshot]\<rparr>))"

definition update_ingestion_result :: "uuid \<Rightarrow> json \<Rightarrow> db \<Rightarrow> atlas_error + db" where
  "update_ingestion_result snapshot_id result_json d =
     (if list_ex (\<lambda>r. sn_id r = snapshot_id) (db_snapshots d)
      then Inr (d\<lparr>db_snapshots := row_update (\<lambda>r. sn_id r = snapshot_id)
                   (\<lambda>r. r\<lparr>sn_ingestion_result_json := Some result_json\<rparr>) (db_snapshots d)\<rparr>)
      else Inl RuntimeError)"

definition runs_get :: "uuid \<Rightarrow> db \<Rightarrow> ingestion_run option" where
  "runs_get i d = row_get ru_id i (db_runs d)"

definition runs_add :: "ingestion_run \<Rightarrow> db \<Rightarrow> atlas_error + db" where
  "runs_add run d =
     (if runs_get (ru_id run) d \<noteq> None then Inl IntegrityError
      else Inr (d\<lparr>db_runs := db_runs d @ [run]\<rparr>))"

definition ensure_started :: "time \<Rightarrow> uuid \<Rightarrow> uuid \<Rightarrow> db \<Rightarrow> atlas_error + db" where
  "ensure_started now i source_id d =
     (let d1 = (if runs_get i d = None
                then d\<lparr>db_runs := db_runs d @ [\<lparr>ru_id = i, ru_source_id = source_id, ru_status = ''running'',
                       ru_started_at = now, ru_finished_at = None\<rparr>]\<rparr>
                else d)
      in case runs_get i d1 of
          None \<Rightarrow> Inl RuntimeError
        | Some existing \<Rightarrow>
            if ru_source_id existing \<noteq> source_id
            then Inl (IngestionRunSourceMismatchError i source_id (ru_source_id existing)) else Inr d1)"

definition run_update_status :: "time \<Rightarrow> uuid \<Rightarrow> string \<Rightarrow> time option \<Rightarrow> db \<Rightarrow> atlas_error + db" where
  "run_update_status now i status finished_at d =
     (let effective_finished_at =
        (case finished_at of
           Some t \<Rightarrow> Some t
         | None \<Rightarrow> if status \<in> {''finished'', ''completed'', ''failed''} then Some now else None)
      in if list_ex (\<lambda>r. ru_id r = i) (db_runs d)
         then Inr (d\<lparr>db_runs := row_update (\<lambda>r. ru_id r = i)
                      (\<lambda>r. r\<lparr>ru_status := status, ru_finished_at := effective_finished_at\<rparr>) (db_runs d)\<rparr>)
         else Inl RuntimeError)"

text \<open>Active claims first, then the newest, then the smallest identifier.\<close>

definition find_event_id_by_raw_snapshot_id :: "uuid \<Rightarrow> db \<Rightarrow> uuid option" where
  "find_event_id_by_raw_snapshot_id snapshot_id d =
     (case sort_key (\<lambda>c. (cl_claim_type c = SUPERSEDED, - cl_created_at c, cl_id c))
             (filter (\<lambda>c. cl_raw_snapshot_id c = Some snapshot_id) (db_claims d)) of
        [] \<Rightarrow> None | c # _ \<Rightarrow> Some (cl_event_id c))"

section \<open>Idempotency\<close>

definition snapshot_hash_matches :: "raw_snapshot \<Rightarrow> string \<Rightarrow> string \<Rightarrow> bool" where
  "snapshot_hash_matches snapshot submission_hash raw_payload_hash =
     (let stored = (case sn_submission_hash snapshot of
                      Some h \<Rightarrow> or_default h (sn_payload_hash snapshot) | None \<Rightarrow> sn_payload_hash snapshot)
      in stored = submission_hash
         \<or> (sn_submission_fingerprint_json snapshot = None \<and> sn_raw_payload_hash snapshot = None
            \<and> stored = raw_payload_hash))"

definition result_from_json :: "platform \<Rightarrow> json \<Rightarrow> db \<Rightarrow> atlas_error + ingestion_result" where
  "result_from_json P data d =
     (case pf_validate P data of
        None \<Rightarrow> Inl PersistenceCorruptionError
      | Some (version, at_completion, plain_id, created, review_id, review_ids, attached) \<Rightarrow>
          if version \<noteq> 1 then Inl PersistenceCorruptionError
          else case coalesce at_completion plain_id of
              None \<Rightarrow> Inl PersistenceCorruptionError
            | Some seed_event_id \<Rightarrow>
                rbind (replay_canonical seed_event_id d) (\<lambda>event_id.
                  let ids = dict_fromkeys review_ids
                  in Inr (post_init
                      \<lparr>ir_event_id = event_id, ir_event_created = created, ir_snapshot_created = False,
                       ir_idempotent_replay = True, ir_pending_review_id = review_id,
                       ir_pending_review_ids =
                         (case review_id of Some p \<Rightarrow> if p \<in> set ids then ids else p # ids | None \<Rightarrow> ids),
                       ir_attached_by = or_default attached ''idempotent_replay''\<rparr>)))"

definition result_from_snapshot ::
  "platform \<Rightarrow> raw_snapshot \<Rightarrow> db \<Rightarrow> atlas_error + ingestion_result option" where
  "result_from_snapshot P snapshot d =
     (let legacy = (case find_event_id_by_raw_snapshot_id (sn_id snapshot) d of
            None \<Rightarrow> Inr None
          | Some existing_event_id \<Rightarrow>
              rbind (replay_canonical existing_event_id d) (\<lambda>event_id.
                Inr (Some (post_init
                  \<lparr>ir_event_id = event_id, ir_event_created = False, ir_snapshot_created = False,
                   ir_idempotent_replay = True, ir_pending_review_id = None, ir_pending_review_ids = [],
                   ir_attached_by = ''idempotent_replay_legacy_claim_lookup''\<rparr>))))
      in case sn_ingestion_result_json snapshot of
          None \<Rightarrow> legacy
        | Some data \<Rightarrow>
            if json_truthy data then rbind (result_from_json P data d) (\<lambda>r. Inr (Some r)) else legacy)"

definition idempotency_check ::
  "platform \<Rightarrow> uuid \<Rightarrow> uuid \<Rightarrow> string \<Rightarrow> string \<Rightarrow> db \<Rightarrow> atlas_error + ingestion_result option" where
  "idempotency_check P source_id run_id submission_hash raw_payload_hash d =
     (case find_by_source_run source_id run_id d of
        None \<Rightarrow> Inr None
      | Some existing \<Rightarrow>
          if \<not> snapshot_hash_matches existing submission_hash raw_payload_hash
          then Inl IdempotencyKeyPayloadMismatchError
          else rbind (result_from_snapshot P existing d) (\<lambda>replay. case replay of
              Some r \<Rightarrow> Inr (Some r) | None \<Rightarrow> Inl IngestionInProgressError))"

section \<open>The phases of an ingestion\<close>

definition load_and_normalise ::
  "platform \<Rightarrow> string \<Rightarrow> submission \<Rightarrow> db
     \<Rightarrow> atlas_error + (accident_event option \<times> claim_item list \<times> (string \<times> json) list \<times> json)" where
  "load_and_normalise P raw_payload_hash s d =
     (case sources_get (su_source_id s) d of
        None \<Rightarrow> Inl (SourceNotFoundError (su_source_id s))
      | Some source \<Rightarrow>
          let fingerprint = JDict (ingestion_submission_fingerprint P (JStr raw_payload_hash) s
                (JStr (source_mapping_hash P (src_field_mapping_json source)))
                (JStr (if src_kind source = EXTERNAL then ''external-v1'' else ''identity-v1'')))
          in rbind (case su_event_id s of
                      None \<Rightarrow> Inr None
                    | Some i \<Rightarrow>
                        (case events_get i d of
                           None \<Rightarrow> Inl (EventNotFoundError i)
                         | Some e \<Rightarrow> if is_merged e then Inl (EventAlreadyMergedError i) else Inr (Some e)))
             (\<lambda>explicit_event.
               case normalise_claims (pf_rep P) (pf_dt P) (pf_registered P)
                      (if src_kind source = EXTERNAL then ''EXTERNAL'' else ''INTERNAL'')
                      (map (\<lambda>(f, v). \<lparr>it_field_name = f, it_field_value = Some v\<rparr>) (su_claims_data s))
                      (Some (su_source_id s)) (src_field_mapping_json source) of
                 Inl e \<Rightarrow> Inl (if e = ValueError then DomainValidationError else e)
               | Inr normalised \<Rightarrow>
                   Inr (explicit_event, normalised,
                        map (\<lambda>item. (it_field_name item, value_or_null item)) normalised, fingerprint)))"

definition insert_snapshot ::
  "platform \<Rightarrow> (wait_point \<Rightarrow> db \<Rightarrow> db) \<Rightarrow> time \<Rightarrow> submission \<Rightarrow> string \<Rightarrow> string \<Rightarrow> json \<Rightarrow> db
     \<Rightarrow> atlas_error + ((ingestion_result + raw_snapshot) \<times> db)" where
  "insert_snapshot P conc now s raw_payload_hash submission_hash fingerprint d =
     (let snapshot = \<lparr>sn_id = fst (uuid4 d), sn_source_id = su_source_id s,
            sn_ingestion_run_id = su_ingestion_run_id s, sn_payload_hash = submission_hash,
            sn_payload_json = su_raw_payload s, sn_schema_version = 1,
            sn_captured_at = (case su_captured_at s of Some t \<Rightarrow> t | None \<Rightarrow> now), sn_created_at = now,
            sn_source_record_id = su_source_record_id s, sn_raw_payload_hash = Some raw_payload_hash,
            sn_submission_hash = Some submission_hash,
            sn_submission_fingerprint_json = Some fingerprint, sn_ingestion_result_json = None\<rparr>;
          (inserted, d1) = try_add_unique snapshot (conc Snapshot_Insert (snd (uuid4 d)))
      in if inserted then Inr (Inr snapshot, d1)
         else case find_by_source_run (su_source_id s) (su_ingestion_run_id s) d1 of
             None \<Rightarrow> Inl IngestionInProgressError
           | Some existing \<Rightarrow>
               if \<not> snapshot_hash_matches existing submission_hash raw_payload_hash
               then Inl IdempotencyKeyPayloadMismatchError
               else rbind (result_from_snapshot P existing d1) (\<lambda>replay. case replay of
                   Some r \<Rightarrow> Inr (Inl r, d1) | None \<Rightarrow> Inl IngestionInProgressError))"

text \<open>\<open>_resolve_event\<close>; the flag says whether the identity index has been maintained.\<close>

definition resolve_event ::
  "platform \<Rightarrow> ingestion_settings \<Rightarrow> (wait_point \<Rightarrow> db \<Rightarrow> db) \<Rightarrow> time \<Rightarrow> accident_event option
     \<Rightarrow> accident_event option \<Rightarrow> (string \<times> json) list \<Rightarrow> string option \<Rightarrow> db
     \<Rightarrow> atlas_error + (resolution \<times> bool \<times> db)" where
  "resolve_event P settings conc now explicit_event from_record incoming source_record_id d =
     (case explicit_event of
        Some e \<Rightarrow> Inr (\<lparr>re_event = e, re_reviews = [], re_created = False,
                        re_attached_by = ''explicit_event_id''\<rparr>, False, d)
      | None \<Rightarrow>
          (case from_record of
             Some e \<Rightarrow> Inr (\<lparr>re_event = e, re_reviews = [], re_created = False,
                             re_attached_by = ''source_record_id''\<rparr>, False, d)
           | None \<Rightarrow>
               rbind (resolve_with_reviews (pf_rep P) conc now incoming source_record_id
                        (st_max_duplicate_reviews_per_ingestion settings) d)
               (\<lambda>(r, d'). Inr (r, True, d'))))"

definition lock_and_write_claims ::
  "platform \<Rightarrow> (wait_point \<Rightarrow> db \<Rightarrow> db) \<Rightarrow> time \<Rightarrow> uuid \<Rightarrow> bool \<Rightarrow> claim_item list \<Rightarrow> (string \<times> json) list
     \<Rightarrow> uuid \<Rightarrow> uuid \<Rightarrow> uuid \<Rightarrow> string option \<Rightarrow> db \<Rightarrow> atlas_error + (claim_write_result \<times> db)" where
  "lock_and_write_claims P conc now event_id maintained normalised incoming source_id snapshot_id run_id
       source_record_id d =
     (let d1 = conc Event_Lock d
      in case events_get event_id d1 of
          None \<Rightarrow> Inl (EventNotFoundError event_id)
        | Some locked \<Rightarrow>
            if is_merged locked then Inl (EventAlreadyMergedError event_id)
            else write_normalised now event_id source_id snapshot_id normalised run_id source_record_id
                   (if maintained then d1
                    else identity_index_update (pf_rep P) now event_id incoming source_record_id d1))"

text \<open>\<open>ProjectionUpdater.queue\<close>.\<close>

definition queue_projection :: "time \<Rightarrow> uuid \<Rightarrow> uuid \<Rightarrow> uuid \<Rightarrow> db \<Rightarrow> db" where
  "queue_projection now event_id source_id run_id d =
     outbox_add (new_outbox_event now (fst (uuid4 d)) ''CLAIMS_UPDATED'' event_id
       [(''event_id'', event_id), (''source_id'', source_id), (''ingestion_run_id'', run_id)]) (snd (uuid4 d))"

definition opt_uuid :: "uuid option \<Rightarrow> json" where
  "opt_uuid i = opt_str (map_option str_uuid i)"

definition ingestion_result_json :: "platform \<Rightarrow> time \<Rightarrow> ingestion_result \<Rightarrow> json" where
  "ingestion_result_json P now r =
     JDict [(''schema_version'', JInt 1),
            (''event_id_at_completion'', JStr (str_uuid (ir_event_id r))),
            (''event_id'', JStr (str_uuid (ir_event_id r))),
            (''event_created'', JBool (ir_event_created r)),
            (''snapshot_created'', JBool (ir_snapshot_created r)),
            (''pending_review_id'', opt_uuid (ir_pending_review_id r)),
            (''pending_review_ids'', JList (map (\<lambda>i. JStr (str_uuid i)) (ir_pending_review_ids r))),
            (''attached_by'', JStr (ir_attached_by r)),
            (''completed_at'', JStr (pf_iso P now))]"

text \<open>The phases 5 to 8 and the end of \<open>execute_with_result\<close>, after the snapshot is stored.\<close>

definition ingest_snapshot ::
  "platform \<Rightarrow> ingestion_settings \<Rightarrow> (wait_point \<Rightarrow> db \<Rightarrow> db) \<Rightarrow> (nat \<Rightarrow> db \<Rightarrow> db) \<Rightarrow> time \<Rightarrow> submission
     \<Rightarrow> accident_event option \<Rightarrow> accident_event option \<Rightarrow> claim_item list \<Rightarrow> (string \<times> json) list \<Rightarrow> uuid \<Rightarrow> db
     \<Rightarrow> atlas_error + (ingestion_result \<times> db)" where
  "ingest_snapshot P settings conc env now s explicit_event from_record normalised incoming snapshot_id d =
     rbind (resolve_event P settings conc now explicit_event from_record incoming (su_source_record_id s) d)
     (\<lambda>(res, maintained, d1). let event_id = ev_id (re_event res); run_id = su_ingestion_run_id s in
     rbind (lock_and_write_claims P conc now event_id maintained normalised incoming (su_source_id s)
              snapshot_id run_id (su_source_record_id s) d1)
     (\<lambda>(written, d2).
     rbind (reconcile_superseded_winners env now run_id (wr_resolved_conflicts_to_reconcile written) d2)
     (\<lambda>d3. rbind (auto_resolve_stale_open_conflicts env now event_id (wr_affected_fields written) run_id d3)
     (\<lambda>d4. rbind (detect_and_apply_new_conflicts env now event_id run_id INGESTION d4)
     (\<lambda>d5.
       let result = post_init \<lparr>ir_event_id = event_id, ir_event_created = re_created res,
             ir_snapshot_created = True, ir_idempotent_replay = False,
             ir_pending_review_id = (case re_reviews res of r # _ \<Rightarrow> Some (rv_id r) | [] \<Rightarrow> None),
             ir_pending_review_ids = map rv_id (re_reviews res), ir_attached_by = re_attached_by res\<rparr>
       in rbind (update_ingestion_result snapshot_id (ingestion_result_json P now result)
                   (queue_projection now event_id (su_source_id s) run_id d5))
          (\<lambda>d6. rbind (run_update_status now run_id ''finished'' (Some now) d6)
          (\<lambda>d7. Inr (result, d7))))))))"

text \<open>
  \<open>execute_with_result\<close>.  The two returns of a replay come before \<open>commit\<close>: the store they are paired with
  is the caller's uncommitted view, and the unit of work rolls it back.
\<close>

definition ingest ::
  "platform \<Rightarrow> ingestion_settings \<Rightarrow> (wait_point \<Rightarrow> db \<Rightarrow> db) \<Rightarrow> (nat \<Rightarrow> db \<Rightarrow> db) \<Rightarrow> time \<Rightarrow> submission \<Rightarrow> db
     \<Rightarrow> atlas_error + (ingestion_result \<times> db)" where
  "ingest P settings conc env now s0 d =
     (let s = s0\<lparr>su_source_record_id := normalise_source_record_id (su_source_record_id s0)\<rparr> in
     rbind (validate_and_hash P settings s)
     (\<lambda>(raw_payload_hash, submission_hash).
     rbind (idempotency_check P (su_source_id s) (su_ingestion_run_id s) submission_hash raw_payload_hash d)
     (\<lambda>early. case early of Some r \<Rightarrow> Inr (r, d) | None \<Rightarrow>
     rbind (load_and_normalise P raw_payload_hash s d)
     (\<lambda>(explicit_event, normalised, incoming, fingerprint).
     rbind (ensure_started now (su_ingestion_run_id s) (su_source_id s) d)
     (\<lambda>d1. rbind (case runs_get (su_ingestion_run_id s) d1 of
                    Some run \<Rightarrow> if ru_source_id run \<noteq> su_source_id s then Inl DomainValidationError else Inr ()
                  | None \<Rightarrow> Inr ())
     (\<lambda>_. rbind (case su_source_record_id s of
                   Some rid \<Rightarrow> continuity_resolve conc (su_source_id s) rid explicit_event d1
                 | None \<Rightarrow> Inr (None, d1))
     (\<lambda>(from_record, d2).
     rbind (insert_snapshot P conc now s raw_payload_hash submission_hash fingerprint d2)
     (\<lambda>(replay_or_snapshot, d3). case replay_or_snapshot of
         Inl r \<Rightarrow> Inr (r, d3)
       | Inr snapshot \<Rightarrow>
           ingest_snapshot P settings conc env now s explicit_event from_record normalised incoming
             (sn_id snapshot) d3))))))))"

definition ingest_execute ::
  "platform \<Rightarrow> ingestion_settings \<Rightarrow> (wait_point \<Rightarrow> db \<Rightarrow> db) \<Rightarrow> (nat \<Rightarrow> db \<Rightarrow> db) \<Rightarrow> time \<Rightarrow> submission \<Rightarrow> db
     \<Rightarrow> atlas_error + (uuid \<times> db)" where
  "ingest_execute P settings conc env now s d =
     rbind (ingest P settings conc env now s d) (\<lambda>(r, d'). Inr (ir_event_id r, d'))"

section \<open>What the phases leave alone\<close>

definition same_but_identity :: "db \<Rightarrow> db \<Rightarrow> bool" where
  "same_but_identity d d' \<longleftrightarrow>
     db_sources d' = db_sources d \<and> db_claims d' = db_claims d \<and> db_claim_history d' = db_claim_history d
     \<and> db_conflicts d' = db_conflicts d \<and> db_conflict_claims d' = db_conflict_claims d
     \<and> db_activity d' = db_activity d \<and> db_projections d' = db_projections d
     \<and> db_projection_history d' = db_projection_history d \<and> db_outbox d' = db_outbox d
     \<and> db_snapshots d' = db_snapshots d \<and> db_runs d' = db_runs d \<and> db_next d \<le> db_next d'"

lemma same_but_identity_refl [simp]: "same_but_identity d d"
  by (simp add: same_but_identity_def)

lemma same_but_identity_trans: "same_but_identity a b \<Longrightarrow> same_but_identity b c \<Longrightarrow> same_but_identity a c"
  by (simp add: same_but_identity_def)

lemma store_inv_same_but_identity: "same_but_identity d d' \<Longrightarrow> store_inv d \<Longrightarrow> store_inv d'"
  by (auto simp: same_but_identity_def store_inv_def intro: claims_inv_mono conflicts_inv_mono)

lemma identity_upsert_frame [simp]:
  "same_but_identity d (identity_upsert x d)" "same_but_identity d (enrich_identity_index_from_alias x d)"
  "db_events (identity_upsert x d) = db_events d"
  by (simp_all add: same_but_identity_def identity_upsert_def enrich_identity_index_from_alias_def identity_on_conflict_def)

lemma create_event_frame:
  assumes "create_event rep now inc rid d = (e, d')"
  shows "same_but_identity d d'"
proof -
  have "d' = identity_index_update rep now (ev_id e) inc rid (events_add e (snd (uuid4 d)))"
    using assms by (auto simp: create_event_def Let_def)
  moreover have "same_but_identity d (events_add e (snd (uuid4 d)))"
    by (simp add: same_but_identity_def events_add_def)
  ultimately show ?thesis unfolding identity_index_update_def by (metis identity_upsert_frame(1) same_but_identity_trans)
qed

lemma queue_reviews_frame:
  "fold (queue_review now e dec) ids (rs, d) = (rs', d') \<Longrightarrow> same_but_identity d d'"
proof (induction ids arbitrary: rs d)
  case (Cons i ids)
  obtain rs1 d1 where q: "queue_review now e dec i (rs, d) = (rs1, d1)" by fastforce
  have "same_but_identity d d1"
    using q by (auto simp: queue_review_def Let_def reviews_add_def same_but_identity_def split: option.splits if_splits)
  moreover have "same_but_identity d1 d'" using Cons.IH Cons.prems q by simp
  ultimately show ?case by (rule same_but_identity_trans)
qed simp

lemma create_with_reviews_frame:
  assumes "create_with_reviews rep now n dec inc rid d = Inr (r, d')"
  shows "same_but_identity d d'"
proof -
  obtain e d1 where c: "create_event rep now inc rid d = (e, d1)" by fastforce
  have f: "same_but_identity d d1" by (rule create_event_frame [OF c])
  consider "d' = d1" | ids rs where "fold (queue_review now (ev_id e) dec) ids ([], d1) = (rs, d')"
    using assms by (auto simp: create_with_reviews_def c Let_def split: if_splits prod.splits)
  then show ?thesis
  proof cases
    case 1
    then show ?thesis using f by simp
  next
    case 2
    then show ?thesis using same_but_identity_trans [OF f queue_reviews_frame] by blast
  qed
qed

lemma resolve_with_reviews_frame:
  assumes "resolve_with_reviews rep conc now inc rid n d = Inr (r, d')"
  shows "same_but_identity d d' \<or> same_but_identity (conc Identity_Lock d) d'"
proof (cases "incoming_value inc ''event_date'' = JNull")
  case True
  then show ?thesis
    using assms create_event_frame [of rep now inc rid d]
    by (auto simp: resolve_with_reviews_def Let_def split: if_splits prod.splits)
next
  case False
  let ?d1 = "conc Identity_Lock d"
  obtain dec where "create_with_reviews rep now n dec inc rid ?d1 = Inr (r, d')
      \<or> (\<exists>c e. attach_to rep now c e inc rid ?d1 = (r, d'))"
    using assms False
    by (auto simp: resolve_with_reviews_def Let_def split: if_splits option.splits)
  then have "same_but_identity ?d1 d'"
    using create_with_reviews_frame by (auto simp: attach_to_def Let_def split: if_splits)
  then show ?thesis by blast
qed

lemma resolve_event_frame:
  assumes "resolve_event P settings conc now ex fr inc rid d = Inr (r, b, d')"
  shows "same_but_identity d d' \<or> same_but_identity (conc Identity_Lock d) d'"
  using assms resolve_with_reviews_frame [of "pf_rep P" conc now inc rid]
  by (fastforce simp: resolve_event_def split: option.splits)

text \<open>The snapshots of one run of one source; the unique index allows at most one.\<close>

definition run_snapshots :: "uuid \<Rightarrow> uuid \<Rightarrow> db \<Rightarrow> raw_snapshot list" where
  "run_snapshots s run d = filter (\<lambda>r. sn_source_id r = s \<and> sn_ingestion_run_id r = run) (db_snapshots d)"

lemma find_by_source_run_single: "run_snapshots s run d = [x] \<Longrightarrow> find_by_source_run s run d = Some x"
  by (simp add: find_by_source_run_def run_snapshots_def first_desc_def py_sorted_rev_def)

lemma run_snapshots_cong: "db_snapshots d' = db_snapshots d \<Longrightarrow> run_snapshots s run d' = run_snapshots s run d"
  by (simp add: run_snapshots_def)

lemma insert_snapshot_stored:
  assumes "insert_snapshot P conc now s rh sh fp d = Inr (Inr snap, d')"
  shows "run_snapshots (su_source_id s) (su_ingestion_run_id s) d' = [snap]"
    "sn_submission_hash snap = Some sh" "sn_source_record_id snap = su_source_record_id s" "sn_source_id snap = su_source_id s"
proof -
  let ?x = "conc Snapshot_Insert (snd (uuid4 d))"
  have t: "try_add_unique snap ?x = (True, d')" and f: "sn_source_id snap = su_source_id s"
    "sn_ingestion_run_id snap = su_ingestion_run_id s" "sn_submission_hash snap = Some sh" "sn_source_record_id snap = su_source_record_id s"
    using assms by (auto simp: insert_snapshot_def Let_def split: if_splits option.splits prod.splits)
  have "filter (\<lambda>r. sn_source_id r = su_source_id s \<and> sn_ingestion_run_id r = su_ingestion_run_id s) (db_snapshots ?x) = []"
    "db_snapshots d' = db_snapshots ?x @ [snap]"
    using t f by (auto simp: try_add_unique_def list_ex_iff filter_empty_conv split: if_splits)
  then show "run_snapshots (su_source_id s) (su_ingestion_run_id s) d' = [snap]"
    using f by (simp add: run_snapshots_def)
  show "sn_submission_hash snap = Some sh" "sn_source_record_id snap = su_source_record_id s" "sn_source_id snap = su_source_id s"
    by (fact f)+
qed

lemma insert_snapshot_inv:
  assumes "insert_snapshot P conc now s rh sh fp d = Inr (x, d')"
    and "\<And>p d. store_inv d \<Longrightarrow> store_inv (conc p d)" and "store_inv d"
  shows "store_inv d'"
proof -
  have i: "store_inv (conc Snapshot_Insert (snd (uuid4 d)))" by (intro assms(2) store_inv_uuid4 assms(3))
  have "d' = conc Snapshot_Insert (snd (uuid4 d)) \<or>
      (\<exists>y. d' = (conc Snapshot_Insert (snd (uuid4 d)))\<lparr>db_snapshots := y\<rparr>)"
    using assms(1) by (auto simp: insert_snapshot_def try_add_unique_def Let_def split: if_splits option.splits prod.splits)
  then show ?thesis using i by (auto simp: store_inv_def)
qed

section \<open>Replaying a submission\<close>

lemma duplicate_fields_Nil_iff:
  "duplicate_fields seen cs = [] \<longleftrightarrow> distinct (map fst cs) \<and> fst ` set cs \<inter> set seen = {}"
  by (induction seen cs rule: duplicate_fields.induct) auto

text \<open>The order of the claims does not matter once no field occurs twice.\<close>

lemma sorted_claims_perm:
  assumes "mset cs' = mset cs" and "distinct (map fst cs)"
  shows "sorted_claims P cs' = sorted_claims P cs"
proof -
  have "inj_on fst (set cs')" using assms by (metis distinct_map set_mset_mset)
  then have "inj_on (\<lambda>c. (fst c, canonical_json (pf_rep P) (snd c))) (set cs')" by (auto simp: inj_on_def)
  then show ?thesis
    unfolding sorted_claims_def by (intro sort_key_inj_key_eq) (simp_all add: assms(1))
qed

lemma hash_material_perm:
  assumes "mset cs' = mset (su_claims_data s)" and "distinct (map fst (su_claims_data s))"
  shows "ingestion_submission_hash_material P (s\<lparr>su_claims_data := cs'\<rparr>) = ingestion_submission_hash_material P s"
  using sorted_claims_perm [OF assms]
  by (simp add: ingestion_submission_hash_material_def ingestion_submission_fingerprint_def)

lemma validate_and_hash_perm:
  assumes "validate_and_hash P settings s = Inr h" and "mset cs' = mset (su_claims_data s)"
  shows "validate_and_hash P settings (s\<lparr>su_claims_data := cs'\<rparr>) = Inr h"
proof -
  have dup: "duplicate_fields [] (su_claims_data s) = []"
    using assms(1) by (auto simp: validate_and_hash_def Let_def split: if_splits)
  then have dist: "distinct (map fst (su_claims_data s))" by (simp add: duplicate_fields_Nil_iff)
  have "mset (map fst cs') = mset (map fst (su_claims_data s))" using assms(2) by simp
  then have "distinct (map fst cs')" using dist by (metis mset_eq_imp_distinct_iff)
  then have dup': "duplicate_fields [] cs' = []" by (simp add: duplicate_fields_Nil_iff)
  have "length cs' = length (su_claims_data s)" using assms(2) by (metis size_mset)
  moreover have "cs' = [] \<longleftrightarrow> su_claims_data s = []" using assms(2) by auto
  ultimately show ?thesis
    using assms(1) unfolding validate_and_hash_def hash_material_perm [OF assms(2) dist] Let_def
    by (simp add: dup dup' split: if_splits)
qed

lemma replay_flag:
  "result_from_snapshot P x d = Inr (Some r) \<Longrightarrow> ir_idempotent_replay r"
  by (auto simp: result_from_snapshot_def result_from_json_def post_init_def Let_def split: option.splits if_splits)

text \<open>The review handles of a result are consistent.\<close>

definition reviews_consistent :: "ingestion_result \<Rightarrow> bool" where
  "reviews_consistent r \<longleftrightarrow> distinct (ir_pending_review_ids r)
     \<and> (case ir_pending_review_id r of
          None \<Rightarrow> ir_pending_review_ids r = [] | Some p \<Rightarrow> \<exists>is. ir_pending_review_ids r = p # is)"

lemma post_init_consistent: "reviews_consistent (post_init r)"
  by (auto simp: reviews_consistent_def post_init_def Let_def split: option.split list.split)

lemma dict_fromkeys_distinct: "distinct xs \<Longrightarrow> dict_fromkeys xs = xs"
  by (induction xs) (auto simp: dict_fromkeys_Cons dict_fromkeys_def [of "[]"] filter_id_conv)

lemma post_init_id:
  assumes "reviews_consistent r"
  shows "post_init r = r"
proof (cases "ir_pending_review_id r")
  case None
  then show ?thesis using assms by (cases r) (simp add: reviews_consistent_def post_init_def dict_fromkeys_def)
next
  case (Some p)
  then obtain rest where ids: "ir_pending_review_ids r = p # rest" "distinct (p # rest)"
    using assms by (auto simp: reviews_consistent_def)
  then have "filter (\<lambda>i. i \<noteq> p) (p # rest) = rest" by (auto simp: filter_id_conv)
  then show ?thesis using Some ids dict_fromkeys_distinct [OF ids(2)] by (cases r) (simp add: post_init_def)
qed

lemma replayed_result:
  assumes "reviews_consistent r" and "ir_attached_by r \<noteq> []"
    and "pf_validate P data = Some (1, Some (ir_event_id r), Some (ir_event_id r), ir_event_created r,
           ir_pending_review_id r, ir_pending_review_ids r, ir_attached_by r)"
    and "replay_canonical (ir_event_id r) d = Inr e"
  shows "result_from_json P data d = Inr (r\<lparr>ir_event_id := e, ir_snapshot_created := False, ir_idempotent_replay := True\<rparr>)"
proof -
  let ?r = "r\<lparr>ir_event_id := e, ir_snapshot_created := False, ir_idempotent_replay := True\<rparr>"
  have ids: "dict_fromkeys (ir_pending_review_ids r) = ir_pending_review_ids r"
    "(case ir_pending_review_id r of Some p \<Rightarrow> if p \<in> set (ir_pending_review_ids r) then ir_pending_review_ids r else p # ir_pending_review_ids r
       | None \<Rightarrow> ir_pending_review_ids r) = ir_pending_review_ids r"
    using assms(1) by (auto simp: reviews_consistent_def dict_fromkeys_distinct split: option.splits)
  have "post_init ?r = ?r"
    by (rule post_init_id) (use assms(1) in \<open>cases "ir_pending_review_id r"; simp add: reviews_consistent_def\<close>)
  moreover have "?r = \<lparr>ir_event_id = e, ir_event_created = ir_event_created r, ir_snapshot_created = False,
      ir_idempotent_replay = True, ir_pending_review_id = ir_pending_review_id r,
      ir_pending_review_ids = ir_pending_review_ids r, ir_attached_by = ir_attached_by r\<rparr>" by simp
  ultimately have p: "post_init \<lparr>ir_event_id = e, ir_event_created = ir_event_created r, ir_snapshot_created = False,
      ir_idempotent_replay = True, ir_pending_review_id = ir_pending_review_id r,
      ir_pending_review_ids = ir_pending_review_ids r, ir_attached_by = ir_attached_by r\<rparr> = ?r" by (simp only:)
  have a: "or_default (ir_attached_by r) ''idempotent_replay'' = ir_attached_by r"
    using assms(2) by (simp add: or_default_def)
  show ?thesis
    unfolding result_from_json_def assms(3) coalesce_def option.case prod.case Let_def assms(4) rbind.simps ids a p
    by simp
qed

lemma create_with_reviews_attached:
  "create_with_reviews rep now n dec inc rid d = Inr (r, d') \<Longrightarrow> re_attached_by r \<noteq> []"
  by (cases "create_event rep now inc rid d")
    (auto simp: create_with_reviews_def Let_def split: if_splits prod.splits)

lemma resolve_attached:
  assumes "resolve_event P settings conc now ex fr inc rid d = Inr (res, b, d')"
  shows "re_attached_by res \<noteq> []"
proof (cases "ex = None \<and> fr = None")
  case True
  let ?n = "st_max_duplicate_reviews_per_ingestion settings"
  let ?d1 = "conc Identity_Lock d"
  have r: "resolve_with_reviews (pf_rep P) conc now inc rid ?n d = Inr (res, d')"
    using assms True by (auto simp: resolve_event_def)
  show ?thesis
  proof (cases "incoming_value inc ''event_date'' = JNull")
    case True
    then show ?thesis using r by (auto simp: resolve_with_reviews_def Let_def split: if_splits prod.splits)
  next
    case False
    obtain dec where "create_with_reviews (pf_rep P) now ?n dec inc rid ?d1 = Inr (res, d')
        \<or> (\<exists>c e. attach_to (pf_rep P) now c e inc rid ?d1 = (res, d'))"
      using r False by (auto simp: resolve_with_reviews_def Let_def split: if_splits option.splits)
    then show ?thesis using create_with_reviews_attached by (auto simp: attach_to_def Let_def)
  qed
next
  case False
  then show ?thesis using assms by (auto simp: resolve_event_def split: option.splits)
qed

lemma rbind_InrE: "rbind m f = Inr y \<Longrightarrow> (\<And>x. m = Inr x \<Longrightarrow> thesis) \<Longrightarrow> thesis"
  by (cases m) simp_all

text \<open>The intermediate stores of a completed ingestion.\<close>

lemma ingest_snapshot_steps:
  assumes "ingest_snapshot P settings conc env now s ex fr items inc snap d = Inr (r, d')"
  obtains res maintained d1 written d2 d3 d4 d5 d6 where
    "resolve_event P settings conc now ex fr inc (su_source_record_id s) d = Inr (res, maintained, d1)"
    "lock_and_write_claims P conc now (ev_id (re_event res)) maintained items inc (su_source_id s) snap
       (su_ingestion_run_id s) (su_source_record_id s) d1 = Inr (written, d2)"
    "reconcile_superseded_winners env now (su_ingestion_run_id s) (wr_resolved_conflicts_to_reconcile written) d2 = Inr d3"
    "auto_resolve_stale_open_conflicts env now (ev_id (re_event res)) (wr_affected_fields written) (su_ingestion_run_id s) d3 = Inr d4"
    "detect_and_apply_new_conflicts env now (ev_id (re_event res)) (su_ingestion_run_id s) INGESTION d4 = Inr d5"
    "update_ingestion_result snap (ingestion_result_json P now r)
       (queue_projection now (ev_id (re_event res)) (su_source_id s) (su_ingestion_run_id s) d5) = Inr d6"
    "run_update_status now (su_ingestion_run_id s) ''finished'' (Some now) d6 = Inr d'"
    "ir_event_id r = ev_id (re_event res)" "ir_attached_by r = re_attached_by res" "reviews_consistent r"
    "ir_snapshot_created r" "\<not> ir_idempotent_replay r" "ir_event_created r = re_created res"
proof -
  obtain res maintained d1 where 1: "resolve_event P settings conc now ex fr inc (su_source_record_id s) d = Inr (res, maintained, d1)"
    using assms by (auto simp: ingest_snapshot_def)
  obtain written d2 where 2: "lock_and_write_claims P conc now (ev_id (re_event res)) maintained items inc (su_source_id s) snap
       (su_ingestion_run_id s) (su_source_record_id s) d1 = Inr (written, d2)"
    using assms 1 by (auto simp: ingest_snapshot_def Let_def)
  note body = assms [unfolded ingest_snapshot_def 1 rbind.simps prod.case Let_def 2]
  obtain d3 where 3: "reconcile_superseded_winners env now (su_ingestion_run_id s) (wr_resolved_conflicts_to_reconcile written) d2 = Inr d3"
    using body by auto
  obtain d4 where 4: "auto_resolve_stale_open_conflicts env now (ev_id (re_event res)) (wr_affected_fields written) (su_ingestion_run_id s) d3 = Inr d4"
    using body [unfolded 3 rbind.simps] by auto
  obtain d5 where 5: "detect_and_apply_new_conflicts env now (ev_id (re_event res)) (su_ingestion_run_id s) INGESTION d4 = Inr d5"
    using body [unfolded 3 4 rbind.simps] by auto
  define q where "q = \<lparr>ir_event_id = ev_id (re_event res), ir_event_created = re_created res,
      ir_snapshot_created = True, ir_idempotent_replay = False,
      ir_pending_review_id = (case re_reviews res of r # _ \<Rightarrow> Some (rv_id r) | [] \<Rightarrow> None),
      ir_pending_review_ids = map rv_id (re_reviews res), ir_attached_by = re_attached_by res\<rparr>"
  note tail = body [unfolded 3 4 5 rbind.simps q_def [symmetric]]
  obtain d6 where 6: "update_ingestion_result snap (ingestion_result_json P now (post_init q))
      (queue_projection now (ev_id (re_event res)) (su_source_id s) (su_ingestion_run_id s) d5) = Inr d6"
    and 7: "run_update_status now (su_ingestion_run_id s) ''finished'' (Some now) d6 = Inr d'" and r: "r = post_init q"
    using tail by auto
  have "ir_event_id r = ev_id (re_event res)" "ir_attached_by r = re_attached_by res" "reviews_consistent r"
    "ir_snapshot_created r" "\<not> ir_idempotent_replay r" "ir_event_created r = re_created res"
    using post_init_consistent [of q] by (simp_all add: r) (simp_all add: post_init_def q_def Let_def)
  then show ?thesis using that 1 2 3 4 5 6 [folded r] 7 by blast
qed

lemma ingest_steps:
  assumes "ingest P settings conc env now s0 d = Inr (r, d')" and "\<not> ir_idempotent_replay r"
  obtains s rh sh ex items inc fp d1 fr d2 snap d3 where
    "s = s0\<lparr>su_source_record_id := normalise_source_record_id (su_source_record_id s0)\<rparr>"
    "validate_and_hash P settings s = Inr (rh, sh)"
    "load_and_normalise P rh s d = Inr (ex, items, inc, fp)"
    "ensure_started now (su_ingestion_run_id s) (su_source_id s) d = Inr d1"
    "(case su_source_record_id s of Some rid \<Rightarrow> continuity_resolve conc (su_source_id s) rid ex d1 | None \<Rightarrow> Inr (None, d1)) = Inr (fr, d2)"
    "insert_snapshot P conc now s rh sh fp d2 = Inr (Inr snap, d3)"
    "ingest_snapshot P settings conc env now s ex fr items inc (sn_id snap) d3 = Inr (r, d')"
proof -
  define s where "s = s0\<lparr>su_source_record_id := normalise_source_record_id (su_source_record_id s0)\<rparr>"
  note b0 = assms(1) [unfolded ingest_def Let_def s_def [symmetric]]
  obtain rh sh where 1: "validate_and_hash P settings s = Inr (rh, sh)" using b0 by auto
  note b1 = b0 [unfolded 1 rbind.simps prod.case]
  have 2: "idempotency_check P (su_source_id s) (su_ingestion_run_id s) sh rh d = Inr None"
  proof -
    obtain early where e: "idempotency_check P (su_source_id s) (su_ingestion_run_id s) sh rh d = Inr early"
      using b1 by (rule rbind_InrE)
    have "ir_idempotent_replay x" if "early = Some x" for x
      using e that replay_flag by (auto simp: idempotency_check_def split: option.splits if_splits)
    then show ?thesis using b1 [unfolded e rbind.simps] e assms(2) by (cases early) auto
  qed
  note b2 = b1 [unfolded 2 rbind.simps option.case]
  obtain ex items inc fp where 3: "load_and_normalise P rh s d = Inr (ex, items, inc, fp)" using b2 by auto
  note b3 = b2 [unfolded 3 rbind.simps prod.case]
  obtain d1 where 4: "ensure_started now (su_ingestion_run_id s) (su_source_id s) d = Inr d1" using b3 by (rule rbind_InrE)
  note b4 = b3 [unfolded 4 rbind.simps]
  obtain fr d2 where 5: "(case su_source_record_id s of Some rid \<Rightarrow> continuity_resolve conc (su_source_id s) rid ex d1 | None \<Rightarrow> Inr (None, d1)) = Inr (fr, d2)"
    and b5: "rbind (insert_snapshot P conc now s rh sh fp d2)
     (\<lambda>(replay_or_snapshot, d3). case replay_or_snapshot of
         Inl r \<Rightarrow> Inr (r, d3)
       | Inr snapshot \<Rightarrow> ingest_snapshot P settings conc env now s ex fr items inc (sn_id snapshot) d3) = Inr (r, d')"
    using b4 by auto
  obtain x d3 where 6: "insert_snapshot P conc now s rh sh fp d2 = Inr (x, d3)" using b5 by auto
  have "ir_idempotent_replay y" if "x = Inl y" for y
    using 6 that replay_flag
    by (auto simp: insert_snapshot_def Let_def split: if_splits option.splits prod.splits)
  then obtain snap where x: "x = Inr snap" using b5 6 assms(2) by (cases x) auto
  have "ingest_snapshot P settings conc env now s ex fr items inc (sn_id snap) d3 = Inr (r, d')" using b5 6 x by simp
  then show ?thesis using that [OF s_def 1 3 4 5 6 [unfolded x]] by blast
qed

text \<open>Other transactions cannot touch the snapshot of a run this transaction has inserted: it is
  not visible to them, and the unique index makes a second insertion wait.\<close>

definition run_isolated :: "uuid \<Rightarrow> uuid \<Rightarrow> (wait_point \<Rightarrow> db \<Rightarrow> db) \<Rightarrow> (nat \<Rightarrow> db \<Rightarrow> db) \<Rightarrow> bool" where
  "run_isolated src run conc env \<longleftrightarrow>
     (\<forall>p d. p \<noteq> Snapshot_Insert \<longrightarrow> run_snapshots src run (conc p d) = run_snapshots src run d)
     \<and> (\<forall>k d. run_snapshots src run (env k d) = run_snapshots src run d)"

definition snapshots_are where
  "snapshots_are src run X x \<longleftrightarrow> (case x of (so, ev, cl, ch, pr, ph, ob, ii, rv, sn, ru) \<Rightarrow>
     filter (\<lambda>r. sn_source_id r = src \<and> sn_ingestion_run_id r = run) sn = X)"

lemma snapshots_are_iff: "snapshots_are src run X (outside_conflicts d) \<longleftrightarrow> run_snapshots src run d = X"
  by (simp add: snapshots_are_def outside_conflicts_def run_snapshots_def)

lemma env_keeps_snapshots: "run_isolated src run conc env \<Longrightarrow> env_keeps (snapshots_are src run X) env"
  by (simp add: env_keeps_def snapshots_are_iff run_isolated_def)

lemma lock_and_write_snapshots:
  assumes "lock_and_write_claims P conc now e b items inc src snap run rid d = Inr (w, d')"
    and "run_isolated s r conc env"
  shows "run_snapshots s r d' = run_snapshots s r d"
proof -
  obtain x where x: "write_normalised now e src snap items run rid x = Inr (w, d')"
    and "x = conc Event_Lock d \<or> x = identity_index_update (pf_rep P) now e inc rid (conc Event_Lock d)"
    using assms(1) by (auto simp: lock_and_write_claims_def Let_def split: option.splits if_splits)
  then have "same_but_identity (conc Event_Lock d) x" by (auto simp: identity_index_update_def)
  then have "run_snapshots s r x = run_snapshots s r (conc Event_Lock d)"
    by (intro run_snapshots_cong) (simp add: same_but_identity_def)
  moreover have "run_snapshots s r d' = run_snapshots s r x"
    by (rule run_snapshots_cong [OF write_normalised_snapshots [OF x]])
  ultimately show ?thesis using assms(2) by (simp add: run_isolated_def)
qed

lemma ingest_snapshot_result:
  assumes "ingest_snapshot P settings conc env now s ex fr items inc (sn_id snap) d = Inr (r, d')"
    and "run_isolated (su_source_id s) (su_ingestion_run_id s) conc env"
    and "run_snapshots (su_source_id s) (su_ingestion_run_id s) d = [snap]"
  shows "run_snapshots (su_source_id s) (su_ingestion_run_id s) d' =
      [snap\<lparr>sn_ingestion_result_json := Some (ingestion_result_json P now r)\<rparr>]
    \<and> reviews_consistent r \<and> ir_attached_by r \<noteq> []"
  using assms(1)
proof (rule ingest_snapshot_steps)
  fix res :: resolution and maintained d1 written d2 d3 d4 d5 d6
  let ?src = "su_source_id s" and ?run = "su_ingestion_run_id s"
  let ?R = "run_snapshots ?src ?run" and ?e = "ev_id (re_event res)"
  assume 1: "resolve_event P settings conc now ex fr inc (su_source_record_id s) d = Inr (res, maintained, d1)"
    and 2: "lock_and_write_claims P conc now ?e maintained items inc ?src (sn_id snap) ?run (su_source_record_id s) d1 = Inr (written, d2)"
    and 3: "reconcile_superseded_winners env now ?run (wr_resolved_conflicts_to_reconcile written) d2 = Inr d3"
    and 4: "auto_resolve_stale_open_conflicts env now ?e (wr_affected_fields written) ?run d3 = Inr d4"
    and 5: "detect_and_apply_new_conflicts env now ?e ?run INGESTION d4 = Inr d5"
    and 6: "update_ingestion_result (sn_id snap) (ingestion_result_json P now r) (queue_projection now ?e ?src ?run d5) = Inr d6"
    and 7: "run_update_status now ?run ''finished'' (Some now) d6 = Inr d'"
    and r: "ir_attached_by r = re_attached_by res" "reviews_consistent r"
  note keeps = env_keeps_snapshots [OF assms(2), of "[snap]"]
  have "?R d1 = ?R d \<or> ?R d1 = ?R (conc Identity_Lock d)"
    using resolve_event_frame [OF 1] by (auto simp: same_but_identity_def intro: run_snapshots_cong)
  then have "?R d1 = [snap]" using assms(2,3) by (auto simp: run_isolated_def)
  then have "?R d2 = [snap]" using lock_and_write_snapshots [OF 2 assms(2)] by simp
  then have "?R d3 = [snap]" using outside_reconcile_winners [OF keeps 3] by (simp add: snapshots_are_iff)
  then have "?R d4 = [snap]" using outside_auto_resolve_all [OF keeps 4] by (simp add: snapshots_are_iff)
  then have R5: "?R d5 = [snap]" using outside_detect_and_apply [OF keeps 5] by (simp add: snapshots_are_iff)
  let ?q = "queue_projection now ?e ?src ?run d5"
  let ?upd = "\<lambda>x. x\<lparr>sn_ingestion_result_json := Some (ingestion_result_json P now r)\<rparr>"
  have "db_snapshots ?q = db_snapshots d5" by (simp add: queue_projection_def outbox_add_def)
  then have d6: "db_snapshots d6 = row_update (\<lambda>x. sn_id x = sn_id snap) ?upd (db_snapshots d5)"
    using 6 by (auto simp: update_ingestion_result_def split: if_splits)
  have "?R d6 = row_update (\<lambda>x. sn_id x = sn_id snap) ?upd (?R d5)"
    unfolding run_snapshots_def d6 row_update_def filter_map by (simp add: comp_def if_distrib cong: if_cong)
  also have "\<dots> = [?upd snap]" by (simp add: R5 row_update_def)
  finally have "?R d6 = [?upd snap]" .
  moreover have "db_snapshots d' = db_snapshots d6" using 7 by (auto simp: run_update_status_def Let_def split: if_splits)
  ultimately have "?R d' = [?upd snap]" by (simp only: run_snapshots_def)
  then show ?thesis using r resolve_attached [OF 1] by simp
qed

text \<open>Source 1 reports something other than source 2's on a known event.\<close>

definition ingest_platform :: platform where
  "ingest_platform = \<lparr>pf_rep = (\<lambda>_. ''?''), pf_dt = (\<lambda>_. None), pf_sha256 = take 4, pf_iso = (\<lambda>_. ''t''),
     pf_validate = (\<lambda>j. case j of
         JDict ((_, JInt v) # (_, JStr e) # _) \<Rightarrow>
           if e = str_uuid 1 then Some (v, Some 1, Some 1, False, None, [], ''explicit_event_id'') else None
       | _ \<Rightarrow> None),
     pf_registered = (\<lambda>_. None)\<rparr>"

definition ingest_limits :: ingestion_settings where
  "ingest_limits = \<lparr>st_max_claims_per_request = 10, st_max_raw_payload_bytes = 1000,
     st_max_duplicate_reviews_per_ingestion = 3\<rparr>"

definition ingest_sample :: submission where
  "ingest_sample = \<lparr>su_source_id = 1, su_raw_payload = JNull, su_ingestion_run_id = 4,
     su_claims_data = [(''operator'', JBool True)], su_captured_at = None,
     su_event_id = Some 1, su_source_record_id = Some ''r''\<rparr>"

definition ingest_db :: db where
  "ingest_db = (event_db None)\<lparr>
     db_sources := [\<lparr>src_id = 1, src_name = ''s'', src_kind = INTERNAL, src_reliability_tier = 1,
       src_field_mapping_json = [], src_created_at = 0\<rparr>],
     db_claims := [sample_claim 6 2 ''operator'' (JBool False) RAW]\<rparr>"

definition ingest_answer :: ingestion_result where
  "ingest_answer = \<lparr>ir_event_id = 1, ir_event_created = False, ir_snapshot_created = True,
     ir_idempotent_replay = False, ir_pending_review_id = None, ir_pending_review_ids = [],
     ir_attached_by = ''explicit_event_id''\<rparr>"

text \<open>The stores between its phases.\<close>

definition ingest_items :: "claim_item list" where
  "ingest_items = [\<lparr>it_field_name = ''operator'', it_field_value = Some (JBool True)\<rparr>]"

definition ingest_db_started :: db where
  "ingest_db_started = ingest_db\<lparr>db_runs := [\<lparr>ru_id = 4, ru_source_id = 1, ru_status = ''running'',
     ru_started_at = 10, ru_finished_at = None\<rparr>]\<rparr>"

definition ingest_snap :: "json \<Rightarrow> raw_snapshot" where
  "ingest_snap fp = \<lparr>sn_id = 100, sn_source_id = 1, sn_ingestion_run_id = 4, sn_payload_hash = ''{\"ca'',
     sn_payload_json = JNull, sn_schema_version = 1, sn_captured_at = 10, sn_created_at = 10,
     sn_source_record_id = Some ''r'', sn_raw_payload_hash = Some ''null'', sn_submission_hash = Some ''{\"ca'',
     sn_submission_fingerprint_json = Some fp, sn_ingestion_result_json = None\<rparr>"

definition ingest_db_stored :: "json \<Rightarrow> db" where
  "ingest_db_stored fp = ingest_db_started\<lparr>db_snapshots := [ingest_snap fp], db_next := 101\<rparr>"

definition ingest_new_claim :: claim where
  "ingest_new_claim = (sample_claim 101 1 ''operator'' (JBool True) RAW)\<lparr>cl_raw_snapshot_id := Some 100, cl_created_at := 10\<rparr>"

definition ingest_db_written :: "json \<Rightarrow> db" where
  "ingest_db_written fp = (ingest_db_stored fp)\<lparr>
     db_claims := [sample_claim 6 2 ''operator'' (JBool False) RAW, ingest_new_claim],
     db_claim_history := [\<lparr>ch_id = 102, ch_claim_id = 101, ch_event_id = 1, ch_from_value = None,
       ch_to_value = Some (JBool True), ch_from_claim_type = None, ch_to_claim_type = RAW, ch_action = ''created'',
       ch_reason = ''Initial ingestion'', ch_modifier_type = INGESTION, ch_modifier_id = Some 4, ch_created_at = 10\<rparr>],
     db_identity := [\<lparr>ii_event_id = 1, ii_event_date_norm = None, ii_registration_norm = None,
       ii_operator_norm = Some ''true'', ii_location_norm = None, ii_aircraft_type_norm = None,
       ii_source_record_ids = [''r''], ii_registration_norms = [], ii_updated_at = 10\<rparr>],
     db_next := 103\<rparr>"

definition ingest_db_detected :: "json \<Rightarrow> db" where
  "ingest_db_detected fp = (ingest_db_written fp)\<lparr>
     db_conflicts := [new_conflict 10 103 1 ''operator'' []], db_conflict_claims := [(103, 6), (103, 101)],
     db_activity := [\<lparr>al_id = 104, al_conflict_id = 103, al_event_id = 1, al_sequence = 1, al_from_status = None,
       al_to_status = OPEN, al_modifier_type = INGESTION, al_modifier_id = Some 4,
       al_reason = ''Initial conflict detected'', al_version_at_moment = 1, al_claims_snapshot = [],
       al_created_at = 10\<rparr>],
     db_next := 105\<rparr>"

lemma ingest_example_hash: "validate_and_hash ingest_platform ingest_limits ingest_sample = Inr (''null'', ''{\"ca'')"
  by code_simp

lemma ingest_example_new: "idempotency_check ingest_platform 1 4 ''{\"ca'' ''null'' ingest_db = Inr None"
  by (simp add: idempotency_check_def find_by_source_run_def first_desc_def py_sorted_rev_def ingest_db_def event_db_def empty_db_def)

lemma ingest_example_load: "\<exists>fp. load_and_normalise ingest_platform rh ingest_sample ingest_db =
    Inr (Some (sample_event None), ingest_items, [(''operator'', JBool True)], fp)"
proof -
  have "normalise_claims (pf_rep ingest_platform) (pf_dt ingest_platform) (pf_registered ingest_platform) ''INTERNAL''
      ingest_items (Some 1) [] = Inr ingest_items" by code_simp
  then show ?thesis
    by (simp add: load_and_normalise_def ingest_sample_def ingest_db_def event_db_eval sources_get_def ingest_items_def value_or_null_def)
qed

lemma ingest_example_started: "ensure_started 10 4 1 ingest_db = Inr ingest_db_started"
  by (simp add: ensure_started_def runs_get_def ingest_db_started_def ingest_db_def event_db_def empty_db_def)

lemma ingest_example_continuity: "continuity_resolve (\<lambda>_ d. d) 1 ''r'' (Some (sample_event None)) ingest_db_started = Inr (None, ingest_db_started)"
  by code_simp

lemma ingest_example_stored: "insert_snapshot ingest_platform (\<lambda>_ d. d) 10 ingest_sample ''null'' ''{\"ca'' fp ingest_db_started =
    Inr (Inr (ingest_snap fp), ingest_db_stored fp)"
  by (simp add: insert_snapshot_def try_add_unique_def ingest_db_stored_def ingest_db_started_def ingest_db_def event_db_def
      empty_db_def ingest_snap_def ingest_sample_def uuid4_def Let_def)

lemma ingest_example_write: "lock_and_write_claims ingest_platform (\<lambda>_ d. d) 10 1 False ingest_items [(''operator'', JBool True)]
    1 100 4 (Some ''r'') (ingest_db_stored fp) =
  Inr (\<lparr>wr_new_claims = [ingest_new_claim], wr_superseded_claims = [], wr_affected_fields = [],
        wr_resolved_conflicts_to_reconcile = []\<rparr>, ingest_db_written fp)"
  by code_simp

lemma ingest_example_detect:
  "detect_and_apply_new_conflicts (\<lambda>_ d. d) 10 1 4 INGESTION (ingest_db_written fp) = Inr (ingest_db_detected fp)"
  by code_simp

lemma ingest_example_tail:
  "\<exists>d'. ingest_snapshot ingest_platform ingest_limits (\<lambda>_ d. d) (\<lambda>_ d. d) 10 ingest_sample (Some (sample_event None)) None
      ingest_items [(''operator'', JBool True)] 100 (ingest_db_stored fp) = Inr (ingest_answer, d')
    \<and> db_claims d' = [sample_claim 6 2 ''operator'' (JBool False) RAW, ingest_new_claim]
    \<and> db_events d' = [sample_event None]"
proof -
  define q where "q = queue_projection 10 1 1 4 (ingest_db_detected fp)"
  have q: "db_snapshots q = [ingest_snap fp]" "db_runs q = [\<lparr>ru_id = 4, ru_source_id = 1, ru_status = ''running'',
     ru_started_at = 10, ru_finished_at = None\<rparr>]" "db_events q = [sample_event None]"
     "db_claims q = [sample_claim 6 2 ''operator'' (JBool False) RAW, ingest_new_claim]"
    by (simp_all add: q_def queue_projection_def outbox_add_def ingest_db_detected_def ingest_db_written_def
        ingest_db_stored_def ingest_db_started_def ingest_db_def event_db_def)
  have e: "ev_id (sample_event None) = 1" by (simp add: sample_event_def)
  have p: "post_init ingest_answer = ingest_answer" by (simp add: post_init_def ingest_answer_def dict_fromkeys_def)
  obtain d6 where d6: "update_ingestion_result 100 (ingestion_result_json ingest_platform 10 ingest_answer) q = Inr d6"
    "db_runs d6 = db_runs q" "db_events d6 = db_events q" "db_claims d6 = db_claims q"
    by (simp add: update_ingestion_result_def q ingest_snap_def)
  obtain d7 where d7: "run_update_status 10 4 ''finished'' (Some 10) d6 = Inr d7" "db_events d7 = db_events q" "db_claims d7 = db_claims q"
    by (simp add: run_update_status_def d6 q)
  have "ingest_snapshot ingest_platform ingest_limits (\<lambda>_ d. d) (\<lambda>_ d. d) 10 ingest_sample (Some (sample_event None)) None
      ingest_items [(''operator'', JBool True)] 100 (ingest_db_stored fp) = Inr (ingest_answer, d7)"
    using d6(1) d7(1) p e ingest_example_write [of fp] ingest_example_detect [of fp]
    by (simp add: ingest_snapshot_def resolve_event_def ingest_sample_def reconcile_superseded_winners_def
        auto_resolve_stale_open_conflicts_def ingest_answer_def [symmetric] q_def [symmetric] Let_def
      del: One_nat_def)
  then show ?thesis using d7 q by auto
qed

lemma ingest_example:
  "\<exists>d'. ingest ingest_platform ingest_limits (\<lambda>_ d. d) (\<lambda>_ d. d) 10 ingest_sample ingest_db = Inr (ingest_answer, d')
    \<and> db_claims d' = [sample_claim 6 2 ''operator'' (JBool False) RAW, ingest_new_claim]
    \<and> db_events d' = [sample_event None]"
proof -
  obtain fp where fp: "load_and_normalise ingest_platform ''null'' ingest_sample ingest_db =
    Inr (Some (sample_event None), ingest_items, [(''operator'', JBool True)], fp)" using ingest_example_load by blast
  have ids: "su_source_id ingest_sample = 1" "su_ingestion_run_id ingest_sample = 4" "su_source_record_id ingest_sample = Some ''r''"
    "ingest_sample\<lparr>su_source_record_id := normalise_source_record_id (Some ''r'')\<rparr> = ingest_sample"
    "sn_id (ingest_snap fp) = 100"
    by (simp_all add: ingest_sample_def ingest_snap_def) code_simp
  have r: "runs_get 4 ingest_db_started = Some \<lparr>ru_id = 4, ru_source_id = 1, ru_status = ''running'', ru_started_at = 10, ru_finished_at = None\<rparr>"
    by (simp add: runs_get_def ingest_db_started_def)
  show ?thesis
    unfolding ingest_def Let_def ids ingest_example_hash ingest_example_new fp ingest_example_started
      ingest_example_continuity ingest_example_stored r rbind.simps prod.case option.case sum.case ingestion_run.simps
    using ingest_example_tail [of fp] by simp
qed

text \<open>C2: Retrying a completed ingestion is safe: the same submission, with its claims in any order, is
  answered from the stored result by any later call that still finds the snapshot and the event it
  was attached to; nothing is written, and the answer is the original one with the event's current
  canonical identifier, marked as a replay.\<close>

theorem ingest_replay:
  assumes "ingest P settings conc env now s d = Inr (r, d1)" and "\<not> ir_idempotent_replay r"
    and "run_isolated (su_source_id s) (su_ingestion_run_id s) conc env"
    and "pf_validate P (ingestion_result_json P now r) =
      Some (1, Some (ir_event_id r), Some (ir_event_id r), ir_event_created r, ir_pending_review_id r,
            ir_pending_review_ids r, ir_attached_by r)"
    and "mset claims = mset (su_claims_data s)"
    and "find_by_source_run (su_source_id s) (su_ingestion_run_id s) d2 =
      find_by_source_run (su_source_id s) (su_ingestion_run_id s) d1"
    and "replay_canonical (ir_event_id r) d2 = Inr e"
  shows "ingest P settings conc2 env2 now2 (s\<lparr>su_claims_data := claims\<rparr>) d2 =
    Inr (r\<lparr>ir_event_id := e, ir_snapshot_created := False, ir_idempotent_replay := True\<rparr>, d2)"
  using assms(1,2)
proof (rule ingest_steps)
  fix s' rh sh ex items inc fp d1' fr d2' snap d3
  assume s': "s' = s\<lparr>su_source_record_id := normalise_source_record_id (su_source_record_id s)\<rparr>"
    and h: "validate_and_hash P settings s' = Inr (rh, sh)"
    and i: "insert_snapshot P conc now s' rh sh fp d2' = Inr (Inr snap, d3)"
    and t: "ingest_snapshot P settings conc env now s' ex fr items inc (sn_id snap) d3 = Inr (r, d1)"
  let ?src = "su_source_id s" and ?run = "su_ingestion_run_id s"
  let ?snap = "snap\<lparr>sn_ingestion_result_json := Some (ingestion_result_json P now r)\<rparr>"
  have ids: "su_source_id s' = ?src" "su_ingestion_run_id s' = ?run" "su_claims_data s' = su_claims_data s" by (simp_all add: s')
  note st = insert_snapshot_stored [OF i, unfolded ids]
  have res: "run_snapshots ?src ?run d1 = [?snap]" "reviews_consistent r" "ir_attached_by r \<noteq> []"
    using ingest_snapshot_result [OF t, unfolded ids, OF assms(3) st(1)] by blast+
  have "find_by_source_run ?src ?run d2 = Some ?snap"
    using assms(6) find_by_source_run_single [OF res(1)] by simp
  moreover have "snapshot_hash_matches ?snap sh rh"
  proof -
    have "sn_payload_hash snap = sh" using i by (auto simp: insert_snapshot_def Let_def split: if_splits option.splits prod.splits)
    then show ?thesis using st(2) by (simp add: snapshot_hash_matches_def or_default_def)
  qed
  moreover have "result_from_snapshot P ?snap d2 =
      Inr (Some (r\<lparr>ir_event_id := e, ir_snapshot_created := False, ir_idempotent_replay := True\<rparr>))"
    using replayed_result [OF res(2,3) assms(4,7)]
    by (simp add: result_from_snapshot_def Let_def ingestion_result_json_def)
  ultimately have check: "idempotency_check P ?src ?run sh rh d2 =
      Inr (Some (r\<lparr>ir_event_id := e, ir_snapshot_created := False, ir_idempotent_replay := True\<rparr>))"
    by (simp add: idempotency_check_def)
  have h': "validate_and_hash P settings (s'\<lparr>su_claims_data := claims\<rparr>) = Inr (rh, sh)"
    by (rule validate_and_hash_perm [OF h]) (simp add: ids assms(5))
  have eq: "(s\<lparr>su_claims_data := claims\<rparr>)\<lparr>su_source_record_id :=
      normalise_source_record_id (su_source_record_id (s\<lparr>su_claims_data := claims\<rparr>))\<rparr> = s'\<lparr>su_claims_data := claims\<rparr>"
    by (simp add: s')
  have p: "su_source_id (s'\<lparr>su_claims_data := claims\<rparr>) = ?src" "su_ingestion_run_id (s'\<lparr>su_claims_data := claims\<rparr>) = ?run"
    by (simp_all add: s')
  show ?thesis unfolding ingest_def Let_def eq h' rbind.simps prod.case p check option.case ..
qed

theorem ingest_replay_witness:
  "\<exists>d'. ingest ingest_platform ingest_limits (\<lambda>_ d. d) (\<lambda>_ d. d) 10 ingest_sample ingest_db = Inr (ingest_answer, d')
     \<and> ingest ingest_platform ingest_limits (\<lambda>_ d. d) (\<lambda>_ d. d) 20 ingest_sample d' =
         Inr (ingest_answer\<lparr>ir_event_id := 1, ir_snapshot_created := False, ir_idempotent_replay := True\<rparr>, d')"
proof -
  obtain d' where d': "ingest ingest_platform ingest_limits (\<lambda>_ d. d) (\<lambda>_ d. d) 10 ingest_sample ingest_db = Inr (ingest_answer, d')"
    "db_events d' = [sample_event None]" using ingest_example by blast
  have new: "\<not> ir_idempotent_replay ingest_answer" by (simp add: ingest_answer_def)
  have iso: "run_isolated (su_source_id ingest_sample) (su_ingestion_run_id ingest_sample) (\<lambda>_ d. d) (\<lambda>_ d. d)"
    by (simp add: run_isolated_def)
  have val: "pf_validate ingest_platform (ingestion_result_json ingest_platform 10 ingest_answer) =
      Some (1, Some (ir_event_id ingest_answer), Some (ir_event_id ingest_answer), ir_event_created ingest_answer,
        ir_pending_review_id ingest_answer, ir_pending_review_ids ingest_answer, ir_attached_by ingest_answer)"
    by (simp add: ingest_platform_def ingestion_result_json_def ingest_answer_def)
  have can: "replay_canonical (ir_event_id ingest_answer) d' = Inr 1"
    by (simp add: ingest_answer_def replay_canonical_def d'(2)) code_simp
  have "mset (su_claims_data ingest_sample) = mset (su_claims_data ingest_sample)"
    "find_by_source_run (su_source_id ingest_sample) (su_ingestion_run_id ingest_sample) d' =
     find_by_source_run (su_source_id ingest_sample) (su_ingestion_run_id ingest_sample) d'" by (rule refl)+
  from ingest_replay [OF d'(1) new iso val this can] show ?thesis using d'(1) by auto
qed

end
