(* ===== verification/Ingestion_Complete.thy ===== *)
theory Ingestion_Complete
  imports Ingestion
begin

text \<open>
  What a completed ingestion leaves behind: the composition of the phases of \<open>ingest_source_data.py\<close>
  with the claim writer, the reconciler and the outbox.
\<close>


section \<open>A complete ingestion\<close>

lemma prior_claims_cong:
  assumes "db_claims d' = db_claims d"
    and "map (\<lambda>n. (sn_id n, sn_source_id n, sn_source_record_id n)) (db_snapshots d') =
      map (\<lambda>n. (sn_id n, sn_source_id n, sn_source_record_id n)) (db_snapshots d)"
  shows "prior_claims e s rid d' f = prior_claims e s rid d f"
proof -
  have "list_ex (\<lambda>n. Some (sn_id n) = i \<and> sn_source_id n = s \<and> sn_source_record_id n = Some x) (db_snapshots d') =
      list_ex (\<lambda>n. Some (sn_id n) = i \<and> sn_source_id n = s \<and> sn_source_record_id n = Some x) (db_snapshots d)" for i x
  proof -
    have "list_ex (\<lambda>n. Some (sn_id n) = i \<and> sn_source_id n = s \<and> sn_source_record_id n = Some x) ns =
        list_ex (\<lambda>(a, b, c). Some a = i \<and> b = s \<and> c = Some x)
          (map (\<lambda>n. (sn_id n, sn_source_id n, sn_source_record_id n)) ns)" for ns :: "raw_snapshot list"
      by (induction ns) simp_all
    then show ?thesis using assms(2) by (simp only:)
  qed
  then show ?thesis
    using assms(1) by (simp add: prior_claims_def find_active_by_source_record_def find_active_by_event_field_def
        split: option.split)
qed

lemma same_but_claims_inv:
  "same_but_claims d d' \<Longrightarrow> db_events d' = db_events d \<and> db_snapshots d' = db_snapshots d"
  by (simp add: same_but_claims_def)

text \<open>The phases from the lock of the event to the end, without interference in the reconciler.\<close>

lemma locked_write:
  assumes "lock_and_write_claims P conc now e b items inc src snap run rid d = Inr (w, d')"
    and "store_inv (conc Event_Lock d)"
    and "\<And>x. rid = Some x \<Longrightarrow> \<exists>n \<in> set (db_snapshots (conc Event_Lock d)). sn_id n = snap \<and> sn_source_id n = src \<and> sn_source_record_id n = Some x"
  shows "store_inv d' \<and> (\<exists>ev. events_get e d' = Some ev \<and> \<not> is_merged ev)
    \<and> list_all2 (new_claim_for e src snap) items (wr_new_claims w)
    \<and> (\<forall>n \<in> set (wr_new_claims w). prior_claims e src rid d' (cl_field_name n) = [n])
    \<and> (\<forall>c x. (c, x) \<in> set (wr_resolved_conflicts_to_reconcile w) \<longrightarrow>
         (\<exists>k \<in> set (db_conflicts d'). cc_status k = RESOLVED \<and> cc_id c = cc_id k \<and> cc_version c = cc_version k))"
proof -
  let ?d1 = "conc Event_Lock d"
  define x where "x = (if b then ?d1 else identity_index_update (pf_rep P) now e inc rid ?d1)"
  obtain ev where ev: "events_get e ?d1 = Some ev" "\<not> is_merged ev"
    and w: "write_normalised now e src snap items run rid x = Inr (w, d')"
    using assms(1) by (auto simp: lock_and_write_claims_def x_def Let_def split: option.splits if_splits)
  have x: "same_but_identity ?d1 x" "db_events x = db_events ?d1" by (simp_all add: x_def identity_index_update_def)
  have inv: "store_inv x" by (rule store_inv_same_but_identity [OF x(1) assms(2)])
  have snap: "\<exists>n \<in> set (db_snapshots x). sn_id n = snap \<and> sn_source_id n = src \<and> sn_source_record_id n = Some y" if "rid = Some y" for y
    using assms(3) [OF that] x(1) by (simp add: same_but_identity_def)
  have "events_get e d' = Some ev"
    using ev(1) x(2) same_but_claims_inv [OF write_normalised_frame [OF inv w]] by (simp add: events_get_def)
  moreover have "store_inv d' \<and> list_all2 (new_claim_for e src snap) items (wr_new_claims w)
      \<and> (\<forall>n \<in> set (wr_new_claims w). prior_claims e src rid d' (cl_field_name n) = [n])"
    using claim_write_effect [OF inv w] snap by blast
  ultimately show ?thesis using ev(2) handed_over_resolved [OF w] by blast
qed

lemma final_writes:
  assumes "update_ingestion_result snap j (queue_projection now e src run d) = Inr d1"
    and "run_update_status now run ''finished'' (Some now) d1 = Inr d'"
  shows "store_inv d \<Longrightarrow> store_inv d'" "db_claims d' = db_claims d" "db_events d' = db_events d"
    "db_conflicts d' = db_conflicts d" "db_conflict_claims d' = db_conflict_claims d"
    "map (\<lambda>n. (sn_id n, sn_source_id n, sn_source_record_id n)) (db_snapshots d') =
        map (\<lambda>n. (sn_id n, sn_source_id n, sn_source_record_id n)) (db_snapshots d)"
    "\<exists>x \<in> set (db_outbox d'). ob_event_type x = ''CLAIMS_UPDATED'' \<and> ob_aggregate_id x = e \<and> ob_status x = PENDING"
    "\<exists>x. runs_get run d' = Some x \<and> ru_status x = ''finished''"
proof -
  let ?upd = "\<lambda>r. r\<lparr>ru_status := ''finished'', ru_finished_at := Some now\<rparr>"
  have d1: "d1 = (queue_projection now e src run d)\<lparr>db_snapshots := row_update (\<lambda>r. sn_id r = snap)
      (\<lambda>r. r\<lparr>sn_ingestion_result_json := Some j\<rparr>) (db_snapshots (queue_projection now e src run d))\<rparr>"
    using assms(1) by (simp add: update_ingestion_result_def split: if_splits)
  have d': "d' = d1\<lparr>db_runs := row_update (\<lambda>r. ru_id r = run) ?upd (db_runs d1)\<rparr>" and ex: "\<exists>r \<in> set (db_runs d1). ru_id r = run"
    using assms(2) by (auto simp: run_update_status_def list_ex_iff Let_def split: if_splits)
  have "runs_get run d' = map_option ?upd (runs_get run d1)"
    using row_get_update [of ru_id ?upd run "\<lambda>r. ru_id r = run" "db_runs d1"] row_get_SomeD [of ru_id run "db_runs d1"]
    by (cases "row_get ru_id run (db_runs d1)") (auto simp: runs_get_def d')
  moreover have "runs_get run d1 \<noteq> None" using ex by (auto simp: runs_get_def row_get_None_iff)
  ultimately show "\<exists>x. runs_get run d' = Some x \<and> ru_status x = ''finished''" by auto
  show "store_inv d \<Longrightarrow> store_inv d'"
    using store_inv_uuid4 [of d] by (simp add: d' d1 queue_projection_def outbox_add_def store_inv_def)
  show "map (\<lambda>n. (sn_id n, sn_source_id n, sn_source_record_id n)) (db_snapshots d') =
        map (\<lambda>n. (sn_id n, sn_source_id n, sn_source_record_id n)) (db_snapshots d)"
    by (simp add: d' d1 queue_projection_def outbox_add_def row_update_def)
  show "\<exists>x \<in> set (db_outbox d'). ob_event_type x = ''CLAIMS_UPDATED'' \<and> ob_aggregate_id x = e \<and> ob_status x = PENDING"
    "db_claims d' = db_claims d" "db_events d' = db_events d"
    "db_conflicts d' = db_conflicts d" "db_conflict_claims d' = db_conflict_claims d"
    by (simp_all add: d' d1 queue_projection_def outbox_add_def new_outbox_event_def)
qed

text \<open>The snapshot of the run, seen through the phases up to the event lock.\<close>

lemma snapshot_at_lock:
  assumes "run_snapshots src run d = [snap]" and "run_isolated src run conc env"
    and "resolve_event P settings conc now ex fr inc rid d = Inr (res, b, d1)"
  shows "run_snapshots src run (conc Event_Lock d1) = [snap]"
proof -
  have "run_snapshots src run d1 = run_snapshots src run d \<or> run_snapshots src run d1 = run_snapshots src run (conc Identity_Lock d)"
    using resolve_event_frame [OF assms(3)] by (auto simp: same_but_identity_def intro: run_snapshots_cong)
  then show ?thesis using assms(1,2) by (auto simp: run_isolated_def)
qed

lemma resolve_event_inv:
  assumes "resolve_event P settings conc now ex fr inc rid d = Inr (res, b, d1)" and "store_inv d"
    and "\<And>p d. store_inv d \<Longrightarrow> store_inv (conc p d)"
  shows "store_inv d1"
  using resolve_event_frame [OF assms(1)] assms(2,3) store_inv_same_but_identity by blast

text \<open>What the phases after the insertion of the snapshot establish.\<close>

definition ingested where
  "ingested src run rid snap items e d \<longleftrightarrow> store_inv d
     \<and> (\<exists>ev. events_get e d = Some ev \<and> \<not> is_merged ev)
     \<and> (\<exists>news. list_all2 (new_claim_for e src snap) items news
          \<and> (\<forall>n \<in> set news. prior_claims e src rid d (cl_field_name n) = [n]))
     \<and> disputes_open e d
     \<and> (\<exists>x \<in> set (db_outbox d). ob_event_type x = ''CLAIMS_UPDATED'' \<and> ob_aggregate_id x = e \<and> ob_status x = PENDING)
     \<and> (\<exists>x. runs_get run d = Some x \<and> ru_status x = ''finished'')"

lemma ingest_snapshot_complete:
  assumes "ingest_snapshot P settings conc (\<lambda>_ d. d) now s ex fr items inc (sn_id snap) d = Inr (r, d')"
    and "store_inv d" and "\<And>p d. store_inv d \<Longrightarrow> store_inv (conc p d)"
    and "run_isolated (su_source_id s) (su_ingestion_run_id s) conc (\<lambda>_ d. d)"
    and "run_snapshots (su_source_id s) (su_ingestion_run_id s) d = [snap]"
    and "sn_source_record_id snap = su_source_record_id s" and "sn_source_id snap = su_source_id s"
  shows "ingested (su_source_id s) (su_ingestion_run_id s) (su_source_record_id s) (sn_id snap) items (ir_event_id r) d'"
  using assms(1)
proof (rule ingest_snapshot_steps)
  fix res :: resolution and maintained d1 written d2 d3 d4 d5 d6
  let ?src = "su_source_id s" and ?run = "su_ingestion_run_id s" and ?rid = "su_source_record_id s" and ?e = "ir_event_id r"
  assume e: "?e = ev_id (re_event res)"
  assume 1: "resolve_event P settings conc now ex fr inc ?rid d = Inr (res, maintained, d1)"
    and 2: "lock_and_write_claims P conc now (ev_id (re_event res)) maintained items inc ?src (sn_id snap) ?run ?rid d1 = Inr (written, d2)"
    and 3: "reconcile_superseded_winners (\<lambda>_ d. d) now ?run (wr_resolved_conflicts_to_reconcile written) d2 = Inr d3"
    and 4: "auto_resolve_stale_open_conflicts (\<lambda>_ d. d) now (ev_id (re_event res)) (wr_affected_fields written) ?run d3 = Inr d4"
    and 5: "detect_and_apply_new_conflicts (\<lambda>_ d. d) now (ev_id (re_event res)) ?run INGESTION d4 = Inr d5"
    and 6: "update_ingestion_result (sn_id snap) (ingestion_result_json P now r)
        (queue_projection now (ev_id (re_event res)) ?src ?run d5) = Inr d6"
    and 7: "run_update_status now ?run ''finished'' (Some now) d6 = Inr d'"
  note [simp] = e [symmetric]
  have "store_inv (conc Event_Lock d1)" by (intro assms(3) resolve_event_inv [OF 1 assms(2)])
  moreover have "snap \<in> set (db_snapshots (conc Event_Lock d1))"
    using snapshot_at_lock [OF assms(5,4) 1] by (auto simp: run_snapshots_def filter_eq_Cons_iff)
  ultimately have lw: "store_inv d2 \<and> (\<exists>ev. events_get ?e d2 = Some ev \<and> \<not> is_merged ev)
    \<and> list_all2 (new_claim_for ?e ?src (sn_id snap)) items (wr_new_claims written)
    \<and> (\<forall>n \<in> set (wr_new_claims written). prior_claims ?e ?src ?rid d2 (cl_field_name n) = [n])
    \<and> (\<forall>c x. (c, x) \<in> set (wr_resolved_conflicts_to_reconcile written) \<longrightarrow>
         (\<exists>k \<in> set (db_conflicts d2). cc_status k = RESOLVED \<and> cc_id c = cc_id k \<and> cc_version c = cc_version k))"
    using assms(6,7) unfolding e by (intro locked_write [OF 2]) auto
  note w = lw [THEN conjunct1] lw [THEN conjunct2, THEN conjunct1] lw [THEN conjunct2, THEN conjunct2, THEN conjunct1]
    lw [THEN conjunct2, THEN conjunct2, THEN conjunct2, THEN conjunct1]
    lw [THEN conjunct2, THEN conjunct2, THEN conjunct2, THEN conjunct2]
  have f: "fenced d2 d4"
  proof (rule fenced_trans)
    show f3: "fenced d2 d3" by (rule reconcile_winners_fenced [OF w(1) _ 3]) (use w(5) in blast)
    show "fenced d3 d4" by (rule auto_resolve_all_fenced [OF _ 4]) (use f3 in \<open>simp add: fenced_def\<close>)
  qed
  then have o4: "store_inv d4" "outside_conflicts d4 = outside_conflicts d2" by (simp_all add: fenced_def)
  have o5: "outside_conflicts d5 = outside_conflicts d2" using detect_and_apply_outside [OF 5] o4(2) by simp
  have claims: "db_claims d5 = db_claims d2" "db_claims d4 = db_claims d5"
    using outside_conflictsD(1) [OF o5] outside_conflictsD(1) [OF o4(2)] by simp_all
  have snaps: "db_snapshots d5 = db_snapshots d2" using o5 by (simp add: outside_conflicts_def)
  obtain ds where ds: "detect_and_apply_new_conflicts (\<lambda>_ d. d) now ?e ?run INGESTION d4 = Inr ds" "store_inv ds"
    "\<forall>f. cross_source_dispute ?e f d4 \<longrightarrow>
         (\<exists>c \<in> set (db_conflicts ds). cc_status c = OPEN \<and> cc_event_id c = ?e \<and> cc_field_name c = f
            \<and> (\<forall>x \<in> set (find_active_by_event_field ?e f d4). (cc_id c, cl_id x) \<in> set (db_conflict_claims ds)))"
    using detect_and_apply_effect [OF o4(1), of now ?e ?run INGESTION] by (elim exE conjE) (rule that)
  have d5: "ds = d5" using ds(1) 5 by simp
  note fin = final_writes [OF 6 7]
  have "disputes_open ?e d'"
    using ds(3) find_active_by_event_field_cong [of d4 d'] unfolding disputes_open_def d5 fin(4,5)
    by (simp add: claims(2) fin(2))
  moreover have "prior_claims ?e ?src ?rid d' f = prior_claims ?e ?src ?rid d2 f" for f
    by (rule prior_claims_cong) (simp_all add: fin(2,6) claims snaps)
  moreover have "events_get ?e d' = events_get ?e d2" by (simp add: events_get_def fin(3) outside_conflictsD(2) [OF o5])
  ultimately show ?thesis
    unfolding ingested_def using w(2,3,4) fin(1) [OF ds(2) [unfolded d5]] fin(7,8) unfolding e by auto
qed

lemma explicit_event_kept:
  assumes "load_and_normalise P rh s d = Inr (ex, items, inc, fp)" and "su_event_id s = Some i"
    and "ingest_snapshot P settings conc env now s ex fr items inc snap d3 = Inr (r, d')"
  shows "ir_event_id r = i"
proof -
  obtain ev where ev: "ex = Some ev" "events_get i d = Some ev"
  proof (cases "sources_get (su_source_id s) d")
    case None
    then show ?thesis using assms(1) by (simp add: load_and_normalise_def)
  next
    case (Some src)
    note b = assms(1) [unfolded load_and_normalise_def Some assms(2) option.case Let_def]
    then obtain ev where ev: "events_get i d = Some ev" "\<not> is_merged ev" by (auto split: option.splits if_splits)
    have "ex = Some ev" using b [unfolded ev(1) option.case] ev(2) by (simp split: sum.splits)
    then show ?thesis using that ev(1) by blast
  qed
  have "ev_id ev = i" using ev(2) by (auto simp: events_get_def dest: row_get_SomeD)
  moreover have "ir_event_id r = ev_id ev"
    using assms(3) by (rule ingest_snapshot_steps) (auto simp: resolve_event_def ev(1))
  ultimately show ?thesis by simp
qed

lemma ensure_started_inv: "ensure_started now i src d = Inr d' \<Longrightarrow> store_inv d \<Longrightarrow> store_inv d'"
  by (auto simp: ensure_started_def Let_def store_inv_def split: option.splits if_splits)

lemma continuity_inv:
  assumes "continuity_resolve conc src rid ex d = Inr (fr, d')" and "store_inv d" and "\<And>p d. store_inv d \<Longrightarrow> store_inv (conc p d)"
  shows "store_inv d'"
  using assms by (auto simp: continuity_resolve_def Let_def split: option.splits if_splits)

text \<open>C1: A completed ingestion leaves a consistent store, whatever other transactions commit while it waits for
  its locks, as long as they keep the store invariant and write a snapshot of its run only in the race for the
  insertion of its own; between the claim writes and the commit, while it reconciles the conflicts of the event, no other transaction writes
  to them.  Then the store invariant holds; the event of the result exists, is not merged and is the
  explicitly named one if any; the run's one snapshot holds the result for later replays; every
  normalised claim of the submission is now the only active claim of its source record on its field;
  every disagreement between sources on the event (as Python compares values: NaN disagrees with NaN) is an
  open conflict that links all its claims; the projection update is queued; and the run is finished.\<close>

theorem ingest_complete:
  assumes "ingest P settings conc (\<lambda>_ d. d) now s d = Inr (r, d')" and "\<not> ir_idempotent_replay r"
    and "store_inv d" and "\<And>p d. store_inv d \<Longrightarrow> store_inv (conc p d)"
    and "run_isolated (su_source_id s) (su_ingestion_run_id s) conc (\<lambda>_ d. d)"
  shows "store_inv d'
    \<and> (\<exists>ev. events_get (ir_event_id r) d' = Some ev \<and> \<not> is_merged ev)
    \<and> (case su_event_id s of Some i \<Rightarrow> ir_event_id r = i | None \<Rightarrow> True)
    \<and> disputes_open (ir_event_id r) d'
    \<and> (\<exists>x \<in> set (db_outbox d'). ob_event_type x = ''CLAIMS_UPDATED'' \<and> ob_aggregate_id x = ir_event_id r \<and> ob_status x = PENDING)
    \<and> (\<exists>x. runs_get (su_ingestion_run_id s) d' = Some x \<and> ru_status x = ''finished'')
    \<and> (\<exists>rh ex items inc fp snap news rid. rid = normalise_source_record_id (su_source_record_id s)
         \<and> load_and_normalise P rh (s\<lparr>su_source_record_id := rid\<rparr>) d = Inr (ex, items, inc, fp)
         \<and> run_snapshots (su_source_id s) (su_ingestion_run_id s) d' = [snap]
         \<and> sn_ingestion_result_json snap = Some (ingestion_result_json P now r)
         \<and> list_all2 (new_claim_for (ir_event_id r) (su_source_id s) (sn_id snap)) items news
         \<and> (\<forall>n \<in> set news. prior_claims (ir_event_id r) (su_source_id s) rid d' (cl_field_name n) = [n]))"
  using assms(1,2)
proof (rule ingest_steps)
  fix s' rh sh ex items inc fp d1 fr d2 snap d3
  assume s': "s' = s\<lparr>su_source_record_id := normalise_source_record_id (su_source_record_id s)\<rparr>"
    and l: "load_and_normalise P rh s' d = Inr (ex, items, inc, fp)"
    and st: "ensure_started now (su_ingestion_run_id s') (su_source_id s') d = Inr d1"
    and co: "(case su_source_record_id s' of Some rid \<Rightarrow> continuity_resolve conc (su_source_id s') rid ex d1 | None \<Rightarrow> Inr (None, d1)) = Inr (fr, d2)"
    and i: "insert_snapshot P conc now s' rh sh fp d2 = Inr (Inr snap, d3)"
    and t: "ingest_snapshot P settings conc (\<lambda>_ d. d) now s' ex fr items inc (sn_id snap) d3 = Inr (r, d')"
  have ids: "su_source_id s' = su_source_id s" "su_ingestion_run_id s' = su_ingestion_run_id s" "su_event_id s' = su_event_id s"
    by (simp_all add: s')
  have "store_inv d1" by (rule ensure_started_inv [OF st assms(3)])
  then have "store_inv d2" using co continuity_inv [of conc _ _ ex d1] assms(4) by (auto split: option.splits)
  then have inv: "store_inv d3" using insert_snapshot_inv [OF i] assms(4) by blast
  note stored = insert_snapshot_stored [OF i]
  note iso = assms(5) [folded ids(1,2)]
  have res: "run_snapshots (su_source_id s) (su_ingestion_run_id s) d' = [snap\<lparr>sn_ingestion_result_json := Some (ingestion_result_json P now r)\<rparr>]"
    using ingest_snapshot_result [OF t iso stored(1)] by (simp add: ids)
  have "ingested (su_source_id s') (su_ingestion_run_id s') (su_source_record_id s') (sn_id snap) items (ir_event_id r) d'"
    by (rule ingest_snapshot_complete [OF t inv _ iso stored(1,3,4)]) (rule assms(4))
  then obtain news where "list_all2 (new_claim_for (ir_event_id r) (su_source_id s) (sn_id snap)) items news"
    "\<forall>n \<in> set news. prior_claims (ir_event_id r) (su_source_id s) (normalise_source_record_id (su_source_record_id s)) d' (cl_field_name n) = [n]"
    and rest: "ingested (su_source_id s) (su_ingestion_run_id s) (su_source_record_id s') (sn_id snap) items (ir_event_id r) d'"
    by (auto simp: ingested_def ids s')
  then show ?thesis
    using res l explicit_event_kept [OF l _ t] unfolding ids s' ingested_def
    by (intro conjI exI [of _ rh] exI [of _ ex] exI [of _ items] exI [of _ inc] exI [of _ fp]) (auto split: option.split)
qed

theorem ingest_complete_witness:
  "\<exists>d'. ingest ingest_platform ingest_limits (\<lambda>_ d. d) (\<lambda>_ d. d) 10 ingest_sample ingest_db = Inr (ingest_answer, d')
     \<and> store_inv d' \<and> cross_source_dispute 1 ''operator'' d'
     \<and> list_ex (\<lambda>c. cc_status c = OPEN \<and> cc_event_id c = 1 \<and> cc_field_name c = ''operator''
          \<and> (cc_id c, 6) \<in> set (db_conflict_claims d') \<and> (cc_id c, 101) \<in> set (db_conflict_claims d')) (db_conflicts d')"
proof -
  obtain d' where d': "ingest ingest_platform ingest_limits (\<lambda>_ d. d) (\<lambda>_ d. d) 10 ingest_sample ingest_db = Inr (ingest_answer, d')"
    "db_claims d' = [sample_claim 6 2 ''operator'' (JBool False) RAW, ingest_new_claim]"
    using ingest_example by blast
  have new: "\<not> ir_idempotent_replay ingest_answer" and e: "ir_event_id ingest_answer = 1" by (simp_all add: ingest_answer_def)
  have inv: "store_inv ingest_db"
    by (simp add: ingest_db_def event_db_def empty_db_def sample_claim_def store_inv_def claims_inv_def conflicts_inv_def
        ids_below_def claim_ok_def open_unique_def contiguous_log_def activity_of_def)
  have iso: "run_isolated (su_source_id ingest_sample) (su_ingestion_run_id ingest_sample) (\<lambda>_ d. d) (\<lambda>_ d. d)"
    by (simp add: run_isolated_def)
  have act: "find_active_by_event 1 d' = [sample_claim 6 2 ''operator'' (JBool False) RAW, ingest_new_claim]"
    "find_active_by_event_field 1 ''operator'' d' = [sample_claim 6 2 ''operator'' (JBool False) RAW, ingest_new_claim]"
    by (simp_all add: find_active_by_event_def find_active_by_event_field_def d'(2) ingest_new_claim_def sample_claim_def is_active_iff)
  have "\<not> same_value (sample_claim 6 2 ''operator'' (JBool False) RAW) ingest_new_claim" by code_simp
  moreover have "cl_source_id (sample_claim 6 2 ''operator'' (JBool False) RAW) \<noteq> cl_source_id ingest_new_claim"
    by (simp add: sample_claim_def ingest_new_claim_def)
  ultimately have dis: "cross_source_dispute 1 ''operator'' d'"
    unfolding cross_source_dispute_def act by (meson list.set_intros)
  have "store_inv d' \<and> disputes_open 1 d'"
    using ingest_complete [OF d'(1) new inv _ iso] unfolding e by blast
  moreover from this dis obtain c where "c \<in> set (db_conflicts d')" "cc_status c = OPEN" "cc_event_id c = 1" "cc_field_name c = ''operator''"
    "\<forall>x \<in> set (find_active_by_event_field 1 ''operator'' d'). (cc_id c, cl_id x) \<in> set (db_conflict_claims d')"
    unfolding disputes_open_def by blast
  ultimately show ?thesis
    using d'(1) dis unfolding act list_ex_iff by (intro exI [of _ d'] conjI bexI [of _ c]) (simp_all add: ingest_new_claim_def sample_claim_def)
qed

end
