(* ===== verification/Page_Slug.thy ===== *)
theory Page_Slug
  imports Py_Strings
begin

text \<open>
  Slugs of public event pages (\<open>domain/publication/slug.py\<close>): their normalisation, the validation
  pattern, and that the normal form is exactly what the pattern accepts.
\<close>

definition MAX_SLUG_LENGTH :: nat where
  "MAX_SLUG_LENGTH = 160"

datatype slug_error = InvalidSlugError

text \<open>\<open>[a-z0-9]\<close>.\<close>

definition slug_char :: "char \<Rightarrow> bool" where
  "slug_char c \<longleftrightarrow> py_digit c \<or> (let n = (of_char c :: nat) in 97 \<le> n \<and> n \<le> 122)"

text \<open>\<open>_NON_SLUG_CHARS_RE.sub("-", s)\<close>.\<close>

fun sub_non_slug :: "bool \<Rightarrow> string \<Rightarrow> string" where
  "sub_non_slug inside [] = []"
| "sub_non_slug inside (c # cs) =
     (if slug_char c then c # sub_non_slug False cs
      else (if inside then [] else ''-'') @ sub_non_slug True cs)"

text \<open>\<open>_HYPHEN_COLLAPSE_RE.sub("-", s)\<close>.\<close>

fun collapse_hyphens :: "string \<Rightarrow> string" where
  "collapse_hyphens (a # b # cs) =
     (if a = CHR ''-'' \<and> b = CHR ''-'' then collapse_hyphens (b # cs)
      else a # collapse_hyphens (b # cs))"
| "collapse_hyphens s = s"

definition rstrip_hyphens :: "string \<Rightarrow> string" where
  "rstrip_hyphens s = rev (dropWhile (\<lambda>c. c = CHR ''-'') (rev s))"

definition strip_hyphens :: "string \<Rightarrow> string" where
  "strip_hyphens s = rstrip_hyphens (dropWhile (\<lambda>c. c = CHR ''-'') s)"

text \<open>\<open>raw\<close> is \<open>None\<close> when the caller passed no slug.\<close>

definition normalize_slug :: "string option \<Rightarrow> slug_error + string" where
  "normalize_slug raw = (case raw of
       None \<Rightarrow> Inl InvalidSlugError
     | Some r \<Rightarrow>
         let ascii_only = filter (\<lambda>c. (of_char c :: nat) < 128) r;
             lowered = py_strip (py_lower ascii_only);
             replaced = sub_non_slug False lowered;
             collapsed = strip_hyphens (collapse_hyphens replaced)
         in if collapsed = [] then Inl InvalidSlugError
            else if MAX_SLUG_LENGTH < length collapsed
            then (let truncated = rstrip_hyphens (take MAX_SLUG_LENGTH collapsed)
                  in if truncated = [] then Inl InvalidSlugError else Inr truncated)
            else Inr collapsed)"

text \<open>
  The automaton of \<open>^[a-z0-9]+(?:-[a-z0-9]+)*\<close> up to the end of the text; the flag says that the last
  character was a letter or a digit.
\<close>

fun slug_match :: "bool \<Rightarrow> string \<Rightarrow> bool" where
  "slug_match after_char [] = after_char"
| "slug_match after_char (c # cs) =
     (if slug_char c then slug_match True cs else c = CHR ''-'' \<and> after_char \<and> slug_match False cs)"

text \<open>\<open>$\<close> also matches before a final newline.\<close>

definition is_valid_slug :: "string \<Rightarrow> bool" where
  "is_valid_slug value \<longleftrightarrow> value \<noteq> [] \<and> length value \<le> MAX_SLUG_LENGTH
     \<and> (slug_match False value \<or> last value = CHR 0x0A \<and> slug_match False (butlast value))"

section \<open>Canonical slugs\<close>

definition canonical_slug :: "string \<Rightarrow> bool" where
  "canonical_slug s \<longleftrightarrow> slug_match False s \<and> length s \<le> MAX_SLUG_LENGTH"

lemma hyphen_not_slug_char [simp]: "\<not> slug_char CHR ''-''"
  by (simp add: slug_char_def py_digit_def)

lemma slug_match_chars: "slug_match b s \<Longrightarrow> c \<in> set s \<Longrightarrow> slug_char c \<or> c = CHR ''-''"
  by (induction b s rule: slug_match.induct) (auto split: if_splits)

lemma slug_match_last: "slug_match b s \<Longrightarrow> s \<noteq> [] \<Longrightarrow> slug_char (last s)"
  by (induction b s rule: slug_match.induct) (auto split: if_splits)

lemma slug_match_hd: "slug_match False s \<Longrightarrow> s \<noteq> [] \<and> slug_char (hd s)"
  by (cases s) (auto split: if_splits)

lemma slug_match_weaken: "slug_match False s \<Longrightarrow> slug_match True s"
  by (cases s) (auto split: if_splits)

text \<open>What replacing leaves: the shape of a slug up to a hyphen at either end.\<close>

fun loose_match :: "bool \<Rightarrow> string \<Rightarrow> bool" where
  "loose_match after_char [] = True"
| "loose_match after_char (c # cs) =
     (if slug_char c then loose_match True cs else c = CHR ''-'' \<and> after_char \<and> loose_match False cs)"

lemma sub_non_slug_loose: "loose_match (\<not> inside) (sub_non_slug inside s)"
  by (induction inside s rule: sub_non_slug.induct) auto

lemma loose_weaken: "loose_match False s \<Longrightarrow> loose_match True s"
  by (cases s) (auto split: if_splits)

lemma loose_collapse: "loose_match b s \<Longrightarrow> collapse_hyphens s = s"
proof (induction s arbitrary: b)
  case (Cons a s)
  have s: "loose_match (slug_char a) s" using Cons.prems by (simp split: if_splits)
  show ?case
  proof (cases s)
    case (Cons c cs)
    have "\<not> (a = CHR ''-'' \<and> c = CHR ''-'')" using s Cons by (cases "a = CHR ''-''") auto
    then show ?thesis using Cons.IH [OF s] Cons by (cases "a = CHR ''-''") simp_all
  qed simp
qed simp

lemma loose_False_drop:
  assumes "loose_match False s"
  shows "dropWhile (\<lambda>c. c = CHR ''-'') s = s"
proof (cases s)
  case (Cons c cs)
  then have "c \<noteq> CHR ''-''" using assms by (cases "c = CHR ''-''") simp_all
  then show ?thesis using Cons by simp
qed simp

lemma loose_lstrip:
  assumes "loose_match True s"
  shows "loose_match False (dropWhile (\<lambda>c. c = CHR ''-'') s)"
proof (cases s)
  case (Cons c cs)
  show ?thesis
  proof (cases "c = CHR ''-''")
    case True
    then show ?thesis using assms Cons loose_False_drop [of cs] by simp
  next
    case False
    then show ?thesis using assms Cons by (cases "slug_char c") simp_all
  qed
qed simp

lemma rstrip_snoc: "rstrip_hyphens (s @ [c]) = (if c = CHR ''-'' then rstrip_hyphens s else s @ [c])"
  by (simp add: rstrip_hyphens_def)

lemma loose_append: "loose_match b (s @ t) \<Longrightarrow> loose_match b s"
  by (induction b s rule: loose_match.induct) auto

lemma loose_rstrip:
  assumes "loose_match b s"
  shows "rstrip_hyphens s = [] \<or> slug_match b (rstrip_hyphens s)"
  using assms
proof (induction s rule: rev_induct)
  case (snoc c s)
  have "slug_match b (s @ [c])" if "slug_char c"
    using snoc.prems that by (induction b s rule: loose_match.induct) (auto split: if_splits)
  moreover have "slug_char c \<or> c = CHR ''-''"
    using snoc.prems by (induction b s rule: loose_match.induct) (auto split: if_splits)
  ultimately show ?case using snoc.IH loose_append [OF snoc.prems] by (auto simp: rstrip_snoc)
qed (simp add: rstrip_hyphens_def)

lemma slug_match_loose: "slug_match b s \<Longrightarrow> loose_match b s"
  by (induction b s rule: slug_match.induct) (auto split: if_splits)

lemma length_rstrip: "length (rstrip_hyphens s) \<le> length s"
  by (simp add: rstrip_hyphens_def length_dropWhile_le [of _ "rev s", simplified])

lemma normalize_slug_canonical:
  assumes "normalize_slug raw = Inr s"
  shows "canonical_slug s"
proof -
  obtain r where raw: "raw = Some r" using assms by (auto simp: normalize_slug_def split: option.splits)
  define c where "c = strip_hyphens (collapse_hyphens (sub_non_slug False
      (py_strip (py_lower (filter (\<lambda>c. (of_char c :: nat) < 128) r)))))"
  have "loose_match True (sub_non_slug False (py_strip (py_lower (filter (\<lambda>c. (of_char c :: nat) < 128) r))))"
    using sub_non_slug_loose [of False] by simp
  then have c: "c = [] \<or> slug_match False c"
    unfolding c_def strip_hyphens_def by (metis loose_collapse loose_lstrip loose_rstrip)
  note n = assms [unfolded normalize_slug_def raw option.case Let_def, folded c_def]
  show ?thesis
  proof (cases "MAX_SLUG_LENGTH < length c")
    case True
    then have s: "s = rstrip_hyphens (take MAX_SLUG_LENGTH c)" "s \<noteq> []" using n by (auto split: if_splits)
    have "loose_match False (take MAX_SLUG_LENGTH c @ drop MAX_SLUG_LENGTH c)"
      using c True slug_match_loose by auto
    then have "slug_match False s" using loose_append loose_rstrip s by blast
    then show ?thesis using length_rstrip [of "take MAX_SLUG_LENGTH c"] s(1) by (simp add: canonical_slug_def)
  next
    case False
    then show ?thesis using n c by (auto simp: canonical_slug_def split: if_splits)
  qed
qed

lemma slug_char_lower [simp]: "slug_char c \<or> c = CHR ''-'' \<Longrightarrow> py_lower_char c = c"
  by (auto simp: slug_char_def py_digit_def py_lower_char_def Let_def)

lemma slug_char_plain: "slug_char c \<or> c = CHR ''-'' \<Longrightarrow> (of_char c :: nat) < 128 \<and> \<not> py_space c"
  by (auto simp: slug_char_def py_digit_def py_space_def Let_def)

lemma sub_non_slug_idle: "slug_match b s \<Longrightarrow> sub_non_slug (\<not> b) s = s"
  by (induction b s rule: slug_match.induct) (auto split: if_splits)

lemma strip_idle:
  assumes "s \<noteq> []" and "\<not> P (hd s)" and "\<not> P (last s)"
  shows "rev (dropWhile P (rev (dropWhile P s))) = s"
proof -
  have "dropWhile P s = s" using assms by (cases s) auto
  moreover have "dropWhile P (rev s) = rev s" using assms by (cases s rule: rev_cases) auto
  ultimately show ?thesis by simp
qed

lemma canonical_slug_fixed:
  assumes "canonical_slug s"
  shows "normalize_slug (Some s) = Inr s"
proof -
  have m: "slug_match False s" and l: "length s \<le> MAX_SLUG_LENGTH" using assms by (simp_all add: canonical_slug_def)
  have chars: "\<And>c. c \<in> set s \<Longrightarrow> slug_char c \<or> c = CHR ''-''" using slug_match_chars [OF m] by blast
  have ne: "s \<noteq> []" "slug_char (hd s)" "slug_char (last s)" using slug_match_hd [OF m] slug_match_last [OF m] by auto
  have "filter (\<lambda>c. (of_char c :: nat) < 128) s = s" using chars slug_char_plain by (simp add: filter_id_conv)
  moreover have "py_lower s = s" using chars by (simp add: py_lower_def map_idI)
  moreover have "py_strip s = s"
    unfolding py_strip_def py_lstrip_def using ne slug_char_plain by (intro strip_idle) auto
  moreover have "sub_non_slug False s = s" using sub_non_slug_idle [OF slug_match_weaken [OF m]] by simp
  moreover have "collapse_hyphens s = s" by (rule loose_collapse [OF slug_match_loose [OF m]])
  moreover have "strip_hyphens s = s"
    unfolding strip_hyphens_def rstrip_hyphens_def using ne by (intro strip_idle) auto
  ultimately show ?thesis using ne l by (simp add: normalize_slug_def Let_def)
qed

lemma is_valid_slug_iff:
  "is_valid_slug s \<longleftrightarrow> canonical_slug s \<or> (\<exists>t. s = t @ [CHR 0x0A] \<and> canonical_slug t \<and> length s \<le> MAX_SLUG_LENGTH)"
  by (cases s rule: rev_cases) (auto simp: is_valid_slug_def canonical_slug_def)

text \<open>C30: Normalising a slug yields the canonical form and is idempotent: the outputs are exactly the
  texts that normalisation leaves alone, and exactly the texts of at most 160 characters that match the
  slug pattern to the end.  The validator accepts them, and besides them only such a text followed by
  one newline.\<close>

theorem slug_normal_form:
  "((\<exists>raw. normalize_slug raw = Inr s) \<longleftrightarrow> normalize_slug (Some s) = Inr s)
   \<and> (normalize_slug (Some s) = Inr s \<longleftrightarrow> slug_match False s \<and> length s \<le> MAX_SLUG_LENGTH)
   \<and> (is_valid_slug s \<longleftrightarrow> normalize_slug (Some s) = Inr s
        \<or> (\<exists>t. s = t @ [CHR 0x0A] \<and> normalize_slug (Some t) = Inr t \<and> length s \<le> MAX_SLUG_LENGTH))"
proof -
  have "normalize_slug (Some t) = Inr t \<longleftrightarrow> canonical_slug t" for t
    using normalize_slug_canonical canonical_slug_fixed by blast
  then show ?thesis
    using normalize_slug_canonical is_valid_slug_iff [of s] canonical_slug_def [of s] by auto
qed

end
