(* ===== verification/Keyset.thy ===== *)
theory Keyset
  imports Atlas_Prelude
begin

text \<open>
  Keyset pagination, the way the repositories list pages: rows in descending order of a key that ends in the row's
  identifier, one row more than the limit is fetched, and the identifier of the last row shown is the cursor.
\<close>

definition keyset_page ::
  "('r \<Rightarrow> uuid) \<Rightarrow> ('r \<Rightarrow> 'k :: linorder) \<Rightarrow> nat \<Rightarrow> 'k option \<Rightarrow> 'r list \<Rightarrow> 'r list \<times> uuid option" where
  "keyset_page ident key limit cursor rows =
     (let selected = (case cursor of None \<Rightarrow> rows | Some k \<Rightarrow> filter (\<lambda>r. key r < k) rows);
          fetched = take (limit + 1) (rev (sort_key key selected))
      in if limit < length fetched then (take limit fetched, Some (ident (last (take limit fetched))))
         else (fetched, None))"

text \<open>The keyset walk: a cursor at the \<open>j\<close>-th row continues with the rows after it.\<close>

lemma descending_after:
  assumes "sorted_wrt (\<lambda>a b. key b < (key a :: 'k :: linorder)) s" and "j < length s"
  shows "filter (\<lambda>r. key r < key (s ! j)) s = drop (Suc j) s"
  using assms
proof (induction s arbitrary: j)
  case Nil
  then show ?case by simp
next
  case (Cons x s)
  show ?case
  proof (cases j)
    case 0
    have "filter (\<lambda>r. key r < key x) s = s" using Cons.prems(1) by (simp add: filter_id_conv)
    then show ?thesis using 0 by simp
  next
    case (Suc i)
    then have "key (s ! i) < key x" using Cons.prems by simp
    then have "\<not> key x < key (s ! i)" by simp
    then show ?thesis using Suc Cons by simp
  qed
qed

lemma descending_sort:
  assumes "inj_on key (set rows)" and "distinct rows"
  shows "sorted_wrt (\<lambda>a b. key b < (key a :: 'k :: linorder)) (rev (sort_key key rows))"
proof -
  have "distinct (map key (sort_key key rows))" using assms by (simp add: distinct_map)
  then have "sorted_wrt (<) (map key (sort_key key rows))" by (simp add: strict_sorted_iff)
  then show ?thesis by (simp add: sorted_wrt_rev sorted_wrt_map)
qed

lemma keyset_fetched:
  assumes "0 < limit"
  shows "(let fetched = take (limit + 1) s
      in if limit < length fetched then (take limit fetched, Some (ident (last (take limit fetched)))) else (fetched, None))
    = (take limit s, if limit < length s then Some (ident (s ! (limit - 1))) else None)"
proof (cases "limit < length s")
  case True
  then have "last (take limit s) = s ! (limit - 1)" using assms by (subst last_conv_nth) (auto simp: min_def)
  then show ?thesis using True by (simp add: Let_def min_def)
qed (simp add: Let_def)

lemma keyset_page_first:
  "0 < limit \<Longrightarrow> keyset_page ident key limit None rows =
     (let s = rev (sort_key key rows)
      in (take limit s, if limit < length s then Some (ident (s ! (limit - 1))) else None))"
  unfolding keyset_page_def Let_def [of "case None of None \<Rightarrow> rows | Some k \<Rightarrow> filter (\<lambda>r. key r < k) rows"] option.case
  by (subst keyset_fetched) (simp_all add: Let_def)

lemma keyset_page_next:
  assumes "inj_on key (set rows)" and "distinct rows" and "0 < limit" and "j < length rows"
  defines "s \<equiv> rev (sort_key key rows)"
  shows "keyset_page ident key limit (Some (key (s ! j))) rows =
    (take limit (drop (Suc j) s),
     if limit < length (drop (Suc j) s) then Some (ident (drop (Suc j) s ! (limit - 1))) else None)"
proof -
  have "rev (sort_key key (filter (\<lambda>r. key r < key (s ! j)) rows)) = filter (\<lambda>r. key r < key (s ! j)) s"
    by (simp add: s_def filter_sort [symmetric] rev_filter)
  also have "\<dots> = drop (Suc j) s"
    by (rule descending_after) (use descending_sort [OF assms(1,2)] assms(4) in \<open>simp_all add: s_def\<close>)
  finally show ?thesis using keyset_fetched [OF assms(3), of "drop (Suc j) s"] by (simp only: keyset_page_def Let_def option.case)
qed

end
