(* ===== verification/Publication.thy ===== *)
theory Publication
  imports Page_Slug Source_Normalizer Event_Identity Keyset
begin

text \<open>
  The editorial workflow of public event pages: the entities and the state machine of
  \<open>domain/publication\<close>, the page repository (\<open>repositories/publication.py\<close>), the search and map index
  hooks (\<open>_search_indexing.py\<close>, \<open>_map_indexing.py\<close>) and the use cases of \<open>use_cases/editorial.py\<close>.  The
  tables of the accident core are read only here and passed as \<open>d\<close>; \<open>conc\<close> is what other transactions
  commit between the read of a page and its conditional update.
\<close>

section \<open>Pages and revisions\<close>

datatype publication_status = DRAFT | IN_REVIEW | APPROVED | PUBLISHED | ARCHIVED | RETRACTED

record public_event_page =
  pp_id :: uuid
  pp_event_id :: uuid
  pp_slug :: string
  pp_title :: string
  pp_short_summary :: "string option"
  pp_narrative_markdown :: "string option"
  pp_status :: publication_status
  pp_version :: nat
  pp_first_published_at :: "time option"
  pp_last_published_at :: "time option"
  pp_retracted_at :: "time option"
  pp_retraction_note :: "string option"
  pp_created_at :: time
  pp_updated_at :: time

definition check_status_timestamps :: "public_event_page \<Rightarrow> bool" where
  "check_status_timestamps p \<longleftrightarrow>
     \<not> (pp_status p = PUBLISHED \<and> pp_last_published_at p = None)
     \<and> \<not> (pp_status p = RETRACTED \<and> pp_retracted_at p = None)"

definition is_publicly_visible :: "public_event_page \<Rightarrow> bool" where
  "is_publicly_visible p \<longleftrightarrow> pp_status p = PUBLISHED"

text \<open>\<open>(note or None) and note[:1000]\<close>.\<close>

definition clip_note :: "string option \<Rightarrow> string option" where
  "clip_note note = (case note of None \<Rightarrow> None | Some n \<Rightarrow> if n = [] then None else Some (take 1000 n))"

text \<open>The transitions of the entity, which leave the state machine to their callers.\<close>

definition page_publish :: "time \<Rightarrow> public_event_page \<Rightarrow> public_event_page" where
  "page_publish moment p =
     p\<lparr>pp_first_published_at := (case pp_first_published_at p of None \<Rightarrow> Some moment | Some t \<Rightarrow> Some t),
       pp_last_published_at := Some moment, pp_status := PUBLISHED, pp_version := pp_version p + 1,
       pp_updated_at := moment\<rparr>"

definition page_retract :: "time \<Rightarrow> string option \<Rightarrow> public_event_page \<Rightarrow> public_event_page" where
  "page_retract moment note p =
     p\<lparr>pp_status := RETRACTED, pp_retracted_at := Some moment, pp_retraction_note := clip_note note,
       pp_version := pp_version p + 1, pp_updated_at := moment\<rparr>"

definition page_archive :: "time \<Rightarrow> public_event_page \<Rightarrow> public_event_page" where
  "page_archive moment p =
     p\<lparr>pp_status := ARCHIVED, pp_version := pp_version p + 1, pp_updated_at := moment\<rparr>"

record page_revision =
  pv_id :: uuid
  pv_page_id :: uuid
  pv_version_at_moment :: nat
  pv_from_status :: "publication_status option"
  pv_to_status :: publication_status
  pv_title :: string
  pv_short_summary :: "string option"
  pv_narrative_markdown :: "string option"
  pv_editor_user_id :: uuid
  pv_transition_reason :: "string option"
  pv_correction_note :: "string option"
  pv_created_at :: time

section \<open>The state machine\<close>

datatype publication_error =
    PublicEventPageNotFoundError
  | PublicEventPageNotPublishedError
  | PublicEventPageRetractedError string "string option"
  | SlugAlreadyTakenError string
  | PublicEventPageAlreadyExistsError uuid
  | InvalidPublicationTransitionError publication_status publication_status
  | PublicEventPageModifiedError nat nat
  | EditorialFieldLockedError string
  | Invalid_Slug
  | Foreign_Key_Error
  | Float_Overflow
  | Integer_Out_Of_Range
  | Reindex_Ceiling

fun allowed_transitions :: "publication_status \<Rightarrow> publication_status list" where
  "allowed_transitions DRAFT = [IN_REVIEW]"
| "allowed_transitions IN_REVIEW = [APPROVED, DRAFT]"
| "allowed_transitions APPROVED = [PUBLISHED, DRAFT]"
| "allowed_transitions PUBLISHED = [ARCHIVED, RETRACTED]"
| "allowed_transitions ARCHIVED = [PUBLISHED, DRAFT]"
| "allowed_transitions RETRACTED = []"

definition is_allowed :: "publication_status \<Rightarrow> publication_status \<Rightarrow> bool" where
  "is_allowed from_status to_status \<longleftrightarrow> to_status \<in> set (allowed_transitions from_status)"

definition validate_transition :: "publication_status \<Rightarrow> publication_status \<Rightarrow> publication_error + unit" where
  "validate_transition from_status to_status =
     (if is_allowed from_status to_status then Inr ()
      else Inl (InvalidPublicationTransitionError from_status to_status))"

definition allowed_next_states :: "publication_status \<Rightarrow> publication_status set" where
  "allowed_next_states from_status = set (allowed_transitions from_status)"

section \<open>Index entries\<close>

record search_index_entry =
  se_page_id :: uuid
  se_slug :: string
  se_title :: string
  se_short_summary :: "string option"
  se_operator :: "string option"
  se_aircraft_type :: "string option"
  se_country :: "string option"
  se_event_date :: "cdate option"
  se_fatalities_total :: "int option"
  se_confidence_band :: string
  se_last_published_at :: time

record map_index_entry =
  me_page_id :: uuid
  me_slug :: string
  me_title :: string
  me_latitude :: rat
  me_longitude :: rat
  me_operator :: "string option"
  me_aircraft_type :: "string option"
  me_country :: "string option"
  me_event_date :: "cdate option"
  me_fatalities_total :: "int option"
  me_confidence_band :: string
  me_last_published_at :: time

record publication_db =
  pb_pages :: "public_event_page list"
  pb_revisions :: "page_revision list"
  pb_search :: "search_index_entry list"
  pb_map :: "map_index_entry list"
  pb_next :: uuid

definition confidence_band :: "projected_accident_record option \<Rightarrow> string" where
  "confidence_band projection = (case projection of
       None \<Rightarrow> ''unknown''
     | Some r \<Rightarrow>
         let score = pr_completeness_score r
         in if fl (85 / 100) \<le> score then ''high'' else if 1 / 2 \<le> score then ''medium''
            else if 0 < score then ''low'' else ''unknown'')"

text \<open>The fields of a projection as loaded; a missing key reads as \<open>None\<close>.\<close>

definition projected_field :: "projected_accident_record option \<Rightarrow> string \<Rightarrow> json option" where
  "projected_field projection f = (case projection of
       None \<Rightarrow> None | Some r \<Rightarrow> map_option replace_disputed (map_of (pr_fields r) f))"

definition field_or_null :: "projected_accident_record option \<Rightarrow> string \<Rightarrow> json" where
  "field_or_null projection f = (case projected_field projection f of Some v \<Rightarrow> v | None \<Rightarrow> JNull)"

fun str_or_none :: "(json \<Rightarrow> string) \<Rightarrow> json \<Rightarrow> string option" where
  "str_or_none rep JNull = None"
| "str_or_none rep (JStr s) = (if s = [] then None else Some s)"
| "str_or_none rep v = Some (py_str rep v)"

text \<open>\<open>dt\<close> is the date of \<open>datetime.fromisoformat\<close>.\<close>

fun parse_event_date :: "(string \<Rightarrow> cdate option) \<Rightarrow> json \<Rightarrow> cdate option" where
  "parse_event_date dt (JStr s) = (case dt s of Some x \<Rightarrow> Some x | None \<Rightarrow> iso_date s)"
| "parse_event_date dt _ = None"

fun coerce_int :: "json \<Rightarrow> int option" where
  "coerce_int (JInt i) = Some i"
| "coerce_int (JBool b) = Some (if b then 1 else 0)"
| "coerce_int (JFloat q) = Some (if 0 \<le> q then \<lfloor>q\<rfloor> else \<lceil>q\<rceil>)"
| "coerce_int (JStr s) = py_int s"
| "coerce_int _ = None"

definition entry_from ::
  "(json \<Rightarrow> string) \<Rightarrow> (string \<Rightarrow> cdate option) \<Rightarrow> public_event_page \<Rightarrow> projected_accident_record option
     \<Rightarrow> search_index_entry" where
  "entry_from rep dt page projection =
     (let field = field_or_null projection
      in \<lparr>se_page_id = pp_id page, se_slug = pp_slug page, se_title = pp_title page,
          se_short_summary = pp_short_summary page,
          se_operator = str_or_none rep (field ''operator''),
          se_aircraft_type = str_or_none rep (field ''aircraft_type''),
          se_country = str_or_none rep (field ''country''),
          se_event_date = parse_event_date dt (field ''event_date''),
          se_fatalities_total = coerce_int (field ''fatalities_total''),
          se_confidence_band = confidence_band projection,
          se_last_published_at =
            (case pp_last_published_at page of Some t \<Rightarrow> t | None \<Rightarrow> pp_updated_at page)\<rparr>)"

text \<open>\<open>float()\<close> of an integer outside the range of floats raises.\<close>

fun coerce_float :: "json \<Rightarrow> publication_error + pyfloat option" where
  "coerce_float (JInt i) = (case to_float (of_int i) of Fin q \<Rightarrow> Inr (Some (Fin q)) | _ \<Rightarrow> Inl Float_Overflow)"
| "coerce_float (JFloat q) = Inr (Some (Fin q))"
| "coerce_float (JStr s) = Inr (py_float s)"
| "coerce_float _ = Inr None"

fun first_float ::
  "(string \<Rightarrow> json option) \<Rightarrow> string list \<Rightarrow> publication_error + pyfloat option" where
  "first_float field [] = Inr None"
| "first_float field (key # keys) =
     (case field key of
        None \<Rightarrow> first_float field keys
      | Some v \<Rightarrow> rbind (coerce_float v) (\<lambda>x. case x of Some f \<Rightarrow> Inr (Some f) | None \<Rightarrow> first_float field keys))"

definition in_range :: "rat \<Rightarrow> pyfloat \<Rightarrow> rat option" where
  "in_range bound x = (case x of Fin q \<Rightarrow> if - bound \<le> q \<and> q \<le> bound then Some q else None | _ \<Rightarrow> None)"

definition extract_coords ::
  "(string \<Rightarrow> json option) \<Rightarrow> publication_error + (rat \<times> rat) option" where
  "extract_coords field =
     rbind (first_float field [''latitude'', ''lat'']) (\<lambda>lat.
     rbind (first_float field [''longitude'', ''lng'', ''lon'']) (\<lambda>lng.
       Inr (case (Option.bind lat (in_range 90), Option.bind lng (in_range 180)) of
              (Some a, Some b) \<Rightarrow> Some (a, b) | _ \<Rightarrow> None)))"

definition map_entry_from ::
  "(json \<Rightarrow> string) \<Rightarrow> (string \<Rightarrow> cdate option) \<Rightarrow> public_event_page \<Rightarrow> projected_accident_record option
     \<Rightarrow> publication_error + map_index_entry option" where
  "map_entry_from rep dt page projection =
     (let field = field_or_null projection
      in rbind (extract_coords (projected_field projection)) (\<lambda>coords. Inr (map_option (\<lambda>(lat, lng).
          \<lparr>me_page_id = pp_id page, me_slug = pp_slug page, me_title = pp_title page,
           me_latitude = lat, me_longitude = lng,
           me_operator = str_or_none rep (field ''operator''),
           me_aircraft_type = str_or_none rep (field ''aircraft_type''),
           me_country = str_or_none rep (field ''country''),
           me_event_date = parse_event_date dt (field ''event_date''),
           me_fatalities_total = coerce_int (field ''fatalities_total''),
           me_confidence_band = confidence_band projection,
           me_last_published_at =
             (case pp_last_published_at page of Some t \<Rightarrow> t | None \<Rightarrow> pp_updated_at page)\<rparr>) coords)))"

section \<open>The repositories\<close>

text \<open>
  \<open>ON CONFLICT (page_id) DO UPDATE\<close>, and the deletion of an entry.  The number of fatalities is an
  \<open>Integer\<close> column of 32 bits: a value outside its range fails the statement.
\<close>

definition int4_ok :: "int option \<Rightarrow> bool" where
  "int4_ok x = (case x of None \<Rightarrow> True | Some i \<Rightarrow> - (2 ^ 31) \<le> i \<and> i < 2 ^ 31)"

definition search_put :: "search_index_entry \<Rightarrow> publication_db \<Rightarrow> publication_db" where
  "search_put e p =
     p\<lparr>pb_search := (if se_page_id e \<in> se_page_id ` set (pb_search p)
                     then row_update (\<lambda>r. se_page_id r = se_page_id e) (\<lambda>_. e) (pb_search p)
                     else pb_search p @ [e])\<rparr>"

definition search_upsert :: "search_index_entry \<Rightarrow> publication_db \<Rightarrow> publication_error + publication_db" where
  "search_upsert e p = (if int4_ok (se_fatalities_total e) then Inr (search_put e p) else Inl Integer_Out_Of_Range)"

definition search_delete :: "uuid \<Rightarrow> publication_db \<Rightarrow> publication_db" where
  "search_delete page_id p = p\<lparr>pb_search := filter (\<lambda>r. se_page_id r \<noteq> page_id) (pb_search p)\<rparr>"

definition search_rebuild_all_from ::
  "search_index_entry list \<Rightarrow> publication_db \<Rightarrow> publication_error + publication_db" where
  "search_rebuild_all_from entries p = rfold search_upsert entries (p\<lparr>pb_search := []\<rparr>)"

definition map_put :: "map_index_entry \<Rightarrow> publication_db \<Rightarrow> publication_db" where
  "map_put e p =
     p\<lparr>pb_map := (if me_page_id e \<in> me_page_id ` set (pb_map p)
                  then row_update (\<lambda>r. me_page_id r = me_page_id e) (\<lambda>_. e) (pb_map p)
                  else pb_map p @ [e])\<rparr>"

definition map_upsert :: "map_index_entry \<Rightarrow> publication_db \<Rightarrow> publication_error + publication_db" where
  "map_upsert e p = (if int4_ok (me_fatalities_total e) then Inr (map_put e p) else Inl Integer_Out_Of_Range)"

definition map_delete :: "uuid \<Rightarrow> publication_db \<Rightarrow> publication_db" where
  "map_delete page_id p = p\<lparr>pb_map := filter (\<lambda>r. me_page_id r \<noteq> page_id) (pb_map p)\<rparr>"

definition map_rebuild_all_from ::
  "map_index_entry list \<Rightarrow> publication_db \<Rightarrow> publication_error + publication_db" where
  "map_rebuild_all_from entries p = rfold map_upsert entries (p\<lparr>pb_map := []\<rparr>)"

definition pages_add :: "public_event_page \<Rightarrow> db \<Rightarrow> publication_db \<Rightarrow> publication_error + publication_db" where
  "pages_add page d p =
     (if pp_slug page \<in> pp_slug ` set (pb_pages p) then Inl (SlugAlreadyTakenError (pp_slug page))
      else if pp_event_id page \<in> pp_event_id ` set (pb_pages p)
      then Inl (PublicEventPageAlreadyExistsError (pp_event_id page))
      else if events_get (pp_event_id page) d = None then Inl Foreign_Key_Error
      else Inr (p\<lparr>pb_pages := pb_pages p @ [page]\<rparr>))"

text \<open>The columns the statement sets; the event and the creation time stay.\<close>

definition page_columns :: "public_event_page \<Rightarrow> public_event_page \<Rightarrow> public_event_page" where
  "page_columns page row =
     page\<lparr>pp_id := pp_id row, pp_event_id := pp_event_id row, pp_created_at := pp_created_at row\<rparr>"

definition pages_get :: "uuid \<Rightarrow> publication_db \<Rightarrow> public_event_page option" where
  "pages_get page_id p = row_get pp_id page_id (pb_pages p)"

definition pages_update ::
  "public_event_page \<Rightarrow> nat \<Rightarrow> publication_db \<Rightarrow> publication_error + publication_db" where
  "pages_update page expected_version p =
     (case pages_get (pp_id page) p of
        None \<Rightarrow> Inl PublicEventPageNotFoundError
      | Some row \<Rightarrow>
          if pp_version row \<noteq> expected_version
          then Inl (PublicEventPageModifiedError expected_version (pp_version row))
          else if list_ex (\<lambda>r. pp_id r \<noteq> pp_id page \<and> pp_slug r = pp_slug page) (pb_pages p)
          then Inl (SlugAlreadyTakenError (pp_slug page))
          else Inr (p\<lparr>pb_pages := row_update (\<lambda>r. pp_id r = pp_id page) (page_columns page) (pb_pages p)\<rparr>))"

definition get_by_slug :: "string \<Rightarrow> publication_db \<Rightarrow> public_event_page option" where
  "get_by_slug slug p = row_get pp_slug slug (pb_pages p)"

definition get_by_event_id :: "uuid \<Rightarrow> publication_db \<Rightarrow> public_event_page option" where
  "get_by_event_id event_id p = row_get pp_event_id event_id (pb_pages p)"

definition published_key :: "public_event_page \<Rightarrow> time \<times> uuid" where
  "published_key r = (case pp_last_published_at r of Some t \<Rightarrow> t | None \<Rightarrow> 0, pp_id r)"

definition list_published ::
  "nat \<Rightarrow> uuid option \<Rightarrow> publication_db \<Rightarrow> public_event_page list \<times> uuid option" where
  "list_published limit after_id p =
     keyset_page pp_id published_key limit
       (case after_id of
          None \<Rightarrow> None
        | Some i \<Rightarrow> (case pages_get i p of
              None \<Rightarrow> None
            | Some c \<Rightarrow> if pp_last_published_at c \<noteq> None \<and> pp_status c = PUBLISHED
                        then Some (published_key c) else None))
       (filter (\<lambda>r. pp_status r = PUBLISHED) (pb_pages p))"

definition editorial_key :: "public_event_page \<Rightarrow> time \<times> uuid" where
  "editorial_key r = (pp_updated_at r, pp_id r)"

definition list_editorial ::
  "publication_status set option \<Rightarrow> nat \<Rightarrow> uuid option \<Rightarrow> publication_db
     \<Rightarrow> public_event_page list \<times> uuid option" where
  "list_editorial statuses limit after_id p =
     (let active = (case statuses of None \<Rightarrow> {DRAFT, IN_REVIEW, APPROVED, PUBLISHED, ARCHIVED} | Some s \<Rightarrow> s)
      in keyset_page pp_id editorial_key limit
           (case after_id of
              None \<Rightarrow> None
            | Some i \<Rightarrow> (case pages_get i p of
                  None \<Rightarrow> None | Some c \<Rightarrow> if pp_status c \<in> active then Some (editorial_key c) else None))
           (filter (\<lambda>r. pp_status r \<in> active) (pb_pages p)))"

definition list_revisions :: "uuid \<Rightarrow> publication_db \<Rightarrow> page_revision list" where
  "list_revisions page_id p =
     sort_key (\<lambda>v. (pv_version_at_moment v, pv_id v)) (filter (\<lambda>v. pv_page_id v = page_id) (pb_revisions p))"


section \<open>Index hooks\<close>

definition index_published_page ::
  "(json \<Rightarrow> string) \<Rightarrow> (string \<Rightarrow> cdate option) \<Rightarrow> public_event_page \<Rightarrow> db \<Rightarrow> publication_db
     \<Rightarrow> publication_error + publication_db" where
  "index_published_page rep dt page d =
     search_upsert (entry_from rep dt page (projections_get (pp_event_id page) d))"

definition index_published_page_in_map ::
  "(json \<Rightarrow> string) \<Rightarrow> (string \<Rightarrow> cdate option) \<Rightarrow> public_event_page \<Rightarrow> db \<Rightarrow> publication_db
     \<Rightarrow> publication_error + publication_db" where
  "index_published_page_in_map rep dt page d p =
     rbind (map_entry_from rep dt page (projections_get (pp_event_id page) d)) (\<lambda>entry. case entry of
         None \<Rightarrow> Inr (map_delete (pp_id page) p)
       | Some e \<Rightarrow> map_upsert e p)"

definition remove_page_from_index :: "uuid \<Rightarrow> publication_db \<Rightarrow> publication_db" where
  "remove_page_from_index page_id = search_delete page_id"

definition remove_page_from_map :: "uuid \<Rightarrow> publication_db \<Rightarrow> publication_db" where
  "remove_page_from_map page_id = map_delete page_id"

section \<open>Use cases\<close>

record create_input =
  ci_event_id :: uuid
  ci_slug :: string
  ci_title :: string
  ci_short_summary :: "string option"
  ci_narrative_markdown :: "string option"
  ci_editor_user_id :: uuid

record update_input =
  ui_page_id :: uuid
  ui_expected_version :: nat
  ui_editor_user_id :: uuid
  ui_title :: "string option"
  ui_short_summary :: "string option"
  ui_narrative_markdown :: "string option"
  ui_slug :: "string option"
  ui_correction_note :: "string option"
  ui_transition_reason :: "string option"

record transition_input =
  ti_page_id :: uuid
  ti_expected_version :: nat
  ti_editor_user_id :: uuid
  ti_transition_reason :: "string option"
  ti_retraction_note :: "string option"

definition load_page :: "uuid \<Rightarrow> publication_db \<Rightarrow> publication_error + public_event_page" where
  "load_page page_id p =
     (case pages_get page_id p of None \<Rightarrow> Inl PublicEventPageNotFoundError | Some page \<Rightarrow> Inr page)"

definition editorial_fields :: "string list" where
  "editorial_fields = [''title'', ''short_summary'', ''narrative_markdown'', ''slug'']"

definition validate_editorial_kwargs :: "string list \<Rightarrow> publication_error + unit" where
  "validate_editorial_kwargs extras =
     (case sorted_set (filter (\<lambda>f. f \<notin> set editorial_fields) extras) of
        [] \<Rightarrow> Inr () | f # _ \<Rightarrow> Inl (EditorialFieldLockedError f))"

definition write_revision ::
  "time \<Rightarrow> public_event_page \<Rightarrow> publication_status option \<Rightarrow> uuid \<Rightarrow> string option \<Rightarrow> string option
     \<Rightarrow> publication_db \<Rightarrow> publication_db" where
  "write_revision now page from_status editor_user_id transition_reason correction_note p =
     p\<lparr>pb_revisions := pb_revisions p @
         [\<lparr>pv_id = pb_next p, pv_page_id = pp_id page, pv_version_at_moment = pp_version page,
           pv_from_status = from_status, pv_to_status = pp_status page, pv_title = pp_title page,
           pv_short_summary = pp_short_summary page, pv_narrative_markdown = pp_narrative_markdown page,
           pv_editor_user_id = editor_user_id, pv_transition_reason = transition_reason,
           pv_correction_note = correction_note, pv_created_at = now\<rparr>],
       pb_next := Suc (pb_next p)\<rparr>"

definition slug_of :: "string \<Rightarrow> publication_error + string" where
  "slug_of raw = (case normalize_slug (Some raw) of Inl _ \<Rightarrow> Inl Invalid_Slug | Inr s \<Rightarrow> Inr s)"

text \<open>\<open>CreatePublicEventPage\<close>.\<close>

definition create_page ::
  "time \<Rightarrow> create_input \<Rightarrow> db \<Rightarrow> publication_db \<Rightarrow> publication_error + (public_event_page \<times> publication_db)" where
  "create_page now inp d p =
     rbind (slug_of (ci_slug inp)) (\<lambda>slug.
       let page = \<lparr>pp_id = pb_next p, pp_event_id = ci_event_id inp, pp_slug = slug, pp_title = ci_title inp,
             pp_short_summary = ci_short_summary inp, pp_narrative_markdown = ci_narrative_markdown inp,
             pp_status = DRAFT, pp_version = 1, pp_first_published_at = None, pp_last_published_at = None,
             pp_retracted_at = None, pp_retraction_note = None, pp_created_at = now, pp_updated_at = now\<rparr>
       in rbind (pages_add page d (p\<lparr>pb_next := Suc (pb_next p)\<rparr>)) (\<lambda>p1.
         Inr (page, write_revision now page None (ci_editor_user_id inp) (Some ''created'') None p1)))"

text \<open>\<open>UpdatePublicEventPage\<close>: a field that is given but empty is cleared.\<close>

definition or_clear :: "string option \<Rightarrow> string option \<Rightarrow> string option" where
  "or_clear given old = (case given of None \<Rightarrow> old | Some s \<Rightarrow> if s = [] then None else Some s)"

definition provided_fields :: "update_input \<Rightarrow> string list" where
  "provided_fields inp =
     (if ui_title inp \<noteq> None then [''title''] else [])
     @ (if ui_short_summary inp \<noteq> None then [''short_summary''] else [])
     @ (if ui_narrative_markdown inp \<noteq> None then [''narrative_markdown''] else [])
     @ (if ui_slug inp \<noteq> None then [''slug''] else [])"

definition update_page ::
  "(publication_db \<Rightarrow> publication_db) \<Rightarrow> time \<Rightarrow> update_input \<Rightarrow> publication_db
     \<Rightarrow> publication_error + (public_event_page \<times> publication_db)" where
  "update_page conc now inp p =
     rbind (load_page (ui_page_id inp) p) (\<lambda>page.
       if pp_status page \<noteq> DRAFT then Inl (InvalidPublicationTransitionError (pp_status page) DRAFT)
       else rbind (case ui_slug inp of None \<Rightarrow> Inr (pp_slug page) | Some raw \<Rightarrow> slug_of raw) (\<lambda>slug.
         rbind (validate_editorial_kwargs (provided_fields inp)) (\<lambda>_.
         let updated = page\<lparr>pp_title := (case ui_title inp of None \<Rightarrow> pp_title page | Some t \<Rightarrow> t),
               pp_short_summary := or_clear (ui_short_summary inp) (pp_short_summary page),
               pp_narrative_markdown := or_clear (ui_narrative_markdown inp) (pp_narrative_markdown page),
               pp_slug := slug, pp_version := pp_version page + 1, pp_updated_at := now\<rparr>
         in rbind (pages_update updated (ui_expected_version inp) (conc p)) (\<lambda>p1.
           Inr (updated, write_revision now updated (Some DRAFT) (ui_editor_user_id inp)
             (Some (case ui_transition_reason inp of
                      None \<Rightarrow> ''edited'' | Some r \<Rightarrow> if r = [] then ''edited'' else r))
             (ui_correction_note inp) p1)))))"

text \<open>The subclasses of \<open>_TransitionUseCase\<close>.\<close>

datatype editorial_action =
  Submit | Request_Changes | Approve | Reject | Publish | Archive | Reopen | Retract

fun target_status :: "editorial_action \<Rightarrow> publication_status" where
  "target_status Submit = IN_REVIEW"
| "target_status Request_Changes = DRAFT"
| "target_status Approve = APPROVED"
| "target_status Reject = DRAFT"
| "target_status Publish = PUBLISHED"
| "target_status Archive = ARCHIVED"
| "target_status Reopen = DRAFT"
| "target_status Retract = RETRACTED"

definition publish_mutation :: "time \<Rightarrow> public_event_page \<Rightarrow> public_event_page" where
  "publish_mutation now page =
     page\<lparr>pp_status := PUBLISHED,
       pp_first_published_at := (case pp_first_published_at page of Some t \<Rightarrow> Some t | None \<Rightarrow> Some now),
       pp_last_published_at := Some now, pp_version := pp_version page + 1, pp_updated_at := now\<rparr>"

definition retract_mutation :: "time \<Rightarrow> transition_input \<Rightarrow> public_event_page \<Rightarrow> public_event_page" where
  "retract_mutation now inp page =
     page\<lparr>pp_status := RETRACTED, pp_retracted_at := Some now,
       pp_retraction_note := clip_note (ti_retraction_note inp),
       pp_version := pp_version page + 1, pp_updated_at := now\<rparr>"

definition apply_status_mutation ::
  "editorial_action \<Rightarrow> time \<Rightarrow> transition_input \<Rightarrow> public_event_page \<Rightarrow> public_event_page" where
  "apply_status_mutation a now inp page =
     (case a of
        Publish \<Rightarrow> publish_mutation now page
      | Retract \<Rightarrow> retract_mutation now inp page
      | _ \<Rightarrow> page\<lparr>pp_status := target_status a, pp_version := pp_version page + 1, pp_updated_at := now\<rparr>)"

lemmas mutation_defs = apply_status_mutation_def publish_mutation_def retract_mutation_def

definition publish_hook ::
  "(json \<Rightarrow> string) \<Rightarrow> (string \<Rightarrow> cdate option) \<Rightarrow> public_event_page \<Rightarrow> db \<Rightarrow> publication_db
     \<Rightarrow> publication_error + publication_db" where
  "publish_hook rep dt page d p =
     rbind (index_published_page rep dt page d p) (index_published_page_in_map rep dt page d)"

text \<open>The hook of archiving and retracting.\<close>

definition withdraw_hook :: "public_event_page \<Rightarrow> publication_db \<Rightarrow> publication_db" where
  "withdraw_hook page p = remove_page_from_map (pp_id page) (remove_page_from_index (pp_id page) p)"

definition post_transition_hook ::
  "(json \<Rightarrow> string) \<Rightarrow> (string \<Rightarrow> cdate option) \<Rightarrow> editorial_action \<Rightarrow> public_event_page \<Rightarrow> db \<Rightarrow> publication_db
     \<Rightarrow> publication_error + publication_db" where
  "post_transition_hook rep dt a page d p =
     (case a of
        Publish \<Rightarrow> publish_hook rep dt page d p
      | Archive \<Rightarrow> Inr (withdraw_hook page p)
      | Retract \<Rightarrow> Inr (withdraw_hook page p)
      | _ \<Rightarrow> Inr p)"

lemmas hook_defs = post_transition_hook_def publish_hook_def withdraw_hook_def
  remove_page_from_index_def remove_page_from_map_def

definition transition_page ::
  "(json \<Rightarrow> string) \<Rightarrow> (string \<Rightarrow> cdate option) \<Rightarrow> (publication_db \<Rightarrow> publication_db) \<Rightarrow> time \<Rightarrow> editorial_action
     \<Rightarrow> transition_input \<Rightarrow> db \<Rightarrow> publication_db \<Rightarrow> publication_error + (public_event_page \<times> publication_db)" where
  "transition_page rep dt conc now a inp d p =
     rbind (load_page (ti_page_id inp) p) (\<lambda>page.
     rbind (validate_transition (pp_status page) (target_status a)) (\<lambda>_.
       let updated = apply_status_mutation a now inp page
       in rbind (pages_update updated (ti_expected_version inp) (conc p)) (\<lambda>p1.
          rbind (post_transition_hook rep dt a updated d
                  (write_revision now updated (Some (pp_status page)) (ti_editor_user_id inp)
                    (ti_transition_reason inp) (if a = Retract then ti_retraction_note inp else None) p1))
          (\<lambda>p2. Inr (updated, p2)))))"

record editorial_list_item =
  li_id :: uuid
  li_slug :: string
  li_title :: string
  li_status :: publication_status
  li_version :: nat
  li_updated_at :: time
  li_last_published_at :: "time option"
  li_allowed_next_statuses :: "publication_status list"

text \<open>\<open>sorted\<close> by the text of the status.\<close>

definition sorted_next_states :: "publication_status \<Rightarrow> publication_status list" where
  "sorted_next_states s =
     filter (\<lambda>t. t \<in> allowed_next_states s) [APPROVED, ARCHIVED, DRAFT, IN_REVIEW, PUBLISHED, RETRACTED]"

definition list_editorial_pages ::
  "publication_status set option \<Rightarrow> int \<Rightarrow> uuid option \<Rightarrow> publication_db
     \<Rightarrow> editorial_list_item list \<times> uuid option \<times> int" where
  "list_editorial_pages statuses limit after_id p =
     (let bounded_limit = max 1 (min limit 100);
          (rows, next_cursor) = list_editorial statuses (nat bounded_limit) after_id p
      in (map (\<lambda>row. \<lparr>li_id = pp_id row, li_slug = pp_slug row, li_title = pp_title row,
             li_status = pp_status row, li_version = pp_version row, li_updated_at = pp_updated_at row,
             li_last_published_at = pp_last_published_at row,
             li_allowed_next_statuses = sorted_next_states (pp_status row)\<rparr>) rows,
          next_cursor, bounded_limit))"

definition list_page_revisions :: "uuid \<Rightarrow> publication_db \<Rightarrow> publication_error + page_revision list" where
  "list_page_revisions page_id p = rbind (load_page page_id p) (\<lambda>_. Inr (list_revisions page_id p))"

section \<open>Rebuilding the indices\<close>

definition MAX_REINDEX_PAGES :: nat where
  "MAX_REINDEX_PAGES = 50000"

definition REINDEX_BATCH_SIZE :: nat where
  "REINDEX_BATCH_SIZE = 100"

text \<open>The inner loop over one batch.\<close>

fun reindex_rows ::
  "(json \<Rightarrow> string) \<Rightarrow> (string \<Rightarrow> cdate option) \<Rightarrow> db \<Rightarrow> public_event_page list
     \<Rightarrow> search_index_entry list \<times> map_index_entry list
     \<Rightarrow> publication_error + (search_index_entry list \<times> map_index_entry list)" where
  "reindex_rows rep dt d [] acc = Inr acc"
| "reindex_rows rep dt d (row # rows) (search_entries, map_entries) =
     (let projection = projections_get (pp_event_id row) d
      in rbind (map_entry_from rep dt row projection) (\<lambda>map_entry.
         let search_entries = search_entries @ [entry_from rep dt row projection];
             map_entries = map_entries @ (case map_entry of None \<Rightarrow> [] | Some e \<Rightarrow> [e])
         in if MAX_REINDEX_PAGES \<le> length search_entries then Inl Reindex_Ceiling
            else reindex_rows rep dt d rows (search_entries, map_entries)))"

text \<open>The outer loop with fuel; \<open>None\<close> when the fuel is used up.\<close>

fun reindex_loop ::
  "nat \<Rightarrow> (json \<Rightarrow> string) \<Rightarrow> (string \<Rightarrow> cdate option) \<Rightarrow> db \<Rightarrow> publication_db \<Rightarrow> uuid option
     \<Rightarrow> search_index_entry list \<times> map_index_entry list
     \<Rightarrow> (publication_error + (search_index_entry list \<times> map_index_entry list)) option" where
  "reindex_loop 0 rep dt d p after_id acc = None"
| "reindex_loop (Suc k) rep dt d p after_id acc =
     (let (rows, next_cursor) = list_editorial (Some {PUBLISHED}) REINDEX_BATCH_SIZE after_id p
      in case reindex_rows rep dt d rows acc of
          Inl e \<Rightarrow> Some (Inl e)
        | Inr acc' \<Rightarrow>
            (case next_cursor of None \<Rightarrow> Some (Inr acc') | Some c \<Rightarrow> reindex_loop k rep dt d p (Some c) acc'))"

definition reindex_public_events ::
  "(json \<Rightarrow> string) \<Rightarrow> (string \<Rightarrow> cdate option) \<Rightarrow> db \<Rightarrow> publication_db
     \<Rightarrow> (publication_error + ((nat \<times> nat) \<times> publication_db)) option" where
  "reindex_public_events rep dt d p =
     map_option (\<lambda>r. rbind r (\<lambda>(search_entries, map_entries).
         rbind (search_rebuild_all_from search_entries p) (\<lambda>p1.
         rbind (map_rebuild_all_from map_entries p1) (\<lambda>p2.
           Inr ((length search_entries, length map_entries), p2)))))
       (reindex_loop (Suc (length (pb_pages p))) rep dt d p None ([], []))"

section \<open>Histories of the system\<close>

inductive editorial_step :: "publication_db \<Rightarrow> publication_db \<Rightarrow> bool" where
  create: "create_page now inp d p = Inr (pg, p') \<Longrightarrow> editorial_step p p'"
| edit: "update_page (\<lambda>x. x) now uinp p = Inr (pg, p') \<Longrightarrow> editorial_step p p'"
| move: "transition_page rep dt (\<lambda>x. x) now a tinp d p = Inr (pg, p') \<Longrightarrow> editorial_step p p'"
| reindex: "reindex_public_events rep dt d p = Some (Inr (r, p')) \<Longrightarrow> editorial_step p p'"

inductive_cases editorial_stepE: "editorial_step p p'"

end
