(* ===== verification/Publication_Invariants.thy ===== *)
theory Publication_Invariants
  imports Publication Interfaces
begin

text \<open>
  The consistency of the publication tables: an invariant of pages, revision histories and indices that every
  use case keeps, the exactness of the paged index rebuild, and the serializability of page transitions under
  optimistic locking.
\<close>

section \<open>The invariant\<close>

text \<open>A page's revisions are a path of the state machine, numbered without gaps from its creation.\<close>

definition legal_move :: "publication_status option \<Rightarrow> publication_status \<Rightarrow> bool" where
  "legal_move st t = (case st of None \<Rightarrow> t = DRAFT | Some s \<Rightarrow> is_allowed s t \<or> s = DRAFT \<and> t = DRAFT)"

fun history_ok :: "nat \<Rightarrow> publication_status option \<Rightarrow> page_revision list \<Rightarrow> bool" where
  "history_ok n st [] = True"
| "history_ok n st (v # vs) =
     (pv_version_at_moment v = Suc n \<and> pv_from_status v = st \<and> legal_move st (pv_to_status v)
      \<and> history_ok (Suc n) (Some (pv_to_status v)) vs)"

definition page_history :: "publication_db \<Rightarrow> uuid \<Rightarrow> page_revision list" where
  "page_history p i = filter (\<lambda>v. pv_page_id v = i) (pb_revisions p)"

definition revision_of :: "public_event_page \<Rightarrow> page_revision \<Rightarrow> bool" where
  "revision_of r v \<longleftrightarrow> pv_to_status v = pp_status r \<and> pv_title v = pp_title r
     \<and> pv_short_summary v = pp_short_summary r \<and> pv_narrative_markdown v = pp_narrative_markdown r"

definition recorded :: "page_revision list \<Rightarrow> public_event_page \<Rightarrow> bool" where
  "recorded vs r \<longleftrightarrow> vs \<noteq> [] \<and> history_ok 0 None vs \<and> length vs = pp_version r \<and> revision_of r (last vs)"

definition page_ok :: "public_event_page \<Rightarrow> bool" where
  "page_ok r \<longleftrightarrow> canonical_slug (pp_slug r) \<and> check_status_timestamps r
     \<and> (pp_status r \<in> {PUBLISHED, ARCHIVED, RETRACTED} \<longrightarrow>
          pp_first_published_at r \<noteq> None \<and> pp_last_published_at r \<noteq> None)"

definition published_ids :: "publication_db \<Rightarrow> uuid set" where
  "published_ids p = pp_id ` {r \<in> set (pb_pages p). pp_status r = PUBLISHED}"

definition pages_inv :: "publication_db \<Rightarrow> bool" where
  "pages_inv p \<longleftrightarrow>
     ids_below pp_id (pb_pages p) (pb_next p) \<and> distinct (map pp_slug (pb_pages p))
     \<and> distinct (map pp_event_id (pb_pages p))
     \<and> (\<forall>r \<in> set (pb_pages p). page_ok r \<and> recorded (page_history p (pp_id r)) r)
     \<and> pv_page_id ` set (pb_revisions p) \<subseteq> pp_id ` set (pb_pages p)"

text \<open>The search index holds exactly the given pages, the map index some of them.\<close>

definition indexed :: "uuid set \<Rightarrow> publication_db \<Rightarrow> bool" where
  "indexed ids p \<longleftrightarrow> distinct (map se_page_id (pb_search p)) \<and> se_page_id ` set (pb_search p) = ids
     \<and> distinct (map me_page_id (pb_map p)) \<and> me_page_id ` set (pb_map p) \<subseteq> ids"

definition publication_inv :: "publication_db \<Rightarrow> bool" where
  "publication_inv p \<longleftrightarrow> pages_inv p \<and> indexed (published_ids p) p"

lemma history_ok_snoc:
  "history_ok n st (vs @ [v]) \<longleftrightarrow> history_ok n st vs \<and> pv_version_at_moment v = Suc (n + length vs)
     \<and> pv_from_status v = (if vs = [] then st else Some (pv_to_status (last vs)))
     \<and> legal_move (pv_from_status v) (pv_to_status v)"
  by (induction vs arbitrary: n st) auto

lemma recorded_snoc:
  assumes "recorded vs r" and "pv_version_at_moment v = Suc (pp_version r)" and "pv_from_status v = Some (pp_status r)"
    and "legal_move (Some (pp_status r)) (pv_to_status v)" and "revision_of r' v" and "pp_version r' = Suc (pp_version r)"
  shows "recorded (vs @ [v]) r'"
  using assms by (auto simp: recorded_def history_ok_snoc revision_of_def)

text \<open>Index tables.\<close>

lemma search_put_simps [simp]:
  "pb_pages (search_put e p) = pb_pages p" "pb_revisions (search_put e p) = pb_revisions p"
  "pb_map (search_put e p) = pb_map p" "pb_next (search_put e p) = pb_next p"
  "pb_pages (search_delete i p) = pb_pages p" "pb_revisions (search_delete i p) = pb_revisions p"
  "pb_map (search_delete i p) = pb_map p" "pb_next (search_delete i p) = pb_next p"
  by (simp_all add: search_put_def search_delete_def)

lemma map_put_simps [simp]:
  "pb_pages (map_put m p) = pb_pages p" "pb_revisions (map_put m p) = pb_revisions p"
  "pb_search (map_put m p) = pb_search p" "pb_next (map_put m p) = pb_next p"
  "pb_pages (map_delete i p) = pb_pages p" "pb_revisions (map_delete i p) = pb_revisions p"
  "pb_search (map_delete i p) = pb_search p" "pb_next (map_delete i p) = pb_next p"
  by (simp_all add: map_put_def map_delete_def)

lemma upserted_rows:
  fixes key :: "'r \<Rightarrow> 'k" and e :: 'r and rows :: "'r list"
  assumes "distinct (map key rows)"
  defines "rows' \<equiv> (if key e \<in> key ` set rows then row_update (\<lambda>r. key r = key e) (\<lambda>_. e) rows else rows @ [e])"
  shows "distinct (map key rows')" "key ` set rows' = insert (key e) (key ` set rows)"
proof -
  have "map key (row_update (\<lambda>r. key r = key e) (\<lambda>_. e) rows) = map key rows"
    by (auto simp: row_update_def)
  then have u: "map key (row_update (\<lambda>r. key r = key e) (\<lambda>_. e) rows) = map key rows"
    "key ` set (row_update (\<lambda>r. key r = key e) (\<lambda>_. e) rows) = key ` set rows"
    by (metis list.set_map)+
  show "distinct (map key rows')" using assms(1) u by (simp add: rows'_def)
  show "key ` set rows' = insert (key e) (key ` set rows)" using u by (auto simp: rows'_def)
qed

lemma search_put_ids:
  "distinct (map se_page_id (pb_search p)) \<Longrightarrow> distinct (map se_page_id (pb_search (search_put e p)))"
  "distinct (map se_page_id (pb_search p)) \<Longrightarrow>
     se_page_id ` set (pb_search (search_put e p)) = insert (se_page_id e) (se_page_id ` set (pb_search p))"
  using upserted_rows [of se_page_id "pb_search p" e] by (simp_all add: search_put_def)

lemma map_put_ids:
  "distinct (map me_page_id (pb_map p)) \<Longrightarrow> distinct (map me_page_id (pb_map (map_put m p)))"
  "distinct (map me_page_id (pb_map p)) \<Longrightarrow>
     me_page_id ` set (pb_map (map_put m p)) = insert (me_page_id m) (me_page_id ` set (pb_map p))"
  using upserted_rows [of me_page_id "pb_map p" m] by (simp_all add: map_put_def)

lemma delete_ids [simp]:
  "se_page_id ` set (pb_search (search_delete i p)) = se_page_id ` set (pb_search p) - {i}"
  "me_page_id ` set (pb_map (map_delete i p)) = me_page_id ` set (pb_map p) - {i}"
  by (auto simp: search_delete_def map_delete_def)

lemma delete_distinct:
  "distinct (map se_page_id (pb_search p)) \<Longrightarrow> distinct (map se_page_id (pb_search (search_delete i p)))"
  "distinct (map me_page_id (pb_map p)) \<Longrightarrow> distinct (map me_page_id (pb_map (map_delete i p)))"
  by (simp_all add: search_delete_def map_delete_def distinct_map_filter)

lemma entry_ids [simp]: "se_page_id (entry_from rep dt page pr) = pp_id page"
  by (simp add: entry_from_def Let_def)

lemma map_entry_id: "map_entry_from rep dt page pr = Inr (Some m) \<Longrightarrow> me_page_id m = pp_id page"
  by (auto simp: map_entry_from_def Let_def)

lemma map_entry_count:
  "map_entry_from rep dt page pr = Inr (Some m) \<Longrightarrow> me_fatalities_total m = coerce_int (field_or_null pr ''fatalities_total'')"
  by (auto simp: map_entry_from_def Let_def)

lemma write_revision_simps [simp]:
  "pb_pages (write_revision now page f u t c p) = pb_pages p"
  "pb_search (write_revision now page f u t c p) = pb_search p"
  "pb_map (write_revision now page f u t c p) = pb_map p"
  "pb_next (write_revision now page f u t c p) = Suc (pb_next p)"
  by (simp_all add: write_revision_def)

lemma write_revision_history:
  "page_history (write_revision now page f u t c p) i =
     page_history p i @ (if i = pp_id page
       then [\<lparr>pv_id = pb_next p, pv_page_id = pp_id page, pv_version_at_moment = pp_version page,
           pv_from_status = f, pv_to_status = pp_status page, pv_title = pp_title page,
           pv_short_summary = pp_short_summary page, pv_narrative_markdown = pp_narrative_markdown page,
           pv_editor_user_id = u, pv_transition_reason = t, pv_correction_note = c, pv_created_at = now\<rparr>]
       else [])"
  by (simp add: page_history_def write_revision_def)

lemma write_revision_owners:
  "pv_page_id ` set (pb_revisions (write_revision now page f u t c p)) = insert (pp_id page) (pv_page_id ` set (pb_revisions p))"
  by (auto simp: write_revision_def)

lemma page_history_cong: "pb_revisions p = pb_revisions q \<Longrightarrow> page_history p i = page_history q i"
  by (simp add: page_history_def)

lemma hook_frame:
  assumes "post_transition_hook rep dt a page d p = Inr p'"
  shows "pb_pages p' = pb_pages p" "pb_revisions p' = pb_revisions p" "pb_next p' = pb_next p"
  using assms
  by (auto simp: hook_defs index_published_page_in_map_def index_published_page_def search_upsert_def map_upsert_def
      split: editorial_action.splits option.splits if_splits)

text \<open>The hook keeps the indices equal to the published pages.\<close>

lemma indexed_remove: "indexed ids p \<Longrightarrow> indexed (ids - {i}) (map_delete i (search_delete i p))"
  unfolding indexed_def
proof (elim conjE, intro conjI)
  assume "me_page_id ` set (pb_map p) \<subseteq> ids"
  then show "me_page_id ` set (pb_map (map_delete i (search_delete i p))) \<subseteq> ids - {i}" by (simp only: delete_ids search_put_simps) blast
qed (simp_all add: delete_distinct)

lemma indexed_search: "indexed ids p \<Longrightarrow> indexed (insert (se_page_id e) ids) (search_put e p)"
  by (auto simp: indexed_def search_put_ids simp del: image_insert)

lemma indexed_map: "indexed ids p \<Longrightarrow> me_page_id m \<in> ids \<Longrightarrow> indexed ids (map_put m p)"
  unfolding indexed_def by (simp only: map_put_ids map_put_simps) simp

lemma indexed_unmap: "indexed ids p \<Longrightarrow> indexed ids (map_delete i p)"
  unfolding indexed_def by (simp only: delete_ids delete_distinct map_put_simps) blast

lemma indexed_publish:
  assumes "publish_hook rep dt page d p = Inr p'" and "indexed ids p"
  shows "indexed (insert (pp_id page) ids) p'"
proof -
  obtain q where q: "index_published_page rep dt page d p = Inr q" and m: "index_published_page_in_map rep dt page d q = Inr p'"
    using assms(1) by (auto simp: publish_hook_def)
  have ix: "indexed (insert (pp_id page) ids) q"
    using q indexed_search [OF assms(2), of "entry_from rep dt page (projections_get (pp_event_id page) d)"]
    by (auto simp: index_published_page_def search_upsert_def split: if_splits)
  obtain entry where e: "map_entry_from rep dt page (projections_get (pp_event_id page) d) = Inr entry"
    using m by (auto simp: index_published_page_in_map_def)
  show ?thesis
  proof (cases entry)
    case None
    then show ?thesis using m e indexed_unmap [OF ix, of "pp_id page"] by (auto simp: index_published_page_in_map_def)
  next
    case (Some x)
    then have "me_page_id x = pp_id page" using e map_entry_id by simp
    then show ?thesis
      using m e Some indexed_map [OF ix, of x]
      by (auto simp: index_published_page_in_map_def map_upsert_def split: if_splits)
  qed
qed

lemma hook_indexed:
  assumes "post_transition_hook rep dt a page d p = Inr p'" and "indexed ids p"
    and "is_allowed st (target_status a)" and "pp_id page \<in> ids \<longleftrightarrow> st = PUBLISHED"
  shows "indexed (if target_status a = PUBLISHED then insert (pp_id page) ids else ids - {pp_id page}) p'"
proof (cases "a \<in> {Publish, Archive, Retract}")
  case True
  then consider "a = Publish" | "a = Archive" | "a = Retract" by blast
  then show ?thesis
  proof cases
    case 1
    then show ?thesis using assms(1) indexed_publish [OF _ assms(2)] by (simp add: post_transition_hook_def)
  qed (use assms(1) indexed_remove [OF assms(2), of "pp_id page"] in \<open>simp_all add: hook_defs\<close>)
next
  case False
  then have "p' = p" "target_status a \<noteq> PUBLISHED" "st \<noteq> PUBLISHED"
    using assms(1,3) by (auto simp: hook_defs is_allowed_def split: editorial_action.splits)
  then show ?thesis using assms(2,4) by simp
qed

text \<open>One conditional update with its revision.\<close>

lemma pages_get_in: "pages_get i p = Some r \<Longrightarrow> r \<in> set (pb_pages p) \<and> pp_id r = i"
  by (auto simp: pages_get_def dest: row_get_SomeD)

lemma pages_get_iff:
  "ids_below pp_id (pb_pages p) n \<Longrightarrow> pages_get i p = Some r \<longleftrightarrow> r \<in> set (pb_pages p) \<and> pp_id r = i"
  unfolding pages_get_def by (rule row_get_Some_iff) (rule ids_below_distinct)

lemma page_columns_same:
  "pp_id page = pp_id row \<Longrightarrow> pp_event_id page = pp_event_id row \<Longrightarrow> pp_created_at page = pp_created_at row \<Longrightarrow>
     page_columns page row = page"
  by (simp add: page_columns_def)

definition replace_page :: "public_event_page \<Rightarrow> publication_db \<Rightarrow> publication_db" where
  "replace_page new p = p\<lparr>pb_pages := map (\<lambda>r. if pp_id r = pp_id new then new else r) (pb_pages p)\<rparr>"

lemma replace_page_simps [simp]:
  "pb_revisions (replace_page new p) = pb_revisions p" "pb_search (replace_page new p) = pb_search p"
  "pb_map (replace_page new p) = pb_map p" "pb_next (replace_page new p) = pb_next p"
  "pb_pages (replace_page new p) = map (\<lambda>r. if pp_id r = pp_id new then new else r) (pb_pages p)"
  by (simp_all add: replace_page_def)

text \<open>What a successful update has checked and done.\<close>

lemma pages_update_Inr:
  assumes "pages_update new v p = Inr p'" and "pages_get (pp_id new) p = Some row"
    and "distinct (map pp_id (pb_pages p))" and "pp_event_id new = pp_event_id row" and "pp_created_at new = pp_created_at row"
  shows "p' = replace_page new p \<and> pp_version row = v
    \<and> (\<forall>r \<in> set (pb_pages p). pp_id r \<noteq> pp_id new \<longrightarrow> pp_slug r \<noteq> pp_slug new)"
proof -
  have p': "p' = p\<lparr>pb_pages := row_update (\<lambda>r. pp_id r = pp_id new) (page_columns new) (pb_pages p)\<rparr>"
    and v: "pp_version row = v" and sl: "\<not> list_ex (\<lambda>r. pp_id r \<noteq> pp_id new \<and> pp_slug r = pp_slug new) (pb_pages p)"
    using assms(1,2) by (auto simp: pages_update_def split: if_splits)
  have row: "row \<in> set (pb_pages p)" "pp_id row = pp_id new" using pages_get_in [OF assms(2)] by simp_all
  have "r = row" if "r \<in> set (pb_pages p)" "pp_id r = pp_id new" for r
    using that row assms(3) by (metis distinct_map inj_onD)
  then have "row_update (\<lambda>r. pp_id r = pp_id new) (page_columns new) (pb_pages p) =
      map (\<lambda>r. if pp_id r = pp_id new then new else r) (pb_pages p)"
    unfolding row_update_def using page_columns_same [of new row] row(2) assms(4,5) by (intro map_cong) auto
  then show ?thesis using p' v sl by (auto simp: replace_page_def list_ex_iff)
qed

lemma distinct_replaced:
  assumes "distinct (map f rows)" and "distinct (map pp_id rows)" and "row \<in> set rows" and "pp_id row = pp_id new"
    and "\<And>r. r \<in> set rows \<Longrightarrow> pp_id r \<noteq> pp_id new \<Longrightarrow> f r \<noteq> f new"
  shows "distinct (map f (map (\<lambda>r. if pp_id r = pp_id new then new else r) rows))"
proof -
  have i: "inj_on pp_id (set rows)" "inj_on f (set rows)" and d: "distinct rows" using assms(1,2) by (auto simp: distinct_map)
  have "inj_on (\<lambda>r. f (if pp_id r = pp_id new then new else r)) (set rows)"
  proof (rule inj_onI)
    fix x y
    assume x: "x \<in> set rows" and y: "y \<in> set rows"
      and e: "f (if pp_id x = pp_id new then new else x) = f (if pp_id y = pp_id new then new else y)"
    show "x = y"
    proof (cases "pp_id x = pp_id new \<longleftrightarrow> pp_id y = pp_id new")
      case True
      then show ?thesis
        using inj_onD [OF i(1) _ x y] inj_onD [OF i(2) _ x y] e by (cases "pp_id x = pp_id new") simp_all
    next
      case False
      then show ?thesis using x y e assms(5) [of x] assms(5) [of y] by (auto split: if_splits)
    qed
  qed
  then show ?thesis using d by (simp add: distinct_map comp_def)
qed

lemma published_ids_replace:
  assumes "row \<in> set (pb_pages p)" and "pp_id row = pp_id new"
  shows "published_ids (replace_page new p) =
    (if pp_status new = PUBLISHED then insert (pp_id new) (published_ids p) else published_ids p - {pp_id new})"
  using assms by (auto simp: published_ids_def image_iff split: if_splits)

lemma published_ids_cong: "pb_pages p = pb_pages q \<Longrightarrow> published_ids p = published_ids q"
  by (simp add: published_ids_def)

lemma pages_inv_replace:
  assumes "pages_inv p" and "pages_get (pp_id new) p = Some row"
    and "\<forall>r \<in> set (pb_pages p). pp_id r \<noteq> pp_id new \<longrightarrow> pp_slug r \<noteq> pp_slug new"
    and "pp_event_id new = pp_event_id row" and "page_ok new" and "pp_version new = Suc (pp_version row)"
    and "legal_move (Some (pp_status row)) (pp_status new)"
  shows "pages_inv (write_revision now new (Some (pp_status row)) u t c (replace_page new p))"
proof -
  let ?q = "write_revision now new (Some (pp_status row)) u t c (replace_page new p)"
  have row: "row \<in> set (pb_pages p)" "pp_id row = pp_id new" using pages_get_in [OF assms(2)] by simp_all
  have ids: "ids_below pp_id (pb_pages p) (pb_next p)" and sl: "distinct (map pp_slug (pb_pages p))"
    and ev: "distinct (map pp_event_id (pb_pages p))"
    and ok: "\<And>r. r \<in> set (pb_pages p) \<Longrightarrow> page_ok r \<and> recorded (page_history p (pp_id r)) r"
    and own: "pv_page_id ` set (pb_revisions p) \<subseteq> pp_id ` set (pb_pages p)"
    using assms(1) by (auto simp: pages_inv_def)
  note dist = ids_below_distinct [OF ids]
  have pg: "pb_pages ?q = map (\<lambda>r. if pp_id r = pp_id new then new else r) (pb_pages p)" by simp
  have m: "map pp_id (pb_pages ?q) = map pp_id (pb_pages p)" unfolding pg by simp
  then have s: "pp_id ` set (pb_pages ?q) = pp_id ` set (pb_pages p)" by (metis list.set_map)
  have "\<forall>k \<in> pp_id ` set (pb_pages ?q). k < pb_next p" unfolding s using ids by (simp add: ids_below_def)
  then have "ids_below pp_id (pb_pages ?q) (pb_next p)" unfolding ids_below_def m using dist by blast
  then have "ids_below pp_id (pb_pages ?q) (pb_next ?q)" by (rule ids_below_mono) simp
  moreover have "distinct (map pp_slug (pb_pages ?q))"
    unfolding pg by (rule distinct_replaced [OF sl dist row]) (use assms(3) in blast)
  moreover have "distinct (map pp_event_id (pb_pages ?q))"
    unfolding pg
  proof (rule distinct_replaced [OF ev dist row])
    fix r
    assume "r \<in> set (pb_pages p)" "pp_id r \<noteq> pp_id new"
    then show "pp_event_id r \<noteq> pp_event_id new" using row ev assms(4) by (metis distinct_map inj_onD)
  qed
  moreover have "page_ok r \<and> recorded (page_history ?q (pp_id r)) r" if r: "r \<in> set (pb_pages ?q)" for r
  proof (cases "pp_id r = pp_id new")
    case True
    then have "r = new" using r unfolding pg by auto
    moreover have "recorded (page_history p (pp_id new)) row" using ok [OF row(1)] row(2) by simp
    ultimately show ?thesis
      using assms(5,6,7) unfolding write_revision_history page_history_cong [OF replace_page_simps(1)]
      by (auto intro!: recorded_snoc [where r = row] simp: revision_of_def)
  next
    case False
    then have "r \<in> set (pb_pages p)" using r unfolding pg by (auto split: if_splits)
    then show ?thesis
      using ok False unfolding write_revision_history page_history_cong [OF replace_page_simps(1)] by simp
  qed
  moreover have "pv_page_id ` set (pb_revisions ?q) \<subseteq> pp_id ` set (pb_pages ?q)"
    unfolding write_revision_owners s replace_page_simps using own imageI [OF row(1), of pp_id] row(2) by auto
  ultimately show ?thesis by (auto simp: pages_inv_def)
qed

lemma slug_of_canonical: "slug_of raw = Inr s \<Longrightarrow> canonical_slug s"
  using normalize_slug_canonical by (auto simp: slug_of_def split: sum.splits)

text \<open>Creating a page.\<close>

lemma create_page_inv:
  assumes "create_page now inp d p = Inr (pg, p')" and "publication_inv p"
  shows "publication_inv p'"
proof -
  let ?n = "pb_next p"
  obtain p1 where slug: "canonical_slug (pp_slug pg)" and add: "pages_add pg d (p\<lparr>pb_next := Suc ?n\<rparr>) = Inr p1"
    and pg: "pp_id pg = ?n" "pp_status pg = DRAFT" "pp_version pg = 1"
    and p': "p' = write_revision now pg None (ci_editor_user_id inp) (Some ''created'') None p1"
    using assms(1) slug_of_canonical by (auto simp: create_page_def Let_def)
  have p1: "p1 = p\<lparr>pb_next := Suc ?n, pb_pages := pb_pages p @ [pg]\<rparr>"
    and new: "pp_slug pg \<notin> pp_slug ` set (pb_pages p)" "pp_event_id pg \<notin> pp_event_id ` set (pb_pages p)"
    using add by (auto simp: pages_add_def split: if_splits)
  have ids: "ids_below pp_id (pb_pages p) ?n"
    and ok: "\<And>r. r \<in> set (pb_pages p) \<Longrightarrow> page_ok r \<and> recorded (page_history p (pp_id r)) r"
    and own: "pv_page_id ` set (pb_revisions p) \<subseteq> pp_id ` set (pb_pages p)"
    and ds: "distinct (map pp_slug (pb_pages p))" "distinct (map pp_event_id (pb_pages p))"
    and ix: "indexed (published_ids p) p"
    using assms(2) by (auto simp: publication_inv_def pages_inv_def)
  have hist: "page_history p1 i = page_history p i" for i by (simp add: p1 page_history_def)
  have fresh: "page_history p ?n = []"
    using own ids_below_fresh [OF ids] by (force simp: page_history_def filter_empty_conv)
  have pages: "pb_pages p' = pb_pages p @ [pg]" by (simp add: p' p1)
  have "ids_below pp_id (pb_pages p') (Suc ?n)" unfolding pages by (rule ids_below_snoc [OF ids pg(1)])
  then have "ids_below pp_id (pb_pages p') (pb_next p')" by (rule ids_below_mono) (simp add: p' p1)
  moreover have "page_ok r \<and> recorded (page_history p' (pp_id r)) r" if "r \<in> set (pb_pages p')" for r
  proof (cases "r = pg")
    case True
    have "page_ok pg" using slug pg by (simp add: page_ok_def check_status_timestamps_def)
    then show ?thesis
      using True pg fresh unfolding p' write_revision_history hist
      by (simp add: recorded_def revision_of_def legal_move_def)
  next
    case False
    then have r: "r \<in> set (pb_pages p)" using that by (auto simp: pages)
    have "pp_id r \<noteq> ?n" using imageI [OF r, of pp_id] ids_below_fresh [OF ids] by metis
    then show ?thesis using ok [OF r] pg(1) unfolding p' write_revision_history hist by simp
  qed
  moreover have "pv_page_id ` set (pb_revisions p') \<subseteq> pp_id ` set (pb_pages p')"
    unfolding p' write_revision_owners using own by (auto simp: p1)
  ultimately have "pages_inv p'" using ds new by (auto simp: pages_inv_def pages)
  moreover have "published_ids p' = published_ids p" using pg(2) by (auto simp: published_ids_def pages)
  moreover have "indexed (published_ids p) p'" using ix by (simp add: indexed_def p' p1)
  ultimately show ?thesis by (simp add: publication_inv_def)
qed

text \<open>Moving and editing a page.\<close>

lemma apply_status_mutation_simps [simp]:
  "pp_id (apply_status_mutation a now inp page) = pp_id page"
  "pp_event_id (apply_status_mutation a now inp page) = pp_event_id page"
  "pp_created_at (apply_status_mutation a now inp page) = pp_created_at page"
  "pp_slug (apply_status_mutation a now inp page) = pp_slug page"
  "pp_status (apply_status_mutation a now inp page) = target_status a"
  "pp_version (apply_status_mutation a now inp page) = Suc (pp_version page)"
  by (simp_all add: mutation_defs Let_def split: editorial_action.split)

lemma page_ok_moved:
  assumes "page_ok page" and "is_allowed (pp_status page) (target_status a)"
  shows "page_ok (apply_status_mutation a now inp page)"
  using assms
  by (cases a; cases "pp_status page")
    (auto simp: page_ok_def check_status_timestamps_def mutation_defs is_allowed_def Let_def split: option.splits)

lemma load_page_Inr: "load_page i p = Inr page \<longleftrightarrow> pages_get i p = Some page"
  by (simp add: load_page_def split: option.splits)

lemma transition_page_steps:
  assumes "transition_page rep dt conc now a inp d p = Inr (pg, p')"
  obtains page p1 where "pages_get (ti_page_id inp) p = Some page" "is_allowed (pp_status page) (target_status a)"
    "pg = apply_status_mutation a now inp page" "pages_update pg (ti_expected_version inp) (conc p) = Inr p1"
    "post_transition_hook rep dt a pg d (write_revision now pg (Some (pp_status page)) (ti_editor_user_id inp)
        (ti_transition_reason inp) (if a = Retract then ti_retraction_note inp else None) p1) = Inr p'"
  using assms by (auto simp: transition_page_def Let_def load_page_Inr validate_transition_def split: if_splits)

lemma indexed_cong: "pb_search p = pb_search q \<Longrightarrow> pb_map p = pb_map q \<Longrightarrow> indexed ids p = indexed ids q"
  by (simp add: indexed_def)

lemma transition_page_inv:
  assumes "transition_page rep dt (\<lambda>x. x) now a inp d p = Inr (pg, p')" and "publication_inv p"
  shows "publication_inv p'"
  using assms(1)
proof (rule transition_page_steps)
  fix page p1
  assume get: "pages_get (ti_page_id inp) p = Some page" and al: "is_allowed (pp_status page) (target_status a)"
    and pg: "pg = apply_status_mutation a now inp page" and up: "pages_update pg (ti_expected_version inp) p = Inr p1"
    and hook: "post_transition_hook rep dt a pg d (write_revision now pg (Some (pp_status page)) (ti_editor_user_id inp)
        (ti_transition_reason inp) (if a = Retract then ti_retraction_note inp else None) p1) = Inr p'"
  let ?w = "write_revision now pg (Some (pp_status page)) (ti_editor_user_id inp)
        (ti_transition_reason inp) (if a = Retract then ti_retraction_note inp else None) p1"
  have inv: "pages_inv p" and ix: "indexed (published_ids p) p" using assms(2) by (simp_all add: publication_inv_def)
  have page: "page \<in> set (pb_pages p)" "pp_id page = ti_page_id inp" using pages_get_in [OF get] by simp_all
  have id: "pp_id pg = ti_page_id inp" using page pg by simp
  have get': "pages_get (pp_id pg) p = Some page" using get id by simp
  have dist: "distinct (map pp_id (pb_pages p))" using inv by (simp add: pages_inv_def ids_below_def)
  note up' = pages_update_Inr [OF up get' dist]
  have p1: "p1 = replace_page pg p" and sl: "\<forall>r \<in> set (pb_pages p). pp_id r \<noteq> pp_id pg \<longrightarrow> pp_slug r \<noteq> pp_slug pg"
    using up' by (simp_all add: pg)
  have ok: "page_ok pg" using inv page(1) page_ok_moved [OF _ al] by (auto simp: pg pages_inv_def)
  have w: "pages_inv ?w"
    unfolding p1
    by (rule pages_inv_replace [OF inv get' sl]) (use ok al in \<open>simp_all add: pg legal_move_def\<close>)
  have "pages_inv p'" using w hook_frame [OF hook] by (simp add: pages_inv_def page_history_def)
  moreover have "indexed (published_ids p') p'"
  proof -
    have "pp_id pg \<in> published_ids p \<longleftrightarrow> pp_status page = PUBLISHED"
    proof
      assume "pp_id pg \<in> published_ids p"
      then obtain r where "r \<in> set (pb_pages p)" "pp_status r = PUBLISHED" "pp_id r = pp_id page"
        unfolding published_ids_def using page(2) id by auto
      then show "pp_status page = PUBLISHED" using page(1) dist by (metis distinct_map inj_onD)
    next
      assume "pp_status page = PUBLISHED"
      then have "pp_id page \<in> published_ids p" unfolding published_ids_def using page(1) by blast
      then show "pp_id pg \<in> published_ids p" using page(2) id by simp
    qed
    moreover have "indexed (published_ids p) ?w" using ix by (simp add: p1 indexed_def)
    ultimately have "indexed (if target_status a = PUBLISHED then insert (pp_id pg) (published_ids p)
        else published_ids p - {pp_id pg}) p'"
      using hook_indexed [OF hook _ al] by blast
    moreover have "published_ids p' = published_ids (replace_page pg p)"
      by (rule published_ids_cong) (simp add: hook_frame [OF hook] p1)
    moreover have "pp_id page = pp_id pg" "pp_status pg = target_status a" by (simp_all add: pg)
    ultimately show ?thesis using published_ids_replace [OF page(1)] by simp
  qed
  ultimately show ?thesis by (simp add: publication_inv_def)
qed

lemma update_page_steps:
  assumes "update_page conc now inp p = Inr (pg, p')"
  obtains page p1 t where "pages_get (ui_page_id inp) p = Some page" "pp_status page = DRAFT"
    "pp_id pg = pp_id page" "pp_event_id pg = pp_event_id page" "pp_created_at pg = pp_created_at page"
    "pp_status pg = DRAFT" "pp_version pg = Suc (pp_version page)"
    "pp_slug pg = pp_slug page \<or> canonical_slug (pp_slug pg)"
    "pages_update pg (ui_expected_version inp) (conc p) = Inr p1"
    "p' = write_revision now pg (Some (pp_status page)) (ui_editor_user_id inp) t (ui_correction_note inp) p1"
  using assms slug_of_canonical
  by (auto simp: update_page_def Let_def load_page_Inr split: if_splits option.splits)

lemma update_page_inv:
  assumes "update_page (\<lambda>x. x) now inp p = Inr (pg, p')" and "publication_inv p"
  shows "publication_inv p'"
  using assms(1)
proof (rule update_page_steps)
  fix page p1 t
  assume get: "pages_get (ui_page_id inp) p = Some page" and st: "pp_status page = DRAFT" "pp_status pg = DRAFT"
    and pg: "pp_id pg = pp_id page" "pp_event_id pg = pp_event_id page" "pp_created_at pg = pp_created_at page"
      "pp_version pg = Suc (pp_version page)"
    and slug: "pp_slug pg = pp_slug page \<or> canonical_slug (pp_slug pg)"
    and up: "pages_update pg (ui_expected_version inp) p = Inr p1"
    and p': "p' = write_revision now pg (Some (pp_status page)) (ui_editor_user_id inp) t (ui_correction_note inp) p1"
  have inv: "pages_inv p" and ix: "indexed (published_ids p) p" using assms(2) by (simp_all add: publication_inv_def)
  have page: "page \<in> set (pb_pages p)" "pp_id page = ui_page_id inp" using pages_get_in [OF get] by simp_all
  have get': "pages_get (pp_id pg) p = Some page" using get pg page by simp
  have dist: "distinct (map pp_id (pb_pages p))" using inv by (simp add: pages_inv_def ids_below_def)
  note up' = pages_update_Inr [OF up get' dist pg(2,3)]
  have p1: "p1 = replace_page pg p" and sl: "\<forall>r \<in> set (pb_pages p). pp_id r \<noteq> pp_id pg \<longrightarrow> pp_slug r \<noteq> pp_slug pg"
    using up' by simp_all
  have "canonical_slug (pp_slug page)" using inv page(1) by (auto simp: pages_inv_def page_ok_def)
  then have ok: "page_ok pg" using slug st by (auto simp: page_ok_def check_status_timestamps_def)
  have "pages_inv p'"
    unfolding p' p1 by (rule pages_inv_replace [OF inv get' sl]) (use ok pg st in \<open>simp_all add: legal_move_def\<close>)
  moreover have "published_ids p' = published_ids p - {pp_id pg}"
    using published_ids_replace [OF page(1) pg(1) [symmetric]] published_ids_cong [of p' "replace_page pg p"] st
    by (simp add: p' p1)
  moreover have "pp_id pg \<notin> published_ids p"
  proof
    assume "pp_id pg \<in> published_ids p"
    then obtain r where "r \<in> set (pb_pages p)" "pp_status r = PUBLISHED" "pp_id r = pp_id page"
      unfolding published_ids_def using pg(1) by auto
    then show False using page(1) dist st(1) by (metis distinct_map inj_onD publication_status.distinct(5))
  qed
  moreover have "indexed (published_ids p) p'" using ix by (simp add: p' p1 indexed_def)
  ultimately show ?thesis by (simp add: publication_inv_def)
qed

text \<open>Walking the editorial listing page by page.\<close>

definition editorial_order :: "publication_status set \<Rightarrow> publication_db \<Rightarrow> public_event_page list" where
  "editorial_order active p = rev (sort_key editorial_key (filter (\<lambda>r. pp_status r \<in> active) (pb_pages p)))"

fun page_cursor :: "public_event_page list \<Rightarrow> nat \<Rightarrow> uuid option" where
  "page_cursor s 0 = None"
| "page_cursor s (Suc i) = Some (pp_id (s ! i))"

lemma set_editorial_order: "set (editorial_order active p) = {r \<in> set (pb_pages p). pp_status r \<in> active}"
  by (simp add: editorial_order_def)

lemma list_editorial_at:
  assumes "pages_inv p" and "j \<le> length (editorial_order active p)" and "0 < n"
  shows "list_editorial (Some active) n (page_cursor (editorial_order active p) j) p =
    (take n (drop j (editorial_order active p)),
     if n < length (drop j (editorial_order active p)) then page_cursor (editorial_order active p) (j + n) else None)"
proof -
  let ?rows = "filter (\<lambda>r. pp_status r \<in> active) (pb_pages p)"
  let ?s = "editorial_order active p"
  have ids: "ids_below pp_id (pb_pages p) (pb_next p)" using assms(1) by (simp add: pages_inv_def)
  then have d: "distinct ?rows" and i: "inj_on pp_id (set ?rows)"
    using ids_below_distinct [OF ids] by (auto simp: distinct_map intro: inj_on_subset)
  have inj: "inj_on editorial_key (set ?rows)"
    using i by (auto simp: inj_on_def editorial_key_def)
  have len: "length ?s = length ?rows" by (simp add: editorial_order_def)
  show ?thesis
  proof (cases j)
    case 0
    obtain m where m: "n = Suc m" using assms(3) by (cases n) auto
    show ?thesis
      using 0 m keyset_page_first [OF assms(3), of pp_id editorial_key ?rows]
      by (simp add: list_editorial_def editorial_order_def Let_def)
  next
    case (Suc k)
    then have k: "k < length ?s" using assms(2) by simp
    then have "?s ! k \<in> set (pb_pages p)" "pp_status (?s ! k) \<in> active"
      using nth_mem [OF k] by (simp_all add: set_editorial_order)
    then have "pages_get (pp_id (?s ! k)) p = Some (?s ! k)" "pp_status (?s ! k) \<in> active"
      using pages_get_iff [OF ids] by simp_all
    moreover have "drop j ?s ! (n - 1) = ?s ! (k + n)" if "n < length (drop j ?s)" using that Suc assms(3) by simp
    ultimately show ?thesis
      using keyset_page_next [OF inj d assms(3), of k] k Suc len
      by (simp add: list_editorial_def editorial_order_def [symmetric])
  qed
qed

lemma reindex_rows_append:
  "reindex_rows rep dt d (xs @ ys) acc = rbind (reindex_rows rep dt d xs acc) (reindex_rows rep dt d ys)"
proof (induction rep dt d xs acc rule: reindex_rows.induct)
  case (2 rep dt d row rows ss ms)
  then show ?case
    by (cases "map_entry_from rep dt row (projections_get (pp_event_id row) d)") (simp_all add: Let_def)
qed simp

text \<open>The paged loop ends and does the work of one pass over all published pages.\<close>

lemma reindex_loop_pass:
  assumes "pages_inv p"
  defines "s \<equiv> editorial_order {PUBLISHED} p"
  shows "j \<le> length s \<Longrightarrow> length s - j < k \<Longrightarrow>
    reindex_loop k rep dt d p (page_cursor s j) acc = Some (reindex_rows rep dt d (drop j s) acc)"
proof (induction k arbitrary: j acc)
  case 0
  then show ?case by simp
next
  case (Suc k)
  let ?n = REINDEX_BATCH_SIZE
  have n: "0 < ?n" by (simp add: REINDEX_BATCH_SIZE_def)
  have rows: "reindex_rows rep dt d (drop j s) acc =
      rbind (reindex_rows rep dt d (take ?n (drop j s)) acc) (reindex_rows rep dt d (drop (j + ?n) s))"
    by (metis append_take_drop_id drop_drop add.commute reindex_rows_append)
  have list: "list_editorial (Some {PUBLISHED}) ?n (page_cursor s j) p =
      (take ?n (drop j s), if ?n < length (drop j s) then page_cursor s (j + ?n) else None)"
    unfolding s_def by (rule list_editorial_at [OF assms(1) _ n]) (use Suc.prems in \<open>simp add: s_def\<close>)
  show ?case
  proof (cases "?n < length s - j")
    case True
    obtain m where m: "?n = Suc m" using n by (cases ?n) auto
    obtain c where c: "page_cursor s (j + ?n) = Some c" by (simp add: m)
    have "reindex_loop k rep dt d p (page_cursor s (j + ?n)) acc' = Some (reindex_rows rep dt d (drop (j + ?n) s) acc')" for acc'
      using Suc.IH [of "j + ?n" acc'] Suc.prems True n by linarith
    then show ?thesis
      unfolding rows using True list c by (cases "reindex_rows rep dt d (take ?n (drop j s)) acc") simp_all
  next
    case False
    then show ?thesis using list by (simp split: sum.split)
  qed
qed

definition published_pages :: "publication_db \<Rightarrow> public_event_page list" where
  "published_pages p = editorial_order {PUBLISHED} p"

lemma published_pages_ids: "pp_id ` set (published_pages p) = published_ids p"
  by (simp add: published_pages_def set_editorial_order published_ids_def)

lemma published_pages_distinct: "pages_inv p \<Longrightarrow> distinct (map pp_id (published_pages p))"
proof -
  assume "pages_inv p"
  then have "distinct (map pp_id (pb_pages p))" by (simp add: pages_inv_def ids_below_def)
  then show ?thesis
    by (auto simp: published_pages_def editorial_order_def distinct_map intro: inj_on_subset)
qed

definition page_entry ::
  "(json \<Rightarrow> string) \<Rightarrow> (string \<Rightarrow> cdate option) \<Rightarrow> db \<Rightarrow> public_event_page \<Rightarrow> search_index_entry" where
  "page_entry rep dt d r = entry_from rep dt r (projections_get (pp_event_id r) d)"

definition page_map_entry ::
  "(json \<Rightarrow> string) \<Rightarrow> (string \<Rightarrow> cdate option) \<Rightarrow> db \<Rightarrow> public_event_page
     \<Rightarrow> publication_error + map_index_entry option" where
  "page_map_entry rep dt d r = map_entry_from rep dt r (projections_get (pp_event_id r) d)"

definition located :: "publication_error + map_index_entry option \<Rightarrow> map_index_entry list" where
  "located r = (case r of Inr (Some e) \<Rightarrow> [e] | _ \<Rightarrow> [])"

text \<open>The one way in which the coordinates of a page fail.\<close>

lemma coerce_float_overflow: "isl (coerce_float v) \<Longrightarrow> coerce_float v = Inl Float_Overflow"
  by (cases v) (auto split: pyfloat.splits)

lemma first_float_overflow: "isl (first_float field keys) \<Longrightarrow> first_float field keys = Inl Float_Overflow"
proof (induction keys)
  case (Cons key keys)
  show ?case
  proof (cases "field key")
    case (Some v)
    show ?thesis using Cons Some coerce_float_overflow [of v]
      by (cases "coerce_float v") (auto split: option.splits)
  qed (use Cons in simp)
qed simp

lemma page_map_entry_overflow: "isl (page_map_entry rep dt d r) \<longleftrightarrow> page_map_entry rep dt d r = Inl Float_Overflow"
proof -
  let ?f = "projected_field (projections_get (pp_event_id r) d)"
  have "isl (extract_coords ?f) \<Longrightarrow> extract_coords ?f = Inl Float_Overflow"
    using first_float_overflow [of ?f "[''latitude'', ''lat'']"] first_float_overflow [of ?f "[''longitude'', ''lng'', ''lon'']"]
    by (cases "first_float ?f [''latitude'', ''lat'']"; cases "first_float ?f [''longitude'', ''lng'', ''lon'']")
      (simp_all add: extract_coords_def)
  then show ?thesis
    by (cases "extract_coords ?f") (auto simp: page_map_entry_def map_entry_from_def Let_def)
qed

lemma reindex_rows_result:
  "reindex_rows rep dt d rows (ss, ms) = Inr acc \<Longrightarrow>
     acc = (ss @ map (page_entry rep dt d) rows, ms @ concat (map (\<lambda>r. located (page_map_entry rep dt d r)) rows))"
proof (induction rows arbitrary: ss ms)
  case (Cons r rows)
  from Cons.prems obtain x where x: "page_map_entry rep dt d r = Inr x"
    by (auto simp: page_map_entry_def Let_def)
  then have "reindex_rows rep dt d rows (ss @ [page_entry rep dt d r], ms @ located (Inr x)) = Inr acc"
    using Cons.prems by (auto simp: page_map_entry_def page_entry_def located_def Let_def split: if_splits option.splits)
  from Cons.IH [OF this] x show ?case by simp
qed simp

lemma reindex_rows_ok:
  "length ss < MAX_REINDEX_PAGES \<Longrightarrow>
   (\<exists>acc. reindex_rows rep dt d rows (ss, ms) = Inr acc) \<longleftrightarrow>
     length ss + length rows < MAX_REINDEX_PAGES \<and> list_all (\<lambda>r. \<not> isl (page_map_entry rep dt d r)) rows"
proof (induction rows arbitrary: ss ms)
  case (Cons r rows)
  show ?case
  proof (cases "page_map_entry rep dt d r")
    case (Inl e)
    then show ?thesis by (simp add: page_map_entry_def Let_def)
  next
    case (Inr x)
    show ?thesis
    proof (cases "Suc (length ss) < MAX_REINDEX_PAGES")
      case True
      then show ?thesis
        using Cons.IH [of "ss @ [page_entry rep dt d r]" "ms @ located (Inr x)"] Inr
        by (auto simp: page_map_entry_def page_entry_def located_def Let_def split: option.splits)
    next
      case False
      then show ?thesis using Inr by (simp add: page_map_entry_def Let_def)
    qed
  qed
qed simp

lemma search_rebuild_distinct:
  assumes "distinct (map se_page_id (pb_search p @ es))"
  shows "fold search_put es p = p\<lparr>pb_search := pb_search p @ es\<rparr>"
  using assms by (induction es arbitrary: p) (auto simp: search_put_def)

lemma map_rebuild_distinct:
  assumes "distinct (map me_page_id (pb_map p @ es))"
  shows "fold map_put es p = p\<lparr>pb_map := pb_map p @ es\<rparr>"
  using assms by (induction es arbitrary: p) (auto simp: map_put_def)

lemma located_ids: "map me_page_id (located (page_map_entry rep dt d r)) = [pp_id r] \<or> located (page_map_entry rep dt d r) = []"
  by (auto simp: located_def page_map_entry_def dest: map_entry_id split: sum.splits option.splits)

lemma located_ids_distinct:
  "distinct (map pp_id rows) \<Longrightarrow>
     distinct (map me_page_id (concat (map (\<lambda>r. located (page_map_entry rep dt d r)) rows)))
     \<and> me_page_id ` set (concat (map (\<lambda>r. located (page_map_entry rep dt d r)) rows)) \<subseteq> pp_id ` set rows"
proof (induction rows)
  case (Cons r rows)
  then show ?case using located_ids [of rep dt d r] by (auto simp del: set_concat)
qed simp

lemma published_pages_set: "set (published_pages p) = {r \<in> set (pb_pages p). pp_status r = PUBLISHED}"
  by (simp add: published_pages_def set_editorial_order)

definition rebuilt ::
  "(json \<Rightarrow> string) \<Rightarrow> (string \<Rightarrow> cdate option) \<Rightarrow> db \<Rightarrow> publication_db \<Rightarrow> publication_db" where
  "rebuilt rep dt d p =
     p\<lparr>pb_search := map (page_entry rep dt d) (published_pages p),
       pb_map := concat (map (\<lambda>r. located (page_map_entry rep dt d r)) (published_pages p))\<rparr>"

text \<open>A rebuild stores every entry or fails on a number that does not fit its column.\<close>

lemma search_rebuild_all:
  "search_rebuild_all_from es p =
     (if list_all (\<lambda>e. int4_ok (se_fatalities_total e)) es then Inr (fold search_put es (p\<lparr>pb_search := []\<rparr>))
      else Inl Integer_Out_Of_Range)"
proof -
  have "rfold search_upsert es q = (if list_all (\<lambda>e. int4_ok (se_fatalities_total e)) es then Inr (fold search_put es q)
      else Inl Integer_Out_Of_Range)" for q
    by (induction es arbitrary: q) (simp_all add: search_upsert_def)
  then show ?thesis by (simp add: search_rebuild_all_from_def)
qed

lemma map_rebuild_all:
  "map_rebuild_all_from es p =
     (if list_all (\<lambda>e. int4_ok (me_fatalities_total e)) es then Inr (fold map_put es (p\<lparr>pb_map := []\<rparr>))
      else Inl Integer_Out_Of_Range)"
proof -
  have "rfold map_upsert es q = (if list_all (\<lambda>e. int4_ok (me_fatalities_total e)) es then Inr (fold map_put es q)
      else Inl Integer_Out_Of_Range)" for q
    by (induction es arbitrary: q) (simp_all add: map_upsert_def)
  then show ?thesis by (simp add: map_rebuild_all_from_def)
qed

definition countable_page :: "(json \<Rightarrow> string) \<Rightarrow> (string \<Rightarrow> cdate option) \<Rightarrow> db \<Rightarrow> public_event_page \<Rightarrow> bool" where
  "countable_page rep dt d r \<longleftrightarrow> int4_ok (se_fatalities_total (page_entry rep dt d r))"

lemma located_count:
  "e \<in> set (located (page_map_entry rep dt d r)) \<Longrightarrow> me_fatalities_total e = se_fatalities_total (page_entry rep dt d r)"
  by (auto simp: located_def page_map_entry_def page_entry_def entry_from_def Let_def map_entry_count
      split: sum.splits option.splits)

lemma rebuild_all:
  assumes "pages_inv p"
  shows "rbind (search_rebuild_all_from (map (page_entry rep dt d) (published_pages p)) p)
      (map_rebuild_all_from (concat (map (\<lambda>r. located (page_map_entry rep dt d r)) (published_pages p))))
    = (if list_all (countable_page rep dt d) (published_pages p) then Inr (rebuilt rep dt d p) else Inl Integer_Out_Of_Range)"
proof (cases "list_all (countable_page rep dt d) (published_pages p)")
  case True
  note dist = published_pages_distinct [OF assms]
  have "map se_page_id (map (page_entry rep dt d) (published_pages p)) = map pp_id (published_pages p)"
    by (simp add: page_entry_def)
  then have "search_rebuild_all_from (map (page_entry rep dt d) (published_pages p)) p =
      Inr (p\<lparr>pb_search := map (page_entry rep dt d) (published_pages p)\<rparr>)"
    unfolding search_rebuild_all using dist True
    by (subst search_rebuild_distinct) (simp_all add: list_all_iff countable_page_def del: map_map)
  moreover have "list_all (\<lambda>e. int4_ok (me_fatalities_total e))
      (concat (map (\<lambda>r. located (page_map_entry rep dt d r)) (published_pages p)))"
    using True located_count by (fastforce simp: list_all_iff countable_page_def)
  ultimately show ?thesis
    using located_ids_distinct [OF dist, of rep dt d] True
    by (simp add: map_rebuild_all map_rebuild_distinct rebuilt_def)
next
  case False
  then have "\<not> list_all (\<lambda>e. int4_ok (se_fatalities_total e)) (map (page_entry rep dt d) (published_pages p))"
    by (simp add: list_all_iff countable_page_def)
  then have "search_rebuild_all_from (map (page_entry rep dt d) (published_pages p)) p = Inl Integer_Out_Of_Range"
    unfolding search_rebuild_all by (simp only: if_False)
  then show ?thesis using False by simp
qed

lemma reindex_pass:
  assumes "pages_inv p"
  shows "reindex_public_events rep dt d p = Some (rbind (reindex_rows rep dt d (published_pages p) ([], []))
    (\<lambda>(ss, ms). rbind (rbind (search_rebuild_all_from ss p) (map_rebuild_all_from ms)) (\<lambda>q. Inr ((length ss, length ms), q))))"
proof -
  have "length (editorial_order {PUBLISHED} p) < Suc (length (pb_pages p))"
    using length_filter_le [of "\<lambda>r. pp_status r \<in> {PUBLISHED}" "pb_pages p"]
    unfolding editorial_order_def length_rev length_sort by linarith
  moreover have "rbind (rbind a f) (\<lambda>q. Inr (x, q)) = rbind a (\<lambda>p1. rbind (f p1) (\<lambda>q. Inr (x, q)))"
    for a :: "publication_error + publication_db" and f :: "publication_db \<Rightarrow> publication_error + publication_db"
      and x :: "nat \<times> nat" by (cases a) simp_all
  ultimately show ?thesis
    using reindex_loop_pass [OF assms, of 0 "Suc (length (pb_pages p))" rep dt d "([], [])"]
    by (simp add: reindex_public_events_def published_pages_def)
qed

lemma reindex_result:
  assumes "pages_inv p"
  shows "reindex_public_events rep dt d p = Some (rbind (reindex_rows rep dt d (published_pages p) ([], []))
    (\<lambda>(ss, ms). if list_all (countable_page rep dt d) (published_pages p)
       then Inr ((length ss, length ms), rebuilt rep dt d p) else Inl Integer_Out_Of_Range))"
proof (cases "reindex_rows rep dt d (published_pages p) ([], [])")
  case (Inr acc)
  note acc = reindex_rows_result [OF this]
  show ?thesis unfolding reindex_pass [OF assms] using Inr acc rebuild_all [OF assms, of rep dt d] by simp
qed (simp add: reindex_pass [OF assms])

lemma reindex_ok:
  assumes "pages_inv p" and "reindex_public_events rep dt d p = Some (Inr (nm, p'))"
  shows "p' = rebuilt rep dt d p \<and> nm = (length (pb_search p'), length (pb_map p'))"
proof -
  obtain ss ms where r: "reindex_rows rep dt d (published_pages p) ([], []) = Inr (ss, ms)"
    and x: "nm = (length ss, length ms)" "p' = rebuilt rep dt d p"
    using assms(2) unfolding reindex_result [OF assms(1)] by (auto split: if_splits)
  from reindex_rows_result [OF r] have "ss = map (page_entry rep dt d) (published_pages p)"
    "ms = concat (map (\<lambda>r. located (page_map_entry rep dt d r)) (published_pages p))" by simp_all
  then show ?thesis using x by (simp add: rebuilt_def)
qed

lemma reindex_inv:
  assumes "reindex_public_events rep dt d p = Some (Inr (nm, p'))" and "publication_inv p"
  shows "publication_inv p'"
proof -
  have inv: "pages_inv p" using assms(2) by (simp add: publication_inv_def)
  have p': "p' = rebuilt rep dt d p" using reindex_ok [OF inv assms(1)] by simp
  note dist = published_pages_distinct [OF inv]
  have "map se_page_id (pb_search p') = map pp_id (published_pages p)" by (simp add: p' rebuilt_def page_entry_def)
  moreover have "se_page_id ` set (pb_search p') = published_ids p"
    using calculation by (metis list.set_map published_pages_ids)
  moreover have "distinct (map me_page_id (pb_map p')) \<and> me_page_id ` set (pb_map p') \<subseteq> published_ids p"
    using located_ids_distinct [OF dist, of rep dt d] unfolding published_pages_ids by (simp add: p' rebuilt_def)
  moreover have "published_ids p' = published_ids p" by (rule published_ids_cong) (simp add: p' rebuilt_def)
  ultimately have "indexed (published_ids p') p'" using dist by (simp add: indexed_def)
  moreover have "pages_inv p'" using inv by (simp add: p' rebuilt_def pages_inv_def page_history_def)
  ultimately show ?thesis by (simp add: publication_inv_def)
qed

definition empty_publication :: publication_db where
  "empty_publication = \<lparr>pb_pages = [], pb_revisions = [], pb_search = [], pb_map = [], pb_next = 0\<rparr>"

lemma editorial_step_inv: "editorial_step p q \<Longrightarrow> publication_inv p \<Longrightarrow> publication_inv q"
  by (erule editorial_stepE) (blast intro: create_page_inv update_page_inv transition_page_inv reindex_inv)+

interpretation editorial_system: invariant_system "\<lambda>p. p = empty_publication" editorial_step publication_inv
proof
  show "publication_inv s" if "s = empty_publication" for s
    using that by (simp add: empty_publication_def publication_inv_def pages_inv_def ids_below_def indexed_def published_ids_def)
qed (rule editorial_step_inv)

text \<open>A step keeps every page or moves it to a later version; a retracted page is kept.\<close>

definition pages_fenced :: "publication_db \<Rightarrow> publication_db \<Rightarrow> bool" where
  "pages_fenced p q \<longleftrightarrow> (\<forall>i r. pages_get i p = Some r \<longrightarrow>
     (\<exists>r'. pages_get i q = Some r' \<and> (r' = r \<or> pp_version r < pp_version r' \<and> pp_status r \<noteq> RETRACTED)))"

lemma pages_fenced_refl: "pages_fenced p p"
  by (simp add: pages_fenced_def)

lemma pages_fenced_trans:
  assumes "pages_fenced p q" and "pages_fenced q r"
  shows "pages_fenced p r"
  unfolding pages_fenced_def
proof (intro allI impI)
  fix i x
  assume "pages_get i p = Some x"
  then obtain y where y: "pages_get i q = Some y" "y = x \<or> pp_version x < pp_version y \<and> pp_status x \<noteq> RETRACTED"
    using assms(1) unfolding pages_fenced_def by blast
  then obtain z where "pages_get i r = Some z" "z = y \<or> pp_version y < pp_version z \<and> pp_status y \<noteq> RETRACTED"
    using assms(2) unfolding pages_fenced_def by blast
  with y show "\<exists>r'. pages_get i r = Some r' \<and> (r' = x \<or> pp_version x < pp_version r' \<and> pp_status x \<noteq> RETRACTED)"
    by auto
qed

lemma find_append_Some: "find P xs = Some x \<Longrightarrow> find P (xs @ ys) = Some x"
  by (induction xs) (auto split: if_splits)

lemma pages_fenced_append: "pb_pages q = pb_pages p @ rows \<Longrightarrow> pages_fenced p q"
  by (auto simp: pages_fenced_def pages_get_def row_get_def intro: find_append_Some)

lemma pages_fenced_replace:
  assumes "pages_inv p" and "pages_get (pp_id new) p = Some row" and "pp_version new = Suc (pp_version row)"
    and "pp_status row \<noteq> RETRACTED" and "pb_pages q = pb_pages (replace_page new p)"
  shows "pages_fenced p q"
  unfolding pages_fenced_def
proof (intro allI impI)
  fix i r
  assume g: "pages_get i p = Some r"
  have ids: "ids_below pp_id (pb_pages p) (pb_next p)" using assms(1) by (simp add: pages_inv_def)
  have m: "map pp_id (pb_pages q) = map pp_id (pb_pages p)" by (simp add: assms(5))
  then have "pp_id ` set (pb_pages q) = pp_id ` set (pb_pages p)" by (metis list.set_map)
  moreover have "\<forall>k \<in> pp_id ` set (pb_pages p). k < pb_next p" using ids by (simp add: ids_below_def)
  ultimately have "\<forall>r \<in> set (pb_pages q). pp_id r < pb_next p" by (metis imageI)
  then have "ids_below pp_id (pb_pages q) (pb_next p)"
    using ids_below_distinct [OF ids] unfolding ids_below_def m by blast
  note get_q = pages_get_iff [OF this]
  show "\<exists>r'. pages_get i q = Some r' \<and> (r' = r \<or> pp_version r < pp_version r' \<and> pp_status r \<noteq> RETRACTED)"
  proof (cases "i = pp_id new")
    case True
    then have "row = r" using g assms(2) by simp
    moreover have "pages_get i q = Some new"
      using pages_get_in [OF assms(2)] True unfolding get_q by (force simp: assms(5))
    ultimately show ?thesis using assms(3,4) by auto
  next
    case False
    then have "pages_get i q = Some r" using pages_get_in [OF g] unfolding get_q by (force simp: assms(5))
    then show ?thesis by blast
  qed
qed

lemma editorial_step_fenced:
  assumes "editorial_step p q" and "publication_inv p"
  shows "pages_fenced p q"
proof -
  have inv: "pages_inv p" using assms(2) by (simp add: publication_inv_def)
  have dist: "distinct (map pp_id (pb_pages p))" using inv by (simp add: pages_inv_def ids_below_def)
  from assms(1) show ?thesis
  proof (cases rule: editorial_step.cases)
    case (create now inp d pg)
    then have "\<exists>rows. pb_pages q = pb_pages p @ rows"
      by (auto simp: create_page_def pages_add_def Let_def split: if_splits)
    then show ?thesis using pages_fenced_append by blast
  next
    case (edit now inp pg)
    from edit show ?thesis
    proof (rule update_page_steps)
      fix page p1 t
      assume get: "pages_get (ui_page_id inp) p = Some page" and st: "pp_status page = DRAFT"
        and pg: "pp_id pg = pp_id page" "pp_event_id pg = pp_event_id page" "pp_created_at pg = pp_created_at page"
          "pp_version pg = Suc (pp_version page)"
        and up: "pages_update pg (ui_expected_version inp) p = Inr p1"
        and q: "q = write_revision now pg (Some (pp_status page)) (ui_editor_user_id inp) t (ui_correction_note inp) p1"
      have get': "pages_get (pp_id pg) p = Some page" using get pages_get_in [OF get] pg(1) by simp
      have "p1 = replace_page pg p" using pages_update_Inr [OF up get' dist pg(2,3)] by simp
      then show ?thesis using pages_fenced_replace [OF inv get' pg(4)] st by (simp add: q)
    qed
  next
    case (move rep dt now a inp d pg)
    from move show ?thesis
    proof (rule transition_page_steps)
      fix page p1
      assume get: "pages_get (ti_page_id inp) p = Some page" and al: "is_allowed (pp_status page) (target_status a)"
        and pg: "pg = apply_status_mutation a now inp page" and up: "pages_update pg (ti_expected_version inp) p = Inr p1"
        and hook: "post_transition_hook rep dt a pg d (write_revision now pg (Some (pp_status page)) (ti_editor_user_id inp)
            (ti_transition_reason inp) (if a = Retract then ti_retraction_note inp else None) p1) = Inr q"
      have get': "pages_get (pp_id pg) p = Some page" using get pages_get_in [OF get] by (simp add: pg)
      have "p1 = replace_page pg p" using pages_update_Inr [OF up get' dist] by (simp add: pg)
      moreover have "pp_status page \<noteq> RETRACTED" using al by (auto simp: is_allowed_def)
      ultimately show ?thesis using pages_fenced_replace [OF inv get'] hook_frame [OF hook] by (simp add: pg)
    qed
  next
    case (reindex rep dt d nm)
    then have "q = rebuilt rep dt d p" using reindex_ok [OF inv] by simp
    then show ?thesis using pages_fenced_append [of q p "[]"] by (simp add: rebuilt_def)
  qed
qed

lemma editorial_steps_fenced: "editorial_step\<^sup>*\<^sup>* p q \<Longrightarrow> publication_inv p \<Longrightarrow> pages_fenced p q"
proof (induction rule: rtranclp_induct)
  case base
  then show ?case by (simp add: pages_fenced_refl)
next
  case (step y z)
  then show ?case using editorial_step_fenced editorial_system.steps_inv pages_fenced_trans by blast
qed

text \<open>A page can only have been loaded before the others' commits if its version did not move.\<close>

lemma pages_fenced_row:
  assumes "pages_fenced p q" and "pages_get i p = Some page" and "pages_get i q = Some row" and "pp_version row \<le> pp_version page"
  shows "row = page"
  using assms unfolding pages_fenced_def by fastforce

lemma pages_update_version: "pages_update new v q = Inr q' \<Longrightarrow> \<exists>row. pages_get (pp_id new) q = Some row \<and> pp_version row = v"
  by (auto simp: pages_update_def split: option.splits if_splits)

lemma transition_serial:
  assumes "pages_fenced p q" and "transition_page rep dt (\<lambda>_. q) now a inp d p = Inr (pg, p')"
    and "\<And>page. pages_get (ti_page_id inp) p = Some page \<Longrightarrow> ti_expected_version inp \<le> pp_version page"
  shows "transition_page rep dt (\<lambda>x. x) now a inp d q = Inr (pg, p')"
  using assms(2)
proof (rule transition_page_steps)
  fix page p1
  assume get: "pages_get (ti_page_id inp) p = Some page" and al: "is_allowed (pp_status page) (target_status a)"
    and pg: "pg = apply_status_mutation a now inp page" and up: "pages_update pg (ti_expected_version inp) q = Inr p1"
    and hook: "post_transition_hook rep dt a pg d (write_revision now pg (Some (pp_status page)) (ti_editor_user_id inp)
        (ti_transition_reason inp) (if a = Retract then ti_retraction_note inp else None) p1) = Inr p'"
  have "pp_id pg = ti_page_id inp" using pages_get_in [OF get] by (simp add: pg)
  then obtain row where row: "pages_get (ti_page_id inp) q = Some row" "pp_version row = ti_expected_version inp"
    using pages_update_version [OF up] by auto
  have "row = page" using pages_fenced_row [OF assms(1) get row(1)] assms(3) [OF get] row(2) by simp
  then show ?thesis
    using row(1) al up hook by (simp add: transition_page_def Let_def load_page_def validate_transition_def pg)
qed

lemma update_serial:
  assumes "pages_fenced p q" and "update_page (\<lambda>_. q) now inp p = Inr (pg, p')"
    and "\<And>page. pages_get (ui_page_id inp) p = Some page \<Longrightarrow> ui_expected_version inp \<le> pp_version page"
  shows "update_page (\<lambda>x. x) now inp q = Inr (pg, p')"
proof -
  obtain page p1 where get: "pages_get (ui_page_id inp) p = Some page" and "pp_id pg = pp_id page"
    and up: "pages_update pg (ui_expected_version inp) q = Inr p1"
    using assms(2) by (rule update_page_steps)
  then obtain row where row: "pages_get (ui_page_id inp) q = Some row" "pp_version row = ui_expected_version inp"
    using pages_update_version [OF up] pages_get_in [OF get] by auto
  have "row = page" using pages_fenced_row [OF assms(1) get row(1)] assms(3) [OF get] row(2) by simp
  then have "load_page (ui_page_id inp) q = load_page (ui_page_id inp) p" using get row(1) by (simp add: load_page_def)
  then show ?thesis using assms(2) by (simp add: update_page_def)
qed

text \<open>
  Runs in which transitions and edits overlap with anything: the states committed so far, the last one first.  A
  request may have read any earlier state, before all that was committed since; it names a version no later
  than the one it read.
\<close>

inductive editorial_run :: "publication_db list \<Rightarrow> bool" where
  start: "editorial_run [empty_publication]"
| alone: "editorial_run (q # hs) \<Longrightarrow> editorial_step q q' \<Longrightarrow> editorial_run (q' # q # hs)"
| late_move: "editorial_run (q # hs) \<Longrightarrow> p \<in> set (q # hs) \<Longrightarrow>
    (\<And>page. pages_get (ti_page_id tinp) p = Some page \<Longrightarrow> ti_expected_version tinp \<le> pp_version page) \<Longrightarrow>
    transition_page rep dt (\<lambda>_. q) now a tinp d p = Inr (pg, q') \<Longrightarrow> editorial_run (q' # q # hs)"
| late_edit: "editorial_run (q # hs) \<Longrightarrow> p \<in> set (q # hs) \<Longrightarrow>
    (\<And>page. pages_get (ui_page_id uinp) p = Some page \<Longrightarrow> ui_expected_version uinp \<le> pp_version page) \<Longrightarrow>
    update_page (\<lambda>_. q) now uinp p = Inr (pg, q') \<Longrightarrow> editorial_run (q' # q # hs)"

text \<open>Every such run is a history of use cases that run one after the other.\<close>

lemma editorial_run_serial:
  "editorial_run hs \<Longrightarrow> \<exists>q ks. hs = q # ks \<and> (\<forall>p \<in> set hs. editorial_step\<^sup>*\<^sup>* empty_publication p \<and> editorial_step\<^sup>*\<^sup>* p q)"
proof (induction rule: editorial_run.induct)
  case start
  then show ?case by simp
next
  case (alone q hs q')
  then show ?case by (auto intro: rtranclp.rtrancl_into_rtrancl)
next
  case (late_move q hs p tinp rep dt now a d pg q')
  then have p: "editorial_step\<^sup>*\<^sup>* empty_publication p" "editorial_step\<^sup>*\<^sup>* p q" by auto
  have "publication_inv p" using editorial_system.reachable_inv [OF refl p(1)] .
  from transition_serial [OF editorial_steps_fenced [OF p(2) this] late_move.hyps(4,3)]
  have "editorial_step q q'" by (rule editorial_step.move)
  then show ?case using late_move.IH by (auto intro: rtranclp.rtrancl_into_rtrancl)
next
  case (late_edit q hs p uinp now pg q')
  then have p: "editorial_step\<^sup>*\<^sup>* empty_publication p" "editorial_step\<^sup>*\<^sup>* p q" by auto
  have "publication_inv p" using editorial_system.reachable_inv [OF refl p(1)] .
  from update_serial [OF editorial_steps_fenced [OF p(2) this] late_edit.hyps(4,3)]
  have "editorial_step q q'" by (rule editorial_step.edit)
  then show ?case using late_edit.IH by (auto intro: rtranclp.rtrancl_into_rtrancl)
qed

lemma editorial_run_steps:
  "editorial_step\<^sup>*\<^sup>* p q \<Longrightarrow> editorial_run (p # hs) \<Longrightarrow> \<exists>ks. editorial_run (q # ks)"
  by (induction rule: rtranclp_induct) (auto intro: editorial_run.alone)





section \<open>A sample history\<close>

definition desk_core :: db where
  "desk_core = empty_db\<lparr>db_events := 
     [\<lparr>ev_id = 7, ev_created_at = 0, ev_merged_into_event_id = None\<rparr>,
      \<lparr>ev_id = 8, ev_created_at = 0, ev_merged_into_event_id = None\<rparr>]\<rparr>"

definition desk_new :: "uuid \<Rightarrow> string \<Rightarrow> publication_db \<Rightarrow> publication_db" where
  "desk_new event slug p = (case create_page 10 \<lparr>ci_event_id = event, ci_slug = slug, ci_title = ''Flight'',
      ci_short_summary = None, ci_narrative_markdown = None, ci_editor_user_id = 3\<rparr> desk_core p
    of Inr (_, q) \<Rightarrow> q | Inl _ \<Rightarrow> p)"

definition desk_created :: publication_db where
  "desk_created = desk_new 7 ''Flight 447'' empty_publication"

definition desk_request :: "nat \<Rightarrow> transition_input" where
  "desk_request v = \<lparr>ti_page_id = 0, ti_expected_version = v, ti_editor_user_id = 3,
     ti_transition_reason = None, ti_retraction_note = None\<rparr>"

definition desk_move ::
  "editorial_action \<Rightarrow> nat \<Rightarrow> publication_db \<Rightarrow> publication_error + (public_event_page \<times> publication_db)" where
  "desk_move a v p = transition_page (\<lambda>_. []) (\<lambda>_. None) (\<lambda>x. x) (10 + v) a (desk_request v) desk_core p"

definition desk_next :: "editorial_action \<Rightarrow> nat \<Rightarrow> publication_db \<Rightarrow> publication_db" where
  "desk_next a v p = (case desk_move a v p of Inr (_, q) \<Rightarrow> q | Inl _ \<Rightarrow> p)"

definition desk_published :: publication_db where
  "desk_published = desk_next Publish 3 (desk_next Approve 2 (desk_next Submit 1 desk_created))"

definition desk_busy :: publication_db where
  "desk_busy = desk_new 8 ''Flight 101'' desk_published"

definition desk_retracted :: publication_db where
  "desk_retracted = desk_next Retract 4 desk_published"

lemma desk_next_steps: "editorial_step\<^sup>*\<^sup>* p (desk_next a v p)"
  unfolding desk_next_def
  by (auto simp: desk_move_def split: sum.splits intro: editorial_step.move)

lemma desk_new_steps: "editorial_step\<^sup>*\<^sup>* p (desk_new event slug p)"
  unfolding desk_new_def by (auto split: sum.splits intro: editorial_step.create)

lemma desk_created_steps: "editorial_step\<^sup>*\<^sup>* empty_publication desk_created"
  unfolding desk_created_def by (rule desk_new_steps)

lemma desk_published_steps: "editorial_step\<^sup>*\<^sup>* desk_created desk_published"
  unfolding desk_published_def by (meson desk_next_steps rtranclp_trans)

lemma desk_published_reachable: "editorial_step\<^sup>*\<^sup>* empty_publication desk_published"
  by (rule rtranclp_trans [OF desk_created_steps desk_published_steps])

lemma desk_retracted_steps: "editorial_step\<^sup>*\<^sup>* desk_published desk_retracted"
  unfolding desk_retracted_def by (rule desk_next_steps)

lemma desk_published_inv: "publication_inv desk_published"
  by (rule editorial_system.reachable_inv [OF refl desk_published_reachable])

lemma desk_published_page:
  "map (\<lambda>r. (pp_id r, pp_slug r, pp_status r, pp_version r)) (pb_pages desk_published) = [(0, ''flight-447'', PUBLISHED, 4)]"
  by code_simp

lemma desk_retracted_page:
  "map (\<lambda>r. (pp_id r, pp_status r, pp_version r)) (pb_pages desk_retracted) = [(0, RETRACTED, 5)]"
  by code_simp

section \<open>Properties\<close>

text \<open>C25: In every reachable state pages have distinct ids, slugs and events, canonical slugs and the
  timestamps their status needs; the revisions of a page number its versions without a gap, follow the
  state machine and end with the stored content and status; the search index holds exactly the published
  pages, once each, and the map index only published pages.\<close>

theorem publication_consistent:
  assumes "editorial_step\<^sup>*\<^sup>* empty_publication p"
  shows "publication_inv p"
  by (rule editorial_system.reachable_inv [OF refl assms])

theorem publication_consistent_witness:
  "map pp_status (pb_pages desk_published) = [PUBLISHED] \<and> publication_inv desk_published"
  using publication_consistent [OF desk_published_reachable] by (intro conjI) (code_simp, assumption)

text \<open>C27: A retracted page is final: in every run in which transitions and edits overlap with each other and with
  the other use cases (a request in flight may have read the page before it was retracted), as long as
  each names a version no later than the one it read and the rebuild of the indices runs alone, the
  page stays exactly as it was retracted, is in neither index, and every transition or edit of it that begins
  later is refused as an invalid transition, whatever others commit meanwhile.\<close>

theorem retracted_final:
  assumes "editorial_run (q # hs)" and "p \<in> set (q # hs)"
    and "r \<in> set (pb_pages p)" and "pp_status r = RETRACTED"
    and "ti_page_id tinp = pp_id r" and "ui_page_id uinp = pp_id r"
  shows "r \<in> set (pb_pages q)
    \<and> pp_id r \<notin> se_page_id ` set (pb_search q) \<and> pp_id r \<notin> me_page_id ` set (pb_map q)
    \<and> transition_page rep dt conc now a tinp d q = Inl (InvalidPublicationTransitionError RETRACTED (target_status a))
    \<and> update_page conc now uinp q = Inl (InvalidPublicationTransitionError RETRACTED DRAFT)"
proof -
  have steps: "editorial_step\<^sup>*\<^sup>* empty_publication p" "editorial_step\<^sup>*\<^sup>* p q"
    using editorial_run_serial [OF assms(1)] assms(2) by auto
  have inv: "publication_inv p" "publication_inv q"
    using steps editorial_system.reachable_inv editorial_system.steps_inv by blast+
  have "pages_get (pp_id r) p = Some r"
    using inv(1) assms(3) pages_get_iff by (auto simp: publication_inv_def pages_inv_def)
  then have get: "pages_get (pp_id r) q = Some r"
    using editorial_steps_fenced [OF steps(2) inv(1)] assms(4) unfolding pages_fenced_def by blast
  have r: "r \<in> set (pb_pages q)" using pages_get_in [OF get] by simp
  have "distinct (map pp_id (pb_pages q))" using inv(2) by (simp add: publication_inv_def pages_inv_def ids_below_def)
  then have u: "x = r" if "x \<in> set (pb_pages q)" "pp_id x = pp_id r" for x
    using that r by (metis distinct_map inj_onD)
  have "pp_id r \<notin> published_ids q"
  proof
    assume "pp_id r \<in> published_ids q"
    then obtain x where "x \<in> set (pb_pages q)" "pp_status x = PUBLISHED" "pp_id x = pp_id r"
      unfolding published_ids_def by auto
    then show False using u assms(4) by force
  qed
  then show ?thesis
    using get r inv(2) assms(4-6)
    by (auto simp: publication_inv_def indexed_def transition_page_def update_page_def load_page_def
        validate_transition_def is_allowed_def)
qed

theorem retracted_final_witness:
  "desk_move Archive 5 desk_retracted = Inl (InvalidPublicationTransitionError RETRACTED ARCHIVED)"
proof -
  obtain r where r: "pb_pages desk_retracted = [r]" "pp_id r = 0" "pp_status r = RETRACTED"
    using desk_retracted_page by (auto simp: map_eq_Cons_conv)
  have "editorial_step\<^sup>*\<^sup>* empty_publication desk_retracted"
    by (rule rtranclp_trans [OF desk_published_reachable desk_retracted_steps])
  then obtain ks where "editorial_run (desk_retracted # ks)" using editorial_run_steps editorial_run.start by blast
  from retracted_final [OF this, of desk_retracted r "desk_request 5" "\<lparr>ui_page_id = 0, ui_expected_version = 5,
      ui_editor_user_id = 3, ui_title = None, ui_short_summary = None, ui_narrative_markdown = None, ui_slug = None,
      ui_correction_note = None, ui_transition_reason = None\<rparr>" "\<lambda>_. []" "\<lambda>_. None" "\<lambda>x. x" 15 Archive desk_core]
  show ?thesis using r by (simp add: desk_move_def desk_request_def)
qed



text \<open>C26: A transition or an edit that read its page before other editors committed any history of use cases, and
  succeeds, has the same result and effect as one run alone after them, as long as the request names a version no
  later than the one it read; and the state it leaves is consistent.\<close>

theorem editorial_serializable:
  assumes "editorial_step\<^sup>*\<^sup>* empty_publication p" and "editorial_step\<^sup>*\<^sup>* p q"
    and "pages_get i p = Some page" and "ti_page_id tinp = i" and "ui_page_id uinp = i"
    and "ti_expected_version tinp \<le> pp_version page" and "ui_expected_version uinp \<le> pp_version page"
  shows "(transition_page rep dt (\<lambda>_. q) now a tinp d p = Inr (pg, p') \<longrightarrow>
       transition_page rep dt (\<lambda>x. x) now a tinp d q = Inr (pg, p') \<and> publication_inv p')
    \<and> (update_page (\<lambda>_. q) now uinp p = Inr (pg, p') \<longrightarrow>
       update_page (\<lambda>x. x) now uinp q = Inr (pg, p') \<and> publication_inv p')"
proof -
  have inv: "publication_inv p" "publication_inv q"
    using assms(1,2) editorial_system.reachable_inv editorial_system.steps_inv by blast+
  note f = editorial_steps_fenced [OF assms(2) inv(1)]
  show ?thesis
    using transition_serial [OF f, of rep dt now a tinp d pg p'] update_serial [OF f, of now uinp pg p']
      transition_page_inv [OF _ inv(2)] update_page_inv [OF _ inv(2)] assms(3-7)
    by auto
qed

theorem editorial_serializable_witness:
  "map pp_slug (pb_pages desk_busy) = [''flight-447'', ''flight-101'']
   \<and> (\<exists>pg p'. transition_page (\<lambda>_. []) (\<lambda>_. None) (\<lambda>_. desk_busy) 14 Archive (desk_request 4) desk_core desk_published = Inr (pg, p')
     \<and> desk_move Archive 4 desk_busy = Inr (pg, p'))"
proof (intro conjI)
  let ?t = "transition_page (\<lambda>_. []) (\<lambda>_. None) (\<lambda>_. desk_busy) 14 Archive (desk_request 4) desk_core desk_published"
  have "\<not> isl ?t" by code_simp
  then obtain pg p' where t: "?t = Inr (pg, p')" by (cases ?t) auto
  obtain page where page: "pages_get 0 desk_published = Some page" "pp_version page = 4"
    using desk_published_page by (auto simp: map_eq_Cons_conv pages_get_def row_get_def)
  have s: "editorial_step\<^sup>*\<^sup>* desk_published desk_busy" unfolding desk_busy_def by (rule desk_new_steps)
  from editorial_serializable [OF desk_published_reachable s page(1), of "desk_request 4" "\<lparr>ui_page_id = 0, ui_expected_version = 4,
      ui_editor_user_id = 3, ui_title = None, ui_short_summary = None, ui_narrative_markdown = None, ui_slug = None,
      ui_correction_note = None, ui_transition_reason = None\<rparr>" "\<lambda>_. []" "\<lambda>_. None" 14 Archive desk_core pg p']
  have "desk_move Archive 4 desk_busy = Inr (pg, p')"
    using t page(2) by (simp add: desk_move_def desk_request_def)
  then show "\<exists>pg p'. ?t = Inr (pg, p') \<and> desk_move Archive 4 desk_busy = Inr (pg, p')" using t by blast
  show "map pp_slug (pb_pages desk_busy) = [''flight-447'', ''flight-101'']" by code_simp
qed

text \<open>C29: Rebuilding the indices always ends.  Apart from the width of text columns, it fails exactly on 50,000
  or more published pages, on a coordinate that is an integer too large for a float (one that is no number is
  skipped), or on a number of fatalities that does not fit the 32 bits of its column; otherwise
  the batches leave in the search index one entry for each published page, computed from
  the current projection, and in the map index those with coordinates in range, and change nothing else.\<close>

theorem reindex_exact:
  assumes "editorial_step\<^sup>*\<^sup>* empty_publication p"
  shows "\<exists>result. reindex_public_events rep dt d p = Some result
    \<and> (isl result \<longleftrightarrow> MAX_REINDEX_PAGES \<le> length (published_pages p)
         \<or> list_ex (\<lambda>r. page_map_entry rep dt d r = Inl Float_Overflow) (published_pages p)
         \<or> list_ex (\<lambda>r. \<not> int4_ok (se_fatalities_total (page_entry rep dt d r))) (published_pages p))
    \<and> (\<forall>n p'. result = Inr (n, p') \<longrightarrow>
         p' = p\<lparr>pb_search := map (page_entry rep dt d) (published_pages p),
                pb_map := concat (map (\<lambda>r. located (page_map_entry rep dt d r)) (published_pages p))\<rparr>
         \<and> n = (length (published_pages p), length (pb_map p')))
    \<and> set (published_pages p) = {r \<in> set (pb_pages p). pp_status r = PUBLISHED} \<and> distinct (published_pages p)"
proof -
  have inv: "pages_inv p" using editorial_system.reachable_inv [OF refl assms] by (simp add: publication_inv_def)
  obtain result where r: "reindex_public_events rep dt d p = Some result" using reindex_pass [OF inv] by blast
  have "isl result \<longleftrightarrow> \<not> (\<exists>acc. reindex_rows rep dt d (published_pages p) ([], []) = Inr acc)
      \<or> \<not> list_all (countable_page rep dt d) (published_pages p)"
    using r unfolding reindex_result [OF inv]
    by (cases "reindex_rows rep dt d (published_pages p) ([], [])") (auto split: prod.splits if_splits)
  then have "isl result \<longleftrightarrow> MAX_REINDEX_PAGES \<le> length (published_pages p)
      \<or> list_ex (\<lambda>r. page_map_entry rep dt d r = Inl Float_Overflow) (published_pages p)
      \<or> list_ex (\<lambda>r. \<not> int4_ok (se_fatalities_total (page_entry rep dt d r))) (published_pages p)"
    using reindex_rows_ok [of "[]" rep dt d "published_pages p" "[]"]
    by (auto simp: MAX_REINDEX_PAGES_def list_all_iff list_ex_iff countable_page_def page_map_entry_overflow)
  moreover have "p' = rebuilt rep dt d p \<and> n = (length (pb_search p'), length (pb_map p'))" if "result = Inr (n, p')" for n p'
    using reindex_ok [OF inv, of rep dt d n p'] r that by simp
  moreover have "distinct (published_pages p)" using published_pages_distinct [OF inv] by (simp add: distinct_map)
  ultimately show ?thesis using r published_pages_set by (auto simp: rebuilt_def)
qed

theorem reindex_exact_witness:
  "\<exists>p'. reindex_public_events (\<lambda>_. []) (\<lambda>_. None) desk_core desk_published = Some (Inr ((1, 0), p'))"
proof -
  have l: "length (published_pages desk_published) = 1" by code_simp
  have m: "list_ex (\<lambda>r. page_map_entry (\<lambda>_. []) (\<lambda>_. None) desk_core r = Inl Float_Overflow) (published_pages desk_published) = False"
    "list_ex (\<lambda>r. \<not> int4_ok (se_fatalities_total (page_entry (\<lambda>_. []) (\<lambda>_. None) desk_core r))) (published_pages desk_published) = False"
    "concat (map (\<lambda>r. located (page_map_entry (\<lambda>_. []) (\<lambda>_. None) desk_core r)) (published_pages desk_published)) = []"
    by code_simp+
  obtain result where r: "reindex_public_events (\<lambda>_. []) (\<lambda>_. None) desk_core desk_published = Some result"
    and ok: "isl result \<longleftrightarrow> MAX_REINDEX_PAGES \<le> 1 \<or> False \<or> False"
    and n: "\<forall>n p'. result = Inr (n, p') \<longrightarrow>
      p' = desk_published\<lparr>pb_search := map (page_entry (\<lambda>_. []) (\<lambda>_. None) desk_core) (published_pages desk_published), pb_map := []\<rparr>
      \<and> n = (1, length (pb_map p'))"
    using reindex_exact [OF desk_published_reachable, of "\<lambda>_. []" "\<lambda>_. None" desk_core] unfolding l m by blast
  obtain n p' where "result = Inr (n, p')" using ok by (cases result) (auto simp: MAX_REINDEX_PAGES_def)
  then show ?thesis using r n by simp
qed

end
