(* ===== verification/Public_Pages.thy ===== *)
theory Public_Pages
  imports Publication_Invariants
begin

text \<open>
  The public read side of the encyclopedia, \<open>use_cases/public_events.py\<close>: the visibility gate, the paged list,
  the page with its projected fields, the evidence behind them, the timeline and the related pages.  The
  timeline and relationship tables (\<open>repositories/chronos.py\<close>, \<open>orion.py\<close>) are arguments of the reads.  Rows a
  set or an unordered query returns in no fixed order are taken in the order of the table.
\<close>

section \<open>Limits\<close>

definition MAX_PUBLIC_LIST_LIMIT :: int where
  "MAX_PUBLIC_LIST_LIMIT = 100"

definition PUBLIC_EVIDENCE_CLAIM_LIMIT :: nat where
  "PUBLIC_EVIDENCE_CLAIM_LIMIT = 200"

definition PUBLIC_EVIDENCE_SOURCE_LIMIT :: nat where
  "PUBLIC_EVIDENCE_SOURCE_LIMIT = 50"

definition PUBLIC_TIMELINE_LIMIT :: nat where
  "PUBLIC_TIMELINE_LIMIT = 200"

definition PUBLIC_RELATED_LIMIT :: nat where
  "PUBLIC_RELATED_LIMIT = 25"

definition PUBLIC_RELATED_CANDIDATE_LIMIT :: nat where
  "PUBLIC_RELATED_CANDIDATE_LIMIT = 200"

section \<open>The visibility gate\<close>

definition load_page_and_check_visibility ::
  "string \<Rightarrow> db \<Rightarrow> publication_db \<Rightarrow> publication_error + (public_event_page \<times> uuid)" where
  "load_page_and_check_visibility slug d p =
     (case get_by_slug slug p of
        None \<Rightarrow> Inl PublicEventPageNotFoundError
      | Some page \<Rightarrow>
          if pp_status page = DRAFT then Inl PublicEventPageNotPublishedError
          else if pp_status page = RETRACTED then Inl (PublicEventPageRetractedError slug (pp_retraction_note page))
          else (case public_canonical (pp_event_id page) d of
                  None \<Rightarrow> Inl PublicEventPageNotFoundError
                | Some canonical_id \<Rightarrow> Inr (page, canonical_id)))"

definition confidence_label :: "projected_accident_record option \<Rightarrow> string" where
  "confidence_label projection = (case projection of
       None \<Rightarrow> ''unknown''
     | Some r \<Rightarrow>
         let score = pr_completeness_score r
         in if fl (85 / 100) \<le> score then ''high'' else if 1 / 2 \<le> score then ''medium''
            else if 0 < score then ''low'' else ''unknown'')"

section \<open>The list\<close>

record public_event_list_item =
  pl_slug :: string
  pl_title :: string
  pl_short_summary :: "string option"
  pl_event_date :: "string option"
  pl_location :: "string option"
  pl_operator :: "string option"
  pl_aircraft_type :: "string option"
  pl_fatalities_total :: json
  pl_confidence :: string
  pl_has_unresolved_conflicts :: bool
  pl_last_published_at :: "time option"

text \<open>Unlike the helper of the search index, an empty text stays.\<close>

fun public_str_or_none :: "(json \<Rightarrow> string) \<Rightarrow> json \<Rightarrow> string option" where
  "public_str_or_none rep JNull = None"
| "public_str_or_none rep v = Some (py_str rep v)"

definition summary_from ::
  "(json \<Rightarrow> string) \<Rightarrow> public_event_page \<Rightarrow> projected_accident_record option \<Rightarrow> public_event_list_item" where
  "summary_from rep row projection =
     (let field = field_or_null projection
      in \<lparr>pl_slug = pp_slug row, pl_title = pp_title row, pl_short_summary = pp_short_summary row,
          pl_event_date = public_str_or_none rep (field ''event_date''),
          pl_location = public_str_or_none rep (field ''location''),
          pl_operator = public_str_or_none rep (field ''operator''),
          pl_aircraft_type = public_str_or_none rep (field ''aircraft_type''),
          pl_fatalities_total = field ''fatalities_total'',
          pl_confidence = confidence_label projection,
          pl_has_unresolved_conflicts =
            (case projection of None \<Rightarrow> False | Some r \<Rightarrow> pr_unresolved_conflict_fields r \<noteq> []),
          pl_last_published_at = pp_last_published_at row\<rparr>)"

definition list_public_events ::
  "(json \<Rightarrow> string) \<Rightarrow> int \<Rightarrow> uuid option \<Rightarrow> db \<Rightarrow> publication_db
     \<Rightarrow> public_event_list_item list \<times> uuid option \<times> int" where
  "list_public_events rep limit after_id d p =
     (let bounded_limit = max 1 (min limit MAX_PUBLIC_LIST_LIMIT);
          (rows, next_cursor) = list_published (nat bounded_limit) after_id p
      in (map (\<lambda>row. summary_from rep row
                (Option.bind (public_canonical (pp_event_id row) d) (\<lambda>c. projections_get c d))) rows,
          next_cursor, bounded_limit))"

section \<open>The page\<close>

record public_event_detail =
  pd_slug :: string
  pd_canonical_event_id :: uuid
  pd_title :: string
  pd_short_summary :: "string option"
  pd_narrative_markdown :: "string option"
  pd_fields :: "(string \<times> json) list"
  pd_completeness_score :: rat
  pd_confidence :: string
  pd_unresolved_conflict_fields :: "string list"
  pd_projection_version :: int
  pd_first_published_at :: "time option"
  pd_last_published_at :: "time option"
  pd_last_updated_at :: time

definition get_public_event_page :: "string \<Rightarrow> db \<Rightarrow> publication_db \<Rightarrow> publication_error + public_event_detail" where
  "get_public_event_page slug d p =
     rbind (load_page_and_check_visibility slug d p) (\<lambda>(page, canonical_id).
       case projections_get canonical_id d of
         None \<Rightarrow> Inl PublicEventPageNotFoundError
       | Some projection \<Rightarrow>
           Inr \<lparr>pd_slug = pp_slug page, pd_canonical_event_id = canonical_id, pd_title = pp_title page,
                pd_short_summary = pp_short_summary page, pd_narrative_markdown = pp_narrative_markdown page,
                pd_fields = fields_json (pr_fields projection),
                pd_completeness_score = pr_completeness_score projection,
                pd_confidence = confidence_label (Some projection),
                pd_unresolved_conflict_fields = pr_unresolved_conflict_fields projection,
                pd_projection_version = pr_projection_version projection,
                pd_first_published_at = pp_first_published_at page,
                pd_last_published_at = pp_last_published_at page,
                pd_last_updated_at = pr_updated_at projection\<rparr>)"

section \<open>Evidence\<close>

record public_evidence_claim =
  pe_field_name :: string
  pe_field_value :: json
  pe_claim_type :: claim_type
  pe_source_name :: string
  pe_source_kind :: source_kind
  pe_source_reliability_tier :: int
  pe_is_winning :: bool
  pe_is_superseded :: bool
  pe_created_at :: time

record public_evidence_source =
  ps_name :: string
  ps_kind :: source_kind
  ps_reliability_tier :: int

record public_evidence_response =
  er_slug :: string
  er_canonical_event_id :: uuid
  er_claims :: "public_evidence_claim list"
  er_sources :: "public_evidence_source list"
  er_claim_count :: nat
  er_truncated :: bool

definition winning_values_by_field :: "projected_accident_record option \<Rightarrow> (string \<times> json) list" where
  "winning_values_by_field projection = (case projection of
       None \<Rightarrow> []
     | Some r \<Rightarrow> filter (\<lambda>(k, v). k \<notin> set (pr_unresolved_conflict_fields r)) (fields_json (pr_fields r)))"

definition values_equal :: "(json \<Rightarrow> string) \<Rightarrow> json \<Rightarrow> json \<Rightarrow> bool" where
  "values_equal rep a b \<longleftrightarrow> py_eq a b \<or> py_str rep a = py_str rep b"

definition claim_to_public ::
  "(json \<Rightarrow> string) \<Rightarrow> claim \<Rightarrow> source option \<Rightarrow> (string \<times> json) list \<Rightarrow> public_evidence_claim" where
  "claim_to_public rep claim src winning_values =
     \<lparr>pe_field_name = cl_field_name claim, pe_field_value = cl_field_value claim,
      pe_claim_type = cl_claim_type claim,
      pe_source_name = (case src of Some s \<Rightarrow> src_name s | None \<Rightarrow> ''(unknown source)''),
      pe_source_kind = (case src of Some s \<Rightarrow> src_kind s | None \<Rightarrow> EXTERNAL),
      pe_source_reliability_tier = (case src of Some s \<Rightarrow> src_reliability_tier s | None \<Rightarrow> 99),
      pe_is_winning = (case map_of winning_values (cl_field_name claim) of
          Some v \<Rightarrow> values_equal rep v (cl_field_value claim) | None \<Rightarrow> False),
      pe_is_superseded = (cl_claim_type claim \<notin> set active_values),
      pe_created_at = cl_created_at claim\<rparr>"

definition source_to_public :: "source \<Rightarrow> public_evidence_source" where
  "source_to_public s = \<lparr>ps_name = src_name s, ps_kind = src_kind s, ps_reliability_tier = src_reliability_tier s\<rparr>"

definition get_public_event_evidence ::
  "(json \<Rightarrow> string) \<Rightarrow> string \<Rightarrow> db \<Rightarrow> publication_db \<Rightarrow> publication_error + public_evidence_response" where
  "get_public_event_evidence rep slug d p =
     rbind (load_page_and_check_visibility slug d p) (\<lambda>(page, canonical_id).
       let all_claims = sort_key (\<lambda>c. (cl_created_at c, cl_id c)) (find_active_by_event canonical_id d);
           truncated = PUBLIC_EVIDENCE_CLAIM_LIMIT < length all_claims;
           active_claims = (if truncated then take PUBLIC_EVIDENCE_CLAIM_LIMIT all_claims else all_claims);
           sources = sources_get_by_ids (dict_fromkeys (map cl_source_id active_claims)) d;
           source_by_id = map_of (map (\<lambda>s. (src_id s, s)) sources);
           winning_values = winning_values_by_field (projections_get canonical_id d);
           public_claims = map (\<lambda>c. claim_to_public rep c (source_by_id (cl_source_id c)) winning_values) active_claims;
           public_sources = take PUBLIC_EVIDENCE_SOURCE_LIMIT
             (sort_key (\<lambda>s. (ps_reliability_tier s, ps_name s)) (map source_to_public sources))
       in Inr \<lparr>er_slug = pp_slug page, er_canonical_event_id = canonical_id, er_claims = public_claims,
               er_sources = public_sources, er_claim_count = length public_claims, er_truncated = truncated\<rparr>)"

section \<open>Timeline\<close>

datatype timeline_event_type =
    SCHEDULED_DEPARTURE | ACTUAL_DEPARTURE | TAKEOFF | LAST_CONTACT | EMERGENCY_DECLARED | IMPACT | LANDING
  | RESCUE_STARTED | INVESTIGATION_OPENED | REPORT_PUBLISHED

datatype timestamp_precision = EXACT | MINUTE | HOUR | DAY | APPROXIMATE | RELATIVE | UNKNOWN

record timeline_event =
  te_id :: uuid
  te_accident_event_id :: uuid
  te_event_type :: timeline_event_type
  te_occurred_at :: "time option"
  te_timestamp_precision :: timestamp_precision
  te_sequence_index :: "int option"
  te_description :: "string option"

record public_timeline_event =
  pt_event_type :: timeline_event_type
  pt_occurred_at :: "time option"
  pt_timestamp_precision :: timestamp_precision
  pt_sequence_index :: "int option"
  pt_description :: "string option"

definition list_for_accident_event :: "uuid \<Rightarrow> timeline_event list \<Rightarrow> timeline_event list" where
  "list_for_accident_event e rows = filter (\<lambda>t. te_accident_event_id t = e) rows"

text \<open>Times and indices are integers here, so the second component compares within each kind.\<close>

definition sort_key_for_timeline :: "timeline_event \<Rightarrow> nat \<times> int" where
  "sort_key_for_timeline e = (case te_occurred_at e of
       None \<Rightarrow> (1, case te_sequence_index e of Some i \<Rightarrow> i | None \<Rightarrow> 0)
     | Some t \<Rightarrow> (0, t))"

definition timeline_to_public :: "timeline_event \<Rightarrow> public_timeline_event" where
  "timeline_to_public e =
     \<lparr>pt_event_type = te_event_type e, pt_occurred_at = te_occurred_at e,
      pt_timestamp_precision = te_timestamp_precision e, pt_sequence_index = te_sequence_index e,
      pt_description = te_description e\<rparr>"

definition get_public_event_timeline ::
  "timeline_event list \<Rightarrow> string \<Rightarrow> db \<Rightarrow> publication_db
     \<Rightarrow> publication_error + (string \<times> uuid \<times> public_timeline_event list)" where
  "get_public_event_timeline rows slug d p =
     rbind (load_page_and_check_visibility slug d p) (\<lambda>(page, canonical_id).
       let timeline = sort_key (\<lambda>e. (sort_key_for_timeline e, te_id e)) (list_for_accident_event canonical_id rows)
       in Inr (pp_slug page, canonical_id, map timeline_to_public (take PUBLIC_TIMELINE_LIMIT timeline)))"

section \<open>Related pages\<close>

datatype relationship_type =
    INVOLVED_AIRCRAFT | OPERATED_BY | AIRCRAFT_TYPE | MANUFACTURED_BY | OCCURRED_AT | LOCATED_IN | INVESTIGATED_BY

record orion_relationship =
  or_id :: uuid
  or_subject_entity_id :: "uuid option"
  or_relationship_type :: relationship_type
  or_object_entity_id :: uuid
  or_accident_event_id :: uuid

definition relationships_for_event :: "uuid \<Rightarrow> orion_relationship list \<Rightarrow> orion_relationship list" where
  "relationships_for_event e rows = filter (\<lambda>r. or_accident_event_id r = e) rows"

definition relationships_for_entity :: "uuid \<Rightarrow> orion_relationship list \<Rightarrow> orion_relationship list" where
  "relationships_for_entity i rows =
     filter (\<lambda>r. or_subject_entity_id r = Some i \<or> or_object_entity_id r = i) rows"

definition RELATED_VIA_RELATIONSHIPS :: "relationship_type list" where
  "RELATED_VIA_RELATIONSHIPS = [OPERATED_BY, AIRCRAFT_TYPE]"

text \<open>\<open>setdefault\<close> on an insertion-ordered dictionary.\<close>

definition setdefault :: "'k \<Rightarrow> 'v \<Rightarrow> ('k \<times> 'v) list \<Rightarrow> ('k \<times> 'v) list" where
  "setdefault k v m = (if k \<in> fst ` set m then m else m @ [(k, v)])"

definition related_seeds :: "orion_relationship list \<Rightarrow> (uuid \<times> relationship_type) list" where
  "related_seeds rels =
     fold (\<lambda>rel seeds. if or_relationship_type rel \<in> set RELATED_VIA_RELATIONSHIPS
                       then setdefault (or_object_entity_id rel) (or_relationship_type rel) seeds else seeds) rels []"

fun walk_siblings ::
  "uuid \<Rightarrow> relationship_type \<Rightarrow> orion_relationship list \<Rightarrow> (uuid \<times> relationship_type) list
     \<Rightarrow> (uuid \<times> relationship_type) list" where
  "walk_siblings own seed_relation [] found = found"
| "walk_siblings own seed_relation (s # ss) found =
     (if or_accident_event_id s = own then walk_siblings own seed_relation ss found
      else
        let found = setdefault (or_accident_event_id s)
              (if or_relationship_type s \<in> set RELATED_VIA_RELATIONSHIPS then or_relationship_type s
               else seed_relation) found
        in if PUBLIC_RELATED_CANDIDATE_LIMIT \<le> length found then found
           else walk_siblings own seed_relation ss found)"

fun walk_seeds ::
  "uuid \<Rightarrow> orion_relationship list \<Rightarrow> (uuid \<times> relationship_type) list \<Rightarrow> (uuid \<times> relationship_type) list
     \<Rightarrow> (uuid \<times> relationship_type) list" where
  "walk_seeds own rows [] found = found"
| "walk_seeds own rows ((entity_id, seed_relation) # seeds) found =
     (let found = walk_siblings own seed_relation (relationships_for_entity entity_id rows) found
      in if PUBLIC_RELATED_CANDIDATE_LIMIT \<le> length found then found else walk_seeds own rows seeds found)"

record public_related_event =
  re_slug :: string
  re_title :: string
  re_short_summary :: "string option"
  re_last_published_at :: "time option"
  re_relation :: relationship_type

definition related_page :: "publication_db \<Rightarrow> uuid \<times> relationship_type \<Rightarrow> public_related_event option" where
  "related_page p candidate =
     (case get_by_event_id (fst candidate) p of
        None \<Rightarrow> None
      | Some page \<Rightarrow>
          if pp_status page \<noteq> PUBLISHED then None
          else Some \<lparr>re_slug = pp_slug page, re_title = pp_title page, re_short_summary = pp_short_summary page,
                     re_last_published_at = pp_last_published_at page, re_relation = snd candidate\<rparr>)"

text \<open>A published row always has a publication time, so the fallback of the sort key is not reached.\<close>

definition get_public_event_related ::
  "orion_relationship list \<Rightarrow> string \<Rightarrow> db \<Rightarrow> publication_db
     \<Rightarrow> publication_error + (string \<times> uuid \<times> public_related_event list)" where
  "get_public_event_related rows slug d p =
     rbind (load_page_and_check_visibility slug d p) (\<lambda>(page, canonical_id).
       let seeds = related_seeds (relationships_for_event canonical_id rows);
           candidate_events = walk_seeds canonical_id rows seeds [];
           related = List.map_filter (related_page p) candidate_events
       in Inr (pp_slug page, canonical_id,
               take PUBLIC_RELATED_LIMIT
                 (py_sorted_rev (\<lambda>r. (case re_last_published_at r of Some t \<Rightarrow> t | None \<Rightarrow> 0, re_slug r)) related)))"


section \<open>Following the list\<close>

text \<open>A client that follows the cursors.\<close>

fun follow_list ::
  "nat \<Rightarrow> (json \<Rightarrow> string) \<Rightarrow> int \<Rightarrow> uuid option \<Rightarrow> db \<Rightarrow> publication_db \<Rightarrow> public_event_list_item list" where
  "follow_list 0 rep limit after_id d p = []"
| "follow_list (Suc k) rep limit after_id d p =
     (let (items, next_cursor, _) = list_public_events rep limit after_id d p
      in items @ (case next_cursor of None \<Rightarrow> [] | Some c \<Rightarrow> follow_list k rep limit (Some c) d p))"

definition published_order :: "publication_db \<Rightarrow> public_event_page list" where
  "published_order p = rev (sort_key published_key (filter (\<lambda>r. pp_status r = PUBLISHED) (pb_pages p)))"

lemma set_published_order: "set (published_order p) = {r \<in> set (pb_pages p). pp_status r = PUBLISHED}"
  by (simp add: published_order_def)

lemma published_dated:
  "pages_inv p \<Longrightarrow> r \<in> set (pb_pages p) \<Longrightarrow> pp_status r = PUBLISHED \<Longrightarrow> pp_last_published_at r \<noteq> None"
  by (auto simp: pages_inv_def page_ok_def)

lemma published_keys:
  assumes "pages_inv p"
  defines "rows \<equiv> filter (\<lambda>r. pp_status r = PUBLISHED) (pb_pages p)"
  shows "inj_on published_key (set rows) \<and> distinct rows"
proof -
  have "distinct (map pp_id (pb_pages p))" using assms(1) by (simp add: pages_inv_def ids_below_def)
  then have "inj_on pp_id (set rows)" "distinct rows"
    by (auto simp: rows_def distinct_map intro: inj_on_subset)
  then show ?thesis by (auto simp: inj_on_def published_key_def)
qed

lemma list_published_at:
  assumes "pages_inv p" and "j \<le> length (published_order p)" and "0 < n"
  shows "list_published n (page_cursor (published_order p) j) p =
    (take n (drop j (published_order p)),
     if n < length (drop j (published_order p)) then page_cursor (published_order p) (j + n) else None)"
proof -
  let ?rows = "filter (\<lambda>r. pp_status r = PUBLISHED) (pb_pages p)"
  let ?s = "published_order p"
  have ids: "ids_below pp_id (pb_pages p) (pb_next p)" using assms(1) by (simp add: pages_inv_def)
  have inj: "inj_on published_key (set ?rows)" and d: "distinct ?rows" using published_keys [OF assms(1)] by simp_all
  have len: "length ?s = length ?rows" by (simp add: published_order_def)
  show ?thesis
  proof (cases j)
    case 0
    obtain m where m: "n = Suc m" using assms(3) by (cases n) auto
    show ?thesis
      using 0 m keyset_page_first [OF assms(3), of pp_id published_key ?rows]
      by (simp add: list_published_def published_order_def Let_def)
  next
    case (Suc k)
    then have k: "k < length ?s" using assms(2) by simp
    then have mem: "?s ! k \<in> set (pb_pages p)" "pp_status (?s ! k) = PUBLISHED"
      using nth_mem [OF k] by (simp_all add: set_published_order)
    then have "pages_get (pp_id (?s ! k)) p = Some (?s ! k)" using pages_get_iff [OF ids] by simp
    moreover have "drop j ?s ! (n - 1) = ?s ! (k + n)" if "n < length (drop j ?s)" using that Suc assms(3) by simp
    ultimately show ?thesis
      using keyset_page_next [OF inj d assms(3), of k] k Suc len mem published_dated [OF assms(1) mem]
      by (simp add: list_published_def published_order_def [symmetric])
  qed
qed

definition list_item :: "(json \<Rightarrow> string) \<Rightarrow> db \<Rightarrow> public_event_page \<Rightarrow> public_event_list_item" where
  "list_item rep d row =
     summary_from rep row (Option.bind (public_canonical (pp_event_id row) d) (\<lambda>c. projections_get c d))"

lemma follow_list_from:
  assumes "pages_inv p"
  defines "s \<equiv> published_order p"
  shows "j \<le> length s \<Longrightarrow> length s - j < k \<Longrightarrow>
    follow_list k rep limit (page_cursor s j) d p = map (list_item rep d) (drop j s)"
proof (induction k arbitrary: j)
  case 0
  then show ?case by simp
next
  case (Suc k)
  define n where "n = nat (max 1 (min limit MAX_PUBLIC_LIST_LIMIT))"
  have n: "0 < n" by (simp add: n_def)
  then obtain m where m: "n = Suc m" by (cases n) auto
  have list: "list_public_events rep limit (page_cursor s j) d p =
      (map (list_item rep d) (take n (drop j s)), if n < length s - j then page_cursor s (j + n) else None,
       max 1 (min limit MAX_PUBLIC_LIST_LIMIT))"
    using list_published_at [OF assms(1), of j n] Suc.prems n
    by (simp add: list_public_events_def n_def [symmetric] s_def list_item_def)
  show ?case
  proof (cases "n < length s - j")
    case True
    have "follow_list k rep limit (page_cursor s (j + n)) d p = map (list_item rep d) (drop (j + n) s)"
      using Suc.IH [of "j + n"] Suc.prems True n by linarith
    moreover have "take n (drop j s) @ drop (j + n) s = drop j s"
      by (metis append_take_drop_id drop_drop add.commute)
    ultimately show ?thesis using True list m by (simp flip: map_append)
  next
    case False
    then show ?thesis using list by simp
  qed
qed

text \<open>Following the cursors of the public list from the start shows every published page exactly once, the most
  recently published first, whatever page size is asked for, and shows no other page; one request returns at most
  100 entries.\<close>

theorem public_listing_exact:
  assumes "editorial_step\<^sup>*\<^sup>* empty_publication p" and "length (pb_pages p) < k"
  shows "follow_list k rep limit None d p = map (list_item rep d) (published_order p)
    \<and> set (published_order p) = {r \<in> set (pb_pages p). is_publicly_visible r} \<and> distinct (published_order p)
    \<and> sorted_wrt (\<lambda>a b. the (pp_last_published_at b) \<le> the (pp_last_published_at a)) (published_order p)
    \<and> length (fst (list_public_events rep limit after_id d p)) \<le> 100"
proof -
  have inv: "pages_inv p" using editorial_system.reachable_inv [OF refl assms(1)] by (simp add: publication_inv_def)
  let ?rows = "filter (\<lambda>r. pp_status r = PUBLISHED) (pb_pages p)"
  have len: "length (published_order p) < k"
    using assms(2) length_filter_le [of "\<lambda>r. pp_status r = PUBLISHED" "pb_pages p"]
    unfolding published_order_def length_rev length_sort by linarith
  have "follow_list k rep limit None d p = map (list_item rep d) (published_order p)"
    using follow_list_from [OF inv, of 0 k] len by simp
  moreover have "distinct (published_order p)" using published_keys [OF inv] by (simp add: published_order_def)
  moreover have "sorted_wrt (\<lambda>a b. the (pp_last_published_at b) \<le> the (pp_last_published_at a)) (published_order p)"
  proof -
    have "sorted_wrt (\<lambda>a b. published_key b < published_key a) (published_order p)"
      unfolding published_order_def using descending_sort published_keys [OF inv] by blast
    then show ?thesis
      by (rule sorted_wrt_mono_rel [rotated])
        (auto simp: published_key_def set_published_order dest!: published_dated [OF inv])
  qed
  moreover have "length (fst (list_public_events rep limit after_id d p)) \<le> 100"
    by (auto simp: list_public_events_def list_published_def keyset_page_def Let_def MAX_PUBLIC_LIST_LIMIT_def
        split: prod.splits if_splits)
  ultimately show ?thesis by (auto simp: set_published_order is_publicly_visible_def)
qed

theorem public_listing_exact_witness:
  "map pl_slug (follow_list 2 (\<lambda>_. []) 25 None desk_core desk_published) = [''flight-447'']"
proof -
  have "length (pb_pages desk_published) < 2" by code_simp
  then have "follow_list 2 (\<lambda>_. []) 25 None desk_core desk_published =
      map (list_item (\<lambda>_. []) desk_core) (published_order desk_published)"
    using public_listing_exact [OF desk_published_reachable, of 2 "\<lambda>_. []" 25 desk_core None] by blast
  moreover have "map pp_slug (published_order desk_published) = [''flight-447'']" by code_simp
  ultimately show ?thesis by (simp add: list_item_def summary_from_def Let_def comp_def)
qed

section \<open>What a page shows and why\<close>

lemma canonical_walk_Found:
  "canonical_walk rows seen i = Found e \<Longrightarrow> row_get ev_id (ev_id e) rows = Some e \<and> \<not> is_merged e"
proof (induction rows seen i rule: canonical_walk.induct)
  case (1 rows seen i)
  show ?case
  proof (cases "row_get ev_id i rows")
    case None
    then show ?thesis using 1 by (simp add: canonical_walk.simps [of rows seen])
  next
    case (Some x)
    then have x: "ev_id x = i" by (blast dest: row_get_SomeD)
    show ?thesis
    proof (cases "ev_merged_into_event_id x")
      case None
      then have "e = x" using 1(2) Some by (simp add: canonical_walk.simps [of rows seen])
      then show ?thesis using Some x None by (simp add: is_merged_def)
    next
      case (Some t)
      then show ?thesis
        using 1 \<open>row_get ev_id i rows = Some x\<close> by (simp add: canonical_walk.simps [of rows seen] split: if_splits)
    qed
  qed
qed

lemma public_canonical_live: "public_canonical i d = Some c \<Longrightarrow> \<exists>e. events_get c d = Some e \<and> \<not> is_merged e"
  using canonical_walk_Found by (auto simp: public_canonical_def events_get_def split: walk.splits)

lemma gate_Inr:
  "load_page_and_check_visibility slug d p = Inr (page, c) \<longleftrightarrow>
     get_by_slug slug p = Some page \<and> pp_status page \<noteq> DRAFT \<and> pp_status page \<noteq> RETRACTED
     \<and> public_canonical (pp_event_id page) d = Some c"
  by (auto simp: load_page_and_check_visibility_def split: option.splits)

lemma fields_json_of: "map_of (fields_json m) f = map_option replace_disputed (map_of m f)"
  by (induction m) (auto simp: fields_json_def)

lemma map_of_filter_key: "map_of m k = Some v \<Longrightarrow> P k \<Longrightarrow> map_of (filter (\<lambda>x. P (fst x)) m) k = Some v"
  by (induction m) (auto split: if_splits)

lemma values_equal_refl: "values_equal rep v v"
  by (simp add: values_equal_def)

lemma built_value_claim:
  assumes "map_of (fields_json (pr_fields (build now e claims conflicts src n))) f = Some v"
    and "f \<notin> set (pr_unresolved_conflict_fields (build now e claims conflicts src n))"
  shows "\<exists>c \<in> set claims. cl_event_id c = e \<and> is_active c \<and> cl_field_name c = f \<and> cl_field_value c = v"
proof -
  let ?v = "projected_value e claims conflicts src f"
  obtain w where w: "?v = Some w" "replace_disputed w = v"
    using assms(1) by (auto simp: fields_json_of build_fields)
  have opens: "f \<in> set (map cl_field_name (event_claims e claims)
      @ map cc_field_name (filter (\<lambda>c. cc_event_id c = e \<and> cc_status c = OPEN) conflicts))"
  proof (rule ccontr)
    assume "\<not> ?thesis"
    then have "f \<notin> open_field_names e conflicts" "field_claims_of e f claims = []"
      by (auto simp: open_field_names_def field_claims_of_def filter_empty_conv)
    then show False using projected_value_absent w(1) by simp
  qed
  have "?v \<noteq> Some DISPUTED" using assms(2) opens by (auto simp: build_unresolved)
  then have wv: "w = PVal v" using w by (cases w) auto
  have no: "f \<notin> open_field_names e conflicts" using w(1) wv by (auto simp: projected_value_eq)
  have "\<exists>c \<in> set (field_claims_of e f claims). cl_field_value c = v"
  proof (cases "resolved_winner e claims conflicts f")
    case None
    then have "tier_value (top_tier (field_claims_of e f claims)) src = Some (PVal v)"
      using w(1) wv no by (simp add: projected_value_eq)
    then show ?thesis using tier_value_PVal top_tier_subset by blast
  next
    case (Some c)
    then have "cl_field_value c = v" using w(1) wv no by (simp add: projected_value_eq)
    then show ?thesis using resolved_winnerD [OF Some] by blast
  qed
  then show ?thesis by (auto simp: set_field_claims_of)
qed

text \<open>The content hash covers the fields and the list of disputed ones.\<close>

lemma content_json_fields:
  assumes "content_json a = content_json b"
  shows "fields_json (pr_fields a) = fields_json (pr_fields b)
    \<and> pr_unresolved_conflict_fields a = pr_unresolved_conflict_fields b"
proof -
  have "inj JStr" by (simp add: inj_def)
  then show ?thesis using assms by (auto simp: content_json_def inj_map_eq_map)
qed

lemma evidence_Inr:
  assumes "get_public_event_evidence rep slug d p = Inr ev"
  obtains page c shown where "load_page_and_check_visibility slug d p = Inr (page, c)" "er_canonical_event_id ev = c"
    "set shown \<subseteq> set (find_active_by_event c d)" "\<not> er_truncated ev \<longrightarrow> set shown = set (find_active_by_event c d)"
    "er_claims ev = map (\<lambda>x. claim_to_public rep x (map_of (map (\<lambda>s. (src_id s, s))
        (sources_get_by_ids (dict_fromkeys (map cl_source_id shown)) d)) (cl_source_id x))
        (winning_values_by_field (projections_get c d))) shown"
proof -
  obtain page c where g: "load_page_and_check_visibility slug d p = Inr (page, c)"
    using assms by (auto simp: get_public_event_evidence_def)
  let ?all = "sort_key (\<lambda>c. (cl_created_at c, cl_id c)) (find_active_by_event c d)"
  let ?t = "PUBLIC_EVIDENCE_CLAIM_LIMIT < length ?all"
  let ?shown = "if ?t then take PUBLIC_EVIDENCE_CLAIM_LIMIT ?all else ?all"
  have "set ?shown \<subseteq> set (find_active_by_event c d)" using set_take_subset [of _ ?all] by auto
  then show thesis
    using assms g that [of page c ?shown] by (auto simp: get_public_event_evidence_def Let_def)
qed

text \<open>C31: A public page is explained by its evidence: if the stored projection has the content computed from the
  claims, then for every undisputed field the page shows, the evidence (when it is not truncated) contains a claim
  with exactly that value, marked as winning; and everything the evidence lists is an active claim of the event the
  page shows.\<close>

theorem evidence_explains_page:
  assumes "get_public_event_page slug d p = Inr page" and "get_public_event_evidence rep slug d p = Inr ev"
    and "projections_get (pd_canonical_event_id page) d = Some s"
    and "content_json s = content_json (expected_projection now (pd_canonical_event_id page) n d)"
    and "map_of (pd_fields page) f = Some v" and "f \<notin> set (pd_unresolved_conflict_fields page)"
  shows "er_canonical_event_id ev = pd_canonical_event_id page
    \<and> (\<not> er_truncated ev \<longrightarrow>
        (\<exists>x \<in> set (er_claims ev). pe_field_name x = f \<and> pe_field_value x = v \<and> pe_is_winning x))
    \<and> (\<forall>x \<in> set (er_claims ev). \<not> pe_is_superseded x
        \<and> (\<exists>c \<in> set (db_claims d). cl_event_id c = pd_canonical_event_id page \<and> is_active c
             \<and> pe_field_name x = cl_field_name c \<and> pe_field_value x = cl_field_value c))"
proof -
  obtain pg c shown where g: "load_page_and_check_visibility slug d p = Inr (pg, c)" and ec: "er_canonical_event_id ev = c"
    and sub: "set shown \<subseteq> set (find_active_by_event c d)"
    and full: "\<not> er_truncated ev \<longrightarrow> set shown = set (find_active_by_event c d)"
    and cl: "er_claims ev = map (\<lambda>x. claim_to_public rep x (map_of (map (\<lambda>s. (src_id s, s))
        (sources_get_by_ids (dict_fromkeys (map cl_source_id shown)) d)) (cl_source_id x))
        (winning_values_by_field (projections_get c d))) shown"
    by (rule evidence_Inr [OF assms(2)]) (rule that)
  have pc: "pd_canonical_event_id page = c" and pf: "pd_fields page = fields_json (pr_fields s)"
    "pd_unresolved_conflict_fields page = pr_unresolved_conflict_fields s"
    using assms(1,3) g by (auto simp: get_public_event_page_def split: option.splits)
  have "public_canonical (pp_event_id pg) d = Some c" using g by (simp add: gate_Inr)
  then obtain e where "events_get c d = Some e" "\<not> is_merged e" using public_canonical_live by blast
  then have ex: "expected_projection now c n d = build now c (find_active_by_event c d) (conflicts_find_by_event c d)
      (sources_of (find_active_by_event c d) d) n"
    by (simp add: expected_projection_def)
  have eq: "fields_json (pr_fields s) = fields_json (pr_fields (expected_projection now c n d))"
    "pr_unresolved_conflict_fields s = pr_unresolved_conflict_fields (expected_projection now c n d)"
    using content_json_fields assms(4) pc by blast+
  obtain x where x: "x \<in> set (find_active_by_event c d)" "cl_field_name x = f" "cl_field_value x = v"
    using built_value_claim [of now c _ _ _ n f v] assms(5,6) pf eq unfolding ex by metis
  have "map_of (winning_values_by_field (projections_get c d)) f = Some v"
    using assms(3,5,6) pc pf by (auto simp: winning_values_by_field_def split_def intro: map_of_filter_key)
  then have "pe_is_winning (claim_to_public rep x src (winning_values_by_field (projections_get c d)))" for src
    using x by (simp add: claim_to_public_def values_equal_refl)
  then have "\<not> er_truncated ev \<longrightarrow>
      (\<exists>x \<in> set (er_claims ev). pe_field_name x = f \<and> pe_field_value x = v \<and> pe_is_winning x)"
    using full x unfolding cl by (auto simp: claim_to_public_def)
  moreover have "\<not> pe_is_superseded y \<and> (\<exists>c' \<in> set (db_claims d). cl_event_id c' = c \<and> is_active c'
      \<and> pe_field_name y = cl_field_name c' \<and> pe_field_value y = cl_field_value c')" if "y \<in> set (er_claims ev)" for y
    using that sub unfolding cl by (auto simp: claim_to_public_def find_active_by_event_def is_active_def)
  ultimately show ?thesis unfolding pc using ec by blast
qed

text \<open>A store in which event 7 has one claim and its projection, for the examples.\<close>

definition read_claim :: claim where
  "read_claim = \<lparr>cl_id = 21, cl_event_id = 7, cl_source_id = 1, cl_raw_snapshot_id = None, cl_field_name = ''operator'',
     cl_field_value = JStr ''Northern'', cl_claim_type = RAW, cl_created_at = 5, cl_created_by = None,
     cl_superseded_by_claim_id = None\<rparr>"

definition read_claims_core :: db where
  "read_claims_core = desk_core\<lparr>db_claims := [read_claim]\<rparr>"

definition read_core :: db where
  "read_core = read_claims_core\<lparr>db_projections := [expected_projection 9 7 1 read_claims_core]\<rparr>"

definition desk_archived :: publication_db where
  "desk_archived = desk_next Archive 4 desk_published"

lemma read_core_simps [simp]:
  "db_events read_core = db_events desk_core" "db_claims read_core = [read_claim]" "db_conflicts read_core = []"
  "db_sources read_core = []" "db_projections read_core = [expected_projection 9 7 1 read_claims_core]"
  "db_events read_claims_core = db_events desk_core" "db_claims read_claims_core = [read_claim]"
  "db_conflicts read_claims_core = []" "db_sources read_claims_core = []"
  by (simp_all add: read_core_def read_claims_core_def desk_core_def empty_db_def)

lemma read_core_expected: "expected_projection now 7 n read_core = expected_projection now 7 n read_claims_core"
  by (simp add: expected_projection_def events_get_def find_active_by_event_def conflicts_find_by_event_def
      sources_of_def sources_get_by_ids_def sources_get_def py_sorted_rev_def with_links_def split: option.split)

lemma read_core_projection: "projections_get 7 read_core = Some (expected_projection 9 7 1 read_core)"
  by (simp add: projections_get_def row_get_def read_core_expected)

lemma read_core_value:
  "map_of (fields_json (pr_fields (expected_projection 9 7 1 read_core))) ''operator'' = Some (JStr ''Northern'')"
  "pr_unresolved_conflict_fields (expected_projection 9 7 1 read_core) = []"
proof -
  let ?src = "sources_of [read_claim] read_core"
  have ev: "\<exists>e. events_get 7 read_core = Some e \<and> \<not> is_merged e" by (simp add: events_get_def desk_core_def is_merged_def)
  have "find_active_by_event 7 read_core = [read_claim]"
    by (simp add: find_active_by_event_def read_claim_def is_active_iff)
  then have b: "expected_projection 9 7 1 read_core = build 9 7 [read_claim] [] ?src 1"
    using ev by (auto simp: expected_projection_def conflicts_find_by_event_def py_sorted_rev_def)
  have v: "projected_value 7 [read_claim] [] ?src ''operator'' = Some (PVal (JStr ''Northern''))"
    by (simp add: projected_value_eq sample_eval read_claim_def tier_value_def choose_winner_def can_win_def
        py_sorted_rev_def unique_normalised_values_def)
  show "map_of (fields_json (pr_fields (expected_projection 9 7 1 read_core))) ''operator'' = Some (JStr ''Northern'')"
    by (simp add: b fields_json_of build_fields v)
  have e: "map cl_field_name (event_claims 7 [read_claim]) = [''operator'']"
    by (simp add: event_claims_def read_claim_def is_active_iff)
  show "pr_unresolved_conflict_fields (expected_projection 9 7 1 read_core) = []"
    by (simp add: b build_unresolved e v sorted_set_def)
qed

lemma desk_gate:
  "\<exists>page. load_page_and_check_visibility ''flight-447'' read_core desk_published = Inr (page, 7)"
proof -
  have "(case load_page_and_check_visibility ''flight-447'' read_core desk_published of
      Inr (page, c) \<Rightarrow> c = 7 | Inl _ \<Rightarrow> False)" by code_simp
  then show ?thesis by (auto split: sum.splits)
qed

theorem evidence_explains_page_witness:
  "\<exists>ev x. get_public_event_evidence (\<lambda>_. []) ''flight-447'' read_core desk_published = Inr ev
     \<and> x \<in> set (er_claims ev) \<and> pe_field_name x = ''operator'' \<and> pe_field_value x = JStr ''Northern'' \<and> pe_is_winning x"
proof -
  let ?s = "expected_projection 9 7 1 read_core"
  obtain pg where g: "load_page_and_check_visibility ''flight-447'' read_core desk_published = Inr (pg, 7)"
    using desk_gate by blast
  obtain d where d: "get_public_event_page ''flight-447'' read_core desk_published = Inr d" "pd_canonical_event_id d = 7"
    "pd_fields d = fields_json (pr_fields ?s)" "pd_unresolved_conflict_fields d = pr_unresolved_conflict_fields ?s"
    using g read_core_projection by (simp add: get_public_event_page_def)
  obtain ev where ev: "get_public_event_evidence (\<lambda>_. []) ''flight-447'' read_core desk_published = Inr ev" "\<not> er_truncated ev"
    using g by (simp add: get_public_event_evidence_def Let_def find_active_by_event_def PUBLIC_EVIDENCE_CLAIM_LIMIT_def)
  from evidence_explains_page [OF d(1) ev(1), of ?s 9 1 "''operator''" "JStr ''Northern''"]
  have "\<exists>x \<in> set (er_claims ev). pe_field_name x = ''operator'' \<and> pe_field_value x = JStr ''Northern'' \<and> pe_is_winning x"
    using d(2-4) ev(2) read_core_projection read_core_value by auto
  then show ?thesis using ev(1) by blast
qed

text \<open>C32: The gate rejects drafts and retracted pages only.  A page that is in review, approved or archived, and so
  not publicly visible and in neither index, is still served in full to anyone who knows its slug, if its event and
  projection exist.\<close>

theorem unpublished_page_served:
  assumes "editorial_step\<^sup>*\<^sup>* empty_publication p" and "r \<in> set (pb_pages p)"
    and "pp_status r \<in> {IN_REVIEW, APPROVED, ARCHIVED}"
    and "public_canonical (pp_event_id r) d = Some c" and "projections_get c d = Some s"
  shows "\<not> is_publicly_visible r \<and> pp_id r \<notin> se_page_id ` set (pb_search p) \<and> pp_id r \<notin> me_page_id ` set (pb_map p)
    \<and> (\<exists>page. get_public_event_page (pp_slug r) d p = Inr page \<and> pd_title page = pp_title r
          \<and> pd_narrative_markdown page = pp_narrative_markdown r \<and> pd_fields page = fields_json (pr_fields s))"
proof -
  have inv: "publication_inv p" by (rule editorial_system.reachable_inv [OF refl assms(1)])
  then have "distinct (map pp_slug (pb_pages p))" and dist: "distinct (map pp_id (pb_pages p))"
    by (simp_all add: publication_inv_def pages_inv_def ids_below_def)
  then have g: "get_by_slug (pp_slug r) p = Some r"
    unfolding get_by_slug_def using assms(2) by (subst row_get_Some_iff) simp_all
  have "pp_id r \<notin> published_ids p"
  proof
    assume "pp_id r \<in> published_ids p"
    then obtain x where "x \<in> set (pb_pages p)" "pp_status x = PUBLISHED" "pp_id x = pp_id r"
      unfolding published_ids_def by auto
    then have "x = r" using assms(2) dist by (metis distinct_map inj_onD)
    then show False using \<open>pp_status x = PUBLISHED\<close> assms(3) by auto
  qed
  then show ?thesis
    using g inv assms(3-5)
    by (auto simp: get_public_event_page_def load_page_and_check_visibility_def is_publicly_visible_def
        publication_inv_def indexed_def)
qed

theorem unpublished_page_served_witness:
  "map pp_status (pb_pages desk_archived) = [ARCHIVED] \<and> pb_search desk_archived = []
   \<and> (\<exists>page. get_public_event_page ''flight-447'' read_core desk_archived = Inr page \<and> pd_title page = ''Flight'')"
proof -
  have s: "map (\<lambda>r. (pp_event_id r, pp_slug r, pp_title r, pp_status r)) (pb_pages desk_archived)
      = [(7, ''flight-447'', ''Flight'', ARCHIVED)]" by code_simp
  then obtain r where r: "pb_pages desk_archived = [r]" "pp_event_id r = 7" "pp_slug r = ''flight-447''"
    "pp_title r = ''Flight''" "pp_status r = ARCHIVED" by (auto simp: map_eq_Cons_conv)
  have reach: "editorial_step\<^sup>*\<^sup>* empty_publication desk_archived"
    unfolding desk_archived_def by (rule rtranclp_trans [OF desk_published_reachable desk_next_steps])
  have c: "public_canonical 7 read_core = Some 7" by code_simp
  have "\<exists>page. get_public_event_page (pp_slug r) read_core desk_archived = Inr page \<and> pd_title page = pp_title r"
    using unpublished_page_served [OF reach, of r read_core 7, OF _ _ _ read_core_projection] r c by auto
  moreover have "pb_search desk_archived = []" by code_simp
  ultimately show ?thesis using r by simp
qed

section \<open>Related pages\<close>

definition candidates_ok :: "uuid \<Rightarrow> (uuid \<times> relationship_type) list \<Rightarrow> bool" where
  "candidates_ok own found \<longleftrightarrow> distinct (map fst found) \<and> own \<notin> fst ` set found"

lemma candidates_ok_setdefault: "candidates_ok own found \<Longrightarrow> e \<noteq> own \<Longrightarrow> candidates_ok own (setdefault e t found)"
  by (auto simp: candidates_ok_def setdefault_def)

lemma length_setdefault: "length m < n \<Longrightarrow> length (setdefault k v m) \<le> n"
  by (simp add: setdefault_def)

lemma walk_siblings_ok:
  "candidates_ok own found \<Longrightarrow> candidates_ok own (walk_siblings own t ss found)"
  by (induction own t ss found rule: walk_siblings.induct) (auto simp: Let_def candidates_ok_setdefault)

lemma walk_siblings_length:
  "length found < PUBLIC_RELATED_CANDIDATE_LIMIT \<Longrightarrow> length (walk_siblings own t ss found) \<le> PUBLIC_RELATED_CANDIDATE_LIMIT"
  by (induction own t ss found rule: walk_siblings.induct)
    (auto simp: Let_def not_le intro!: le_antisym length_setdefault)

lemma walk_seeds_ok: "candidates_ok own found \<Longrightarrow> candidates_ok own (walk_seeds own rows seeds found)"
  by (induction own rows seeds found rule: walk_seeds.induct) (auto simp: Let_def walk_siblings_ok)

lemma walk_seeds_length:
  "length found < PUBLIC_RELATED_CANDIDATE_LIMIT \<Longrightarrow> length (walk_seeds own rows seeds found) \<le> PUBLIC_RELATED_CANDIDATE_LIMIT"
  by (induction own rows seeds found rule: walk_seeds.induct) (auto simp: Let_def walk_siblings_length)

lemma related_page_Some:
  "related_page p x = Some r \<Longrightarrow> \<exists>page \<in> set (pb_pages p). pp_event_id page = fst x \<and> pp_status page = PUBLISHED
     \<and> re_slug r = pp_slug page \<and> re_title r = pp_title page \<and> re_relation r = snd x"
  by (auto simp: related_page_def get_by_event_id_def dest: row_get_SomeD split: option.splits if_splits)

lemma related_slugs_distinct:
  assumes "inj_on pp_slug (set (pb_pages p))" and "distinct (map fst found)"
  shows "distinct (map re_slug (List.map_filter (related_page p) found))"
  using assms(2)
proof (induction found)
  case (Cons x found)
  have "re_slug r \<notin> re_slug ` set (List.map_filter (related_page p) found)" if r: "related_page p x = Some r" for r
  proof
    assume "re_slug r \<in> re_slug ` set (List.map_filter (related_page p) found)"
    then obtain y q where y: "y \<in> set found" "related_page p y = Some q" "re_slug q = re_slug r"
      by (auto simp: List.map_filter_def)
    obtain a b where "a \<in> set (pb_pages p)" "pp_event_id a = fst x" "re_slug r = pp_slug a"
      "b \<in> set (pb_pages p)" "pp_event_id b = fst y" "re_slug q = pp_slug b"
      using related_page_Some [OF r] related_page_Some [OF y(2)] by blast
    then have "fst x = fst y" using assms(1) y(3) by (metis inj_onD)
    then show False using Cons.prems y(1) by (metis distinct.simps(2) list.map(2) list.set_map imageI)
  qed
  then show ?case using Cons by (cases "related_page p x") (auto simp: List.map_filter_simps)
qed (simp add: List.map_filter_simps)

text \<open>The related pages are at most 25 different published pages, each of another event that shares an entity of
  the relationship graph with the page, and never the page's own event; at most 200 candidates are resolved.\<close>

theorem related_pages_published:
  assumes "editorial_step\<^sup>*\<^sup>* empty_publication p" and "get_public_event_related rows slug d p = Inr (sl, c, items)"
  shows "length items \<le> 25 \<and> distinct (map re_slug items)
    \<and> list_all (\<lambda>x. list_ex (\<lambda>r. is_publicly_visible r \<and> pp_slug r = re_slug x \<and> pp_title r = re_title x
        \<and> pp_event_id r \<noteq> c) (pb_pages p)) items
    \<and> length (walk_seeds c rows (related_seeds (relationships_for_event c rows)) []) \<le> 200"
proof -
  let ?found = "walk_seeds c rows (related_seeds (relationships_for_event c rows)) []"
  let ?rel = "List.map_filter (related_page p) ?found"
  let ?key = "\<lambda>r. (case re_last_published_at r of Some t \<Rightarrow> t | None \<Rightarrow> 0, re_slug r)"
  have items: "items = take PUBLIC_RELATED_LIMIT (py_sorted_rev ?key ?rel)"
    using assms(2) by (auto simp: get_public_event_related_def Let_def)
  have inj: "inj_on pp_slug (set (pb_pages p))"
    using editorial_system.reachable_inv [OF refl assms(1)] by (simp add: publication_inv_def pages_inv_def distinct_map)
  have ok: "candidates_ok c ?found" by (rule walk_seeds_ok) (simp add: candidates_ok_def)
  have "distinct (map re_slug ?rel)" using related_slugs_distinct [OF inj] ok by (simp add: candidates_ok_def)
  then have "distinct (map re_slug (py_sorted_rev ?key ?rel))"
    by (simp add: py_sorted_rev_def distinct_map)
  then have "distinct (map re_slug items)" by (simp add: items distinct_map inj_on_subset [OF _ set_take_subset])
  moreover have "list_ex (\<lambda>r. is_publicly_visible r \<and> pp_slug r = re_slug x \<and> pp_title r = re_title x
        \<and> pp_event_id r \<noteq> c) (pb_pages p)" if "x \<in> set items" for x
  proof -
    have "x \<in> set ?rel" using that set_take_subset [of PUBLIC_RELATED_LIMIT "py_sorted_rev ?key ?rel"] by (auto simp: items)
    then obtain y where y: "y \<in> set ?found" "related_page p y = Some x" by (auto simp: List.map_filter_def)
    have "fst y \<noteq> c" using ok y(1) by (auto simp: candidates_ok_def)
    then show ?thesis using related_page_Some [OF y(2)] by (auto simp: list_ex_iff is_publicly_visible_def)
  qed
  moreover have "length ?found \<le> 200"
    using walk_seeds_length [of "[]" c rows] by (simp add: PUBLIC_RELATED_CANDIDATE_LIMIT_def)
  ultimately show ?thesis by (simp add: items list_all_iff PUBLIC_RELATED_LIMIT_def)
qed

definition pair_move :: "editorial_action \<Rightarrow> nat \<Rightarrow> publication_db \<Rightarrow> publication_db" where
  "pair_move a v p =
     (case transition_page (\<lambda>_. []) (\<lambda>_. None) (\<lambda>x. x) (20 + v) a ((desk_request v)\<lparr>ti_page_id := 5\<rparr>) desk_core p of
        Inr (_, q) \<Rightarrow> q | Inl _ \<Rightarrow> p)"

definition desk_pair :: publication_db where
  "desk_pair = pair_move Publish 3 (pair_move Approve 2 (pair_move Submit 1 desk_busy))"

definition same_operator :: "orion_relationship list" where
  "same_operator = map (\<lambda>(i, e). \<lparr>or_id = i, or_subject_entity_id = None, or_relationship_type = OPERATED_BY,
     or_object_entity_id = 50, or_accident_event_id = e\<rparr>) [(60, 7), (61, 8)]"

lemma pair_move_steps: "editorial_step\<^sup>*\<^sup>* p (pair_move a v p)"
  unfolding pair_move_def by (auto split: sum.splits intro: editorial_step.move)

lemma desk_pair_reachable: "editorial_step\<^sup>*\<^sup>* empty_publication desk_pair"
  unfolding desk_pair_def desk_busy_def
  by (meson desk_published_reachable desk_new_steps pair_move_steps rtranclp_trans)

lemma desk_pair_pages:
  "map (\<lambda>r. (pp_event_id r, pp_slug r, pp_status r)) (pb_pages desk_pair)
     = [(7, ''flight-447'', PUBLISHED), (8, ''flight-101'', PUBLISHED)]"
  by code_simp

lemma desk_pair_found:
  "walk_seeds 7 same_operator (related_seeds (relationships_for_event 7 same_operator)) [] = [(8, OPERATED_BY)]"
  by (simp add: same_operator_def related_seeds_def relationships_for_event_def relationships_for_entity_def
      RELATED_VIA_RELATIONSHIPS_def setdefault_def PUBLIC_RELATED_CANDIDATE_LIMIT_def)

theorem related_pages_published_witness:
  "\<exists>items. get_public_event_related same_operator ''flight-447'' desk_core desk_pair = Inr (''flight-447'', 7, items)
     \<and> map re_slug items = [''flight-101''] \<and> length items \<le> 25"
proof -
  let ?r = "get_public_event_related same_operator ''flight-447'' desk_core desk_pair"
  obtain a b where p: "pb_pages desk_pair = [a, b]" "pp_event_id a = 7" "pp_slug a = ''flight-447''" "pp_status a = PUBLISHED"
    "pp_event_id b = 8" "pp_slug b = ''flight-101''" "pp_status b = PUBLISHED"
    using desk_pair_pages by (auto simp: map_eq_Cons_conv)
  have "public_canonical 7 desk_core = Some 7" by code_simp
  then have g: "load_page_and_check_visibility ''flight-447'' desk_core desk_pair = Inr (a, 7)"
    using p by (simp add: load_page_and_check_visibility_def get_by_slug_def row_get_def)
  obtain x where x: "related_page desk_pair (8, OPERATED_BY) = Some x" "re_slug x = ''flight-101''"
    using p by (simp add: related_page_def get_by_event_id_def row_get_def)
  have r: "?r = Inr (''flight-447'', 7, [x])"
    unfolding get_public_event_related_def g rbind.simps Let_def case_prod_conv desk_pair_found
    using p(3) x(1) by (simp add: List.map_filter_simps py_sorted_rev_def PUBLIC_RELATED_LIMIT_def)
  show ?thesis using related_pages_published [OF desk_pair_reachable r] r x(2) by simp
qed

end
