(* ===== verification/Deidentification.thy ===== *)
theory Deidentification
  imports Py_Strings
begin

text \<open>
  \<open>application/services/deidentification.py\<close>: the pattern scrub of safety narratives.  The regular expressions are
  terms of a small language of the constructs they use, with Python's semantics on ASCII text: \<open>ends\<close> lists the
  lengths of all matches at a position in the order in which backtracking finds them, so its head is the match, and
  \<open>scan\<close> is the leftmost search that \<open>finditer\<close> and \<open>sub\<close> share.
\<close>

section \<open>Regular expressions\<close>

text \<open>
  A class repeated greedily between two bounds, an optional group, the word boundary, and the two negative
  assertions on one character.
\<close>

datatype rx =
    Chars "char \<Rightarrow> bool" nat "nat option"
  | Optional "rx list"
  | Word_Bound
  | Not_After "char \<Rightarrow> bool"
  | Not_Before "char \<Rightarrow> bool"

definition letter :: "char \<Rightarrow> bool" where
  "letter c \<longleftrightarrow> (let n = (of_char c :: nat) in 65 \<le> n \<and> n \<le> 90 \<or> 97 \<le> n \<and> n \<le> 122)"

definition word_char :: "char \<Rightarrow> bool" where
  "word_char c \<longleftrightarrow> letter c \<or> py_digit c \<or> c = CHR ''_''"

definition holds_at :: "(char \<Rightarrow> bool) \<Rightarrow> char option \<Rightarrow> bool" where
  "holds_at P x = (case x of None \<Rightarrow> False | Some c \<Rightarrow> P c)"

definition first_char :: "string \<Rightarrow> char option" where
  "first_char s = (case s of [] \<Rightarrow> None | c # _ \<Rightarrow> Some c)"

definition at_boundary :: "char option \<Rightarrow> string \<Rightarrow> bool" where
  "at_boundary prev s \<longleftrightarrow> holds_at word_char prev \<noteq> holds_at word_char (first_char s)"

text \<open>The character before the rest of the text, after \<open>i\<close> characters.\<close>

definition before :: "char option \<Rightarrow> string \<Rightarrow> nat \<Rightarrow> char option" where
  "before prev s i = (if i = 0 then prev else Some (s ! (i - 1)))"

definition run_length :: "(char \<Rightarrow> bool) \<Rightarrow> nat option \<Rightarrow> string \<Rightarrow> nat" where
  "run_length P most s = length (takeWhile P (case most of None \<Rightarrow> s | Some n \<Rightarrow> take n s))"

fun weight :: "rx \<Rightarrow> nat" where
  "weight (Optional rs) = Suc (sum_list (map weight rs))"
| "weight _ = 1"

function ends :: "rx list \<Rightarrow> char option \<Rightarrow> string \<Rightarrow> nat list" where
  "ends [] prev s = [0]"
| "ends (Chars P least most # rs) prev s =
     concat (map (\<lambda>i. map ((+) i) (ends rs (before prev s i) (drop i s))) (rev [least..<Suc (run_length P most s)]))"
| "ends (Optional gs # rs) prev s = ends (gs @ rs) prev s @ ends rs prev s"
| "ends (Word_Bound # rs) prev s = (if at_boundary prev s then ends rs prev s else [])"
| "ends (Not_After P # rs) prev s = (if holds_at P prev then [] else ends rs prev s)"
| "ends (Not_Before P # rs) prev s = (if holds_at P (first_char s) then [] else ends rs prev s)"
  by pat_completeness auto
termination
  by (relation "measure (\<lambda>(rs, prev, s). sum_list (map weight rs))") auto

text \<open>The text as kept characters and matches; a match that is empty is not one of the patterns below.\<close>

datatype piece = Keep char | Hit string

function scan :: "rx list \<Rightarrow> char option \<Rightarrow> string \<Rightarrow> piece list" where
  "scan pat prev [] = []"
| "scan pat prev (c # s) =
     (case ends pat prev (c # s) of
        Suc n # _ \<Rightarrow> Hit (c # take n s) # scan pat (before prev (c # s) (Suc n)) (drop n s)
      | _ \<Rightarrow> Keep c # scan pat (Some c) s)"
  by pat_completeness auto
termination
  by (relation "measure (\<lambda>(pat, prev, s). length s)") auto

definition re_findall :: "rx list \<Rightarrow> string \<Rightarrow> string list" where
  "re_findall pat s = List.map_filter (\<lambda>p. case p of Keep _ \<Rightarrow> None | Hit m \<Rightarrow> Some m) (scan pat None s)"

definition render :: "string \<Rightarrow> piece list \<Rightarrow> string" where
  "render token ps = concat (map (\<lambda>p. case p of Keep c \<Rightarrow> [c] | Hit _ \<Rightarrow> token) ps)"

definition re_sub :: "rx list \<Rightarrow> string \<Rightarrow> string \<Rightarrow> string" where
  "re_sub pat token s = render token (scan pat None s)"

section \<open>The patterns and the scrub\<close>

definition TAIL_NUMBER :: "rx list" where
  "TAIL_NUMBER =
     [Word_Bound, Chars (\<lambda>c. c = CHR ''N'' \<or> c = CHR ''n'') 1 (Some 1), Chars py_digit 1 (Some 5),
      Chars letter 0 (Some 2), Word_Bound]"

definition EMPLOYEE_ID :: "rx list" where
  "EMPLOYEE_ID = [Word_Bound, Chars py_digit 6 (Some 8), Word_Bound]"

definition EMAIL :: "rx list" where
  "EMAIL =
     [Word_Bound, Chars (\<lambda>c. letter c \<or> py_digit c \<or> c \<in> set ''._%+-'') 1 None, Chars (\<lambda>c. c = CHR ''@'') 1 (Some 1),
      Chars (\<lambda>c. letter c \<or> py_digit c \<or> c \<in> set ''.-'') 1 None, Chars (\<lambda>c. c = CHR ''.'') 1 (Some 1),
      Chars letter 2 None, Word_Bound]"

definition separator :: rx where
  "separator = Chars (\<lambda>c. c \<in> set ''-.'' \<or> py_space c) 0 (Some 1)"

definition PHONE :: "rx list" where
  "PHONE =
     [Not_After py_digit, Optional [Chars (\<lambda>c. c = CHR ''+'') 0 (Some 1), Chars py_digit 1 (Some 3), separator],
      Chars (\<lambda>c. c = CHR ''('') 0 (Some 1), Chars py_digit 3 (Some 3), Chars (\<lambda>c. c = CHR '')'') 0 (Some 1), separator,
      Chars py_digit 3 (Some 3), separator, Chars py_digit 4 (Some 4), Not_Before py_digit]"

definition FLIGHT_NUMBER :: "rx list" where
  "FLIGHT_NUMBER =
     [Word_Bound, Chars letter 2 (Some 3), Chars py_space 0 (Some 1), Chars py_digit 1 (Some 4), Word_Bound]"

definition SCRUB_PATTERNS :: "(rx list \<times> string) list" where
  "SCRUB_PATTERNS =
     [(TAIL_NUMBER, ''[REDACTED:TAIL_NUMBER]''), (FLIGHT_NUMBER, ''[REDACTED:FLIGHT_NUMBER]''),
      (EMAIL, ''[REDACTED:EMAIL]''), (PHONE, ''[REDACTED:PHONE]''), (EMPLOYEE_ID, ''[REDACTED:EMPLOYEE_ID]'')]"

text \<open>The cleaned text and the texts replaced.\<close>

definition run_deidentification :: "string \<Rightarrow> string \<times> string list" where
  "run_deidentification narrative =
     fold (\<lambda>(pat, token) (cleaned, replacements). (re_sub pat token cleaned, replacements @ re_findall pat cleaned))
       SCRUB_PATTERNS (narrative, [])"

definition MIN_NARRATIVE_WORDS :: nat where
  "MIN_NARRATIVE_WORDS = 20"

text \<open>\<open>None\<close> is the \<open>DeidentificationRequiredError\<close>.\<close>

definition assert_acceptable_narrative :: "string \<Rightarrow> string option" where
  "assert_acceptable_narrative narrative =
     (let cleaned = fst (run_deidentification narrative)
      in if length (py_split cleaned) < MIN_NARRATIVE_WORDS then None else Some cleaned)"

section \<open>Patterns of whole words\<close>

text \<open>
  A pattern whose body reads word characters only, between two word boundaries, matches exactly whole words.  One pass
  over the text then leaves no word that the pattern matches: the word boundaries of what is kept are those of the text.
\<close>

fun word_item :: "rx \<Rightarrow> bool" where
  "word_item (Chars P least most) = (\<forall>c. P c \<longrightarrow> word_char c)"
| "word_item _ = False"

abbreviation word_run :: "string \<Rightarrow> string" where
  "word_run s \<equiv> takeWhile word_char s"

lemma takeWhile_of_take: "takeWhile P (take n s) = take n (takeWhile P s)"
  by (induction s arbitrary: n) (auto simp: take_Cons')

lemma run_length_le: "run_length P most s \<le> length (takeWhile P s)"
  unfolding run_length_def
  by (cases most) (simp_all add: takeWhile_of_take min_def)

lemma run_length_word:
  assumes "\<And>c. P c \<Longrightarrow> word_char c" and "word_run s = word_run t"
  shows "run_length P most s = run_length P most t"
proof -
  have *: "takeWhile P s = takeWhile P (word_run s)" for s
    by (induction s) (use assms(1) in auto)
  have "takeWhile P s = takeWhile P t" using * [of s] * [of t] assms(2) by simp
  then show ?thesis unfolding run_length_def by (cases most) (simp_all add: takeWhile_of_take)
qed

lemma run_length_word_le:
  assumes "\<And>c. P c \<Longrightarrow> word_char c"
  shows "run_length P most s \<le> length (word_run s)"
proof -
  have "length (takeWhile P s) \<le> length (word_run s)" by (induction s) (use assms in auto)
  then show ?thesis using run_length_le le_trans by blast
qed

lemma word_run_drop: "i \<le> length (word_run s) \<Longrightarrow> word_run (drop i s) = drop i (word_run s)"
  by (induction s arbitrary: i) (auto simp: drop_Cons' split: if_splits)

lemma ends_word_cong:
  "list_all word_item rs \<Longrightarrow> word_run s = word_run t \<Longrightarrow> ends rs p s = ends rs q t"
proof (induction rs arbitrary: p q s t)
  case (Cons r rs)
  then obtain P least most where r: "r = Chars P least most" and w: "\<And>c. P c \<Longrightarrow> word_char c"
    by (cases r) auto
  have "ends rs (before p s i) (drop i s) = ends rs (before q t i) (drop i t)" if "i \<le> run_length P most s" for i
  proof -
    have "i \<le> length (word_run s)" using run_length_word_le [OF w] that le_trans by blast
    then show ?thesis using Cons by (intro Cons.IH) (simp_all add: word_run_drop)
  qed
  moreover have "run_length P most t = run_length P most s" using run_length_word [of P t s] w Cons.prems(2) by simp
  ultimately show ?case
    unfolding r ends.simps by (intro arg_cong [where f = concat] map_cong) (auto simp del: upt_Suc)
qed simp

lemma ends_word_le: "list_all word_item rs \<Longrightarrow> n \<in> set (ends rs p s) \<Longrightarrow> n \<le> length (word_run s)"
proof (induction rs arbitrary: p s n)
  case (Cons r rs)
  then obtain P least most where r: "r = Chars P least most" and w: "\<And>c. P c \<Longrightarrow> word_char c"
    by (cases r) auto
  obtain i m where i: "i \<le> run_length P most s" "n = i + m" "m \<in> set (ends rs (before p s i) (drop i s))"
    using Cons.prems(2) unfolding r by (fastforce simp del: upt_Suc simp: less_Suc_eq_le)
  have "i \<le> length (word_run s)" using run_length_word_le [OF w] i(1) le_trans by blast
  moreover have "m \<le> length (word_run (drop i s))" using Cons.IH [OF _ i(3)] Cons.prems(1) by simp
  ultimately show ?case using i(2) by (simp add: word_run_drop)
qed simp

lemma before_before: "i \<le> length s \<Longrightarrow> before (before p s i) (drop i s) m = before p s (i + m)"
  by (cases "m = 0") (auto simp: before_def nth_drop)

lemma ends_bound:
  "list_all word_item rs \<Longrightarrow>
   ends (rs @ [Word_Bound]) p s = filter (\<lambda>n. at_boundary (before p s n) (drop n s)) (ends rs p s)"
proof (induction rs arbitrary: p s)
  case Nil
  then show ?case by (simp add: before_def)
next
  case (Cons r rs)
  then obtain P least most where r: "r = Chars P least most" by (cases r) auto
  have "map ((+) i) (ends (rs @ [Word_Bound]) (before p s i) (drop i s)) =
      filter (\<lambda>n. at_boundary (before p s n) (drop n s)) (map ((+) i) (ends rs (before p s i) (drop i s)))"
    if "i \<le> run_length P most s" for i
  proof -
    have "i \<le> length s" using that run_length_le [of P most s] length_takeWhile_le [of P s] by linarith
    then show ?thesis using Cons
      by (simp add: filter_map comp_def before_before add.commute)
  qed
  then show ?case unfolding r append_Cons ends.simps filter_concat map_map comp_def
    by (intro arg_cong [where f = concat] map_cong) auto
qed

text \<open>A place from which a word starts is one where the pattern matches if it matches the word.\<close>

lemma at_boundary_word:
  assumes "0 < n" "n \<le> length (word_run s)"
  shows "at_boundary (before p s n) (drop n s) \<longleftrightarrow> n = length (word_run s)"
proof -
  have "word_run s ! (n - 1) = s ! (n - 1)" "n - 1 < length (word_run s)" using assms by (simp_all add: takeWhile_nth)
  then have w: "word_char (s ! (n - 1))" using nth_mem set_takeWhileD by metis
  have "holds_at word_char (first_char (drop n s)) \<longleftrightarrow> n < length (word_run s)"
  proof (cases "n < length (word_run s)")
    case True
    then have "word_run s ! n = s ! n" "n < length s" using takeWhile_nth length_takeWhile_le less_le_trans by blast+
    then have "word_char (s ! n)" using True nth_mem set_takeWhileD by metis
    then show ?thesis using True \<open>n < length s\<close> by (simp add: Cons_nth_drop_Suc [symmetric] first_char_def holds_at_def)
  next
    case False
    then have "drop n s = dropWhile word_char s" using assms(2) by (simp add: dropWhile_eq_drop)
    then show ?thesis using False
      by (cases "dropWhile word_char s") (auto simp: first_char_def holds_at_def dest: dropWhile_head)
  qed
  then show ?thesis using w assms by (auto simp: at_boundary_def before_def holds_at_def)
qed

lemma at_boundary_start: "at_boundary p s \<longleftrightarrow> holds_at word_char p \<noteq> (word_run s \<noteq> [])"
  by (cases s) (simp_all add: at_boundary_def first_char_def holds_at_def)

definition starts_word :: "char option \<Rightarrow> string \<Rightarrow> bool" where
  "starts_word p s \<longleftrightarrow> \<not> holds_at word_char p \<and> word_run s \<noteq> []"

text \<open>No match anywhere in a text.\<close>

fun unmatched :: "rx list \<Rightarrow> char option \<Rightarrow> string \<Rightarrow> bool" where
  "unmatched pat p [] = (ends pat p [] = [])"
| "unmatched pat p (c # s) = (ends pat p (c # s) = [] \<and> unmatched pat (Some c) s)"

definition bounded :: "rx list \<Rightarrow> rx list" where
  "bounded body = Word_Bound # body @ [Word_Bound]"

locale word_pattern =
  fixes body :: "rx list" and token :: string
  assumes body_words: "list_all word_item body"
    and body_not_empty: "0 \<notin> set (ends body p s)"
    and token_unmatched: "unmatched (bounded body) p token"
    and token_closed: "token \<noteq> []" "\<not> word_char (hd token)" "\<not> word_char (last token)"
begin

lemma ends_pat:
  "ends (bounded body) p s = (if starts_word p s then filter (\<lambda>n. n = length (word_run s)) (ends body p s) else [])"
proof -
  have b: "filter (\<lambda>n. at_boundary (before p s n) (drop n s)) (ends body p s) =
      filter (\<lambda>n. n = length (word_run s)) (ends body p s)"
  proof (rule filter_cong [OF refl])
    fix n assume "n \<in> set (ends body p s)"
    then have "0 < n" "n \<le> length (word_run s)"
      using body_not_empty [of p s] ends_word_le [OF body_words] by (metis gr0I, blast)
    then show "at_boundary (before p s n) (drop n s) \<longleftrightarrow> n = length (word_run s)" by (rule at_boundary_word)
  qed
  have e: "ends body p s = []" if "word_run s = []"
  proof -
    have "n = 0" if "n \<in> set (ends body p s)" for n using ends_word_le [OF body_words that] \<open>word_run s = []\<close> by simp
    then show ?thesis using body_not_empty by (metis last_in_set)
  qed
  show ?thesis
    unfolding bounded_def ends.simps ends_bound [OF body_words] b
    using e by (cases "word_run s = []") (simp_all add: at_boundary_start starts_word_def)
qed

lemma ends_pat_cong:
  "word_run s = word_run t \<Longrightarrow> word_run s = [] \<or> holds_at word_char p = holds_at word_char q \<Longrightarrow> ends (bounded body) p s = ends (bounded body) q t"
  using ends_word_cong [OF body_words, of s t p q] unfolding ends_pat starts_word_def
  by (cases "word_run t = []") simp_all

lemma hit_whole_word:
  assumes "ends (bounded body) p s = Suc n # ns"
  shows "starts_word p s" "word_run s = take (Suc n) s" "Suc n = length (word_run s)"
proof -
  have "Suc n \<in> set (ends (bounded body) p s)" using assms by simp
  then show "starts_word p s" and n: "Suc n = length (word_run s)" unfolding ends_pat by (auto split: if_splits)
  show "word_run s = take (Suc n) s" using n by (metis takeWhile_eq_take)
qed

lemma hit_pos: "n \<in> set (ends (bounded body) p s) \<Longrightarrow> 0 < n"
  unfolding ends_pat using body_not_empty [of p s] by (cases n) (auto split: if_splits)

lemma hit_text: "ends (bounded body) p s \<noteq> [] \<Longrightarrow> s \<noteq> []"
  by (auto simp: ends_pat starts_word_def)

lemma scan_word:
  assumes "holds_at word_char p"
  shows "word_run (render token (scan (bounded body) p s)) = word_run s"
  using assms
proof (induction s arbitrary: p)
  case (Cons c s)
  have "ends (bounded body) p (c # s) = []" using Cons.prems by (simp add: ends_pat starts_word_def)
  then have "render token (scan (bounded body) p (c # s)) = c # render token (scan (bounded body) (Some c) s)" by (simp add: render_def)
  then show ?case using Cons.IH [of "Some c"] by (simp add: holds_at_def)
qed (simp add: render_def)

lemma unmatched_token:
  "unmatched (bounded body) p token' \<Longrightarrow> token' \<noteq> [] \<Longrightarrow> \<not> word_char (last token') \<Longrightarrow> unmatched (bounded body) (Some (last token')) s \<Longrightarrow>
   unmatched (bounded body) p (token' @ s)"
proof (induction token' arbitrary: p)
  case (Cons c t)
  have "word_run (c # t @ s) = word_run (c # t)"
    using Cons.prems(3) by (metis append_Cons last_in_set list.distinct(1) takeWhile_append1)
  then have "ends (bounded body) p (c # t @ s) = ends (bounded body) p (c # t)" by (intro ends_pat_cong) simp_all
  then show ?case using Cons by (cases "t = []") auto
qed simp

lemma sub_unmatched:
  assumes "word_run s = [] \<or> holds_at word_char p = holds_at word_char q"
  shows "unmatched (bounded body) q (render token (scan (bounded body) p s))"
  using assms
proof (induction s arbitrary: p q rule: length_induct)
  case (1 s)
  show ?case
  proof (cases "ends (bounded body) p s")
    case Nil
    show ?thesis
    proof (cases s)
      case (Cons c s')
      have tail: "unmatched (bounded body) (Some c) (render token (scan (bounded body) (Some c) s'))"
        using 1 Cons by simp
      have "word_run (c # render token (scan (bounded body) (Some c) s')) = word_run s"
        using scan_word [of "Some c"] Cons by (simp add: holds_at_def)
      then have "ends (bounded body) q (c # render token (scan (bounded body) (Some c) s')) = []"
        using ends_pat_cong [of _ s q p] "1.prems" Nil by auto
      then show ?thesis using tail Nil Cons by (simp add: render_def)
    qed (simp add: render_def ends_pat starts_word_def)
  next
    case (Cons m ms)
    obtain n where m: "m = Suc n" and s: "s \<noteq> []"
      using Cons hit_pos [of m p s] hit_text [of p s] by (cases m) auto
    note hit = hit_whole_word [OF Cons [unfolded m]]
    have after: "word_run (drop (Suc n) s) = []" unfolding hit(3) by (simp add: word_run_drop)
    have "unmatched (bounded body) (Some (last token)) (render token (scan (bounded body) (before p s (Suc n)) (drop (Suc n) s)))"
      using "1.IH" after s by simp
    then have "unmatched (bounded body) q (token @ render token (scan (bounded body) (before p s (Suc n)) (drop (Suc n) s)))"
      by (rule unmatched_token [OF token_unmatched token_closed(1,3)])
    then show ?thesis using Cons m s by (cases s) (simp_all add: render_def)
  qed
qed

end

section \<open>The passes of the scrub\<close>

definition tail_number_body :: "rx list" where
  "tail_number_body =
     [Chars (\<lambda>c. c = CHR ''N'' \<or> c = CHR ''n'') 1 (Some 1), Chars py_digit 1 (Some 5), Chars letter 0 (Some 2)]"

definition employee_id_body :: "rx list" where
  "employee_id_body = [Chars py_digit 6 (Some 8)]"

lemma bounded_patterns:
  "TAIL_NUMBER = bounded tail_number_body" "EMPLOYEE_ID = bounded employee_id_body"
  by (simp_all add: TAIL_NUMBER_def EMPLOYEE_ID_def bounded_def tail_number_body_def employee_id_body_def)

lemmas char_class_defs = word_char_def letter_def py_digit_def

lemmas match_defs = at_boundary_def first_char_def holds_at_def run_length_def before_def char_class_defs

interpretation employee_id: word_pattern employee_id_body "''[REDACTED:EMPLOYEE_ID]''"
proof unfold_locales
  show "list_all word_item employee_id_body" by (simp add: employee_id_body_def word_char_def)
  show "0 \<notin> set (ends employee_id_body p s)" for p s by (auto simp: employee_id_body_def simp del: upt_Suc)
  show "unmatched (bounded employee_id_body) p ''[REDACTED:EMPLOYEE_ID]''" for p
    by (simp add: bounded_def employee_id_body_def match_defs)
qed (simp_all add: char_class_defs)

interpretation tail_number: word_pattern tail_number_body "''[REDACTED:TAIL_NUMBER]''"
proof unfold_locales
  show "list_all word_item tail_number_body" by (simp add: tail_number_body_def char_class_defs)
  show "0 \<notin> set (ends tail_number_body p s)" for p s by (auto simp: tail_number_body_def simp del: upt_Suc)
  show "unmatched (bounded tail_number_body) p ''[REDACTED:TAIL_NUMBER]''" for p
    by (simp add: bounded_def tail_number_body_def match_defs)
qed (simp_all add: char_class_defs)

text \<open>A pass keeps everything outside its matches.\<close>

fun piece_text :: "piece \<Rightarrow> string" where
  "piece_text (Keep c) = [c]"
| "piece_text (Hit m) = m"

lemma scan_text: "concat (map piece_text (scan pat p s)) = s"
proof (induction pat p s rule: scan.induct)
  case (2 pat p c s)
  then show ?case by (auto split: list.splits nat.splits)
qed simp

lemma unmatched_at:
  "unmatched pat p (a @ s) \<Longrightarrow> ends pat (if a = [] then p else Some (last a)) s = []"
proof (induction a arbitrary: p)
  case Nil
  then show ?case by (cases s) simp_all
next
  case (Cons c a)
  then show ?case by (cases "a = []") auto
qed

lemma run_deidentification_last:
  obtains x where "fst (run_deidentification narrative) = re_sub EMPLOYEE_ID ''[REDACTED:EMPLOYEE_ID]'' x"
  by (rule that) (simp add: run_deidentification_def SCRUB_PATTERNS_def)

lemma cleaned_unmatched: "unmatched EMPLOYEE_ID None (fst (run_deidentification narrative))"
proof -
  obtain x where "fst (run_deidentification narrative) = re_sub EMPLOYEE_ID ''[REDACTED:EMPLOYEE_ID]'' x"
    by (rule run_deidentification_last)
  then show ?thesis using employee_id.sub_unmatched [of x None None] by (simp add: re_sub_def bounded_patterns)
qed

lemma employee_id_found:
  assumes "list_all py_digit w" and "6 \<le> length w" and "length w \<le> 8"
    and "\<not> holds_at word_char p" and "b = [] \<or> \<not> word_char (hd b)"
  shows "ends EMPLOYEE_ID p (w @ b) \<noteq> []"
proof -
  have ws: "\<And>c. c \<in> set w \<Longrightarrow> py_digit c" using assms(1) by (simp add: list_all_iff)
  then have "\<And>c. c \<in> set w \<Longrightarrow> word_char c" by (simp add: word_char_def)
  then have run: "word_run (w @ b) = w" using assms(5) by (cases b) (simp_all add: takeWhile_append)
  have "takeWhile py_digit (take 8 w) = take 8 w" using ws by (auto simp: takeWhile_eq_all_conv dest: in_set_takeD)
  then have "length w \<le> run_length py_digit (Some 8) (w @ b)"
    using assms(3) ws by (simp add: run_length_def takeWhile_append)
  then have "length w \<in> set (ends employee_id_body p (w @ b))"
    using assms(2) by (auto simp: employee_id_body_def simp del: upt_Suc)
  then show ?thesis
    unfolding bounded_patterns employee_id.ends_pat run starts_word_def using assms(2,4)
    by (auto simp: filter_empty_conv)
qed

section \<open>Properties\<close>

text \<open>C37: no employee number survives the scrub: whatever the narrative, the cleaned text contains no six to eight
  digits that stand as a word of their own.\<close>

theorem employee_id_redacted:
  assumes "list_all py_digit w" and "6 \<le> length w" and "length w \<le> 8"
    and "a = [] \<or> \<not> word_char (last a)" and "b = [] \<or> \<not> word_char (hd b)"
  shows "fst (run_deidentification narrative) \<noteq> a @ w @ b"
proof
  assume "fst (run_deidentification narrative) = a @ w @ b"
  then have "ends EMPLOYEE_ID (if a = [] then None else Some (last a)) (w @ b) = []"
    using cleaned_unmatched [of narrative] unmatched_at by metis
  moreover have "\<not> holds_at word_char (if a = [] then None else Some (last a))"
    using assms(4) by (auto simp add: holds_at_def)
  ultimately show False using employee_id_found [OF assms(1,2,3) _ assms(5)] by metis
qed

theorem employee_id_redacted_witness:
  "fst (run_deidentification ''Captain 1234567 called in.'') \<noteq> ''Captain '' @ ''1234567'' @ '' called in.''"
  by (rule employee_id_redacted) (simp_all add: char_class_defs)

text \<open>The passes are not closed under each other: the telephone pass can expose a tail number that the tail-number
  pass, which ran before, did not see, and the cleaned text then still carries it as a word of its own.\<close>

lemma tail_number_survives:
  "run_deidentification ''5551234567N12345'' = (''[REDACTED:PHONE]N12345'', [''5551234567''])
   \<and> re_findall TAIL_NUMBER ''[REDACTED:PHONE]N12345'' = [''N12345'']"
  by code_simp

end
