(* ===== verification/Tenancy.thy ===== *)
theory Tenancy
  imports Store Keyset Deidentification
begin

text \<open>
  The private side of the platform: tenants store sources, ingestion runs, claims, overlays and safety reports
  beside the public record, and their use is metered.  Entities of \<open>domain/tenancy\<close> and \<open>domain/metering\<close>, the
  statements of \<open>repositories/tenancy.py\<close> and \<open>repositories/metering.py\<close>, and the use cases of \<open>use_cases/tenancy.py\<close>,
  \<open>tenant_ingestion.py\<close> and \<open>metering.py\<close>.

  The public store is read only and passed as \<open>d\<close>.  \<open>fresh\<close> gives the identifiers \<open>uuid4\<close> draws during an
  operation, and \<open>conc\<close> is what other transactions commit between a check and the write that relies on it.
\<close>

section \<open>Entities\<close>

record tenant =
  tn_id :: uuid
  tn_slug :: string
  tn_display_name :: string
  tn_is_active :: bool
  tn_created_at :: time

record tenant_source =
  ts_id :: uuid
  ts_tenant_id :: uuid
  ts_name :: string
  ts_kind :: string
  ts_reliability_tier :: int
  ts_created_at :: time

datatype tenant_run_status = RUN_RUNNING | RUN_SUCCEEDED | RUN_FAILED

record tenant_ingestion_run =
  tr_id :: uuid
  tr_tenant_id :: uuid
  tr_tenant_source_id :: uuid
  tr_status :: tenant_run_status
  tr_started_at :: time
  tr_finished_at :: "time option"

datatype tenant_claim_kind = FOQA | ASAP | OTHER

record tenant_claim =
  tc_id :: uuid
  tc_tenant_id :: uuid
  tc_event_id :: uuid
  tc_tenant_source_id :: uuid
  tc_tenant_ingestion_run_id :: "uuid option"
  tc_field_name :: string
  tc_field_value :: json
  tc_claim_kind :: tenant_claim_kind
  tc_confidence :: "rat option"
  tc_created_at :: time

record tenant_event_overlay =
  to_id :: uuid
  to_tenant_id :: uuid
  to_event_id :: uuid
  to_notes_markdown :: "string option"
  to_overlay_fields :: "(string \<times> json) list"
  to_created_at :: time
  to_updated_at :: time

datatype safety_report_kind = FOQA_REPORT | ASAP_REPORT | OTHER_REPORT

record tenant_safety_report =
  sr_id :: uuid
  sr_tenant_id :: uuid
  sr_report_kind :: safety_report_kind
  sr_narrative_markdown :: string
  sr_deidentified_attested :: bool
  sr_external_report_ref :: "string option"
  sr_submitter_user_id :: uuid
  sr_created_at :: time

datatype association_kind = RELATED | CONTRIBUTED_TO | PRECEDED

record tenant_event_association =
  ta_id :: uuid
  ta_tenant_id :: uuid
  ta_event_id :: uuid
  ta_claim_id :: "uuid option"
  ta_safety_report_id :: "uuid option"
  ta_association_kind :: association_kind
  ta_note :: "string option"
  ta_created_by_user_id :: uuid
  ta_created_at :: time

datatype metric_kind =
    TENANT_CLAIM_INGESTED | TENANT_REPORT_FILED | TENANT_INGESTION_RUN_COMPLETED
  | NL_QUERY_EXECUTED | HFACS_ATTRIBUTION_CREATED | ECHO_CROSSREF_RUN

record usage_event =
  ue_id :: uuid
  ue_metric_kind :: metric_kind
  ue_tenant_id :: "uuid option"
  ue_user_id :: "uuid option"
  ue_resource_id :: "uuid option"
  ue_recorded_at :: time

text \<open>Days are proleptic ordinals as in \<open>date.toordinal\<close>.\<close>

record usage_daily_rollup =
  ur_id :: uuid
  ur_tenant_id :: uuid
  ur_metric_kind :: metric_kind
  ur_day :: int
  ur_count :: nat
  ur_computed_at :: time

record tenant_db =
  tb_tenants :: "tenant list"
  tb_sources :: "tenant_source list"
  tb_runs :: "tenant_ingestion_run list"
  tb_claims :: "tenant_claim list"
  tb_overlays :: "tenant_event_overlay list"
  tb_reports :: "tenant_safety_report list"
  tb_associations :: "tenant_event_association list"
  tb_usage :: "usage_event list"
  tb_rollups :: "usage_daily_rollup list"

datatype tenant_error =
    TenantNotFoundError
  | CrossTenantAccessError uuid uuid
  | TenantSourceAlreadyExistsError uuid string
  | TenantSourceNotFoundError
  | TenantIngestionRunNotFoundError
  | TenantIngestionRunClosedError
  | TenantClaimBatchTooLargeError nat
  | DeidentificationRequiredError
  | TenantClaimUnknownEventError "uuid list"
  | Insufficient_Tenant_Role
  | Tenant_Validation_Error
  | Tenant_Foreign_Key_Error
  | Date_Overflow

section \<open>Repositories\<close>

definition tenant_known :: "uuid \<Rightarrow> tenant_db \<Rightarrow> bool" where
  "tenant_known t s \<longleftrightarrow> t \<in> tn_id ` set (tb_tenants s)"

text \<open>
  The repositories compare the tenant of a row with their argument before they write; the use cases build every
  row with that tenant, so the comparison cannot fail here and is left out.
\<close>

definition sources_add :: "tenant_source \<Rightarrow> tenant_db \<Rightarrow> tenant_error + tenant_db" where
  "sources_add src s =
     (if list_ex (\<lambda>r. ts_tenant_id r = ts_tenant_id src \<and> ts_name r = ts_name src) (tb_sources s)
      then Inl (TenantSourceAlreadyExistsError (ts_tenant_id src) (ts_name src))
      else if \<not> tenant_known (ts_tenant_id src) s then Inl Tenant_Foreign_Key_Error
      else Inr (s\<lparr>tb_sources := tb_sources s @ [src]\<rparr>))"

definition tenant_sources_get :: "uuid \<Rightarrow> uuid \<Rightarrow> tenant_db \<Rightarrow> tenant_source option" where
  "tenant_sources_get tenant_id source_id s =
     find (\<lambda>r. ts_id r = source_id \<and> ts_tenant_id r = tenant_id) (tb_sources s)"

definition tenant_sources_list :: "uuid \<Rightarrow> tenant_db \<Rightarrow> tenant_source list" where
  "tenant_sources_list tenant_id s = sort_key ts_name (filter (\<lambda>r. ts_tenant_id r = tenant_id) (tb_sources s))"

definition tenant_runs_add :: "tenant_ingestion_run \<Rightarrow> tenant_db \<Rightarrow> tenant_db" where
  "tenant_runs_add run s = s\<lparr>tb_runs := tb_runs s @ [run]\<rparr>"

definition tenant_runs_get :: "uuid \<Rightarrow> uuid \<Rightarrow> tenant_db \<Rightarrow> tenant_ingestion_run option" where
  "tenant_runs_get tenant_id run_id s = find (\<lambda>r. tr_id r = run_id \<and> tr_tenant_id r = tenant_id) (tb_runs s)"

definition tenant_runs_update_status ::
  "uuid \<Rightarrow> uuid \<Rightarrow> tenant_run_status \<Rightarrow> time option \<Rightarrow> tenant_db \<Rightarrow> tenant_db" where
  "tenant_runs_update_status tenant_id run_id status finished_at s =
     s\<lparr>tb_runs := row_update (\<lambda>r. tr_id r = run_id \<and> tr_tenant_id r = tenant_id)
         (\<lambda>r. r\<lparr>tr_status := status, tr_finished_at := finished_at\<rparr>) (tb_runs s)\<rparr>"

definition tenant_claims_add_many :: "tenant_claim list \<Rightarrow> tenant_db \<Rightarrow> tenant_db" where
  "tenant_claims_add_many claims s = s\<lparr>tb_claims := tb_claims s @ claims\<rparr>"

definition tenant_claims_by_kind :: "uuid \<Rightarrow> uuid \<Rightarrow> tenant_claim_kind \<Rightarrow> tenant_db \<Rightarrow> tenant_claim list" where
  "tenant_claims_by_kind tenant_id event_id kind s =
     sort_key tc_created_at
       (filter (\<lambda>c. tc_tenant_id c = tenant_id \<and> tc_event_id c = event_id \<and> tc_claim_kind c = kind) (tb_claims s))"

definition overlays_get :: "uuid \<Rightarrow> uuid \<Rightarrow> tenant_db \<Rightarrow> tenant_event_overlay option" where
  "overlays_get tenant_id event_id s =
     find (\<lambda>r. to_tenant_id r = tenant_id \<and> to_event_id r = event_id) (tb_overlays s)"

text \<open>The stored row after \<open>ON CONFLICT (tenant_id, event_id) DO UPDATE\<close>, which keeps the identifier.\<close>

definition overlay_merged :: "tenant_event_overlay \<Rightarrow> tenant_event_overlay \<Rightarrow> tenant_event_overlay" where
  "overlay_merged new r =
     r\<lparr>to_notes_markdown := to_notes_markdown new, to_overlay_fields := to_overlay_fields new,
       to_updated_at := to_updated_at new\<rparr>"

definition overlays_upsert ::
  "tenant_event_overlay \<Rightarrow> tenant_db \<Rightarrow> tenant_error + (tenant_event_overlay \<times> tenant_db)" where
  "overlays_upsert new s =
     (case overlays_get (to_tenant_id new) (to_event_id new) s of
        Some r \<Rightarrow>
          Inr (overlay_merged new r,
               s\<lparr>tb_overlays := row_update (\<lambda>x. to_tenant_id x = to_tenant_id new \<and> to_event_id x = to_event_id new)
                   (overlay_merged new) (tb_overlays s)\<rparr>)
      | None \<Rightarrow>
          if \<not> tenant_known (to_tenant_id new) s then Inl Tenant_Foreign_Key_Error
          else Inr (new, s\<lparr>tb_overlays := tb_overlays s @ [new]\<rparr>))"

definition overlay_key :: "tenant_event_overlay \<Rightarrow> time \<times> uuid" where
  "overlay_key r = (to_updated_at r, to_id r)"

definition overlays_list_for_tenant ::
  "uuid \<Rightarrow> nat \<Rightarrow> uuid option \<Rightarrow> tenant_db \<Rightarrow> tenant_event_overlay list \<times> uuid option" where
  "overlays_list_for_tenant tenant_id limit after_id s =
     keyset_page to_id overlay_key limit
       (case after_id of
          None \<Rightarrow> None
        | Some i \<Rightarrow> (case row_get to_id i (tb_overlays s) of
              None \<Rightarrow> None
            | Some c \<Rightarrow> if to_tenant_id c = tenant_id then Some (to_updated_at c, i) else None))
       (filter (\<lambda>r. to_tenant_id r = tenant_id) (tb_overlays s))"

definition reports_add :: "tenant_safety_report \<Rightarrow> tenant_db \<Rightarrow> tenant_error + tenant_db" where
  "reports_add report s =
     (if \<not> tenant_known (sr_tenant_id report) s then Inl Tenant_Foreign_Key_Error
      else Inr (s\<lparr>tb_reports := tb_reports s @ [report]\<rparr>))"

definition reports_get :: "uuid \<Rightarrow> uuid \<Rightarrow> tenant_db \<Rightarrow> tenant_safety_report option" where
  "reports_get tenant_id report_id s =
     find (\<lambda>r. sr_id r = report_id \<and> sr_tenant_id r = tenant_id) (tb_reports s)"

definition associations_add :: "tenant_event_association \<Rightarrow> db \<Rightarrow> tenant_db \<Rightarrow> tenant_error + tenant_db" where
  "associations_add a d s =
     (if events_get (ta_event_id a) d = None then Inl Tenant_Foreign_Key_Error
      else Inr (s\<lparr>tb_associations := tb_associations s @ [a]\<rparr>))"

definition associations_for_event :: "uuid \<Rightarrow> uuid \<Rightarrow> tenant_db \<Rightarrow> tenant_event_association list" where
  "associations_for_event tenant_id event_id s =
     sort_key ta_created_at
       (filter (\<lambda>a. ta_tenant_id a = tenant_id \<and> ta_event_id a = event_id) (tb_associations s))"

definition find_existing_ids :: "uuid list \<Rightarrow> db \<Rightarrow> uuid list" where
  "find_existing_ids ids d = filter (\<lambda>i. events_get i d \<noteq> None) ids"

section \<open>Metering service\<close>

definition usage_add_many :: "usage_event list \<Rightarrow> tenant_db \<Rightarrow> tenant_db" where
  "usage_add_many events s = s\<lparr>tb_usage := tb_usage s @ events\<rparr>"

definition metering_record ::
  "(nat \<Rightarrow> uuid) \<Rightarrow> time \<Rightarrow> metric_kind \<Rightarrow> uuid option \<Rightarrow> uuid option \<Rightarrow> uuid option \<Rightarrow> int \<Rightarrow> tenant_db \<Rightarrow> tenant_db" where
  "metering_record fresh now metric_kind tenant_id user_id resource_id quantity s =
     (let n = nat (max 0 quantity)
      in if n = 0 then s
         else usage_add_many
           (map (\<lambda>i. \<lparr>ue_id = fresh i, ue_metric_kind = metric_kind, ue_tenant_id = tenant_id, ue_user_id = user_id,
                      ue_resource_id = resource_id, ue_recorded_at = now\<rparr>) [0..<n]) s)"

section \<open>Use cases: sources and overlays\<close>

text \<open>Who asks: the tenant of the path, the tenant of the key and its role.\<close>

record tenant_caller =
  ca_tenant_id :: uuid
  ca_caller_tenant_id :: uuid
  ca_caller_tenant_role :: string

definition WRITE_TENANT_ROLES :: "string list" where
  "WRITE_TENANT_ROLES = [''OWNER'', ''MEMBER'']"

definition require_write_role :: "string \<Rightarrow> tenant_error + unit" where
  "require_write_role r = (if r \<in> set WRITE_TENANT_ROLES then Inr () else Inl Insufficient_Tenant_Role)"

text \<open>The comparison every use case starts with.\<close>

definition same_tenant :: "tenant_caller \<Rightarrow> tenant_error + unit" where
  "same_tenant c =
     (if ca_caller_tenant_id c \<noteq> ca_tenant_id c
      then Inl (CrossTenantAccessError (ca_caller_tenant_id c) (ca_tenant_id c)) else Inr ())"

definition may_write :: "tenant_caller \<Rightarrow> tenant_error + unit" where
  "may_write c = rbind (same_tenant c) (\<lambda>_. require_write_role (ca_caller_tenant_role c))"

definition register_tenant_source ::
  "(nat \<Rightarrow> uuid) \<Rightarrow> time \<Rightarrow> tenant_caller \<Rightarrow> string \<Rightarrow> string \<Rightarrow> int \<Rightarrow> tenant_db
     \<Rightarrow> tenant_error + (tenant_source \<times> tenant_db)" where
  "register_tenant_source fresh now c name kind reliability_tier s =
     rbind (may_write c) (\<lambda>_.
       if reliability_tier < 1 then Inl Tenant_Validation_Error
       else
         let src = \<lparr>ts_id = fresh 0, ts_tenant_id = ca_tenant_id c, ts_name = name, ts_kind = kind,
               ts_reliability_tier = reliability_tier, ts_created_at = now\<rparr>
         in rbind (sources_add src s) (\<lambda>s1. Inr (src, s1)))"

record tenant_overlay_view =
  ov_event_id :: uuid
  ov_overlay :: "tenant_event_overlay option"
  ov_public_fields :: "(string \<times> pvalue) list"
  ov_public_completeness_score :: rat
  ov_public_projection_version :: int

definition get_tenant_event_overlay ::
  "tenant_caller \<Rightarrow> uuid \<Rightarrow> db \<Rightarrow> tenant_db \<Rightarrow> tenant_error + tenant_overlay_view" where
  "get_tenant_event_overlay c event_id d s =
     rbind (same_tenant c) (\<lambda>_.
       case projections_get event_id d of
         None \<Rightarrow> Inl TenantNotFoundError
       | Some projection \<Rightarrow>
           Inr \<lparr>ov_event_id = event_id, ov_overlay = overlays_get (ca_tenant_id c) event_id s,
                ov_public_fields = pr_fields projection,
                ov_public_completeness_score = pr_completeness_score projection,
                ov_public_projection_version = pr_projection_version projection\<rparr>)"

text \<open>The preview without the ellipsis, and whether one is appended.\<close>

definition preview :: "string \<Rightarrow> string \<times> bool" where
  "preview text =
     (let stripped = py_lstrip (dropWhile (\<lambda>c. c = CHR ''#'') (py_lstrip text));
          one_line = join_space (py_split stripped)
      in if length one_line \<le> 160 then (one_line, False) else (take 159 one_line, True))"

record tenant_event_list_item =
  el_event_id :: uuid
  el_has_overlay :: bool
  el_overlay_updated_at :: time
  el_notes_preview :: "(string \<times> bool) option"

definition TENANT_EVENT_LIST_MAX_LIMIT :: int where
  "TENANT_EVENT_LIST_MAX_LIMIT = 100"

definition list_tenant_events ::
  "tenant_caller \<Rightarrow> int \<Rightarrow> uuid option \<Rightarrow> tenant_db
     \<Rightarrow> tenant_error + (tenant_event_list_item list \<times> uuid option \<times> int)" where
  "list_tenant_events c limit after_id s =
     rbind (same_tenant c) (\<lambda>_.
       let bounded_limit = max 1 (min limit TENANT_EVENT_LIST_MAX_LIMIT);
           (rows, next_cursor) = overlays_list_for_tenant (ca_tenant_id c) (nat bounded_limit) after_id s
       in Inr (map (\<lambda>r. \<lparr>el_event_id = to_event_id r, el_has_overlay = True, el_overlay_updated_at = to_updated_at r,
                  el_notes_preview = (case to_notes_markdown r of
                      None \<Rightarrow> None | Some n \<Rightarrow> if n = [] then None else Some (preview n))\<rparr>) rows,
               next_cursor, bounded_limit))"

definition upsert_tenant_event_overlay ::
  "(nat \<Rightarrow> uuid) \<Rightarrow> time \<Rightarrow> tenant_caller \<Rightarrow> uuid \<Rightarrow> string option \<Rightarrow> (string \<times> json) list option \<Rightarrow> db \<Rightarrow> tenant_db
     \<Rightarrow> tenant_error + (tenant_event_overlay \<times> tenant_db)" where
  "upsert_tenant_event_overlay fresh now c event_id notes_markdown overlay_fields d s =
     rbind (may_write c) (\<lambda>_.
       if projections_get event_id d = None then Inl TenantNotFoundError
       else
         let flds = (case overlay_fields of None \<Rightarrow> [] | Some f \<Rightarrow> f);
             overlay = (case overlays_get (ca_tenant_id c) event_id s of
                 None \<Rightarrow> \<lparr>to_id = fresh 0, to_tenant_id = ca_tenant_id c, to_event_id = event_id,
                          to_notes_markdown = notes_markdown, to_overlay_fields = flds, to_created_at = now,
                          to_updated_at = now\<rparr>
               | Some r \<Rightarrow> r\<lparr>to_notes_markdown := notes_markdown, to_overlay_fields := flds, to_updated_at := now\<rparr>)
         in overlays_upsert overlay s)"

section \<open>Use cases: ingestion\<close>

definition MAX_CLAIMS_PER_BATCH :: nat where
  "MAX_CLAIMS_PER_BATCH = 1000"

definition open_tenant_ingestion_run ::
  "(nat \<Rightarrow> uuid) \<Rightarrow> time \<Rightarrow> tenant_caller \<Rightarrow> uuid \<Rightarrow> tenant_db \<Rightarrow> tenant_error + (tenant_ingestion_run \<times> tenant_db)" where
  "open_tenant_ingestion_run fresh now c tenant_source_id s =
     rbind (may_write c) (\<lambda>_.
       if tenant_sources_get (ca_tenant_id c) tenant_source_id s = None then Inl TenantSourceNotFoundError
       else
         let run = \<lparr>tr_id = fresh 0, tr_tenant_id = ca_tenant_id c, tr_tenant_source_id = tenant_source_id,
               tr_status = RUN_RUNNING, tr_started_at = now, tr_finished_at = None\<rparr>
         in Inr (run, tenant_runs_add run s))"

record incoming_claim =
  ic_event_id :: uuid
  ic_field_name :: string
  ic_field_value :: json
  ic_claim_kind :: tenant_claim_kind
  ic_confidence :: "rat option"

definition confidence_ok :: "rat option \<Rightarrow> bool" where
  "confidence_ok x = (case x of None \<Rightarrow> True | Some q \<Rightarrow> 0 \<le> q \<and> q \<le> 1)"

definition submit_tenant_claims_batch ::
  "(tenant_db \<Rightarrow> tenant_db) \<Rightarrow> (nat \<Rightarrow> uuid) \<Rightarrow> time \<Rightarrow> tenant_caller \<Rightarrow> uuid \<Rightarrow> incoming_claim list \<Rightarrow> db \<Rightarrow> tenant_db
     \<Rightarrow> tenant_error + (nat \<times> tenant_db)" where
  "submit_tenant_claims_batch conc fresh now c run_id claims d s =
     rbind (may_write c) (\<lambda>_.
       if MAX_CLAIMS_PER_BATCH < length claims then Inl (TenantClaimBatchTooLargeError (length claims))
       else if claims = [] then Inr (0, s)
       else (case tenant_runs_get (ca_tenant_id c) run_id s of
           None \<Rightarrow> Inl TenantIngestionRunNotFoundError
         | Some run \<Rightarrow>
             if tr_status run \<noteq> RUN_RUNNING then Inl TenantIngestionRunClosedError
             else
               let unique_event_ids = dict_fromkeys (map ic_event_id claims);
                   existing_ids = find_existing_ids unique_event_ids d;
                   unknown = filter (\<lambda>i. i \<notin> set existing_ids) unique_event_ids
               in if unknown \<noteq> [] then Inl (TenantClaimUnknownEventError unknown)
                  else if \<not> list_all (\<lambda>x. confidence_ok (ic_confidence x)) claims then Inl Tenant_Validation_Error
                  else
                    let persisted = map (\<lambda>(i, x). \<lparr>tc_id = fresh i, tc_tenant_id = ca_tenant_id c,
                          tc_event_id = ic_event_id x, tc_tenant_source_id = tr_tenant_source_id run,
                          tc_tenant_ingestion_run_id = Some (tr_id run), tc_field_name = ic_field_name x,
                          tc_field_value = ic_field_value x, tc_claim_kind = ic_claim_kind x,
                          tc_confidence = ic_confidence x, tc_created_at = now\<rparr>) (List.enumerate 0 claims);
                        s1 = tenant_claims_add_many persisted (conc s);
                        s2 = metering_record (\<lambda>i. fresh (length persisted + i)) now TENANT_CLAIM_INGESTED
                          (Some (ca_tenant_id c)) None (Some (tr_id run)) (int (length persisted)) s1
                    in Inr (length persisted, s2)))"

definition complete_tenant_ingestion_run ::
  "(tenant_db \<Rightarrow> tenant_db) \<Rightarrow> (nat \<Rightarrow> uuid) \<Rightarrow> time \<Rightarrow> tenant_caller \<Rightarrow> uuid \<Rightarrow> tenant_run_status \<Rightarrow> tenant_db
     \<Rightarrow> tenant_error + (tenant_ingestion_run \<times> tenant_db)" where
  "complete_tenant_ingestion_run conc fresh now c run_id final_status s =
     rbind (may_write c) (\<lambda>_.
       if final_status = RUN_RUNNING then Inl TenantIngestionRunClosedError
       else (case tenant_runs_get (ca_tenant_id c) run_id s of
           None \<Rightarrow> Inl TenantIngestionRunNotFoundError
         | Some run \<Rightarrow>
             if tr_status run \<noteq> RUN_RUNNING then Inl TenantIngestionRunClosedError
             else
               let s1 = tenant_runs_update_status (ca_tenant_id c) run_id final_status (Some now) (conc s);
                   s2 = metering_record fresh now TENANT_INGESTION_RUN_COMPLETED (Some (ca_tenant_id c)) None
                     (Some run_id) 1 s1
               in Inr (run\<lparr>tr_status := final_status, tr_finished_at := Some now\<rparr>, s2)))"

record safety_report_input =
  si_submitter_user_id :: uuid
  si_report_kind :: safety_report_kind
  si_narrative_markdown :: string
  si_deidentified_attested :: bool
  si_external_report_ref :: "string option"
  si_associate_with_event_id :: "uuid option"
  si_association_kind :: association_kind
  si_association_note :: "string option"

definition submit_tenant_safety_report ::
  "(nat \<Rightarrow> uuid) \<Rightarrow> time \<Rightarrow> tenant_caller \<Rightarrow> safety_report_input \<Rightarrow> db \<Rightarrow> tenant_db
     \<Rightarrow> tenant_error + ((tenant_safety_report \<times> tenant_event_association option \<times> string list) \<times> tenant_db)" where
  "submit_tenant_safety_report fresh now c inp d s =
     rbind (may_write c) (\<lambda>_.
       if \<not> si_deidentified_attested inp then Inl DeidentificationRequiredError
       else
         let replacements = snd (run_deidentification (si_narrative_markdown inp))
         in (case assert_acceptable_narrative (si_narrative_markdown inp) of
             None \<Rightarrow> Inl DeidentificationRequiredError
           | Some cleaned \<Rightarrow>
           if (case si_associate_with_event_id inp of None \<Rightarrow> False | Some e \<Rightarrow> projections_get e d = None)
           then Inl TenantNotFoundError
           else
             let report = \<lparr>sr_id = fresh 0, sr_tenant_id = ca_tenant_id c, sr_report_kind = si_report_kind inp,
                   sr_narrative_markdown = cleaned, sr_deidentified_attested = True,
                   sr_external_report_ref = si_external_report_ref inp,
                   sr_submitter_user_id = si_submitter_user_id inp, sr_created_at = now\<rparr>;
                 association = map_option (\<lambda>e. \<lparr>ta_id = fresh 1, ta_tenant_id = ca_tenant_id c, ta_event_id = e,
                   ta_claim_id = None, ta_safety_report_id = Some (fresh 0),
                   ta_association_kind = si_association_kind inp, ta_note = si_association_note inp,
                   ta_created_by_user_id = si_submitter_user_id inp, ta_created_at = now\<rparr>)
                   (si_associate_with_event_id inp)
             in rbind (reports_add report s) (\<lambda>s1.
                rbind (case association of None \<Rightarrow> Inr s1 | Some a \<Rightarrow> associations_add a d s1) (\<lambda>s2.
                  Inr ((report, association, replacements),
                       metering_record (\<lambda>i. fresh (2 + i)) now TENANT_REPORT_FILED (Some (ca_tenant_id c))
                         (Some (si_submitter_user_id inp)) (Some (fresh 0)) 1 s2)))))"

record tenant_evidence_view =
  ev_event_id :: uuid
  ev_foqa_claims :: "tenant_claim list"
  ev_asap_claims :: "tenant_claim list"
  ev_other_claims :: "tenant_claim list"
  ev_associated_reports :: "tenant_safety_report list"
  ev_associations :: "tenant_event_association list"

text \<open>The set of report identifiers is walked in the order of the associations.\<close>

definition list_tenant_evidence_for_event ::
  "tenant_caller \<Rightarrow> uuid \<Rightarrow> tenant_db \<Rightarrow> tenant_error + tenant_evidence_view" where
  "list_tenant_evidence_for_event c event_id s =
     rbind (same_tenant c) (\<lambda>_.
       let t = ca_tenant_id c;
           associations = associations_for_event t event_id s;
           report_ids = dict_fromkeys (List.map_filter ta_safety_report_id associations)
       in Inr \<lparr>ev_event_id = event_id, ev_foqa_claims = tenant_claims_by_kind t event_id FOQA s,
               ev_asap_claims = tenant_claims_by_kind t event_id ASAP s,
               ev_other_claims = tenant_claims_by_kind t event_id OTHER s,
               ev_associated_reports = List.map_filter (\<lambda>i. reports_get t i s) report_ids,
               ev_associations = associations\<rparr>)"

section \<open>Use cases: metering\<close>

text \<open>Microseconds of a day, and the ordinals of \<open>date.max\<close>.\<close>

definition DAY_TICKS :: int where
  "DAY_TICKS = 86400000000"

definition MAX_DAY :: int where
  "MAX_DAY = 3652059"

definition NO_TENANT_SENTINEL :: uuid where
  "NO_TENANT_SENTINEL = 0"

definition TENANT_SCOPED_METRICS :: "metric_kind list" where
  "TENANT_SCOPED_METRICS = [TENANT_CLAIM_INGESTED, TENANT_REPORT_FILED, TENANT_INGESTION_RUN_COMPLETED]"

definition SYSTEM_METRICS :: "metric_kind list" where
  "SYSTEM_METRICS = [NL_QUERY_EXECUTED, HFACS_ATTRIBUTION_CREATED]"

definition count_in_range :: "uuid option \<Rightarrow> metric_kind \<Rightarrow> time \<Rightarrow> time \<Rightarrow> tenant_db \<Rightarrow> nat" where
  "count_in_range tenant_id metric start stop s =
     length (filter (\<lambda>u. ue_metric_kind u = metric \<and> start \<le> ue_recorded_at u \<and> ue_recorded_at u < stop
                         \<and> ue_tenant_id u = tenant_id) (tb_usage s))"

definition distinct_tenants_in_range :: "time \<Rightarrow> time \<Rightarrow> tenant_db \<Rightarrow> uuid list" where
  "distinct_tenants_in_range start stop s =
     dict_fromkeys (List.map_filter ue_tenant_id
       (filter (\<lambda>u. start \<le> ue_recorded_at u \<and> ue_recorded_at u < stop) (tb_usage s)))"

definition rollup_cell :: "uuid \<Rightarrow> metric_kind \<Rightarrow> int \<Rightarrow> usage_daily_rollup \<Rightarrow> bool" where
  "rollup_cell tenant_id metric day r \<longleftrightarrow> ur_tenant_id r = tenant_id \<and> ur_metric_kind r = metric \<and> ur_day r = day"

definition rollups_upsert :: "usage_daily_rollup \<Rightarrow> tenant_db \<Rightarrow> tenant_db" where
  "rollups_upsert r s =
     (let same = rollup_cell (ur_tenant_id r) (ur_metric_kind r) (ur_day r)
      in s\<lparr>tb_rollups := (if list_ex same (tb_rollups s)
             then row_update same (\<lambda>x. x\<lparr>ur_count := ur_count r, ur_computed_at := ur_computed_at r\<rparr>) (tb_rollups s)
             else tb_rollups s @ [r])\<rparr>)"

text \<open>Midnight of the day and of the next one; \<open>new\<close> gives the identifier drawn for a cell.\<close>

definition day_bounds :: "int \<Rightarrow> tenant_error + (time \<times> time)" where
  "day_bounds day =
     (if MAX_DAY \<le> day then Inl Date_Overflow else Inr (day * DAY_TICKS, (day + 1) * DAY_TICKS))"

definition rollup_one ::
  "(uuid \<Rightarrow> metric_kind \<Rightarrow> int \<Rightarrow> uuid) \<Rightarrow> time \<Rightarrow> int \<Rightarrow> uuid option \<Rightarrow> uuid \<Rightarrow> metric_kind \<Rightarrow> tenant_db \<Rightarrow> tenant_db" where
  "rollup_one new moment day counted stored metric s =
     rollups_upsert
       \<lparr>ur_id = new stored metric day, ur_tenant_id = stored, ur_metric_kind = metric, ur_day = day,
        ur_count = count_in_range counted metric (day * DAY_TICKS) ((day + 1) * DAY_TICKS) s, ur_computed_at = moment\<rparr> s"

definition rollup_day ::
  "(uuid \<Rightarrow> metric_kind \<Rightarrow> int \<Rightarrow> uuid) \<Rightarrow> time \<Rightarrow> uuid list option \<Rightarrow> int \<Rightarrow> nat \<times> tenant_db
     \<Rightarrow> tenant_error + (nat \<times> tenant_db)" where
  "rollup_day new moment tenant_ids day ns =
     rbind (day_bounds day) (\<lambda>(start, stop).
       let (rows_written, s) = ns;
           day_tenant_ids = (case tenant_ids of Some ids \<Rightarrow> ids | None \<Rightarrow> distinct_tenants_in_range start stop s);
           s1 = fold (\<lambda>t. fold (\<lambda>m. rollup_one new moment day (Some t) t m) TENANT_SCOPED_METRICS) day_tenant_ids s;
           s2 = fold (\<lambda>m. rollup_one new moment day None NO_TENANT_SENTINEL m) SYSTEM_METRICS s1
       in Inr (rows_written + length day_tenant_ids * length TENANT_SCOPED_METRICS + length SYSTEM_METRICS, s2))"

definition compute_daily_rollups ::
  "(uuid \<Rightarrow> metric_kind \<Rightarrow> int \<Rightarrow> uuid) \<Rightarrow> time \<Rightarrow> int \<Rightarrow> int \<Rightarrow> uuid list option \<Rightarrow> tenant_db
     \<Rightarrow> tenant_error + (nat \<times> tenant_db)" where
  "compute_daily_rollups new moment day_from day_to tenant_ids s =
     rfold (rollup_day new moment tenant_ids) [day_from..day_to] (0, s)"

definition rollups_for_tenant :: "uuid \<Rightarrow> int \<Rightarrow> int \<Rightarrow> tenant_db \<Rightarrow> usage_daily_rollup list" where
  "rollups_for_tenant tenant_id day_from day_to s =
     filter (\<lambda>r. ur_tenant_id r = tenant_id \<and> day_from \<le> ur_day r \<and> ur_day r \<le> day_to) (tb_rollups s)"

fun metric_name :: "metric_kind \<Rightarrow> string" where
  "metric_name TENANT_CLAIM_INGESTED = ''TENANT_CLAIM_INGESTED''"
| "metric_name TENANT_REPORT_FILED = ''TENANT_REPORT_FILED''"
| "metric_name TENANT_INGESTION_RUN_COMPLETED = ''TENANT_INGESTION_RUN_COMPLETED''"
| "metric_name NL_QUERY_EXECUTED = ''NL_QUERY_EXECUTED''"
| "metric_name HFACS_ATTRIBUTION_CREATED = ''HFACS_ATTRIBUTION_CREATED''"
| "metric_name ECHO_CROSSREF_RUN = ''ECHO_CROSSREF_RUN''"

definition rollups_list_for_tenant :: "uuid \<Rightarrow> int \<Rightarrow> int \<Rightarrow> tenant_db \<Rightarrow> usage_daily_rollup list" where
  "rollups_list_for_tenant tenant_id day_from day_to s =
     sort_key (\<lambda>r. (ur_day r, metric_name (ur_metric_kind r))) (rollups_for_tenant tenant_id day_from day_to s)"

definition get_tenant_usage :: "tenant_caller \<Rightarrow> int \<Rightarrow> int \<Rightarrow> tenant_db \<Rightarrow> tenant_error + usage_daily_rollup list" where
  "get_tenant_usage c day_from day_to s =
     rbind (same_tenant c) (\<lambda>_. Inr (rollups_list_for_tenant (ca_tenant_id c) day_from day_to s))"

record usage_summary_row =
  us_tenant_id :: "uuid option"
  us_tenant_slug :: "string option"
  us_metric_kind :: metric_kind
  us_total_count :: nat

definition summary_across_tenants :: "int \<Rightarrow> int \<Rightarrow> tenant_db \<Rightarrow> usage_summary_row list" where
  "summary_across_tenants day_from day_to s =
     (let selected = filter (\<lambda>r. day_from \<le> ur_day r \<and> ur_day r \<le> day_to) (tb_rollups s);
          groups = dict_fromkeys (map (\<lambda>r. (ur_tenant_id r, ur_metric_kind r)) selected);
          row = (\<lambda>(t, m).
            \<lparr>us_tenant_id = (if t = NO_TENANT_SENTINEL then None else Some t),
             us_tenant_slug = map_option tn_slug (row_get tn_id t (tb_tenants s)), us_metric_kind = m,
             us_total_count = sum_list (map ur_count (filter (\<lambda>r. ur_tenant_id r = t \<and> ur_metric_kind r = m) selected))\<rparr>)
      in sort_key (\<lambda>u. (case us_tenant_slug u of None \<Rightarrow> (0 :: nat, []) | Some g \<Rightarrow> (1, g),
                        metric_name (us_metric_kind u))) (map row groups))"

definition get_admin_usage_summary :: "int \<Rightarrow> int \<Rightarrow> tenant_db \<Rightarrow> usage_summary_row list" where
  "get_admin_usage_summary day_from day_to s = summary_across_tenants day_from day_to s"

end
