(* ===== verification/Separation.thy ===== *)
theory Separation
  imports Main
begin

text \<open>
  Noninterference between the users of a shared store, after Goguen and Meseguer: a locale with the three unwinding
  conditions, and the proof that what a user is answered does not depend on the requests of other users.  Actions of
  the operator (\<open>who a = None\<close>) are visible to all.  \<open>ids a\<close> are the identifiers an action draws; the invariant may rely
  on them being new.
\<close>

fun run_trace :: "('a \<Rightarrow> 's \<Rightarrow> 'o \<times> 's) \<Rightarrow> 'a list \<Rightarrow> 's \<Rightarrow> ('a \<times> 'o) list \<times> 's" where
  "run_trace step [] s = ([], s)"
| "run_trace step (a # acts) s =
     (let (x, s1) = step a s; (xs, s2) = run_trace step acts s1 in ((a, x) # xs, s2))"

definition answers_to :: "('a \<Rightarrow> 'u option) \<Rightarrow> 'u \<Rightarrow> ('a \<times> 'o) list \<Rightarrow> 'o list" where
  "answers_to who u xs = map snd (filter (\<lambda>(a, x). who a = Some u) xs)"

definition purge :: "('a \<Rightarrow> 'u option) \<Rightarrow> 'u \<Rightarrow> 'a list \<Rightarrow> 'a list" where
  "purge who u acts = filter (\<lambda>a. who a = None \<or> who a = Some u) acts"

fun fresh_ids :: "('a \<Rightarrow> 'i set) \<Rightarrow> 'i set \<Rightarrow> 'a list \<Rightarrow> bool" where
  "fresh_ids ids used [] = True"
| "fresh_ids ids used (a # acts) = (ids a \<inter> used = {} \<and> fresh_ids ids (used \<union> ids a) acts)"

lemma fresh_ids_antimono: "fresh_ids ids used acts \<Longrightarrow> fewer \<subseteq> used \<Longrightarrow> fresh_ids ids fewer acts"
proof (induction acts arbitrary: used fewer)
  case (Cons a acts)
  then show ?case using Cons.IH [of "used \<union> ids a" "fewer \<union> ids a"] by auto
qed simp

lemma run_trace_state: "snd (run_trace step (a # acts) s) = snd (run_trace step acts (snd (step a s)))"
  by (simp add: split_beta Let_def)

text \<open>Histories that draw new identifiers keep an invariant that relies on this.\<close>

locale tracked =
  fixes step :: "'a \<Rightarrow> 's \<Rightarrow> 'o \<times> 's"
    and ids :: "'a \<Rightarrow> 'i set"
    and inv :: "'i set \<Rightarrow> 's \<Rightarrow> bool"
  assumes inv_step: "inv used s \<Longrightarrow> ids a \<inter> used = {} \<Longrightarrow> inv (used \<union> ids a) (snd (step a s))"
begin

lemma run_inv: "inv used s \<Longrightarrow> fresh_ids ids used acts \<Longrightarrow> inv (used \<union> \<Union> (ids ` set acts)) (snd (run_trace step acts s))"
proof (induction acts arbitrary: used s)
  case (Cons a acts)
  have "inv (used \<union> ids a \<union> \<Union> (ids ` set acts)) (snd (run_trace step acts (snd (step a s))))"
    using Cons.IH [OF inv_step [OF Cons.prems(1)]] Cons.prems(2) by simp
  then show ?case unfolding run_trace_state by (simp add: Un_assoc)
qed simp

end

locale separation = tracked step ids inv
  for step :: "'a \<Rightarrow> 's \<Rightarrow> 'o \<times> 's"
    and ids :: "'a \<Rightarrow> 'i set"
    and inv :: "'i set \<Rightarrow> 's \<Rightarrow> bool" +
  fixes who :: "'a \<Rightarrow> 'u option"
    and view :: "'u \<Rightarrow> 's \<Rightarrow> 'v"
    and observer :: "'u \<Rightarrow> bool"
  assumes inv_mono: "inv used s \<Longrightarrow> used \<subseteq> later \<Longrightarrow> inv later s"
    and locally_respects: "who a = Some v \<Longrightarrow> v \<noteq> u \<Longrightarrow> view u (snd (step a s)) = view u s"
    and step_consistent: "observer u \<Longrightarrow> who a = None \<or> who a = Some u \<Longrightarrow> inv used s \<Longrightarrow> inv used t \<Longrightarrow>
      view u s = view u t \<Longrightarrow> view u (snd (step a s)) = view u (snd (step a t))"
    and output_consistent: "who a = Some u \<Longrightarrow> inv used s \<Longrightarrow> inv used t \<Longrightarrow>
      view u s = view u t \<Longrightarrow> fst (step a s) = fst (step a t)"
begin

lemma unwinding:
  assumes "observer u"
  shows "inv used s \<Longrightarrow> inv used t \<Longrightarrow> view u s = view u t \<Longrightarrow> fresh_ids ids used acts \<Longrightarrow>
    answers_to who u (fst (run_trace step acts s)) = answers_to who u (fst (run_trace step (purge who u acts) t))
    \<and> view u (snd (run_trace step acts s)) = view u (snd (run_trace step (purge who u acts) t))"
proof (induction acts arbitrary: used s t)
  case Nil
  then show ?case by (simp add: purge_def)
next
  case (Cons a acts)
  let ?used = "used \<union> ids a"
  have fr: "ids a \<inter> used = {}" "fresh_ids ids ?used acts" using Cons.prems(4) by simp_all
  have inv_s: "inv ?used (snd (step a s))" by (rule inv_step [OF Cons.prems(1) fr(1)])
  show ?case
  proof (cases "who a = None \<or> who a = Some u")
    case True
    have inv_t: "inv ?used (snd (step a t))" by (rule inv_step [OF Cons.prems(2) fr(1)])
    have "view u (snd (step a s)) = view u (snd (step a t))"
      by (rule step_consistent [OF assms True Cons.prems(1,2,3)])
    note IH = Cons.IH [OF inv_s inv_t this fr(2)]
    have "who a = Some u \<Longrightarrow> fst (step a s) = fst (step a t)"
      by (rule output_consistent [OF _ Cons.prems(1,2,3)])
    then show ?thesis
      using True IH by (auto simp: purge_def answers_to_def split_beta Let_def)
  next
    case False
    then obtain v where "who a = Some v" "v \<noteq> u" by auto
    then have "view u (snd (step a s)) = view u t" using locally_respects Cons.prems(3) by simp
    then show ?thesis
      using False Cons.IH [OF inv_s inv_mono [OF Cons.prems(2) Un_upper1] _ fr(2)]
      by (auto simp: purge_def answers_to_def split_beta Let_def)
  qed
qed

text \<open>The answers a user gets, and what it sees of the final state, are those of a run alone with the operator.\<close>

lemma noninterference:
  "observer u \<Longrightarrow> inv used s \<Longrightarrow> fresh_ids ids used acts \<Longrightarrow>
    answers_to who u (fst (run_trace step acts s)) = answers_to who u (fst (run_trace step (purge who u acts) s))
    \<and> view u (snd (run_trace step acts s)) = view u (snd (run_trace step (purge who u acts) s))"
  using unwinding by blast

end

end
