(* ===== verification/Tenant_Isolation.thy ===== *)
theory Tenant_Isolation
  imports Tenancy Separation
begin

text \<open>
  What the private side promises: a tenant cannot learn anything about the others, usage is metered and billed
  exactly, and where concurrent completions of a run break this.
\<close>

section \<open>Histories\<close>

datatype tenant_request =
    Register_Source string string int
  | Get_Overlay uuid
  | List_Events int "uuid option"
  | Put_Overlay uuid "string option" "(string \<times> json) list option"
  | Open_Run uuid
  | Submit_Claims uuid "incoming_claim list"
  | Complete_Run uuid tenant_run_status
  | File_Report safety_report_input
  | List_Evidence uuid
  | Get_Usage int int

datatype tenant_answer =
    Refused tenant_error
  | Source_Registered tenant_source
  | Overlay_View tenant_overlay_view
  | Event_List "tenant_event_list_item list \<times> uuid option \<times> int"
  | Overlay_Stored tenant_event_overlay
  | Run_State tenant_ingestion_run
  | Claims_Inserted nat
  | Report_Filed "tenant_safety_report \<times> tenant_event_association option \<times> string list"
  | Evidence_View tenant_evidence_view
  | Usage_List "usage_daily_rollup list"
  | Rolled_Up nat

text \<open>A refused request is rolled back; a read changes nothing.\<close>

definition written :: "('a \<Rightarrow> tenant_answer) \<Rightarrow> tenant_db \<Rightarrow> tenant_error + ('a \<times> tenant_db) \<Rightarrow> tenant_answer \<times> tenant_db" where
  "written answer s r = (case r of Inl e \<Rightarrow> (Refused e, s) | Inr (x, s') \<Rightarrow> (answer x, s'))"

definition read_only :: "('a \<Rightarrow> tenant_answer) \<Rightarrow> tenant_db \<Rightarrow> tenant_error + 'a \<Rightarrow> tenant_answer \<times> tenant_db" where
  "read_only answer s r = (case r of Inl e \<Rightarrow> Refused e | Inr x \<Rightarrow> answer x, s)"

fun serve :: "tenant_caller \<Rightarrow> (nat \<Rightarrow> uuid) \<Rightarrow> time \<Rightarrow> db \<Rightarrow> tenant_request \<Rightarrow> tenant_db \<Rightarrow> tenant_answer \<times> tenant_db" where
  "serve c fresh now d (Register_Source name kind tier) s =
     written Source_Registered s (register_tenant_source fresh now c name kind tier s)"
| "serve c fresh now d (Get_Overlay e) s = read_only Overlay_View s (get_tenant_event_overlay c e d s)"
| "serve c fresh now d (List_Events limit after) s = read_only Event_List s (list_tenant_events c limit after s)"
| "serve c fresh now d (Put_Overlay e notes flds) s =
     written Overlay_Stored s (upsert_tenant_event_overlay fresh now c e notes flds d s)"
| "serve c fresh now d (Open_Run src) s = written Run_State s (open_tenant_ingestion_run fresh now c src s)"
| "serve c fresh now d (Submit_Claims run claims) s =
     written Claims_Inserted s (submit_tenant_claims_batch (\<lambda>x. x) fresh now c run claims d s)"
| "serve c fresh now d (Complete_Run run status) s =
     written Run_State s (complete_tenant_ingestion_run (\<lambda>x. x) fresh now c run status s)"
| "serve c fresh now d (File_Report inp) s = written Report_Filed s (submit_tenant_safety_report fresh now c inp d s)"
| "serve c fresh now d (List_Evidence e) s = read_only Evidence_View s (list_tenant_evidence_for_event c e s)"
| "serve c fresh now d (Get_Usage day_from day_to) s = read_only Usage_List s (get_tenant_usage c day_from day_to s)"

text \<open>
  An action is a request of some tenant, with the identifiers drawn, the time and the public store it is served with,
  or a rollup the operator runs.
\<close>

datatype tenant_action =
    Ask tenant_caller "nat \<Rightarrow> uuid" time db tenant_request
  | Rollup "uuid \<Rightarrow> metric_kind \<Rightarrow> int \<Rightarrow> uuid" time int int "uuid list option"

fun tenant_step :: "tenant_action \<Rightarrow> tenant_db \<Rightarrow> tenant_answer \<times> tenant_db" where
  "tenant_step (Ask c fresh now d req) s = serve c fresh now d req s"
| "tenant_step (Rollup new moment day_from day_to ids) s =
     written Rolled_Up s (compute_daily_rollups new moment day_from day_to ids s)"

fun asker :: "tenant_action \<Rightarrow> uuid option" where
  "asker (Ask c fresh now d req) = Some (ca_caller_tenant_id c)"
| "asker (Rollup new moment day_from day_to ids) = None"

fun drawn :: "tenant_action \<Rightarrow> uuid set" where
  "drawn (Ask c fresh now d req) = range fresh"
| "drawn (Rollup new moment day_from day_to ids) = {}"

section \<open>What a tenant can see\<close>

definition tenant_part :: "uuid \<Rightarrow> tenant_db \<Rightarrow> tenant_db" where
  "tenant_part u s =
     \<lparr>tb_tenants = filter (\<lambda>r. tn_id r = u) (tb_tenants s), tb_sources = filter (\<lambda>r. ts_tenant_id r = u) (tb_sources s),
      tb_runs = filter (\<lambda>r. tr_tenant_id r = u) (tb_runs s), tb_claims = filter (\<lambda>r. tc_tenant_id r = u) (tb_claims s),
      tb_overlays = filter (\<lambda>r. to_tenant_id r = u) (tb_overlays s),
      tb_reports = filter (\<lambda>r. sr_tenant_id r = u) (tb_reports s),
      tb_associations = filter (\<lambda>r. ta_tenant_id r = u) (tb_associations s),
      tb_usage = filter (\<lambda>r. ue_tenant_id r = Some u) (tb_usage s),
      tb_rollups = filter (\<lambda>r. ur_tenant_id r = u) (tb_rollups s)\<rparr>"

named_theorems part \<open>how statements read and write the part of a tenant\<close>

lemma find_implied: "(\<And>x. P x \<Longrightarrow> Q x) \<Longrightarrow> find P (filter Q xs) = find P xs"
  by (induction xs) auto

lemma filter_implied: "(\<And>x. P x \<Longrightarrow> Q x) \<Longrightarrow> filter P (filter Q xs) = filter P xs"
  by (induction xs) auto

lemma list_ex_implied: "(\<And>x. P x \<Longrightarrow> Q x) \<Longrightarrow> list_ex P (filter Q xs) = list_ex P xs"
  by (induction xs) auto

lemma filter_row_update:
  "(\<And>x. p x \<Longrightarrow> Q (f x) = Q x) \<Longrightarrow> filter Q (row_update p f xs) = row_update p f (filter Q xs)"
  by (induction xs) auto

lemma row_update_elsewhere: "(\<And>x. p x \<Longrightarrow> \<not> Q x) \<Longrightarrow> row_update p f (filter Q xs) = filter Q xs"
  by (rule row_update_idle) auto

lemma part_fields [part]:
  "tb_tenants (tenant_part u s) = filter (\<lambda>r. tn_id r = u) (tb_tenants s)"
  "tb_sources (tenant_part u s) = filter (\<lambda>r. ts_tenant_id r = u) (tb_sources s)"
  "tb_runs (tenant_part u s) = filter (\<lambda>r. tr_tenant_id r = u) (tb_runs s)"
  "tb_claims (tenant_part u s) = filter (\<lambda>r. tc_tenant_id r = u) (tb_claims s)"
  "tb_overlays (tenant_part u s) = filter (\<lambda>r. to_tenant_id r = u) (tb_overlays s)"
  "tb_reports (tenant_part u s) = filter (\<lambda>r. sr_tenant_id r = u) (tb_reports s)"
  "tb_associations (tenant_part u s) = filter (\<lambda>r. ta_tenant_id r = u) (tb_associations s)"
  "tb_usage (tenant_part u s) = filter (\<lambda>r. ue_tenant_id r = Some u) (tb_usage s)"
  "tb_rollups (tenant_part u s) = filter (\<lambda>r. ur_tenant_id r = u) (tb_rollups s)"
  by (simp_all add: tenant_part_def)

lemma part_updates [part]:
  "tenant_part u (s\<lparr>tb_sources := a\<rparr>) = (tenant_part u s)\<lparr>tb_sources := filter (\<lambda>r. ts_tenant_id r = u) a\<rparr>"
  "tenant_part u (s\<lparr>tb_runs := b\<rparr>) = (tenant_part u s)\<lparr>tb_runs := filter (\<lambda>r. tr_tenant_id r = u) b\<rparr>"
  "tenant_part u (s\<lparr>tb_claims := c\<rparr>) = (tenant_part u s)\<lparr>tb_claims := filter (\<lambda>r. tc_tenant_id r = u) c\<rparr>"
  "tenant_part u (s\<lparr>tb_overlays := d\<rparr>) = (tenant_part u s)\<lparr>tb_overlays := filter (\<lambda>r. to_tenant_id r = u) d\<rparr>"
  "tenant_part u (s\<lparr>tb_reports := e\<rparr>) = (tenant_part u s)\<lparr>tb_reports := filter (\<lambda>r. sr_tenant_id r = u) e\<rparr>"
  "tenant_part u (s\<lparr>tb_associations := f\<rparr>) = (tenant_part u s)\<lparr>tb_associations := filter (\<lambda>r. ta_tenant_id r = u) f\<rparr>"
  "tenant_part u (s\<lparr>tb_usage := g\<rparr>) = (tenant_part u s)\<lparr>tb_usage := filter (\<lambda>r. ue_tenant_id r = Some u) g\<rparr>"
  "tenant_part u (s\<lparr>tb_rollups := h\<rparr>) = (tenant_part u s)\<lparr>tb_rollups := filter (\<lambda>r. ur_tenant_id r = u) h\<rparr>"
  by (simp_all add: tenant_part_def)

lemma part_update_same [part]:
  "(tenant_part u s)\<lparr>tb_sources := filter (\<lambda>r. ts_tenant_id r = u) (tb_sources s)\<rparr> = tenant_part u s"
  "(tenant_part u s)\<lparr>tb_runs := filter (\<lambda>r. tr_tenant_id r = u) (tb_runs s)\<rparr> = tenant_part u s"
  "(tenant_part u s)\<lparr>tb_claims := filter (\<lambda>r. tc_tenant_id r = u) (tb_claims s)\<rparr> = tenant_part u s"
  "(tenant_part u s)\<lparr>tb_overlays := filter (\<lambda>r. to_tenant_id r = u) (tb_overlays s)\<rparr> = tenant_part u s"
  "(tenant_part u s)\<lparr>tb_reports := filter (\<lambda>r. sr_tenant_id r = u) (tb_reports s)\<rparr> = tenant_part u s"
  "(tenant_part u s)\<lparr>tb_associations := filter (\<lambda>r. ta_tenant_id r = u) (tb_associations s)\<rparr> = tenant_part u s"
  "(tenant_part u s)\<lparr>tb_usage := filter (\<lambda>r. ue_tenant_id r = Some u) (tb_usage s)\<rparr> = tenant_part u s"
  "(tenant_part u s)\<lparr>tb_rollups := filter (\<lambda>r. ur_tenant_id r = u) (tb_rollups s)\<rparr> = tenant_part u s"
  by (simp_all add: tenant_part_def)

text \<open>Reads of a tenant see its part only.\<close>

lemma part_lookups [part]:
  "tenant_sources_get u i (tenant_part u s) = tenant_sources_get u i s"
  "tenant_runs_get u i (tenant_part u s) = tenant_runs_get u i s"
  "overlays_get u e (tenant_part u s) = overlays_get u e s"
  "reports_get u i (tenant_part u s) = reports_get u i s"
  unfolding tenant_sources_get_def tenant_runs_get_def overlays_get_def reports_get_def part_fields
  by (rule find_implied, simp)+

lemma part_counts [part]: "count_in_range (Some u) m x y (tenant_part u s) = count_in_range (Some u) m x y s"
  unfolding count_in_range_def part_fields by (rule arg_cong [where f = length], rule filter_implied) simp

lemma part_listings [part]:
  "tenant_claims_by_kind u e k (tenant_part u s) = tenant_claims_by_kind u e k s"
  "associations_for_event u e (tenant_part u s) = associations_for_event u e s"
  "rollups_list_for_tenant u a b (tenant_part u s) = rollups_list_for_tenant u a b s"
  unfolding tenant_claims_by_kind_def associations_for_event_def rollups_list_for_tenant_def rollups_for_tenant_def part_fields
  by (rule arg_cong [where f = "sort_key _"], rule filter_implied, simp)+

lemma part_known [part]: "tenant_known u (tenant_part u s) = tenant_known u s"
  by (auto simp: tenant_known_def part_fields)

lemma row_get_part:
  assumes "distinct (map key rows)"
  shows "row_get key k (filter Q rows) = (case row_get key k rows of None \<Rightarrow> None | Some r \<Rightarrow> if Q r then Some r else None)"
  using assms
proof (induction rows)
  case (Cons r rows)
  have "row_get key (key r) rows = None" using Cons.prems by (simp add: row_get_None_iff)
  then show ?case using Cons by auto
qed simp

lemma part_listing:
  "distinct (map to_id (tb_overlays s)) \<Longrightarrow>
   overlays_list_for_tenant u limit after (tenant_part u s) = overlays_list_for_tenant u limit after s"
  by (simp add: overlays_list_for_tenant_def part_fields row_get_part filter_implied split: option.splits)

text \<open>Writes of a tenant change its part the way they change the store, and no other part.\<close>

lemma metering_part:
  "metering_record fresh now m (Some u) usr res n (tenant_part u s) =
     tenant_part u (metering_record fresh now m (Some u) usr res n s)"
  "v \<noteq> u \<Longrightarrow> tenant_part u (metering_record fresh now m (Some v) usr res n s) = tenant_part u s"
  by (simp_all add: metering_record_def usage_add_many_def part Let_def)

lemma may_write_Inr: "may_write c = Inr () \<longleftrightarrow> ca_caller_tenant_id c = ca_tenant_id c \<and> ca_caller_tenant_role c \<in> set WRITE_TENANT_ROLES"
  by (auto simp: may_write_def same_tenant_def require_write_role_def)

text \<open>A request for another tenant than the caller's is refused.\<close>

lemma refused_elsewhere:
  assumes "ca_caller_tenant_id c \<noteq> ca_tenant_id c"
  shows "serve c fresh now d req s = (Refused (CrossTenantAccessError (ca_caller_tenant_id c) (ca_tenant_id c)), s)"
  using assms
  by (cases req)
    (simp_all add: may_write_def same_tenant_def written_def read_only_def register_tenant_source_def
      get_tenant_event_overlay_def list_tenant_events_def upsert_tenant_event_overlay_def open_tenant_ingestion_run_def
      submit_tenant_claims_batch_def complete_tenant_ingestion_run_def submit_tenant_safety_report_def
      list_tenant_evidence_for_event_def get_tenant_usage_def)

definition same_part :: "uuid \<Rightarrow> tenant_error + ('a \<times> tenant_db) \<Rightarrow> tenant_error + ('a \<times> tenant_db)" where
  "same_part u r = map_sum id (map_prod id (tenant_part u)) r"

lemma written_part: "written f (tenant_part u s) (same_part u r) = map_prod id (tenant_part u) (written f s r)"
  by (cases r) (auto simp: written_def same_part_def)

lemma same_part_rbind: "same_part u (rbind m f) = rbind m (\<lambda>x. same_part u (f x))"
  by (cases m) (simp_all add: same_part_def)

lemma same_part_simps [part]:
  "same_part u (Inl e) = Inl e" "same_part u (Inr (x, s)) = Inr (x, tenant_part u s)"
  by (simp_all add: same_part_def)

lemma register_part:
  "ca_tenant_id c = u \<Longrightarrow> register_tenant_source fresh now c name kind tier (tenant_part u s) =
     same_part u (register_tenant_source fresh now c name kind tier s)"
  unfolding register_tenant_source_def same_part_rbind
  by (auto intro!: arg_cong [where f = "rbind _"] simp: sources_add_def part Let_def list_ex_iff)

lemma overlays_get_SomeD: "overlays_get t e s = Some r \<Longrightarrow> r \<in> set (tb_overlays s) \<and> to_tenant_id r = t \<and> to_event_id r = e"
  by (auto simp: overlays_get_def find_Some_iff)

lemma overlays_get_self: "overlays_get t e s = Some r \<Longrightarrow> overlays_get (to_tenant_id r) (to_event_id r) s = Some r"
  using overlays_get_SomeD by metis

lemma upsert_part:
  "to_tenant_id new = u \<Longrightarrow> overlays_upsert new (tenant_part u s) = same_part u (overlays_upsert new s)"
  by (auto simp: overlays_upsert_def overlay_merged_def part filter_row_update split: option.splits)

lemma overlay_part:
  "ca_tenant_id c = u \<Longrightarrow> upsert_tenant_event_overlay fresh now c e notes flds d (tenant_part u s) =
     same_part u (upsert_tenant_event_overlay fresh now c e notes flds d s)"
  unfolding upsert_tenant_event_overlay_def same_part_rbind
  by (auto intro!: arg_cong [where f = "rbind _"] ext upsert_part simp: part Let_def split: option.splits
      dest: overlays_get_SomeD)

lemma open_run_part:
  "ca_tenant_id c = u \<Longrightarrow> open_tenant_ingestion_run fresh now c src (tenant_part u s) =
     same_part u (open_tenant_ingestion_run fresh now c src s)"
  unfolding open_tenant_ingestion_run_def same_part_rbind
  by (auto intro!: arg_cong [where f = "rbind _"] simp: tenant_runs_add_def part Let_def)

lemma submit_part:
  "ca_tenant_id c = u \<Longrightarrow> submit_tenant_claims_batch (\<lambda>x. x) fresh now c run claims d (tenant_part u s) =
     same_part u (submit_tenant_claims_batch (\<lambda>x. x) fresh now c run claims d s)"
  unfolding submit_tenant_claims_batch_def same_part_rbind tenant_claims_add_many_def
  by (auto intro!: arg_cong [where f = "rbind _"] ext simp: part Let_def metering_part [symmetric] filter_map comp_def
      split_beta split: option.splits)

lemma complete_part:
  "ca_tenant_id c = u \<Longrightarrow> complete_tenant_ingestion_run (\<lambda>x. x) fresh now c run st (tenant_part u s) =
     same_part u (complete_tenant_ingestion_run (\<lambda>x. x) fresh now c run st s)"
  unfolding complete_tenant_ingestion_run_def same_part_rbind tenant_runs_update_status_def
  by (auto intro!: arg_cong [where f = "rbind _"] ext simp: part Let_def metering_part [symmetric] filter_row_update
      split: option.splits)

lemma report_part:
  "ca_tenant_id c = u \<Longrightarrow> submit_tenant_safety_report fresh now c inp d (tenant_part u s) =
     same_part u (submit_tenant_safety_report fresh now c inp d s)"
  unfolding submit_tenant_safety_report_def same_part_rbind reports_add_def associations_add_def
  by (auto intro!: arg_cong [where f = "rbind _"] ext simp: part Let_def metering_part [symmetric] split: option.splits)

lemmas writes_part = register_part overlay_part open_run_part submit_part complete_part report_part

lemma reads_part:
  assumes "ca_tenant_id c = u"
  shows "get_tenant_event_overlay c e d (tenant_part u s) = get_tenant_event_overlay c e d s"
    and "list_tenant_evidence_for_event c e (tenant_part u s) = list_tenant_evidence_for_event c e s"
    and "get_tenant_usage c a b (tenant_part u s) = get_tenant_usage c a b s"
    and "distinct (map to_id (tb_overlays s)) \<Longrightarrow>
      list_tenant_events c limit after (tenant_part u s) = list_tenant_events c limit after s"
  using assms
  by (simp_all add: get_tenant_event_overlay_def list_tenant_evidence_for_event_def get_tenant_usage_def
      list_tenant_events_def part part_listing split: option.split)

theorem serve_part:
  assumes "distinct (map to_id (tb_overlays s))"
  shows "serve c fresh now d req (tenant_part (ca_caller_tenant_id c) s) =
    map_prod id (tenant_part (ca_caller_tenant_id c)) (serve c fresh now d req s)"
proof (cases "ca_caller_tenant_id c = ca_tenant_id c")
  case True
  then show ?thesis
    by (cases req) (simp_all add: writes_part reads_part assms written_part, simp_all add: read_only_def)
qed (simp add: refused_elsewhere)

text \<open>Writes leave the parts of other tenants alone.\<close>

lemma upsert_other: "overlays_upsert new s = Inr (x, s') \<Longrightarrow> to_tenant_id new \<noteq> u \<Longrightarrow> tenant_part u s' = tenant_part u s"
  by (auto simp: overlays_upsert_def part filter_row_update overlay_merged_def split: option.splits if_splits)
    (subst row_update_elsewhere, simp_all add: part)

lemma run_status_other:
  "t \<noteq> u \<Longrightarrow> tenant_part u (tenant_runs_update_status t run st fin s) = tenant_part u s"
  by (simp add: tenant_runs_update_status_def part filter_row_update) (subst row_update_elsewhere, auto simp: part)

lemma other_part:
  assumes "ca_tenant_id c \<noteq> u"
  shows "register_tenant_source fresh now c name kind tier s = Inr (x1, s') \<Longrightarrow> tenant_part u s' = tenant_part u s"
    and "upsert_tenant_event_overlay fresh now c e notes flds d s = Inr (x2, s') \<Longrightarrow> tenant_part u s' = tenant_part u s"
    and "open_tenant_ingestion_run fresh now c src s = Inr (x3, s') \<Longrightarrow> tenant_part u s' = tenant_part u s"
    and "submit_tenant_claims_batch (\<lambda>x. x) fresh now c run claims d s = Inr (x4, s') \<Longrightarrow> tenant_part u s' = tenant_part u s"
    and "complete_tenant_ingestion_run (\<lambda>x. x) fresh now c run st s = Inr (x5, s') \<Longrightarrow> tenant_part u s' = tenant_part u s"
    and "submit_tenant_safety_report fresh now c inp d s = Inr (x6, s') \<Longrightarrow> tenant_part u s' = tenant_part u s"
  using assms
  by (auto simp: register_tenant_source_def sources_add_def upsert_tenant_event_overlay_def
      open_tenant_ingestion_run_def tenant_runs_add_def submit_tenant_claims_batch_def
      tenant_claims_add_many_def complete_tenant_ingestion_run_def run_status_other
      submit_tenant_safety_report_def reports_add_def associations_add_def part metering_part Let_def
      filter_map comp_def split_beta dest!: overlays_get_SomeD upsert_other [where u = u] split: if_splits option.splits)

theorem serve_other:
  assumes "ca_caller_tenant_id c \<noteq> u"
  shows "tenant_part u (snd (serve c fresh now d req s)) = tenant_part u s"
proof (cases "ca_caller_tenant_id c = ca_tenant_id c")
  case True
  then have "ca_tenant_id c \<noteq> u" using assms by simp
  from other_part [OF this] show ?thesis
    by (cases req) (auto simp: written_def read_only_def split: sum.splits)
qed (simp add: refused_elsewhere)

section \<open>Rollups\<close>

lemma rollups_upsert_part:
  "ur_tenant_id r = u \<Longrightarrow> rollups_upsert r (tenant_part u s) = tenant_part u (rollups_upsert r s)"
  "ur_tenant_id r \<noteq> u \<Longrightarrow> tenant_part u (rollups_upsert r s) = tenant_part u s"
proof -
  show "ur_tenant_id r \<noteq> u \<Longrightarrow> tenant_part u (rollups_upsert r s) = tenant_part u s"
    unfolding rollups_upsert_def Let_def
    by (simp add: part filter_row_update rollup_cell_def) (subst row_update_elsewhere, auto simp: rollup_cell_def part)
  assume u: "ur_tenant_id r = u"
  have "list_ex (rollup_cell u (ur_metric_kind r) (ur_day r)) (filter (\<lambda>x. ur_tenant_id x = u) (tb_rollups s)) =
      list_ex (rollup_cell u (ur_metric_kind r) (ur_day r)) (tb_rollups s)"
    by (rule list_ex_implied) (simp add: rollup_cell_def)
  then show "rollups_upsert r (tenant_part u s) = tenant_part u (rollups_upsert r s)"
    using u by (simp add: rollups_upsert_def Let_def part filter_row_update rollup_cell_def)
qed

lemma rollup_one_part:
  "rollup_one new moment day (Some u) u m (tenant_part u s) = tenant_part u (rollup_one new moment day (Some u) u m s)"
  "v \<noteq> u \<Longrightarrow> tenant_part u (rollup_one new moment day x v m s) = tenant_part u s"
  by (simp_all add: rollup_one_def rollups_upsert_part part)

lemma rollup_metrics_part:
  "tenant_part u (fold (rollup_one new moment day (Some u) u) ms s) = fold (rollup_one new moment day (Some u) u) ms (tenant_part u s)"
  "v \<noteq> u \<Longrightarrow> tenant_part u (fold (rollup_one new moment day x v) ms s) = tenant_part u s"
  by (induction ms arbitrary: s) (simp_all add: rollup_one_part)

lemma rollup_tenants_part:
  "tenant_part u (fold (\<lambda>t. fold (rollup_one new moment day (Some t) t) ms) ts s) =
     fold (\<lambda>t. fold (rollup_one new moment day (Some t) t) ms) (filter (\<lambda>t. t = u) ts) (tenant_part u s)"
  by (induction ts arbitrary: s) (auto simp: rollup_metrics_part)

lemma filter_one: "distinct xs \<Longrightarrow> filter (\<lambda>x. x = u) xs = (if u \<in> set xs then [u] else [])"
  by (induction xs) auto

lemma set_map_filter': "set (List.map_filter f xs) = {y. \<exists>x \<in> set xs. f x = Some y}"
  by (force simp: List.map_filter_def image_iff)

lemma distinct_tenants_in_range:
  "distinct (distinct_tenants_in_range x y s)"
  "set (distinct_tenants_in_range x y s) = {t. \<exists>e \<in> set (tb_usage s). x \<le> ue_recorded_at e \<and> ue_recorded_at e < y \<and> ue_tenant_id e = Some t}"
  by (auto simp: distinct_tenants_in_range_def set_map_filter')

lemma distinct_tenants_part:
  "filter (\<lambda>t. t = u) (distinct_tenants_in_range x y (tenant_part u s)) = filter (\<lambda>t. t = u) (distinct_tenants_in_range x y s)"
  unfolding filter_one [OF distinct_tenants_in_range(1)] distinct_tenants_in_range(2) part_fields by auto

lemma day_tenants_cong:
  assumes "tenant_part u s = tenant_part u t"
  shows "filter (\<lambda>v. v = u) (case ids of Some l \<Rightarrow> l | None \<Rightarrow> distinct_tenants_in_range x y s) =
    filter (\<lambda>v. v = u) (case ids of Some l \<Rightarrow> l | None \<Rightarrow> distinct_tenants_in_range x y t)"
  using distinct_tenants_part [of u x y s] distinct_tenants_part [of u x y t] assms by (simp split: option.split)

text \<open>Two runs of the operator that a tenant cannot tell apart.\<close>

definition alike :: "uuid \<Rightarrow> tenant_error + (nat \<times> tenant_db) \<Rightarrow> tenant_error + (nat \<times> tenant_db) \<Rightarrow> bool" where
  "alike u x y = rel_sum (=) (\<lambda>(n, s) (m, t). tenant_part u s = tenant_part u t) x y"

lemma rollup_day_alike:
  assumes "u \<noteq> NO_TENANT_SENTINEL" and "tenant_part u s = tenant_part u t"
  shows "alike u (rollup_day new moment ids day (n, s)) (rollup_day new moment ids day (m, t))"
  using assms day_tenants_cong [OF assms(2)]
  by (auto simp: alike_def rollup_day_def day_bounds_def Let_def rollup_metrics_part rollup_tenants_part)

lemma rollups_alike:
  assumes "u \<noteq> NO_TENANT_SENTINEL" and "tenant_part u s = tenant_part u t"
  shows "alike u (rfold (rollup_day new moment ids) days (n, s)) (rfold (rollup_day new moment ids) days (m, t))"
  using assms(2)
proof (induction days arbitrary: s t n m)
  case (Cons day days)
  show ?case
  proof (cases "rollup_day new moment ids day (n, s)")
    case (Inl e)
    then show ?thesis using rollup_day_alike [OF assms(1) Cons.prems, of new moment ids day n m]
      by (auto simp: alike_def rel_sum.simps)
  next
    case (Inr r)
    then obtain n' s' m' t' where "r = (n', s')" "rollup_day new moment ids day (m, t) = Inr (m', t')"
        "tenant_part u s' = tenant_part u t'"
      using rollup_day_alike [OF assms(1) Cons.prems, of new moment ids day n m] by (auto simp: alike_def rel_sum.simps)
    then show ?thesis using Inr Cons.IH by simp
  qed
qed (simp add: alike_def)

section \<open>Isolation\<close>

definition tenant_inv :: "uuid set \<Rightarrow> tenant_db \<Rightarrow> bool" where
  "tenant_inv used s \<longleftrightarrow> distinct (map to_id (tb_overlays s)) \<and> to_id ` set (tb_overlays s) \<subseteq> used
     \<and> distinct (map tr_id (tb_runs s)) \<and> tr_id ` set (tb_runs s) \<subseteq> used"

lemma metering_rows [simp]:
  "tb_overlays (metering_record fresh now m t usr res n s) = tb_overlays s"
  "tb_runs (metering_record fresh now m t usr res n s) = tb_runs s"
  "tb_claims (metering_record fresh now m t usr res n s) = tb_claims s"
  "tb_reports (metering_record fresh now m t usr res n s) = tb_reports s"
  by (simp_all add: metering_record_def usage_add_many_def Let_def)

lemma rollup_rows [simp]:
  "tb_overlays (rollup_one new moment day x v m s) = tb_overlays s"
  "tb_runs (rollup_one new moment day x v m s) = tb_runs s"
  "tb_claims (rollup_one new moment day x v m s) = tb_claims s"
  "tb_reports (rollup_one new moment day x v m s) = tb_reports s"
  "tb_usage (rollup_one new moment day x v m s) = tb_usage s"
  by (simp_all add: rollup_one_def rollups_upsert_def Let_def)

text \<open>A rollup changes the rollups only.\<close>

lemma fold_keeps: "(\<And>x s. x \<in> set xs \<Longrightarrow> g (f x s) = g s) \<Longrightarrow> g (fold f xs s) = g s"
  by (induction xs arbitrary: s) simp_all

lemma compute_keeps:
  assumes "compute_daily_rollups new moment a b ids s = Inr (n, s')"
    and "\<And>day x v m t. g (rollup_one new moment day x v m t) = g t"
  shows "g s' = g s"
proof -
  have "g (snd y) = g (snd x)" if "rollup_day new moment ids day x = Inr y" for day x y
    using that by (auto simp: rollup_day_def Let_def split_beta fold_keeps assms(2))
  then have "rfold (rollup_day new moment ids) days x = Inr y \<Longrightarrow> g (snd y) = g (snd x)" for days x y
    by (induction days arbitrary: x) auto
  from this [OF assms(1) [unfolded compute_daily_rollups_def]] show ?thesis by simp
qed

text \<open>Every claim, report and finished run of a tenant has its usage event, and every usage event of these kinds comes
  from one.\<close>

definition usage_total :: "uuid \<Rightarrow> metric_kind \<Rightarrow> tenant_db \<Rightarrow> nat" where
  "usage_total t m s = length (filter (\<lambda>e. ue_tenant_id e = Some t \<and> ue_metric_kind e = m) (tb_usage s))"

definition finished_runs :: "uuid \<Rightarrow> tenant_ingestion_run list \<Rightarrow> nat" where
  "finished_runs t rows = length (filter (\<lambda>r. tr_tenant_id r = t \<and> tr_status r \<noteq> RUN_RUNNING) rows)"

definition metered :: "tenant_db \<Rightarrow> uuid \<Rightarrow> bool" where
  "metered s t \<longleftrightarrow>
     usage_total t TENANT_CLAIM_INGESTED s = length (filter (\<lambda>r. tc_tenant_id r = t) (tb_claims s))
     \<and> usage_total t TENANT_REPORT_FILED s = length (filter (\<lambda>r. sr_tenant_id r = t) (tb_reports s))
     \<and> usage_total t TENANT_INGESTION_RUN_COMPLETED s = finished_runs t (tb_runs s)"

lemma metered_cong:
  "tb_usage s' = tb_usage s \<Longrightarrow> tb_claims s' = tb_claims s \<Longrightarrow> tb_reports s' = tb_reports s \<Longrightarrow>
   finished_runs t (tb_runs s') = finished_runs t (tb_runs s) \<Longrightarrow> metered s' t = metered s t"
  by (simp add: metered_def usage_total_def)

lemma usage_total_record:
  "usage_total t k (metering_record fresh now m (Some v) usr res n s) =
     usage_total t k s + (if t = v \<and> k = m then nat n else 0)"
  by (auto simp: metering_record_def usage_add_many_def usage_total_def Let_def filter_map comp_def)

lemma usage_total_updates [simp]:
  "usage_total t k (s\<lparr>tb_sources := a\<rparr>) = usage_total t k s" "usage_total t k (s\<lparr>tb_runs := b\<rparr>) = usage_total t k s"
  "usage_total t k (s\<lparr>tb_claims := c\<rparr>) = usage_total t k s" "usage_total t k (s\<lparr>tb_overlays := d\<rparr>) = usage_total t k s"
  "usage_total t k (s\<lparr>tb_reports := e\<rparr>) = usage_total t k s" "usage_total t k (s\<lparr>tb_associations := f\<rparr>) = usage_total t k s"
  by (simp_all add: usage_total_def)

lemma finished_runs_snoc [simp]:
  "finished_runs t (rows @ [r]) = finished_runs t rows + (if tr_tenant_id r = t \<and> tr_status r \<noteq> RUN_RUNNING then 1 else 0)"
  by (simp add: finished_runs_def)

lemma length_filter_flip:
  assumes "distinct (map key rows)" and "r \<in> set rows" and "p r" and "\<And>x. p x \<Longrightarrow> key x = key r"
    and "\<not> Q r" and "Q (f r)"
  shows "length (filter Q (row_update p f rows)) = Suc (length (filter Q rows))"
  using assms(1,2)
proof (induction rows)
  case (Cons x rows)
  show ?case
  proof (cases "x = r")
    case True
    then have "row_update p f rows = rows" using Cons.prems assms(4) by (intro row_update_idle) (metis distinct.simps(2) image_eqI list.set_map list.simps(9))
    then show ?thesis using True assms(3,5,6) by simp
  next
    case False
    then have "\<not> p x" using Cons.prems assms(4) by (auto simp: image_iff)
    then show ?thesis using Cons False by simp
  qed
qed simp

lemma row_update_filter_same:
  "(\<And>x. p x \<Longrightarrow> Q (f x) = Q x) \<Longrightarrow> length (filter Q (row_update p f rows)) = length (filter Q rows)"
  by (induction rows) auto

lemma finished_runs_complete:
  assumes "distinct (map tr_id rows)" and "find (\<lambda>r. tr_id r = i \<and> tr_tenant_id r = v) rows = Some r"
    and "tr_status r = RUN_RUNNING" and "st \<noteq> RUN_RUNNING"
  shows "finished_runs t (row_update (\<lambda>r. tr_id r = i \<and> tr_tenant_id r = v) (\<lambda>r. r\<lparr>tr_status := st, tr_finished_at := fin\<rparr>) rows)
    = finished_runs t rows + (if t = v then 1 else 0)"
proof -
  have r: "r \<in> set rows" "tr_id r = i" "tr_tenant_id r = v" using assms(2) by (auto simp: find_Some_iff)
  show ?thesis
  proof (cases "t = v")
    case True
    have "length (filter (\<lambda>x. tr_tenant_id x = t \<and> tr_status x \<noteq> RUN_RUNNING)
        (row_update (\<lambda>x. tr_id x = i \<and> tr_tenant_id x = v) (\<lambda>x. x\<lparr>tr_status := st, tr_finished_at := fin\<rparr>) rows))
      = Suc (length (filter (\<lambda>x. tr_tenant_id x = t \<and> tr_status x \<noteq> RUN_RUNNING) rows))"
      by (rule length_filter_flip [OF assms(1) r(1)]) (use r True assms(3,4) in simp_all)
    then show ?thesis using True by (simp add: finished_runs_def)
  next
    case False
    then show ?thesis unfolding finished_runs_def by (subst row_update_filter_same) auto
  qed
qed

lemma tenant_inv_cong:
  "tenant_inv used s \<Longrightarrow> map to_id (tb_overlays s') = map to_id (tb_overlays s) \<Longrightarrow> map tr_id (tb_runs s') = map tr_id (tb_runs s)
   \<Longrightarrow> used \<subseteq> later \<Longrightarrow> tenant_inv later s'"
  unfolding tenant_inv_def by (metis list.set_map order_trans)

lemma overlays_upsert_inv:
  assumes "overlays_upsert new s = Inr (x, s')" and "tenant_inv used s" and "used \<subseteq> later"
    and "overlays_get (to_tenant_id new) (to_event_id new) s = None \<Longrightarrow> to_id new \<notin> used \<and> to_id new \<in> later"
  shows "tenant_inv later s'"
proof (cases "overlays_get (to_tenant_id new) (to_event_id new) s")
  case None
  then have "s' = s\<lparr>tb_overlays := tb_overlays s @ [new]\<rparr>"
    using assms(1) by (auto simp: overlays_upsert_def split: if_splits)
  then show ?thesis using assms(2,3) assms(4) [OF None] by (auto simp: tenant_inv_def)
next
  case (Some r)
  then have s': "s' = s\<lparr>tb_overlays := row_update (\<lambda>x. to_tenant_id x = to_tenant_id new \<and> to_event_id x = to_event_id new)
      (overlay_merged new) (tb_overlays s)\<rparr>" using assms(1) by (simp add: overlays_upsert_def)
  have "map to_id (tb_overlays s') = map to_id (tb_overlays s)"
    unfolding s' by (simp add: map_row_update overlay_merged_def)
  then show ?thesis using tenant_inv_cong [OF assms(2) _ _ assms(3)] s' by simp
qed

lemma overlay_inv:
  assumes "upsert_tenant_event_overlay fresh now c e notes flds d s = Inr (x, s')"
    and "tenant_inv used s" and "range fresh \<inter> used = {}"
  shows "tenant_inv (used \<union> range fresh) s'"
proof -
  define new where "new = (case overlays_get (ca_tenant_id c) e s of
      None \<Rightarrow> \<lparr>to_id = fresh 0, to_tenant_id = ca_tenant_id c, to_event_id = e, to_notes_markdown = notes,
        to_overlay_fields = (case flds of None \<Rightarrow> [] | Some f \<Rightarrow> f), to_created_at = now, to_updated_at = now\<rparr>
    | Some r \<Rightarrow> r\<lparr>to_notes_markdown := notes, to_overlay_fields := (case flds of None \<Rightarrow> [] | Some f \<Rightarrow> f), to_updated_at := now\<rparr>)"
  have "overlays_upsert new s = Inr (x, s')"
    using assms(1) by (simp add: upsert_tenant_event_overlay_def new_def Let_def split: if_splits)
  moreover have "to_id new = fresh 0" if "overlays_get (to_tenant_id new) (to_event_id new) s = None"
    using that by (cases "overlays_get (ca_tenant_id c) e s") (auto simp: new_def dest: overlays_get_self)
  ultimately show ?thesis
    using overlays_upsert_inv [OF _ assms(2), of new x s' "used \<union> range fresh"] assms(3) by auto
qed

lemma open_run_inv:
  assumes "open_tenant_ingestion_run fresh now c src s = Inr (x, s')"
    and "tenant_inv used s" and "range fresh \<inter> used = {}"
  shows "tenant_inv (used \<union> range fresh) s'"
proof -
  have "fresh 0 \<notin> used" using assms(3) by auto
  then show ?thesis
    using assms(1,2) by (auto simp: open_tenant_ingestion_run_def tenant_runs_add_def tenant_inv_def Let_def image_subset_iff
        split: if_splits)
qed

lemma other_writes_inv:
  assumes "tenant_inv used s" and "used \<subseteq> later"
  shows "register_tenant_source fresh now c name kind tier s = Inr (x1, s') \<Longrightarrow> tenant_inv later s'"
    and "submit_tenant_claims_batch (\<lambda>x. x) fresh now c run claims d s = Inr (x4, s') \<Longrightarrow> tenant_inv later s'"
    and "complete_tenant_ingestion_run (\<lambda>x. x) fresh now c run st s = Inr (x5, s') \<Longrightarrow> tenant_inv later s'"
    and "submit_tenant_safety_report fresh now c inp d s = Inr (x6, s') \<Longrightarrow> tenant_inv later s'"
  by (auto simp: register_tenant_source_def sources_add_def submit_tenant_claims_batch_def tenant_claims_add_many_def
      complete_tenant_ingestion_run_def tenant_runs_update_status_def submit_tenant_safety_report_def reports_add_def
      associations_add_def Let_def map_row_update split: if_splits option.splits
      intro!: tenant_inv_cong [OF assms(1) _ _ assms(2)])

lemma tenant_inv_mono: "tenant_inv used s \<Longrightarrow> used \<subseteq> later \<Longrightarrow> tenant_inv later s"
  by (auto simp: tenant_inv_def)

lemma tenant_inv_step:
  assumes "tenant_inv used s" and "drawn a \<inter> used = {}"
  shows "tenant_inv (used \<union> drawn a) (snd (tenant_step a s))"
proof (cases a)
  case (Ask c fresh now d req)
  then have *: "range fresh \<inter> used = {}" using assms(2) by simp
  show ?thesis
    using assms(1) Ask
    by (cases req) (auto simp: written_def read_only_def split: sum.splits
        intro: tenant_inv_mono overlay_inv [OF _ assms(1) *] open_run_inv [OF _ assms(1) *] other_writes_inv [OF assms(1)])
next
  case (Rollup new moment a b ids)
  then show ?thesis
    using assms(1) compute_keeps [where g = tb_overlays] compute_keeps [where g = tb_runs]
    by (auto simp: written_def intro: tenant_inv_cong [OF assms(1)] split: sum.splits)
qed

text \<open>The meter is kept.\<close>

lemma unmetered_writes:
  assumes "metered s t"
  shows "register_tenant_source fresh now c name kind tier s = Inr (x1, s') \<Longrightarrow> metered s' t"
    and "overlays_upsert new s = Inr (x2, s') \<Longrightarrow> metered s' t"
    and "open_tenant_ingestion_run fresh now c src s = Inr (x3, s') \<Longrightarrow> metered s' t"
  using assms
  by (auto simp: register_tenant_source_def sources_add_def overlays_upsert_def open_tenant_ingestion_run_def
      tenant_runs_add_def Let_def metered_def split: if_splits option.splits)

lemma metered_submit:
  assumes "submit_tenant_claims_batch (\<lambda>x. x) fresh now c run claims d s = Inr (x, s')" and "metered s t"
  shows "metered s' t"
  using assms
  by (auto simp: submit_tenant_claims_batch_def tenant_claims_add_many_def Let_def metered_def usage_total_record
      filter_map comp_def split_beta split: if_splits option.splits)

lemma metered_report:
  assumes "submit_tenant_safety_report fresh now c inp d s = Inr (x, s')" and "metered s t"
  shows "metered s' t"
  using assms
  by (auto simp: submit_tenant_safety_report_def reports_add_def associations_add_def Let_def metered_def usage_total_record
      split: if_splits option.splits)

lemma metered_complete:
  assumes "complete_tenant_ingestion_run (\<lambda>x. x) fresh now c run st s = Inr (x, s')" and "metered s t"
    and "distinct (map tr_id (tb_runs s))"
  shows "metered s' t"
  using assms
  by (auto simp: complete_tenant_ingestion_run_def tenant_runs_get_def tenant_runs_update_status_def Let_def metered_def
      usage_total_record finished_runs_complete split: if_splits option.splits)

lemma metered_step:
  assumes "tenant_inv used s" and "metered s t"
  shows "metered (snd (tenant_step a s)) t"
proof (cases a)
  case (Ask c fresh now d req)
  have runs: "distinct (map tr_id (tb_runs s))" using assms(1) by (simp add: tenant_inv_def)
  have upsert: "metered s' t" if "upsert_tenant_event_overlay fresh now c e md flds d s = Inr (x, s')" for e md flds x s'
    using that unmetered_writes(2) [OF assms(2)]
    by (auto simp: upsert_tenant_event_overlay_def Let_def split: if_splits)
  show ?thesis
    using Ask assms(2)
    by (cases req) (auto simp: written_def read_only_def split: sum.splits
        intro: upsert unmetered_writes [OF assms(2)] metered_submit [OF _ assms(2)] metered_report [OF _ assms(2)]
          metered_complete [OF _ assms(2) runs])
next
  case (Rollup new moment a b ids)
  then show ?thesis
    using assms(2) compute_keeps [where g = tb_usage] compute_keeps [where g = tb_claims]
      compute_keeps [where g = tb_reports] compute_keeps [where g = tb_runs]
    by (auto simp: written_def metered_def usage_total_def split: sum.splits)
qed

interpretation meter: tracked tenant_step drawn "\<lambda>used s. tenant_inv used s \<and> metered s t" for t
  by unfold_locales (auto intro: tenant_inv_step metered_step)

interpretation tenants: separation tenant_step drawn tenant_inv asker tenant_part "\<lambda>u. u \<noteq> NO_TENANT_SENTINEL"
proof unfold_locales
  fix used s a
  assume "tenant_inv used s" "drawn a \<inter> used = {}"
  then show "tenant_inv (used \<union> drawn a) (snd (tenant_step a s))" by (rule tenant_inv_step)
next
  fix used s later
  assume "tenant_inv used s" "used \<subseteq> later"
  then show "tenant_inv later s" by (rule tenant_inv_mono)
next
  fix a v u s
  assume "asker a = Some v" "v \<noteq> u"
  then show "tenant_part u (snd (tenant_step a s)) = tenant_part u s" by (cases a) (auto simp: serve_other)
next
  fix u a used s t
  assume *: "u \<noteq> NO_TENANT_SENTINEL" "asker a = None \<or> asker a = Some u" "tenant_inv used s" "tenant_inv used t"
    "tenant_part u s = tenant_part u t"
  show "tenant_part u (snd (tenant_step a s)) = tenant_part u (snd (tenant_step a t))"
  proof (cases a)
    case (Ask c fresh now d req)
    then show ?thesis
      using * serve_part [of s c fresh now d req] serve_part [of t c fresh now d req]
      by (auto simp: tenant_inv_def) (metis snd_map_prod)
  next
    case (Rollup new moment x y ids)
    then show ?thesis
      using * rollups_alike [OF *(1,5), of new moment ids "[x..y]" 0 0]
      by (auto simp: written_def compute_daily_rollups_def alike_def rel_sum.simps)
  qed
next
  fix a u used s t
  assume *: "asker a = Some u" "tenant_inv used s" "tenant_inv used t" "tenant_part u s = tenant_part u t"
  then obtain c fresh now d req where "a = Ask c fresh now d req" "u = ca_caller_tenant_id c" by (cases a) auto
  then show "fst (tenant_step a s) = fst (tenant_step a t)"
    using * serve_part [of s c fresh now d req] serve_part [of t c fresh now d req]
    by (simp add: tenant_inv_def) (metis fst_map_prod id_apply)
qed

section \<open>A history for the examples\<close>

definition two_tenants :: tenant_db where
  "two_tenants =
     \<lparr>tb_tenants = [\<lparr>tn_id = 5, tn_slug = ''north'', tn_display_name = ''North'', tn_is_active = True, tn_created_at = 0\<rparr>,
        \<lparr>tn_id = 6, tn_slug = ''south'', tn_display_name = ''South'', tn_is_active = True, tn_created_at = 0\<rparr>],
      tb_sources = [\<lparr>ts_id = 50, ts_tenant_id = 5, ts_name = ''fdm'', ts_kind = ''EXTERNAL'', ts_reliability_tier = 1, ts_created_at = 0\<rparr>,
        \<lparr>ts_id = 60, ts_tenant_id = 6, ts_name = ''fdm'', ts_kind = ''EXTERNAL'', ts_reliability_tier = 1, ts_created_at = 0\<rparr>],
      tb_runs = [\<lparr>tr_id = 51, tr_tenant_id = 5, tr_tenant_source_id = 50, tr_status = RUN_RUNNING, tr_started_at = 0, tr_finished_at = None\<rparr>],
      tb_claims = [], tb_overlays = [], tb_reports = [], tb_associations = [], tb_usage = [], tb_rollups = []\<rparr>"

definition member_of :: "uuid \<Rightarrow> tenant_caller" where
  "member_of t = \<lparr>ca_tenant_id = t, ca_caller_tenant_id = t, ca_caller_tenant_role = ''MEMBER''\<rparr>"

definition sample_history :: "tenant_action list" where
  "sample_history =
     [Ask (member_of 6) (\<lambda>i. 3 * i + 1000) 10 empty_db (Open_Run 60),
      Ask (member_of 5) (\<lambda>i. 3 * i + 1001) 20 empty_db (Complete_Run 51 RUN_SUCCEEDED),
      Rollup (\<lambda>t m day. 7) 30 0 0 None,
      Ask (member_of 5) (\<lambda>i. 3 * i + 1002) 40 empty_db (Get_Usage 0 0)]"

lemma sample_history_fresh: "fresh_ids drawn {50, 51, 60} sample_history"
proof -
  have "(\<lambda>i. 3 * i + 1001) j \<noteq> (\<lambda>i. 3 * i + 1000) k" "(\<lambda>i. 3 * i + 1002) j \<noteq> (\<lambda>i. 3 * i + 1000) k"
    "(\<lambda>i. 3 * i + 1002) j \<noteq> (\<lambda>i. 3 * i + 1001) k" for j k :: nat
    by (simp_all, presburger+)
  then show ?thesis by (auto simp: sample_history_def)
qed

lemma two_tenants_inv: "tenant_inv {50, 51, 60} two_tenants"
  by (simp add: tenant_inv_def two_tenants_def)

section \<open>Properties\<close>

text \<open>C33: tenants are isolated.  In any history of requests by any tenants and of rollups by the operator, what a tenant
  is answered and what the tables hold of it are what they would be if no other tenant had ever sent a request, as
  long as the identifiers drawn are new.\<close>

theorem tenant_noninterference:
  assumes "u \<noteq> NO_TENANT_SENTINEL" and "tenant_inv used s" and "fresh_ids drawn used acts"
  shows "answers_to asker u (fst (run_trace tenant_step acts s)) =
      answers_to asker u (fst (run_trace tenant_step (purge asker u acts) s))
    \<and> tenant_part u (snd (run_trace tenant_step acts s)) = tenant_part u (snd (run_trace tenant_step (purge asker u acts) s))"
  using assms by (rule tenants.noninterference)

theorem tenant_noninterference_witness:
  "answers_to asker 5 (fst (run_trace tenant_step sample_history two_tenants)) =
     answers_to asker 5 (fst (run_trace tenant_step (purge asker 5 sample_history) two_tenants))
   \<and> length (purge asker 5 sample_history) = 3"
  using tenant_noninterference [OF _ two_tenants_inv sample_history_fresh, of 5]
  by (simp add: NO_TENANT_SENTINEL_def purge_def sample_history_def member_of_def)

text \<open>C34: usage is metered exactly.  After any history in which requests are served one after the other, the usage
  events of a tenant count its claims, its safety reports and its finished ingestion runs.\<close>

theorem usage_metered:
  assumes "tenant_inv used s" and "metered s t" and "fresh_ids drawn used acts"
  shows "metered (snd (run_trace tenant_step acts s)) t"
  using meter.run_inv [OF conjI [OF assms(1,2)] assms(3)] by simp

theorem usage_metered_witness: "metered (snd (run_trace tenant_step sample_history two_tenants)) 5"
  by (rule usage_metered [OF two_tenants_inv _ sample_history_fresh])
    (simp add: metered_def usage_total_def finished_runs_def two_tenants_def)

end
