(* ===== verification/Usage_Ledger.thy ===== *)
theory Usage_Ledger
  imports Tenant_Isolation
begin

text \<open>
  Billing: the rollup table as a ledger, a map from tenant, metric and day to a count, and \<open>ComputeDailyRollups\<close> as
  the assignment of the exact counts to the cells of its grid.  The last property is the race in which the meter
  of the runs and the runs themselves part.
\<close>

section \<open>The ledger\<close>

definition cell :: "usage_daily_rollup \<Rightarrow> uuid \<times> metric_kind \<times> int" where
  "cell r = (ur_tenant_id r, ur_metric_kind r, ur_day r)"

definition ledger :: "tenant_db \<Rightarrow> uuid \<times> metric_kind \<times> int \<Rightarrow> nat option" where
  "ledger s k = map_option ur_count (row_get cell k (tb_rollups s))"

definition day_count :: "uuid option \<Rightarrow> metric_kind \<Rightarrow> int \<Rightarrow> tenant_db \<Rightarrow> nat" where
  "day_count t m day s = count_in_range t m (day * DAY_TICKS) ((day + 1) * DAY_TICKS) s"

text \<open>The tenants of a day: those asked for, or those with an event on that day.\<close>

definition rolled :: "uuid list option \<Rightarrow> uuid \<Rightarrow> int \<Rightarrow> tenant_db \<Rightarrow> bool" where
  "rolled ids t day s = (case ids of Some l \<Rightarrow> t \<in> set l
     | None \<Rightarrow> \<exists>e \<in> set (tb_usage s). ue_tenant_id e = Some t \<and> day * DAY_TICKS \<le> ue_recorded_at e
         \<and> ue_recorded_at e < (day + 1) * DAY_TICKS)"

text \<open>What a rollup owes a cell; \<open>None\<close> for a cell outside its grid.\<close>

definition owed :: "uuid list option \<Rightarrow> uuid \<times> metric_kind \<times> int \<Rightarrow> tenant_db \<Rightarrow> nat option" where
  "owed ids k s =
     (case k of (t, m, day) \<Rightarrow>
        if t = NO_TENANT_SENTINEL \<and> m \<in> set SYSTEM_METRICS then Some (day_count None m day s)
        else if m \<in> set TENANT_SCOPED_METRICS \<and> rolled ids t day s then Some (day_count (Some t) m day s)
        else None)"

lemma row_get_update_key:
  assumes "\<And>x. key (f x) = key x"
  shows "row_get key k (row_update (\<lambda>x. key x = k') f rows) =
    (if k = k' then map_option f (row_get key k rows) else row_get key k rows)"
  by (induction rows) (auto simp: assms)

lemma cell_recount [simp]: "cell (x\<lparr>ur_count := c, ur_computed_at := d\<rparr>) = cell x"
  by (simp add: cell_def)

lemma ledger_upsert: "ledger (rollups_upsert r s) = (ledger s)(cell r \<mapsto> ur_count r)"
proof
  fix k
  have same: "rollup_cell (ur_tenant_id r) (ur_metric_kind r) (ur_day r) = (\<lambda>x. cell x = cell r)"
    by (auto simp: rollup_cell_def cell_def)
  show "ledger (rollups_upsert r s) k = ((ledger s)(cell r \<mapsto> ur_count r)) k"
  proof (cases "list_ex (\<lambda>x. cell x = cell r) (tb_rollups s)")
    case True
    then have "row_get cell (cell r) (tb_rollups s) \<noteq> None" unfolding row_get_None_iff list_ex_iff by (metis imageI)
    then show ?thesis
      using True by (auto simp: rollups_upsert_def same Let_def ledger_def row_get_update_key option.map_comp comp_def)
  next
    case False
    then have "row_get cell (cell r) (tb_rollups s) = None" by (auto simp: row_get_None_iff list_ex_iff)
    then show ?thesis
      using False by (auto simp: rollups_upsert_def same Let_def ledger_def row_get_append split: option.splits)
  qed
qed

lemma ledger_one:
  "ledger (rollup_one new moment day c t m s) = (ledger s)((t, m, day) \<mapsto> day_count c m day s)"
  by (simp add: rollup_one_def ledger_upsert cell_def day_count_def)

lemma day_count_usage: "tb_usage s = tb_usage s' \<Longrightarrow> day_count c m day s = day_count c m day s'"
  by (simp add: day_count_def count_in_range_def)

lemma ledger_metrics:
  "ledger (fold (rollup_one new moment day c t) ms s) k =
     (case k of (t', m, day') \<Rightarrow>
        if t' = t \<and> m \<in> set ms \<and> day' = day then Some (day_count c m day s) else ledger s k)"
proof (induction ms arbitrary: s)
  case (Cons m ms)
  show ?case
    unfolding fold.simps comp_def Cons.IH
    by (auto simp: ledger_one day_count_usage [of "rollup_one new moment day c t m s" s] split: prod.split)
qed (simp split: prod.split)

lemma usage_metrics [simp]: "tb_usage (fold (rollup_one new moment day c t) ms s) = tb_usage s"
  by (rule fold_keeps) simp

lemma ledger_tenants:
  "ledger (fold (\<lambda>t. fold (rollup_one new moment day (Some t) t) ms) ts s) k =
     (case k of (t, m, day') \<Rightarrow>
        if t \<in> set ts \<and> m \<in> set ms \<and> day' = day then Some (day_count (Some t) m day s) else ledger s k)"
proof (induction ts arbitrary: s)
  case (Cons t ts)
  show ?case
    unfolding fold.simps comp_def Cons.IH
    by (auto simp: ledger_metrics day_count_usage [of "fold (rollup_one new moment day (Some t) t) ms s" s] split: prod.split)
qed (simp split: prod.split)

lemma usage_tenants [simp]: "tb_usage (fold (\<lambda>t. fold (rollup_one new moment day (Some t) t) ms) ts s) = tb_usage s"
  by (rule fold_keeps) simp

lemma owed_usage:
  assumes "tb_usage s = tb_usage s'"
  shows "owed ids k s = owed ids k s'"
  unfolding owed_def rolled_def day_count_usage [OF assms] assms ..

lemma rollup_day_ledger:
  assumes "rollup_day new moment ids day (n, s) = Inr (n', s')"
  shows "ledger s' k = (if snd (snd k) = day \<and> owed ids k s \<noteq> None then owed ids k s else ledger s k)"
    and "tb_usage s' = tb_usage s"
proof -
  define ts where "ts = (case ids of Some l \<Rightarrow> l
    | None \<Rightarrow> distinct_tenants_in_range (day * DAY_TICKS) ((day + 1) * DAY_TICKS) s)"
  have ts: "t \<in> set ts \<longleftrightarrow> rolled ids t day s" for t
    by (auto simp: ts_def rolled_def distinct_tenants_in_range(2) split: option.split)
  have s': "s' = fold (rollup_one new moment day None NO_TENANT_SENTINEL) SYSTEM_METRICS
      (fold (\<lambda>t. fold (rollup_one new moment day (Some t) t) TENANT_SCOPED_METRICS) ts s)"
    using assms by (auto simp: rollup_day_def day_bounds_def Let_def ts_def split: if_splits)
  show "tb_usage s' = tb_usage s" unfolding s' by simp
  show "ledger s' k = (if snd (snd k) = day \<and> owed ids k s \<noteq> None then owed ids k s else ledger s k)"
    unfolding s' ledger_metrics ledger_tenants
    by (auto simp: owed_def ts day_count_usage [of "fold (\<lambda>t. fold (rollup_one new moment day (Some t) t) TENANT_SCOPED_METRICS) ts s" s]
        split: prod.split)
qed

lemma rollups_ledger:
  "rfold (rollup_day new moment ids) days (n, s) = Inr (n', s') \<Longrightarrow>
   ledger s' k = (if snd (snd k) \<in> set days \<and> owed ids k s \<noteq> None then owed ids k s else ledger s k)"
proof (induction days arbitrary: n s)
  case (Cons day days)
  then obtain n1 s1 where 1: "rollup_day new moment ids day (n, s) = Inr (n1, s1)"
      "rfold (rollup_day new moment ids) days (n1, s1) = Inr (n', s')"
    by auto
  have "owed ids k s1 = owed ids k s" by (rule owed_usage) (rule rollup_day_ledger(2) [OF 1(1)])
  then show ?case unfolding Cons.IH [OF 1(2)] rollup_day_ledger(1) [OF 1(1)] by auto
qed simp

section \<open>Properties\<close>

text \<open>C35: the daily rollup is exact and idempotent: it assigns to every cell of its grid the number of usage events of
  that tenant, metric and day, whatever the cell held before, and touches no other cell.  Abstractly it is one
  update of the ledger.\<close>

theorem rollup_exact:
  assumes "compute_daily_rollups new moment day_from day_to ids s = Inr (n, s')"
  shows "ledger s' = (\<lambda>k. if day_from \<le> snd (snd k) \<and> snd (snd k) \<le> day_to \<and> owed ids k s \<noteq> None
           then owed ids k s else ledger s k)
    \<and> tb_usage s' = tb_usage s"
proof
  show "ledger s' = (\<lambda>k. if day_from \<le> snd (snd k) \<and> snd (snd k) \<le> day_to \<and> owed ids k s \<noteq> None
      then owed ids k s else ledger s k)"
    using rollups_ledger [OF assms [unfolded compute_daily_rollups_def]] by (auto simp: fun_eq_iff)
  show "tb_usage s' = tb_usage s" using assms by (rule compute_keeps) simp
qed

definition billed_tenant :: tenant_db where
  "billed_tenant = two_tenants\<lparr>tb_usage := [\<lparr>ue_id = 70, ue_metric_kind = TENANT_REPORT_FILED, ue_tenant_id = Some 5,
     ue_user_id = None, ue_resource_id = None, ue_recorded_at = 20\<rparr>]\<rparr>"

lemma rollup_one_day:
  "day < MAX_DAY \<Longrightarrow> \<exists>n s'. compute_daily_rollups new moment day day ids s = Inr (n, s')"
  by (simp add: compute_daily_rollups_def rollup_day_def day_bounds_def Let_def split_beta)

theorem rollup_exact_witness:
  "\<exists>n s'. compute_daily_rollups (\<lambda>t m day. 7) 30 0 0 None billed_tenant = Inr (n, s')
     \<and> ledger s' (5, TENANT_REPORT_FILED, 0) = Some 1 \<and> ledger s' (5, TENANT_CLAIM_INGESTED, 0) = Some 0
     \<and> ledger s' (5, ECHO_CROSSREF_RUN, 0) = None"
proof -
  obtain n s' where r: "compute_daily_rollups (\<lambda>t m day. 7) 30 0 0 None billed_tenant = Inr (n, s')"
    using rollup_one_day [of 0 "\<lambda>t m day. 7" 30 None billed_tenant] by (auto simp: MAX_DAY_def)
  from rollup_exact [OF this] have l: "ledger s' k = (if 0 \<le> snd (snd k) \<and> snd (snd k) \<le> 0 \<and> owed None k billed_tenant \<noteq> None
      then owed None k billed_tenant else ledger billed_tenant k)" for k by simp
  have "owed None (5, TENANT_REPORT_FILED, 0) billed_tenant = Some 1" "owed None (5, TENANT_CLAIM_INGESTED, 0) billed_tenant = Some 0"
    "owed None (5, ECHO_CROSSREF_RUN, 0) billed_tenant = None" "ledger billed_tenant (5, ECHO_CROSSREF_RUN, 0) = None"
    by (simp_all add: owed_def rolled_def day_count_def count_in_range_def billed_tenant_def two_tenants_def
        SYSTEM_METRICS_def TENANT_SCOPED_METRICS_def NO_TENANT_SENTINEL_def DAY_TICKS_def ledger_def)
  then show ?thesis using r l by simp
qed

section \<open>Two completions of one run\<close>

lemma complete_Inr:
  "complete_tenant_ingestion_run conc fresh now c run st s = Inr (r, s') \<longleftrightarrow>
     may_write c = Inr () \<and> st \<noteq> RUN_RUNNING
     \<and> (\<exists>r0. tenant_runs_get (ca_tenant_id c) run s = Some r0 \<and> tr_status r0 = RUN_RUNNING
          \<and> r = r0\<lparr>tr_status := st, tr_finished_at := Some now\<rparr>)
     \<and> s' = metering_record fresh now TENANT_INGESTION_RUN_COMPLETED (Some (ca_tenant_id c)) None (Some run) 1
         (tenant_runs_update_status (ca_tenant_id c) run st (Some now) (conc s))"
  by (auto simp: complete_tenant_ingestion_run_def Let_def split: option.splits if_splits)

lemma usage_total_status [simp]: "usage_total t k (tenant_runs_update_status v run st fin s) = usage_total t k s"
  by (simp add: tenant_runs_update_status_def)

lemma runs_get_metered [simp]: "tenant_runs_get v run (metering_record fresh now m t usr res n s) = tenant_runs_get v run s"
  by (simp add: tenant_runs_get_def)

lemma find_row_update: "(\<And>x. p x \<Longrightarrow> p (f x)) \<Longrightarrow> find p (row_update p f rows) = map_option f (find p rows)"
  by (induction rows) auto

lemma runs_get_updated:
  "tenant_runs_get v run (tenant_runs_update_status v run st fin s) =
     map_option (\<lambda>r. r\<lparr>tr_status := st, tr_finished_at := fin\<rparr>) (tenant_runs_get v run s)"
  unfolding tenant_runs_get_def tenant_runs_update_status_def by (simp add: find_row_update)

text \<open>C36: the one-way door of an ingestion run does not hold under concurrency.  A completion that read the run before
  another one committed also succeeds: it replaces the terminal status, and the run is billed twice.\<close>

theorem run_completed_twice:
  assumes "complete_tenant_ingestion_run (\<lambda>x. x) fresh now c run first s = Inr (r1, s1)" and "second \<noteq> RUN_RUNNING"
  shows "\<exists>r2 s2. complete_tenant_ingestion_run (\<lambda>_. s1) fresh' now' c run second s = Inr (r2, s2)
    \<and> map_option tr_status (tenant_runs_get (ca_tenant_id c) run s1) = Some first
    \<and> map_option tr_status (tenant_runs_get (ca_tenant_id c) run s2) = Some second
    \<and> usage_total (ca_tenant_id c) TENANT_INGESTION_RUN_COMPLETED s2 =
        usage_total (ca_tenant_id c) TENANT_INGESTION_RUN_COMPLETED s + 2"
proof -
  let ?t = "ca_tenant_id c"
  note s1 = assms(1) [unfolded complete_Inr]
  then obtain r0 where r0: "tenant_runs_get ?t run s = Some r0" "tr_status r0 = RUN_RUNNING" by blast
  define s2 where "s2 = metering_record fresh' now' TENANT_INGESTION_RUN_COMPLETED (Some ?t) None (Some run) 1
      (tenant_runs_update_status ?t run second (Some now') s1)"
  have "complete_tenant_ingestion_run (\<lambda>_. s1) fresh' now' c run second s =
      Inr (r0\<lparr>tr_status := second, tr_finished_at := Some now'\<rparr>, s2)"
    unfolding complete_Inr s2_def using s1 r0 assms(2) by auto
  moreover have "map_option tr_status (tenant_runs_get ?t run s1) = Some first"
    using s1 r0 by (auto simp: runs_get_updated)
  moreover have "map_option tr_status (tenant_runs_get ?t run s2) = Some second"
    using s1 r0 by (auto simp: s2_def runs_get_updated)
  moreover have "usage_total ?t TENANT_INGESTION_RUN_COMPLETED s2 = usage_total ?t TENANT_INGESTION_RUN_COMPLETED s + 2"
    using s1 by (simp add: s2_def usage_total_record)
  ultimately show ?thesis by blast
qed

theorem run_completed_twice_witness:
  "\<exists>r1 s1 r2 s2. complete_tenant_ingestion_run (\<lambda>x. x) (\<lambda>i. i + 1000) 10 (member_of 5) 51 RUN_SUCCEEDED two_tenants = Inr (r1, s1)
     \<and> complete_tenant_ingestion_run (\<lambda>_. s1) (\<lambda>i. i + 2000) 11 (member_of 5) 51 RUN_FAILED two_tenants = Inr (r2, s2)
     \<and> usage_total 5 TENANT_INGESTION_RUN_COMPLETED s2 = 2"
proof -
  obtain r1 s1 where 1: "complete_tenant_ingestion_run (\<lambda>x. x) (\<lambda>i. i + 1000) 10 (member_of 5) 51 RUN_SUCCEEDED two_tenants = Inr (r1, s1)"
    by (simp add: complete_tenant_ingestion_run_def may_write_def same_tenant_def require_write_role_def WRITE_TENANT_ROLES_def
        member_of_def tenant_runs_get_def two_tenants_def Let_def)
  from run_completed_twice [OF 1, of RUN_FAILED "\<lambda>i. i + 2000" 11]
  show ?thesis using 1 by (auto simp: member_of_def usage_total_def two_tenants_def)
qed

end
