(* ===== verification/Argus.thy ===== *)
theory Argus
  imports Store Keyset Py_Float Interfaces
begin

text \<open>
  Argus, the queue of signals for reviewers: \<open>use_cases/run_argus_signal_detection.py\<close>, \<open>review_argus_signal.py\<close>,
  \<open>list_argus_signals.py\<close>, \<open>services/argus_severity.py\<close>, \<open>argus_dedupe.py\<close> and \<open>repositories/argus.py\<close>.  Detection reads
  the conflicts of the core store and the rows of Chronos and Hermes, and refreshes one signal per dedupe key;
  reviewers decide signals under optimistic locking.

  The Argus tables are the record \<open>argus_db\<close> with a counter for \<open>uuid4\<close>; the tables read are an argument, \<open>None\<close> for a
  read that raised; the reads of the core store in one run see the same state.  \<open>conc\<close> is what other transactions commit between a reviewer's read and write.
\<close>

section \<open>Entities\<close>

datatype argus_signal_type =
    NEW_SOURCE_CHANGE | TIMELINE_SEQUENCE_CONFLICT | HIGH_CONFLICT_ACCIDENT_RECORD | REPEATED_AIRCRAFT_INVOLVEMENT
  | REPEATED_OPERATOR_INVOLVEMENT | SOURCE_FETCH_FAILURE_SPIKE | ECHO_STRONG_PRECEDENT_MATCH

datatype argus_severity = SEV_LOW | SEV_MEDIUM | SEV_HIGH | SEV_CRITICAL

datatype argus_signal_status = SIG_OPEN | SIG_CONFIRMED | SIG_DISMISSED | SIG_NEEDS_MORE_REVIEW | SIG_AUTO_RESOLVED

datatype argus_evidence_type =
    EV_ATLAS_CLAIM | EV_ATLAS_CONFLICT | EV_ATLAS_ACCIDENT_EVENT | EV_ORION_ENTITY | EV_ORION_RELATIONSHIP
  | EV_CHRONOS_TIMELINE_EVENT | EV_CHRONOS_SEQUENCE_REVIEW | EV_HERMES_SOURCE_CHANGE | EV_HERMES_FETCH_JOB
  | EV_HERMES_FETCHED_DOCUMENT | EV_ECHO_CROSSREF_RESULT

datatype argus_review_decision = DECIDE_CONFIRMED | DECIDE_DISMISSED | DECIDE_NEEDS_MORE_REVIEW

fun signal_type_value :: "argus_signal_type \<Rightarrow> string" where
  "signal_type_value NEW_SOURCE_CHANGE = ''NEW_SOURCE_CHANGE''"
| "signal_type_value TIMELINE_SEQUENCE_CONFLICT = ''TIMELINE_SEQUENCE_CONFLICT''"
| "signal_type_value HIGH_CONFLICT_ACCIDENT_RECORD = ''HIGH_CONFLICT_ACCIDENT_RECORD''"
| "signal_type_value REPEATED_AIRCRAFT_INVOLVEMENT = ''REPEATED_AIRCRAFT_INVOLVEMENT''"
| "signal_type_value REPEATED_OPERATOR_INVOLVEMENT = ''REPEATED_OPERATOR_INVOLVEMENT''"
| "signal_type_value SOURCE_FETCH_FAILURE_SPIKE = ''SOURCE_FETCH_FAILURE_SPIKE''"
| "signal_type_value ECHO_STRONG_PRECEDENT_MATCH = ''ECHO_STRONG_PRECEDENT_MATCH''"

record argus_signal =
  sg_id :: uuid
  sg_signal_type :: argus_signal_type
  sg_status :: argus_signal_status
  sg_severity :: argus_severity
  sg_confidence :: rat
  sg_title :: string
  sg_description :: "string option"
  sg_accident_event_id :: "uuid option"
  sg_primary_entity_id :: "uuid option"
  sg_source_engine :: string
  sg_dedupe_key :: string
  sg_version :: int
  sg_first_detected_at :: time
  sg_last_detected_at :: time
  sg_created_at :: time
  sg_updated_at :: time

record argus_signal_evidence =
  sv_id :: uuid
  sv_signal_id :: uuid
  sv_evidence_type :: argus_evidence_type
  sv_evidence_id :: uuid
  sv_engine :: string
  sv_summary :: "string option"
  sv_created_at :: time

record argus_signal_review =
  sw_id :: uuid
  sw_signal_id :: uuid
  sw_decision :: argus_review_decision
  sw_reviewer_id :: "uuid option"
  sw_note :: "string option"
  sw_created_at :: time

record argus_db =
  ad_signals :: "argus_signal list"
  ad_evidence :: "argus_signal_evidence list"
  ad_reviews :: "argus_signal_review list"
  ad_next :: uuid

datatype argus_error =
    ArgusSignalNotFoundError uuid
  | ArgusSignalModifiedError uuid int "argus_signal option"
  | Argus_ValueError
  | Argus_DomainValidationError

section \<open>Severity and dedupe keys\<close>

fun severity_rank :: "argus_severity \<Rightarrow> nat" where
  "severity_rank SEV_LOW = 0"
| "severity_rank SEV_MEDIUM = 1"
| "severity_rank SEV_HIGH = 2"
| "severity_rank SEV_CRITICAL = 3"

definition severity_for_chronos_sequence_conflict :: "argus_severity \<times> rat" where
  "severity_for_chronos_sequence_conflict = (SEV_MEDIUM, fl (95 / 100))"

datatype hermes_change_type = FIRST_SEEN | CONTENT_CHANGED | CONTENT_UNCHANGED | FETCH_FAILED

fun change_type_value :: "hermes_change_type \<Rightarrow> string" where
  "change_type_value FIRST_SEEN = ''FIRST_SEEN''"
| "change_type_value CONTENT_CHANGED = ''CONTENT_CHANGED''"
| "change_type_value CONTENT_UNCHANGED = ''CONTENT_UNCHANGED''"
| "change_type_value FETCH_FAILED = ''FETCH_FAILED''"

fun severity_for_hermes_source_change :: "hermes_change_type \<Rightarrow> argus_severity \<times> rat" where
  "severity_for_hermes_source_change FIRST_SEEN = (SEV_LOW, fl (80 / 100))"
| "severity_for_hermes_source_change CONTENT_CHANGED = (SEV_MEDIUM, fl (90 / 100))"
| "severity_for_hermes_source_change CONTENT_UNCHANGED = (SEV_LOW, fl (60 / 100))"
| "severity_for_hermes_source_change FETCH_FAILED = (SEV_LOW, fl (70 / 100))"

definition severity_for_hermes_fetch_failure_spike :: "nat \<Rightarrow> argus_severity \<times> rat" where
  "severity_for_hermes_fetch_failure_spike count =
     (if 10 \<le> count then (SEV_HIGH, fl (90 / 100)) else if 5 \<le> count then (SEV_MEDIUM, fl (80 / 100))
      else (SEV_LOW, fl (60 / 100)))"

definition severity_for_atlas_high_conflict :: "nat \<Rightarrow> argus_severity \<times> rat" where
  "severity_for_atlas_high_conflict open_conflict_count =
     (if 20 \<le> open_conflict_count then (SEV_CRITICAL, fl (95 / 100))
      else if 10 \<le> open_conflict_count then (SEV_HIGH, fl (90 / 100))
      else if 5 \<le> open_conflict_count then (SEV_MEDIUM, fl (85 / 100)) else (SEV_LOW, fl (75 / 100)))"

fun join_colons :: "string list \<Rightarrow> string" where
  "join_colons [] = []"
| "join_colons [w] = w"
| "join_colons (w # ws) = w @ ''::'' @ join_colons ws"

definition make_argus_dedupe_key :: "argus_signal_type \<Rightarrow> string \<Rightarrow> string list \<Rightarrow> string" where
  "make_argus_dedupe_key signal_type source_engine parts =
     (let engine = py_lower (py_strip source_engine); normalized_parts = map (\<lambda>p. py_lower (py_strip p)) parts
      in join_colons ([''ARGUS'', signal_type_value signal_type, engine] @ normalized_parts))"

section \<open>Repositories\<close>

definition signals_get :: "uuid \<Rightarrow> argus_db \<Rightarrow> argus_signal option" where
  "signals_get i s = row_get sg_id i (ad_signals s)"

definition find_by_dedupe_key :: "string \<Rightarrow> argus_db \<Rightarrow> argus_signal option" where
  "find_by_dedupe_key k s = row_get sg_dedupe_key k (ad_signals s)"

text \<open>The \<open>SET\<close> clause of the upsert: severity and confidence only rise, an auto-resolved signal is opened again.\<close>

definition refreshed :: "time \<Rightarrow> argus_signal \<Rightarrow> argus_signal \<Rightarrow> argus_signal" where
  "refreshed now new row =
     row\<lparr>sg_last_detected_at := sg_last_detected_at new, sg_updated_at := now,
         sg_status := (if sg_status row = SIG_AUTO_RESOLVED then SIG_OPEN else sg_status row),
         sg_severity := (if severity_rank (sg_severity row) < severity_rank (sg_severity new) then sg_severity new
           else sg_severity row),
         sg_confidence := (if sg_confidence row < sg_confidence new then sg_confidence new else sg_confidence row)\<rparr>"

definition upsert_signal :: "time \<Rightarrow> argus_signal \<Rightarrow> argus_db \<Rightarrow> (argus_signal \<times> bool) \<times> argus_db" where
  "upsert_signal now new s =
     (case find_by_dedupe_key (sg_dedupe_key new) s of
        Some row \<Rightarrow>
          ((refreshed now new row, False),
           s\<lparr>ad_signals := row_update (\<lambda>r. sg_dedupe_key r = sg_dedupe_key new) (refreshed now new) (ad_signals s)\<rparr>)
      | None \<Rightarrow>
          let row = new\<lparr>sg_status := SIG_OPEN, sg_version := 1, sg_created_at := now, sg_updated_at := now\<rparr>
          in ((row, True), s\<lparr>ad_signals := ad_signals s @ [row]\<rparr>))"

definition same_link :: "argus_signal_evidence \<Rightarrow> argus_signal_evidence \<Rightarrow> bool" where
  "same_link a b \<longleftrightarrow> sv_signal_id a = sv_signal_id b \<and> sv_evidence_type a = sv_evidence_type b
     \<and> sv_evidence_id a = sv_evidence_id b"

definition upsert_evidence :: "time \<Rightarrow> argus_signal_evidence \<Rightarrow> argus_db \<Rightarrow> (argus_signal_evidence \<times> bool) \<times> argus_db" where
  "upsert_evidence now new s =
     (case find (same_link new) (ad_evidence s) of
        Some row \<Rightarrow> ((row, False), s)
      | None \<Rightarrow> let row = new\<lparr>sv_created_at := now\<rparr> in ((row, True), s\<lparr>ad_evidence := ad_evidence s @ [row]\<rparr>))"

definition signal_update_with_version_check ::
  "time \<Rightarrow> uuid \<Rightarrow> int \<Rightarrow> (argus_signal \<Rightarrow> argus_signal) \<Rightarrow> argus_db \<Rightarrow> argus_signal option \<times> argus_db" where
  "signal_update_with_version_check now signal_id expected_version updates s =
     (case signals_get signal_id s of
        None \<Rightarrow> (None, s)
      | Some row \<Rightarrow>
          if sg_version row \<noteq> expected_version then (None, s)
          else
            let row' = (updates row)\<lparr>sg_version := sg_version row + 1, sg_updated_at := now\<rparr>
            in (Some row', s\<lparr>ad_signals := row_update (\<lambda>r. sg_id r = signal_id) (\<lambda>_. row') (ad_signals s)\<rparr>))"

definition signal_reviews_add :: "argus_signal_review \<Rightarrow> argus_db \<Rightarrow> argus_db" where
  "signal_reviews_add r s = s\<lparr>ad_reviews := ad_reviews s @ [r]\<rparr>"

definition signal_key :: "argus_signal \<Rightarrow> time \<times> uuid" where
  "signal_key r = (sg_last_detected_at r, sg_id r)"

definition signal_selected ::
  "argus_signal_status option \<Rightarrow> argus_signal_type option \<Rightarrow> argus_severity option \<Rightarrow> argus_signal \<Rightarrow> bool" where
  "signal_selected st ty sev r \<longleftrightarrow>
     (case st of None \<Rightarrow> True | Some x \<Rightarrow> sg_status r = x) \<and> (case ty of None \<Rightarrow> True | Some x \<Rightarrow> sg_signal_type r = x)
     \<and> (case sev of None \<Rightarrow> True | Some x \<Rightarrow> sg_severity r = x)"

definition signals_list_page ::
  "argus_signal_status option \<Rightarrow> argus_signal_type option \<Rightarrow> argus_severity option \<Rightarrow> nat \<Rightarrow> uuid option \<Rightarrow> argus_db
     \<Rightarrow> argus_signal list" where
  "signals_list_page st ty sev limit after_id s =
     (let rows = filter (signal_selected st ty sev) (ad_signals s);
          selected = (case after_id of
              None \<Rightarrow> rows
            | Some i \<Rightarrow> (case signals_get i s of
                  None \<Rightarrow> rows
                | Some c \<Rightarrow> filter (\<lambda>r. signal_key r < (sg_last_detected_at c, i)) rows))
      in take limit (rev (sort_key signal_key selected)))"

definition count_open_conflicts_per_event :: "int \<Rightarrow> nat \<Rightarrow> db \<Rightarrow> argus_error + (uuid \<times> nat) list" where
  "count_open_conflicts_per_event min_count limit d =
     (if min_count < 2 then Inl Argus_ValueError
      else
        let opens = filter (\<lambda>c. cc_status c = OPEN) (db_conflicts d);
            counted = map (\<lambda>e. (e, length (filter (\<lambda>c. cc_event_id c = e) opens))) (dict_fromkeys (map cc_event_id opens));
            kept = filter (\<lambda>(e, n). min_count \<le> int n) counted
        in Inr (take limit (sort_key (\<lambda>(e, n). (- int n, e)) kept)))"

section \<open>Detection\<close>

record chronos_sequence_review =
  cq_id :: uuid
  cq_accident_event_id :: uuid
  cq_reason :: string
  cq_pending :: bool
  cq_created_at :: time

record hermes_source_change =
  hc_id :: uuid
  hc_target_id :: uuid
  hc_change_type :: hermes_change_type
  hc_detected_at :: time

definition list_pending :: "nat \<Rightarrow> chronos_sequence_review list \<Rightarrow> chronos_sequence_review list" where
  "list_pending limit rows = take limit (sort_key cq_created_at (filter cq_pending rows))"

definition list_recent :: "nat \<Rightarrow> hermes_source_change list \<Rightarrow> hermes_source_change list" where
  "list_recent limit rows = take limit (py_sorted_rev hc_detected_at rows)"

record argus_detection_result =
  dr_signals_created_count :: nat
  dr_signals_reused_count :: nat
  dr_evidence_links_created_count :: nat
  dr_signal_ids :: "uuid list"
  dr_evidence_ids :: "uuid list"
  dr_engines_errored :: "string list"
  dr_engines_skipped :: "string list"
  dr_signals_created_by_type :: "argus_signal_type \<Rightarrow> nat"

definition empty_detection_result :: argus_detection_result where
  "empty_detection_result =
     \<lparr>dr_signals_created_count = 0, dr_signals_reused_count = 0, dr_evidence_links_created_count = 0, dr_signal_ids = [],
      dr_evidence_ids = [], dr_engines_errored = [], dr_engines_skipped = [], dr_signals_created_by_type = (\<lambda>_. 0)\<rparr>"

text \<open>A signal as the detectors build it, with the identifier drawn for it.\<close>

definition new_signal ::
  "argus_signal_type \<Rightarrow> argus_severity \<times> rat \<Rightarrow> string \<Rightarrow> string \<Rightarrow> uuid option \<Rightarrow> string \<Rightarrow> string list \<Rightarrow> time \<Rightarrow> argus_db
     \<Rightarrow> argus_signal \<times> argus_db" where
  "new_signal ty sc title descr ev engine parts now s =
     (\<lparr>sg_id = ad_next s, sg_signal_type = ty, sg_status = SIG_OPEN, sg_severity = fst sc, sg_confidence = snd sc,
       sg_title = title, sg_description = Some descr, sg_accident_event_id = ev, sg_primary_entity_id = None,
       sg_source_engine = engine, sg_dedupe_key = make_argus_dedupe_key ty engine parts, sg_version = 1,
       sg_first_detected_at = now, sg_last_detected_at = now, sg_created_at = now, sg_updated_at = now\<rparr>,
      s\<lparr>ad_next := ad_next s + 1\<rparr>)"

type_synonym detection = "argus_detection_result \<times> argus_db"

definition detect_upsert_signal :: "time \<Rightarrow> argus_signal \<Rightarrow> detection \<Rightarrow> argus_signal \<times> detection" where
  "detect_upsert_signal now signal rs =
     (let (result, s) = rs; ((persisted, created), s1) = upsert_signal now signal s;
          result1 = (if created
            then result\<lparr>dr_signals_created_count := dr_signals_created_count result + 1,
                   dr_signals_created_by_type := (dr_signals_created_by_type result)
                     (sg_signal_type signal := dr_signals_created_by_type result (sg_signal_type signal) + 1)\<rparr>
            else result\<lparr>dr_signals_reused_count := dr_signals_reused_count result + 1\<rparr>);
          result2 = (if sg_id persisted \<in> set (dr_signal_ids result1) then result1
            else result1\<lparr>dr_signal_ids := dr_signal_ids result1 @ [sg_id persisted]\<rparr>)
      in (persisted, result2, s1))"

definition detect_upsert_evidence ::
  "time \<Rightarrow> uuid \<Rightarrow> argus_evidence_type \<Rightarrow> uuid \<Rightarrow> string \<Rightarrow> string \<Rightarrow> detection \<Rightarrow> detection" where
  "detect_upsert_evidence now signal_id ty evidence_id engine summary rs =
     (let (result, s) = rs;
          evidence = \<lparr>sv_id = ad_next s, sv_signal_id = signal_id, sv_evidence_type = ty, sv_evidence_id = evidence_id,
            sv_engine = engine, sv_summary = Some summary, sv_created_at = now\<rparr>;
          ((persisted, created), s1) = upsert_evidence now evidence (s\<lparr>ad_next := ad_next s + 1\<rparr>)
      in (if created
          then result\<lparr>dr_evidence_links_created_count := dr_evidence_links_created_count result + 1,
                 dr_evidence_ids := dr_evidence_ids result @ [sv_id persisted]\<rparr>
          else result, s1))"

text \<open>One signal with its evidence: the body the detectors share.\<close>

definition emit ::
  "time \<Rightarrow> argus_signal_type \<Rightarrow> argus_severity \<times> rat \<Rightarrow> string \<Rightarrow> string \<Rightarrow> uuid option \<Rightarrow> string \<Rightarrow> string list
     \<Rightarrow> (argus_evidence_type \<times> uuid \<times> string) list \<Rightarrow> detection \<Rightarrow> detection" where
  "emit now ty sc title descr ev engine parts evidence rs =
     (let (result, s) = rs; (signal, s1) = new_signal ty sc title descr ev engine parts now s;
          (persisted, rs1) = detect_upsert_signal now signal (result, s1)
      in fold (\<lambda>(et, ei, summary). detect_upsert_evidence now (sg_id persisted) et ei engine summary) evidence rs1)"

definition detect_chronos :: "nat \<Rightarrow> time \<Rightarrow> chronos_sequence_review list option \<Rightarrow> detection \<Rightarrow> detection" where
  "detect_chronos limit now chronos rs =
     (case chronos of
        None \<Rightarrow> (fst rs\<lparr>dr_engines_errored := dr_engines_errored (fst rs) @ [''chronos'']\<rparr>, snd rs)
      | Some rows \<Rightarrow>
          fold (\<lambda>review. emit now TIMELINE_SEQUENCE_CONFLICT severity_for_chronos_sequence_conflict
              ''Timeline sequence conflict detected'' (cq_reason review) (Some (cq_accident_event_id review)) ''chronos''
              [str_uuid (cq_id review)] [(EV_CHRONOS_SEQUENCE_REVIEW, cq_id review, cq_reason review)])
            (list_pending limit rows) rs)"

definition FETCH_FAILURE_SPIKE_THRESHOLD :: nat where
  "FETCH_FAILURE_SPIKE_THRESHOLD = 5"

definition change_text :: "hermes_source_change \<Rightarrow> string" where
  "change_text c = ''change_type='' @ change_type_value (hc_change_type c) @ '' target_id='' @ str_uuid (hc_target_id c)"

definition emit_change :: "time \<Rightarrow> hermes_source_change \<Rightarrow> detection \<Rightarrow> detection" where
  "emit_change now c =
     emit now NEW_SOURCE_CHANGE (severity_for_hermes_source_change (hc_change_type c))
       (if hc_change_type c = FIRST_SEEN then ''New source first seen'' else ''Source content changed'') (change_text c) None
       ''hermes'' [str_uuid (hc_target_id c), change_type_value (hc_change_type c)]
       [(EV_HERMES_SOURCE_CHANGE, hc_id c, change_text c)]"

definition emit_spike :: "time \<Rightarrow> uuid \<times> hermes_source_change list \<Rightarrow> detection \<Rightarrow> detection" where
  "emit_spike now tf =
     (case tf of (target_id, failures) \<Rightarrow>
        if length failures < FETCH_FAILURE_SPIKE_THRESHOLD then (\<lambda>rs. rs)
        else emit now SOURCE_FETCH_FAILURE_SPIKE (severity_for_hermes_fetch_failure_spike (length failures))
          (''Fetch failure spike: '' @ str_of_nat (length failures) @ '' recent failures for target'')
          (''Target '' @ str_uuid target_id @ '' has '' @ str_of_nat (length failures) @ '' recent fetch failures.'') None
          ''hermes'' [str_uuid target_id] (map (\<lambda>f. (EV_HERMES_SOURCE_CHANGE, hc_id f, change_text f)) failures))"

definition detect_hermes :: "nat \<Rightarrow> time \<Rightarrow> hermes_source_change list option \<Rightarrow> detection \<Rightarrow> detection" where
  "detect_hermes limit now hermes rs =
     (case hermes of
        None \<Rightarrow> (fst rs\<lparr>dr_engines_errored := dr_engines_errored (fst rs) @ [''hermes'']\<rparr>, snd rs)
      | Some rows \<Rightarrow>
          let changes = list_recent limit rows;
              failures_by_target = group_by hc_target_id (filter (\<lambda>c. hc_change_type c = FETCH_FAILED) changes);
              non_failure_changes = filter (\<lambda>c. hc_change_type c \<notin> {FETCH_FAILED, CONTENT_UNCHANGED}) changes
          in fold (emit_spike now) failures_by_target (fold (emit_change now) non_failure_changes rs))"

definition emit_high_conflict :: "time \<Rightarrow> int \<Rightarrow> db \<Rightarrow> uuid \<times> nat \<Rightarrow> detection \<Rightarrow> detection" where
  "emit_high_conflict now min_count d en =
     (case en of (event_id, open_count) \<Rightarrow>
        emit now HIGH_CONFLICT_ACCIDENT_RECORD (severity_for_atlas_high_conflict open_count)
          (''High-conflict accident record: '' @ str_of_nat open_count @ '' open conflicts'')
          (''Event '' @ str_uuid event_id @ '' has '' @ str_of_nat open_count @ '' OPEN claim conflicts (threshold=''
            @ str_of_int min_count @ '').'') (Some event_id) ''atlas'' [str_uuid event_id]
          (map (\<lambda>c. (EV_ATLAS_CONFLICT, cc_id c, ''OPEN conflict on field='' @ cc_field_name c))
            (filter (\<lambda>c. cc_status c = OPEN) (conflicts_find_by_event event_id d))))"

text \<open>The core store, or \<open>None\<close> when the counting query raised.\<close>

definition detect_atlas :: "int \<Rightarrow> nat \<Rightarrow> time \<Rightarrow> db option \<Rightarrow> detection \<Rightarrow> detection" where
  "detect_atlas min_count limit now core rs =
     (if min_count < 2 then rs
      else (case core of
          None \<Rightarrow> (fst rs\<lparr>dr_engines_errored := dr_engines_errored (fst rs) @ [''atlas'']\<rparr>, snd rs)
        | Some d \<Rightarrow>
            (case count_open_conflicts_per_event min_count limit d of
               Inl e \<Rightarrow> (fst rs\<lparr>dr_engines_errored := dr_engines_errored (fst rs) @ [''atlas'']\<rparr>, snd rs)
             | Inr high_events \<Rightarrow> fold (emit_high_conflict now min_count d) high_events rs)))"

record detection_input =
  di_include_chronos :: bool
  di_include_hermes :: bool
  di_include_atlas :: bool
  di_include_orion :: bool
  di_recent_limit :: int
  di_high_conflict_threshold :: int

definition run_argus_signal_detection ::
  "time \<Rightarrow> detection_input \<Rightarrow> chronos_sequence_review list option \<Rightarrow> hermes_source_change list option \<Rightarrow> db option \<Rightarrow> argus_db
     \<Rightarrow> argus_error + (argus_detection_result \<times> argus_db)" where
  "run_argus_signal_detection now inp chronos hermes core s =
     (if \<not> (1 \<le> di_recent_limit inp \<and> di_recent_limit inp \<le> 1000) then Inl Argus_ValueError
      else
        let limit = nat (di_recent_limit inp);
            rs0 = (empty_detection_result, s);
            rs1 = (if di_include_chronos inp then detect_chronos limit now chronos rs0 else rs0);
            rs2 = (if di_include_hermes inp then detect_hermes limit now hermes rs1 else rs1);
            rs3 = (if di_include_atlas inp then detect_atlas (di_high_conflict_threshold inp) limit now core rs2 else rs2);
            result = (if di_include_orion inp
              then (fst rs3)\<lparr>dr_engines_skipped := dr_engines_skipped (fst rs3) @ [''orion'']\<rparr> else fst rs3);
            wrote_anything = 0 < dr_signals_created_count result + dr_signals_reused_count result
              + dr_evidence_links_created_count result
        in Inr (result, if wrote_anything then snd rs3 else s))"

section \<open>Review and listing\<close>

fun decision_to_status :: "argus_review_decision \<Rightarrow> argus_signal_status" where
  "decision_to_status DECIDE_CONFIRMED = SIG_CONFIRMED"
| "decision_to_status DECIDE_DISMISSED = SIG_DISMISSED"
| "decision_to_status DECIDE_NEEDS_MORE_REVIEW = SIG_NEEDS_MORE_REVIEW"

record review_signal_input =
  rv_signal_id :: uuid
  rv_decision :: argus_review_decision
  rv_expected_version :: int
  rv_reviewer_id :: "uuid option"
  rv_note :: "string option"

definition review_argus_signal ::
  "(argus_db \<Rightarrow> argus_db) \<Rightarrow> time \<Rightarrow> review_signal_input \<Rightarrow> argus_db \<Rightarrow> argus_error + (argus_signal \<times> argus_db)" where
  "review_argus_signal conc now inp s =
     (case signals_get (rv_signal_id inp) s of
        None \<Rightarrow> Inl (ArgusSignalNotFoundError (rv_signal_id inp))
      | Some signal \<Rightarrow>
          if sg_version signal \<noteq> rv_expected_version inp
          then Inl (ArgusSignalModifiedError (sg_id signal) (sg_version signal) (Some signal))
          else
            let s0 = conc s;
                review = \<lparr>sw_id = ad_next s0, sw_signal_id = sg_id signal, sw_decision = rv_decision inp,
                  sw_reviewer_id = rv_reviewer_id inp, sw_note = rv_note inp, sw_created_at = now\<rparr>;
                s1 = signal_reviews_add review (s0\<lparr>ad_next := ad_next s0 + 1\<rparr>);
                new_status = decision_to_status (rv_decision inp)
            in (case signal_update_with_version_check now (sg_id signal) (rv_expected_version inp)
                    (\<lambda>r. r\<lparr>sg_status := new_status\<rparr>) s1 of
                  (None, s2) \<Rightarrow>
                    let latest = signals_get (sg_id signal) s2
                    in Inl (ArgusSignalModifiedError (sg_id signal)
                         (case latest of None \<Rightarrow> sg_version signal + 1 | Some l \<Rightarrow> sg_version l) latest)
                | (Some updated, s2) \<Rightarrow> Inr (updated, s2)))"

definition MAX_ARGUS_SIGNALS_PAGE_SIZE :: int where
  "MAX_ARGUS_SIGNALS_PAGE_SIZE = 500"

definition argus_bounded_limit :: "int \<Rightarrow> int" where
  "argus_bounded_limit limit = max 1 (min limit MAX_ARGUS_SIGNALS_PAGE_SIZE)"

definition list_argus_signals ::
  "argus_signal_status option \<Rightarrow> argus_signal_type option \<Rightarrow> argus_severity option \<Rightarrow> int \<Rightarrow> uuid option \<Rightarrow> argus_db
     \<Rightarrow> argus_error + (argus_signal list \<times> int \<times> uuid option)" where
  "list_argus_signals st ty sev limit cursor s =
     (if limit < 1 then Inl Argus_DomainValidationError
      else
        let page_limit = argus_bounded_limit limit;
            rows = signals_list_page st ty sev (nat page_limit + 1) cursor s;
            items = take (nat page_limit) rows
        in Inr (items, page_limit,
                if nat page_limit < length rows \<and> items \<noteq> [] then Some (sg_id (last items)) else None))"

end
