(* ===== verification/Argus_Review.thy ===== *)
theory Argus_Review
  imports Argus
begin

text \<open>
  What Argus promises its reviewers: the status of a signal is the last decision on it, no decision is lost or
  overwritten by a detection pass, signals only grow more severe, and an accident record with many open conflicts
  has a signal that shows all of them.
\<close>

section \<open>The invariant\<close>

definition signal_reviews :: "argus_db \<Rightarrow> uuid \<Rightarrow> argus_signal_review list" where
  "signal_reviews s i = filter (\<lambda>r. sw_signal_id r = i) (ad_reviews s)"

definition decided :: "argus_signal_review list \<Rightarrow> argus_signal_status" where
  "decided rs = (if rs = [] then SIG_OPEN else decision_to_status (sw_decision (last rs)))"

definition link :: "argus_signal_evidence \<Rightarrow> uuid \<times> argus_evidence_type \<times> uuid" where
  "link e = (sv_signal_id e, sv_evidence_type e, sv_evidence_id e)"

definition signal_ok :: "argus_db \<Rightarrow> argus_signal \<Rightarrow> bool" where
  "signal_ok s r \<longleftrightarrow> sg_version r = 1 + int (length (signal_reviews s (sg_id r)))
     \<and> sg_status r = decided (signal_reviews s (sg_id r))"

definition argus_inv :: "argus_db \<Rightarrow> bool" where
  "argus_inv s \<longleftrightarrow>
     ids_below sg_id (ad_signals s) (ad_next s) \<and> distinct (map sg_dedupe_key (ad_signals s))
     \<and> (\<forall>r \<in> set (ad_signals s). signal_ok s r)
     \<and> sw_signal_id ` set (ad_reviews s) \<subseteq> sg_id ` set (ad_signals s)
     \<and> sv_signal_id ` set (ad_evidence s) \<subseteq> sg_id ` set (ad_signals s) \<and> distinct (map link (ad_evidence s))"

text \<open>What only ever grows: signals, their severity, confidence and version, the reviews and the evidence.\<close>

definition covers :: "argus_signal \<Rightarrow> argus_signal \<Rightarrow> bool" where
  "covers r r' \<longleftrightarrow> sg_id r' = sg_id r \<and> sg_dedupe_key r' = sg_dedupe_key r
     \<and> severity_rank (sg_severity r) \<le> severity_rank (sg_severity r') \<and> sg_confidence r \<le> sg_confidence r'
     \<and> sg_version r \<le> sg_version r'"

definition grows :: "argus_db \<Rightarrow> argus_db \<Rightarrow> bool" where
  "grows s s' \<longleftrightarrow>
     (\<forall>r \<in> set (ad_signals s). \<exists>r' \<in> set (ad_signals s'). covers r r')
     \<and> (\<exists>rs. ad_reviews s' = ad_reviews s @ rs) \<and> link ` set (ad_evidence s) \<subseteq> link ` set (ad_evidence s')"

lemma covers_refl [simp]: "covers r r"
  by (simp add: covers_def)

lemma covers_trans: "covers a b \<Longrightarrow> covers b c \<Longrightarrow> covers a c"
  by (auto simp: covers_def)

lemma growsI:
  assumes "\<And>r. r \<in> set (ad_signals s) \<Longrightarrow> g r \<in> set (ad_signals s') \<and> covers r (g r)"
    and "ad_reviews s' = ad_reviews s @ rs" and "set (ad_evidence s) \<subseteq> set (ad_evidence s')"
  shows "grows s s'"
proof -
  have "\<exists>r' \<in> set (ad_signals s'). covers r r'" if "r \<in> set (ad_signals s)" for r using assms(1) [OF that] by blast
  then show ?thesis using assms(2,3) by (auto simp: grows_def)
qed

lemma grows_refl [simp]: "grows s s"
  by (rule growsI [where g = "\<lambda>r. r" and rs = "[]"]) simp_all

lemma grows_trans:
  assumes "grows s t" and "grows t u"
  shows "grows s u"
proof -
  have "\<exists>r' \<in> set (ad_signals u). covers r r'" if "r \<in> set (ad_signals s)" for r
    using assms that covers_trans unfolding grows_def by meson
  moreover have "\<exists>rs. ad_reviews u = ad_reviews s @ rs" using assms by (auto simp: grows_def)
  moreover have "link ` set (ad_evidence s) \<subseteq> link ` set (ad_evidence u)"
    using assms unfolding grows_def by (meson order_trans)
  ultimately show ?thesis by (simp add: grows_def)
qed

lemma grows_link: "grows s s' \<Longrightarrow> k \<in> link ` set (ad_evidence s) \<Longrightarrow> k \<in> link ` set (ad_evidence s')"
  by (auto simp: grows_def)

section \<open>The writes\<close>

lemma covers_refreshed [simp]: "covers r (refreshed now new r)"
  by (simp add: covers_def refreshed_def)

lemma refreshed_status: "sg_status r \<noteq> SIG_AUTO_RESOLVED \<Longrightarrow> sg_status (refreshed now new r) = sg_status r"
  by (simp add: refreshed_def)

lemma decided_not_auto: "decided rs \<noteq> SIG_AUTO_RESOLVED"
proof -
  have "decision_to_status x \<noteq> SIG_AUTO_RESOLVED" for x by (cases x) auto
  then show ?thesis by (simp add: decided_def)
qed

lemma refreshed_fields [simp]:
  "sg_id (refreshed now new r) = sg_id r" "sg_version (refreshed now new r) = sg_version r"
  "sg_dedupe_key (refreshed now new r) = sg_dedupe_key r"
  by (simp_all add: refreshed_def)

lemma signal_ok_refreshed: "signal_ok s r \<Longrightarrow> signal_ok s (refreshed now new r)"
  using decided_not_auto by (auto simp: signal_ok_def refreshed_status)

lemma signal_ok_cong: "ad_reviews s' = ad_reviews s \<Longrightarrow> signal_ok s' r = signal_ok s r"
  by (simp add: signal_ok_def signal_reviews_def)

lemma reviews_fresh:
  assumes "argus_inv s"
  shows "signal_reviews s (ad_next s) = []"
proof -
  have "ad_next s \<notin> sg_id ` set (ad_signals s)" using assms by (simp add: argus_inv_def ids_below_fresh)
  moreover have "sw_signal_id ` set (ad_reviews s) \<subseteq> sg_id ` set (ad_signals s)" using assms by (simp add: argus_inv_def)
  ultimately show ?thesis unfolding signal_reviews_def filter_empty_conv by (metis imageI subsetD)
qed

lemma upsert_signal_post:
  assumes inv: "argus_inv s" and new: "sg_id new = ad_next s"
    and up: "upsert_signal now new (s\<lparr>ad_next := ad_next s + 1\<rparr>) = ((r, created), s')"
  shows "argus_inv s' \<and> grows s s' \<and> r \<in> set (ad_signals s') \<and> sg_dedupe_key r = sg_dedupe_key new
    \<and> severity_rank (sg_severity new) \<le> severity_rank (sg_severity r) \<and> sg_confidence new \<le> sg_confidence r"
proof (cases "find_by_dedupe_key (sg_dedupe_key new) (s\<lparr>ad_next := ad_next s + 1\<rparr>)")
  case None
  define row where "row = new\<lparr>sg_status := SIG_OPEN, sg_version := 1, sg_created_at := now, sg_updated_at := now\<rparr>"
  have s': "s' = s\<lparr>ad_next := ad_next s + 1, ad_signals := ad_signals s @ [row]\<rparr>" "r = row"
    using up None by (auto simp: upsert_signal_def row_def Let_def)
  have key: "sg_dedupe_key new \<notin> sg_dedupe_key ` set (ad_signals s)"
    using None by (simp add: find_by_dedupe_key_def row_get_None_iff)
  have "signal_ok s row" using reviews_fresh [OF inv] new by (simp add: signal_ok_def row_def decided_def)
  then have "argus_inv s'"
    using inv key new unfolding s' argus_inv_def
    by (auto simp: row_def ids_below_def less_Suc_eq signal_ok_def signal_reviews_def)
  moreover have "grows s s'" unfolding s' by (rule growsI [where g = "\<lambda>r. r" and rs = "[]"]) simp_all
  ultimately show "argus_inv s' \<and> grows s s' \<and> r \<in> set (ad_signals s') \<and> sg_dedupe_key r = sg_dedupe_key new
      \<and> severity_rank (sg_severity new) \<le> severity_rank (sg_severity r) \<and> sg_confidence new \<le> sg_confidence r"
    using s' by (simp add: row_def)
next
  case (Some row)
  let ?p = "\<lambda>x. sg_dedupe_key x = sg_dedupe_key new"
  have s': "s' = s\<lparr>ad_next := ad_next s + 1, ad_signals := row_update ?p (refreshed now new) (ad_signals s)\<rparr>"
      "r = refreshed now new row"
    using up Some by (simp_all add: upsert_signal_def)
  have row: "row \<in> set (ad_signals s)" "?p row" using Some row_get_SomeD by (force simp: find_by_dedupe_key_def)+
  have "map sg_id (ad_signals s') = map sg_id (ad_signals s)" unfolding s' by (simp add: map_row_update)
  then have ids: "sg_id ` set (ad_signals s') = sg_id ` set (ad_signals s)" by (metis list.set_map)
  have "argus_inv s'"
    using inv unfolding argus_inv_def ids
    by (auto simp: s' map_row_update set_row_update ids_below_def signal_ok_def signal_reviews_def decided_not_auto refreshed_status
        intro: less_SucI)
  moreover have "grows s s'"
    unfolding s' by (rule growsI [where g = "\<lambda>r. if ?p r then refreshed now new r else r" and rs = "[]"])
      (auto simp: set_row_update)
  moreover have "r \<in> set (ad_signals s')" unfolding s' using row by (auto simp: set_row_update)
  moreover have "severity_rank (sg_severity new) \<le> severity_rank (sg_severity r)" "sg_confidence new \<le> sg_confidence r"
    unfolding s' by (auto simp: refreshed_def)
  ultimately show "argus_inv s' \<and> grows s s' \<and> r \<in> set (ad_signals s') \<and> sg_dedupe_key r = sg_dedupe_key new
      \<and> severity_rank (sg_severity new) \<le> severity_rank (sg_severity r) \<and> sg_confidence new \<le> sg_confidence r"
    using s' row by simp
qed

lemma upsert_evidence_post:
  assumes inv: "argus_inv s" and sig: "sv_signal_id new \<in> sg_id ` set (ad_signals s)"
    and up: "upsert_evidence now new (s\<lparr>ad_next := ad_next s + 1\<rparr>) = ((e, created), s')"
  shows "argus_inv s' \<and> grows s s' \<and> link new \<in> link ` set (ad_evidence s') \<and> ad_signals s' = ad_signals s"
proof (cases "find (same_link new) (ad_evidence s)")
  case None
  then have "link new \<notin> link ` set (ad_evidence s)"
    by (auto simp: find_None_iff same_link_def link_def)
  moreover have s': "s' = s\<lparr>ad_next := ad_next s + 1, ad_evidence := ad_evidence s @ [new\<lparr>sv_created_at := now\<rparr>]\<rparr>"
    using up None by (auto simp: upsert_evidence_def Let_def)
  moreover have "link (new\<lparr>sv_created_at := now\<rparr>) = link new" by (simp add: link_def)
  moreover have "grows s s'" unfolding s' by (rule growsI [where g = "\<lambda>r. r" and rs = "[]"]) auto
  ultimately show "argus_inv s' \<and> grows s s' \<and> link new \<in> link ` set (ad_evidence s') \<and> ad_signals s' = ad_signals s"
    using inv sig by (auto simp: argus_inv_def ids_below_def signal_ok_def signal_reviews_def less_SucI)
next
  case (Some row)
  then have s': "s' = s\<lparr>ad_next := ad_next s + 1\<rparr>" using up by (simp add: upsert_evidence_def)
  have "row \<in> set (ad_evidence s)" "link row = link new" using Some by (auto simp: find_Some_iff same_link_def link_def)
  then have "link new \<in> link ` set (ad_evidence s)" by (metis imageI)
  moreover have "grows s s'" unfolding s' by (rule growsI [where g = "\<lambda>r. r" and rs = "[]"]) auto
  ultimately show "argus_inv s' \<and> grows s s' \<and> link new \<in> link ` set (ad_evidence s') \<and> ad_signals s' = ad_signals s"
    using inv by (auto simp: s' argus_inv_def ids_below_def signal_ok_def signal_reviews_def less_SucI)
qed

section \<open>Detection passes\<close>

text \<open>What a detector promises: the invariant is kept, nothing shrinks and the counters do not fall.\<close>

definition writes :: "argus_detection_result \<Rightarrow> nat" where
  "writes r = dr_signals_created_count r + dr_signals_reused_count r + dr_evidence_links_created_count r"

definition pass_ok :: "detection \<Rightarrow> detection \<Rightarrow> bool" where
  "pass_ok rs rs' \<longleftrightarrow> argus_inv (snd rs') \<and> grows (snd rs) (snd rs') \<and> writes (fst rs) \<le> writes (fst rs')"

lemma pass_ok_trans: "pass_ok a b \<Longrightarrow> pass_ok b c \<Longrightarrow> pass_ok a c"
  using grows_trans by (auto simp: pass_ok_def)

lemma pass_ok_refl: "argus_inv (snd rs) \<Longrightarrow> pass_ok rs rs"
  by (simp add: pass_ok_def)

lemma pass_ok_fold:
  assumes "\<And>x rs. x \<in> set xs \<Longrightarrow> argus_inv (snd rs) \<Longrightarrow> pass_ok rs (f x rs)" and "argus_inv (snd rs)"
  shows "pass_ok rs (fold f xs rs)"
  using assms
proof (induction xs arbitrary: rs)
  case Nil
  then show ?case by (simp add: pass_ok_def)
next
  case (Cons x xs)
  have 1: "pass_ok rs (f x rs)" using Cons.prems by simp
  then have "pass_ok (f x rs) (fold f xs (f x rs))" using Cons by (auto simp: pass_ok_def)
  then show ?case using pass_ok_trans [OF 1] by simp
qed

lemma detect_upsert_evidence_ok:
  assumes "argus_inv (snd rs)" and "i \<in> sg_id ` set (ad_signals (snd rs))"
    and rs'_def: "rs' = detect_upsert_evidence now i et ei engine summary rs"
  shows "pass_ok rs rs' \<and> (i, et, ei) \<in> link ` set (ad_evidence (snd rs')) \<and> ad_signals (snd rs') = ad_signals (snd rs)"
proof -
  obtain result s where rs: "rs = (result, s)" by (cases rs)
  define new where "new = \<lparr>sv_id = ad_next s, sv_signal_id = i, sv_evidence_type = et, sv_evidence_id = ei,
    sv_engine = engine, sv_summary = Some summary, sv_created_at = now\<rparr>"
  obtain e created s' where up: "upsert_evidence now new (s\<lparr>ad_next := ad_next s + 1\<rparr>) = ((e, created), s')"
    by (metis surj_pair)
  have "link new = (i, et, ei)" "sv_signal_id new = i" by (simp_all add: new_def link_def)
  moreover have "snd rs' = s'" "writes result \<le> writes (fst rs')"
    using up by (simp_all add: rs'_def rs detect_upsert_evidence_def new_def [symmetric] writes_def Let_def)
  ultimately show ?thesis
    using upsert_evidence_post [OF _ _ up] assms(1,2) by (simp add: rs pass_ok_def)
qed

lemma link_evidence_ok:
  assumes "argus_inv (snd rs)" and "i \<in> sg_id ` set (ad_signals (snd rs))"
    and rs'_def: "rs' = fold (\<lambda>(et, ei, summary). detect_upsert_evidence now i et ei engine summary) evidence rs"
  shows "pass_ok rs rs' \<and> (\<forall>(et, ei, summary) \<in> set evidence. (i, et, ei) \<in> link ` set (ad_evidence (snd rs')))
    \<and> ad_signals (snd rs') = ad_signals (snd rs)"
  unfolding rs'_def using assms(1,2)
proof (induction evidence arbitrary: rs)
  case Nil
  then show ?case by (simp add: pass_ok_def)
next
  case (Cons x evidence)
  obtain et ei summary where x: "x = (et, ei, summary)" by (cases x)
  let ?rs1 = "detect_upsert_evidence now i et ei engine summary rs"
  note 1 = detect_upsert_evidence_ok [OF Cons.prems refl, of now et ei engine summary]
  then have inv1: "argus_inv (snd ?rs1)" "i \<in> sg_id ` set (ad_signals (snd ?rs1))" using Cons.prems by (simp_all add: pass_ok_def)
  let ?rs2 = "fold (\<lambda>(et, ei, summary). detect_upsert_evidence now i et ei engine summary) evidence ?rs1"
  note 2 = Cons.IH [OF inv1]
  have "(i, et, ei) \<in> link ` set (ad_evidence (snd ?rs2))"
    using 1 2 grows_link [of "snd ?rs1" "snd ?rs2"] by (simp add: pass_ok_def)
  then show ?case using 1 2 pass_ok_trans [of rs ?rs1 ?rs2] by (simp add: x)
qed

lemma emit_ok:
  assumes "argus_inv (snd rs)"
    and rs'_def: "rs' = emit now ty sc title descr ev engine parts evidence rs"
  shows "pass_ok rs rs' \<and> 0 < writes (fst rs')
    \<and> (\<exists>r \<in> set (ad_signals (snd rs')). sg_dedupe_key r = make_argus_dedupe_key ty engine parts
         \<and> severity_rank (fst sc) \<le> severity_rank (sg_severity r)
         \<and> (\<forall>(et, ei, summary) \<in> set evidence. (sg_id r, et, ei) \<in> link ` set (ad_evidence (snd rs'))))"
proof -
  obtain result s where rs: "rs = (result, s)" by (cases rs)
  define new where "new = fst (new_signal ty sc title descr ev engine parts now s)"
  have new: "sg_id new = ad_next s" "sg_dedupe_key new = make_argus_dedupe_key ty engine parts" "sg_severity new = fst sc"
    by (simp_all add: new_def new_signal_def)
  obtain r created s1 where up: "upsert_signal now new (s\<lparr>ad_next := ad_next s + 1\<rparr>) = ((r, created), s1)"
    by (metis surj_pair)
  note post = upsert_signal_post [OF _ new(1) up]
  define rs1 where "rs1 = snd (detect_upsert_signal now new (result, s\<lparr>ad_next := ad_next s + 1\<rparr>))"
  have rs1: "snd rs1 = s1" "writes result < writes (fst rs1)"
    and r: "fst (detect_upsert_signal now new (result, s\<lparr>ad_next := ad_next s + 1\<rparr>)) = r"
    using up by (simp_all add: rs1_def detect_upsert_signal_def Let_def writes_def)
  have rs': "rs' = fold (\<lambda>(et, ei, summary). detect_upsert_evidence now (sg_id r) et ei engine summary) evidence rs1"
    unfolding rs'_def emit_def rs using r
    by (simp add: new_signal_def new_def rs1_def split_beta Let_def)
  have 1: "pass_ok rs rs1" using post assms(1) rs1 by (simp add: pass_ok_def rs)
  have "sg_id r \<in> sg_id ` set (ad_signals (snd rs1))" using post assms(1) rs1 by (simp add: rs)
  note 2 = link_evidence_ok [OF _ this rs']
  then show ?thesis using 1 post assms(1) rs1 new pass_ok_trans [OF 1]
    by (auto simp: rs pass_ok_def intro!: bexI [of _ r])
qed

lemma emit_pass: "argus_inv (snd rs) \<Longrightarrow> pass_ok rs (emit now ty sc title descr ev engine parts evidence rs)"
  using emit_ok [OF _ refl] by blast

lemma errored_pass: "argus_inv (snd rs) \<Longrightarrow> pass_ok rs ((fst rs)\<lparr>dr_engines_errored := x\<rparr>, snd rs)"
  by (simp add: pass_ok_def writes_def)

lemma detect_chronos_ok: "argus_inv (snd rs) \<Longrightarrow> pass_ok rs (detect_chronos limit now chronos rs)"
  unfolding detect_chronos_def by (auto intro: pass_ok_fold emit_pass errored_pass split: option.split)

lemma emit_change_ok: "argus_inv (snd rs) \<Longrightarrow> pass_ok rs (emit_change now c rs)"
  unfolding emit_change_def by (rule emit_pass)

lemma emit_spike_ok: "argus_inv (snd rs) \<Longrightarrow> pass_ok rs (emit_spike now tf rs)"
  unfolding emit_spike_def by (simp add: emit_pass pass_ok_refl split: prod.split)

lemma detect_hermes_ok:
  assumes "argus_inv (snd rs)"
  shows "pass_ok rs (detect_hermes limit now hermes rs)"
proof (cases hermes)
  case None
  then show ?thesis using errored_pass [OF assms] by (simp add: detect_hermes_def)
next
  case (Some rows)
  have 1: "pass_ok rs (fold (emit_change now) cs rs)" for cs by (rule pass_ok_fold [OF _ assms]) (rule emit_change_ok)
  have "pass_ok (fold (emit_change now) cs rs) (fold (emit_spike now) fs (fold (emit_change now) cs rs))" for cs fs
    by (rule pass_ok_fold) (use 1 emit_spike_ok in \<open>auto simp: pass_ok_def\<close>)
  from pass_ok_trans [OF 1 this] show ?thesis using Some unfolding detect_hermes_def Let_def by simp
qed

lemma emit_high_conflict_ok:
  assumes "argus_inv (snd rs)" and "rs' = emit_high_conflict now min_count d (e, n) rs"
  shows "pass_ok rs rs' \<and> 0 < writes (fst rs')
    \<and> (\<exists>r \<in> set (ad_signals (snd rs')).
         sg_dedupe_key r = make_argus_dedupe_key HIGH_CONFLICT_ACCIDENT_RECORD ''atlas'' [str_uuid e]
         \<and> severity_rank (fst (severity_for_atlas_high_conflict n)) \<le> severity_rank (sg_severity r)
         \<and> (\<forall>c \<in> set (db_conflicts d). cc_event_id c = e \<longrightarrow> cc_status c = OPEN \<longrightarrow>
              (sg_id r, EV_ATLAS_CONFLICT, cc_id c) \<in> link ` set (ad_evidence (snd rs'))))"
proof -
  have "(EV_ATLAS_CONFLICT, cc_id c, ''OPEN conflict on field='' @ cc_field_name c)
      \<in> set (map (\<lambda>c. (EV_ATLAS_CONFLICT, cc_id c, ''OPEN conflict on field='' @ cc_field_name c))
            (filter (\<lambda>c. cc_status c = OPEN) (conflicts_find_by_event e d)))"
    if "c \<in> set (db_conflicts d)" "cc_event_id c = e" "cc_status c = OPEN" for c
    using that by (force simp: conflicts_find_by_event_def with_links_def image_iff)
  then show ?thesis
    using emit_ok [OF assms(1) assms(2) [unfolded emit_high_conflict_def prod.case]] by fastforce
qed

lemma detect_atlas_ok: "argus_inv (snd rs) \<Longrightarrow> pass_ok rs (detect_atlas min_count limit now core rs)"
  unfolding detect_atlas_def
  by (auto intro!: pass_ok_fold errored_pass pass_ok_refl emit_high_conflict_ok [OF _ refl, THEN conjunct1]
      split: option.split sum.split)

text \<open>A signal of a record with many open conflicts: at least as severe as their number asks for, every one linked.\<close>

definition conflict_signal :: "db \<Rightarrow> uuid \<Rightarrow> nat \<Rightarrow> argus_db \<Rightarrow> argus_signal \<Rightarrow> bool" where
  "conflict_signal d e n s r \<longleftrightarrow> r \<in> set (ad_signals s)
     \<and> sg_dedupe_key r = make_argus_dedupe_key HIGH_CONFLICT_ACCIDENT_RECORD ''atlas'' [str_uuid e]
     \<and> severity_rank (fst (severity_for_atlas_high_conflict n)) \<le> severity_rank (sg_severity r)
     \<and> (\<forall>c \<in> set (db_conflicts d). cc_event_id c = e \<longrightarrow> cc_status c = OPEN \<longrightarrow>
          (sg_id r, EV_ATLAS_CONFLICT, cc_id c) \<in> link ` set (ad_evidence s))"

lemma conflict_signal_grows:
  assumes "conflict_signal d e n s r" and "grows s s'"
  shows "\<exists>r'. conflict_signal d e n s' r'"
proof -
  obtain r' where r': "r' \<in> set (ad_signals s')" "covers r r'"
    using assms by (auto simp: conflict_signal_def grows_def)
  have "(sg_id r', EV_ATLAS_CONFLICT, cc_id c) \<in> link ` set (ad_evidence s')"
    if "c \<in> set (db_conflicts d)" "cc_event_id c = e" "cc_status c = OPEN" for c
    using that assms(1) grows_link [OF assms(2)] r'(2) by (auto simp: conflict_signal_def covers_def)
  then have "conflict_signal d e n s' r'" using assms(1) r' by (auto simp: conflict_signal_def covers_def)
  then show ?thesis by blast
qed

lemma high_conflicts_covered:
  assumes "argus_inv (snd rs)" and "(e, n) \<in> set hs" and "rs' = fold (emit_high_conflict now min_count d) hs rs"
  shows "0 < writes (fst rs') \<and> (\<exists>r. conflict_signal d e n (snd rs') r)"
  using assms
proof (induction hs arbitrary: rs)
  case (Cons h hs)
  let ?rs1 = "emit_high_conflict now min_count d h rs"
  have 1: "pass_ok rs ?rs1" using emit_high_conflict_ok [OF Cons.prems(1) refl] by (cases h) blast
  then have inv1: "argus_inv (snd ?rs1)" by (simp add: pass_ok_def)
  have rs': "rs' = fold (emit_high_conflict now min_count d) hs ?rs1" using Cons.prems(3) by simp
  show ?case
  proof (cases "(e, n) \<in> set hs")
    case True
    show ?thesis by (rule Cons.IH [OF inv1 True rs'])
  next
    case False
    then have "h = (e, n)" using Cons.prems(2) by simp
    then obtain r where r: "conflict_signal d e n (snd ?rs1) r" "0 < writes (fst ?rs1)"
      using emit_high_conflict_ok [OF Cons.prems(1) refl, of now min_count d e n] by (auto simp: conflict_signal_def)
    have "pass_ok ?rs1 rs'"
      unfolding rs' by (rule pass_ok_fold [OF _ inv1]) (use emit_high_conflict_ok [OF _ refl] in fast)
    then show ?thesis using r conflict_signal_grows [OF r(1)] by (auto simp: pass_ok_def)
  qed
qed simp

definition open_count :: "db \<Rightarrow> uuid \<Rightarrow> nat" where
  "open_count d e = length (filter (\<lambda>c. cc_status c = OPEN \<and> cc_event_id c = e) (db_conflicts d))"

lemma count_open_exact:
  assumes "2 \<le> th" and "th \<le> int (open_count d e)" and "card {e. th \<le> int (open_count d e)} \<le> limit"
  obtains hs where "count_open_conflicts_per_event th limit d = Inr hs" "(e, open_count d e) \<in> set hs"
proof -
  define opens where "opens = filter (\<lambda>c. cc_status c = OPEN) (db_conflicts d)"
  define kept where "kept = filter (\<lambda>(e, n). th \<le> int n)
    (map (\<lambda>e. (e, length (filter (\<lambda>c. cc_event_id c = e) opens))) (dict_fromkeys (map cc_event_id opens)))"
  have count: "length (filter (\<lambda>c. cc_event_id c = e) opens) = open_count d e" for e
    by (simp add: opens_def open_count_def conj_commute)
  have mem: "(e, open_count d e) \<in> set kept" if "th \<le> int (open_count d e)" for e
  proof -
    have "filter (\<lambda>c. cc_event_id c = e) opens \<noteq> []" using count [of e] that assms(1) by auto
    then have "e \<in> cc_event_id ` set opens" by (auto simp: filter_empty_conv)
    then show ?thesis using that by (auto simp: kept_def count)
  qed
  have "set (map fst kept) \<subseteq> {e. th \<le> int (open_count d e)}" by (auto simp: kept_def count)
  moreover have "{e. th \<le> int (open_count d e)} \<subseteq> set (map fst kept)" using mem by force
  moreover have "distinct (map fst kept)"
    unfolding kept_def by (rule distinct_map_filter) (simp add: comp_def)
  ultimately have "length kept \<le> limit" using assms(3) by (metis distinct_card length_map subset_antisym)
  then have "count_open_conflicts_per_event th limit d = Inr (sort_key (\<lambda>(e, n). (- int n, e)) kept)"
    using assms(1) by (simp add: count_open_conflicts_per_event_def Let_def opens_def [symmetric] kept_def [symmetric])
  then show ?thesis using that mem [OF assms(2)] by simp
qed

section \<open>Histories\<close>

inductive argus_step :: "argus_db \<Rightarrow> argus_db \<Rightarrow> bool" where
  detection: "run_argus_signal_detection now inp chronos hermes core s = Inr (result, s') \<Longrightarrow> argus_step s s'"
| review: "review_argus_signal (\<lambda>x. x) now rinp s = Inr (r, s') \<Longrightarrow> argus_step s s'"

inductive_cases argus_stepE: "argus_step s s'"

text \<open>A run is the passes of its engines one after the other; the last one is that over the core store.\<close>

lemma run_detection_passes:
  assumes "run_argus_signal_detection now inp chronos hermes core s = Inr (result, s')" and "argus_inv s"
  obtains rs rs' where "pass_ok (empty_detection_result, s) rs"
    and "rs' = (if di_include_atlas inp
      then detect_atlas (di_high_conflict_threshold inp) (nat (di_recent_limit inp)) now core rs else rs)"
    and "pass_ok rs rs'" and "s' = (if 0 < writes (fst rs') then snd rs' else s)"
proof -
  define rs0 where "rs0 = (empty_detection_result, s)"
  define rs1 where "rs1 = (if di_include_chronos inp then detect_chronos (nat (di_recent_limit inp)) now chronos rs0 else rs0)"
  define rs2 where "rs2 = (if di_include_hermes inp then detect_hermes (nat (di_recent_limit inp)) now hermes rs1 else rs1)"
  define rs3 where "rs3 = (if di_include_atlas inp
      then detect_atlas (di_high_conflict_threshold inp) (nat (di_recent_limit inp)) now core rs2 else rs2)"
  have 0: "argus_inv (snd rs0)" using assms(2) by (simp add: rs0_def)
  have 1: "pass_ok rs0 rs1" unfolding rs1_def using detect_chronos_ok [OF 0] pass_ok_refl [OF 0] by simp
  then have i1: "argus_inv (snd rs1)" by (simp add: pass_ok_def)
  have 2: "pass_ok rs1 rs2" unfolding rs2_def using detect_hermes_ok [OF i1] pass_ok_refl [OF i1] by simp
  then have i2: "argus_inv (snd rs2)" by (simp add: pass_ok_def)
  have 3: "pass_ok rs2 rs3" unfolding rs3_def using detect_atlas_ok [OF i2] pass_ok_refl [OF i2] by simp
  have "s' = (if 0 < writes (fst rs3) then snd rs3 else s)"
    using assms(1) unfolding run_argus_signal_detection_def Let_def rs0_def [symmetric] rs1_def [symmetric]
      rs2_def [symmetric] rs3_def [symmetric]
    by (auto simp: writes_def split: if_splits)
  then show ?thesis using that pass_ok_trans [OF 1 2] 3 rs3_def rs0_def by blast
qed

lemma run_detection_ok:
  assumes "run_argus_signal_detection now inp chronos hermes core s = Inr (result, s')" and "argus_inv s"
  shows "argus_inv s' \<and> grows s s'"
proof -
  obtain rs rs' where "pass_ok (empty_detection_result, s) rs" "pass_ok rs rs'" "s' = (if 0 < writes (fst rs') then snd rs' else s)"
    by (rule run_detection_passes [OF assms]) (rule that)
  then show ?thesis using pass_ok_trans [of "(empty_detection_result, s)" rs rs'] assms(2) by (auto simp: pass_ok_def)
qed

lemma signals_get_id: "signals_get i s = Some r \<Longrightarrow> r \<in> set (ad_signals s) \<and> sg_id r = i"
  unfolding signals_get_def by (rule row_get_SomeD)

lemma signals_get_frame [simp]:
  "signals_get i (s\<lparr>ad_next := n\<rparr>) = signals_get i s" "signals_get i (s\<lparr>ad_reviews := x\<rparr>) = signals_get i s"
  by (simp_all add: signals_get_def)

definition reviewed :: "time \<Rightarrow> review_signal_input \<Rightarrow> argus_signal \<Rightarrow> argus_signal" where
  "reviewed now inp row =
     row\<lparr>sg_status := decision_to_status (rv_decision inp), sg_version := sg_version row + 1, sg_updated_at := now\<rparr>"

definition review_row :: "time \<Rightarrow> review_signal_input \<Rightarrow> argus_db \<Rightarrow> argus_signal_review" where
  "review_row now inp s = \<lparr>sw_id = ad_next s, sw_signal_id = rv_signal_id inp, sw_decision = rv_decision inp,
     sw_reviewer_id = rv_reviewer_id inp, sw_note = rv_note inp, sw_created_at = now\<rparr>"

definition after_review :: "time \<Rightarrow> review_signal_input \<Rightarrow> argus_signal \<Rightarrow> argus_db \<Rightarrow> argus_db" where
  "after_review now inp row s =
     s\<lparr>ad_next := ad_next s + 1, ad_reviews := ad_reviews s @ [review_row now inp s],
       ad_signals := row_update (\<lambda>r. sg_id r = rv_signal_id inp) (\<lambda>_. reviewed now inp row) (ad_signals s)\<rparr>"

lemma review_run:
  assumes "signals_get (rv_signal_id inp) s = Some r" and "sg_version r = rv_expected_version inp"
  shows "review_argus_signal conc now inp s =
    (case signals_get (rv_signal_id inp) (conc s) of
       Some row \<Rightarrow> if sg_version row = rv_expected_version inp then Inr (reviewed now inp row, after_review now inp row (conc s))
         else Inl (ArgusSignalModifiedError (rv_signal_id inp) (sg_version row) (Some row))
     | None \<Rightarrow> Inl (ArgusSignalModifiedError (rv_signal_id inp) (rv_expected_version inp + 1) None))"
proof -
  have "sg_id r = rv_signal_id inp" using signals_get_id [OF assms(1)] by simp
  then show ?thesis
    using assms by (simp add: review_argus_signal_def signal_update_with_version_check_def signal_reviews_add_def Let_def
        reviewed_def review_row_def after_review_def split: option.split)
qed

lemma review_Inr:
  assumes "review_argus_signal conc now inp s = Inr (u, s')"
  obtains row where "signals_get (rv_signal_id inp) (conc s) = Some row" and "sg_version row = rv_expected_version inp"
    and "u = reviewed now inp row" and "s' = after_review now inp row (conc s)"
    and "\<exists>r. signals_get (rv_signal_id inp) s = Some r \<and> sg_version r = rv_expected_version inp"
proof -
  obtain r where r: "signals_get (rv_signal_id inp) s = Some r" "sg_version r = rv_expected_version inp"
    using assms by (auto simp: review_argus_signal_def split: option.splits if_splits)
  show ?thesis using assms that r unfolding review_run [OF r] by (auto split: option.splits if_splits)
qed

lemma signal_get_unique:
  assumes "argus_inv s" and "signals_get i s = Some row" and "r \<in> set (ad_signals s)" and "sg_id r = i"
  shows "r = row"
proof -
  have "inj_on sg_id (set (ad_signals s))" using assms(1) by (simp add: argus_inv_def ids_below_def distinct_map)
  then show ?thesis using signals_get_id [OF assms(2)] assms(3,4) by (auto dest: inj_onD)
qed

lemma ids_below_map: "ids_below key rows n \<longleftrightarrow> (\<forall>x \<in> set (map key rows). x < n) \<and> distinct (map key rows)"
  by (simp add: ids_below_def)

lemma review_ok:
  assumes "review_argus_signal (\<lambda>x. x) now inp s = Inr (u, s')" and inv: "argus_inv s"
  shows "argus_inv s' \<and> grows s s'"
proof -
  define i where "i = rv_signal_id inp"
  obtain row where row: "signals_get i s = Some row" and u: "u = reviewed now inp row" and s': "s' = after_review now inp row s"
    using review_Inr [OF assms(1)] by (auto simp: i_def)
  define g where "g r = (if sg_id r = i then reviewed now inp r else r)" for r
  have g: "sg_id (g r) = sg_id r" "sg_dedupe_key (g r) = sg_dedupe_key r" "covers r (g r)" for r
    by (simp_all add: g_def reviewed_def covers_def)
  have m: "row \<in> set (ad_signals s)" "sg_id row = i" using signals_get_id [OF row] by simp_all
  have "(if sg_id r = i then reviewed now inp row else r) = g r" if "r \<in> set (ad_signals s)" for r
    using signal_get_unique [OF inv row that] by (simp add: g_def)
  then have sigs: "ad_signals s' = map g (ad_signals s)"
    unfolding s' after_review_def row_update_def i_def by simp
  have ids: "map sg_id (ad_signals s') = map sg_id (ad_signals s)" "map sg_dedupe_key (ad_signals s') = map sg_dedupe_key (ad_signals s)"
    unfolding sigs by (simp_all add: g)
  have sr: "signal_reviews s' j = signal_reviews s j @ (if j = i then [review_row now inp s] else [])" for j
    by (simp add: s' after_review_def signal_reviews_def review_row_def i_def)
  have idset: "sg_id ` set (ad_signals s') = sg_id ` set (ad_signals s)" using ids(1) by (metis list.set_map)
  have "signal_ok s' r" if r: "r \<in> set (ad_signals s')" for r
  proof -
    obtain r0 where r0: "r0 \<in> set (ad_signals s)" "r = g r0" using r unfolding sigs by auto
    have "signal_ok s r0" using inv r0(1) by (simp add: argus_inv_def)
    then show ?thesis using r0(2) by (auto simp: signal_ok_def sr decided_def review_row_def g_def reviewed_def)
  qed
  moreover have "ids_below sg_id (ad_signals s') (ad_next s')"
    using inv unfolding argus_inv_def ids_below_map ids by (auto simp: s' after_review_def)
  moreover have "i \<in> sg_id ` set (ad_signals s)" using m by force
  ultimately have "argus_inv s'"
    using inv ids(2) unfolding argus_inv_def idset by (simp add: s' after_review_def review_row_def i_def)
  moreover have "grows s s'"
    by (rule growsI [where g = g and rs = "[review_row now inp s]"]) (simp_all add: sigs g, simp_all add: s' after_review_def)
  ultimately show ?thesis by simp
qed

lemma argus_step_ok: "argus_step s s' \<Longrightarrow> argus_inv s \<Longrightarrow> argus_inv s' \<and> grows s s'"
  by (erule argus_stepE) (auto dest: run_detection_ok review_ok)

definition empty_argus :: argus_db where
  "empty_argus = \<lparr>ad_signals = [], ad_evidence = [], ad_reviews = [], ad_next = 1\<rparr>"

interpretation argus_system: invariant_system "\<lambda>s. s = empty_argus" argus_step argus_inv
proof unfold_locales
  show "s = empty_argus \<Longrightarrow> argus_inv s" for s by (simp add: empty_argus_def argus_inv_def ids_below_def)
  show "argus_step s t \<Longrightarrow> argus_inv s \<Longrightarrow> argus_inv t" for s t by (simp add: argus_step_ok)
qed

lemma argus_steps_grow: "argus_step\<^sup>*\<^sup>* s t \<Longrightarrow> argus_inv s \<Longrightarrow> grows s t"
proof (induction rule: rtranclp_induct)
  case (step t u)
  then have "argus_inv t" using argus_system.steps_inv by blast
  then show ?case using step argus_step_ok grows_trans by blast
qed simp

interpretation signal_row: versioned_row "signals_get i" sg_version
  "\<lambda>v f s. Inr (signal_update_with_version_check now i v (\<lambda>r. (f r)\<lparr>sg_id := i\<rparr>) s)" for i now
proof
  fix d :: argus_db and v f
  assume "\<forall>r. signals_get i d = Some r \<longrightarrow> sg_version r \<noteq> v"
  then show "Inr (signal_update_with_version_check now i v (\<lambda>r. (f r)\<lparr>sg_id := i\<rparr>) d) = Inr (None, d)"
    by (auto simp: signal_update_with_version_check_def split: option.split)
next
  fix d :: argus_db and r v f x d'
  assume r: "signals_get i d = Some r" "sg_version r = v"
    and u: "Inr (signal_update_with_version_check now i v (\<lambda>r. (f r)\<lparr>sg_id := i\<rparr>) d) = Inr (x, d')"
  define w where "w = (f r)\<lparr>sg_id := i, sg_version := v + 1, sg_updated_at := now\<rparr>"
  have "x = Some w" "d' = d\<lparr>ad_signals := row_update (\<lambda>r. sg_id r = i) (\<lambda>_. w) (ad_signals d)\<rparr>"
    using u r by (auto simp: signal_update_with_version_check_def w_def Let_def)
  moreover have "row_get sg_id i (row_update (\<lambda>r. sg_id r = i) (\<lambda>_. w) rows) = map_option (\<lambda>_. w) (row_get sg_id i rows)" for rows
    by (induction rows) (simp_all add: w_def)
  ultimately show "x \<noteq> None \<and> (\<exists>r'. signals_get i d' = Some r' \<and> sg_version r' = v + 1)"
    using r by (simp add: signals_get_def w_def)
qed

lemma version_of_reviews:
  "argus_inv s \<Longrightarrow> signals_get i s = Some r \<Longrightarrow> sg_version r = 1 + int (length (signal_reviews s i))"
  using signals_get_id by (fastforce simp: argus_inv_def signal_ok_def)

lemma reviews_grow: "grows s t \<Longrightarrow> \<exists>rs. signal_reviews t i = signal_reviews s i @ rs"
  by (auto simp: grows_def signal_reviews_def)

section \<open>Example states\<close>

definition watch :: "bool \<Rightarrow> detection_input" where
  "watch atlas = \<lparr>di_include_chronos = \<not> atlas, di_include_hermes = False, di_include_atlas = atlas, di_include_orion = False,
     di_recent_limit = 100, di_high_conflict_threshold = 2\<rparr>"

definition sample_sequence_review :: chronos_sequence_review where
  "sample_sequence_review = \<lparr>cq_id = 7, cq_accident_event_id = 1, cq_reason = ''order'', cq_pending = True, cq_created_at = 0\<rparr>"

definition signalled :: argus_db where
  "signalled = snd (emit 10 TIMELINE_SEQUENCE_CONFLICT severity_for_chronos_sequence_conflict
     ''Timeline sequence conflict detected'' ''order'' (Some 1) ''chronos'' [str_uuid 7]
     [(EV_CHRONOS_SEQUENCE_REVIEW, 7, ''order'')] (empty_detection_result, empty_argus))"

lemma signalled_signals:
  "\<exists>r. ad_signals signalled = [r] \<and> sg_id r = 1 \<and> sg_version r = 1"
  by (simp add: signalled_def emit_def new_signal_def detect_upsert_signal_def upsert_signal_def find_by_dedupe_key_def
      empty_argus_def detect_upsert_evidence_def upsert_evidence_def Let_def)

lemma signalled_reached: "argus_step\<^sup>*\<^sup>* empty_argus signalled"
proof -
  let ?rs = "emit 10 TIMELINE_SEQUENCE_CONFLICT severity_for_chronos_sequence_conflict
     ''Timeline sequence conflict detected'' ''order'' (Some 1) ''chronos'' [str_uuid 7]
     [(EV_CHRONOS_SEQUENCE_REVIEW, 7, ''order'')] (empty_detection_result, empty_argus)"
  have "0 < writes (fst ?rs)"
    using emit_ok [OF _ refl, of "(empty_detection_result, empty_argus)"] argus_system.init_inv by auto
  then have "run_argus_signal_detection 10 (watch False) (Some [sample_sequence_review]) None None empty_argus = Inr (fst ?rs, signalled)"
    by (simp add: run_argus_signal_detection_def watch_def detect_chronos_def list_pending_def sample_sequence_review_def
        Let_def signalled_def writes_def)
  then show ?thesis using argus_step.detection by blast
qed

definition verdict :: review_signal_input where
  "verdict = \<lparr>rv_signal_id = 1, rv_decision = DECIDE_DISMISSED, rv_expected_version = 1, rv_reviewer_id = None, rv_note = None\<rparr>"

definition contested_core :: db where
  "contested_core = empty_db\<lparr>db_conflicts := map (\<lambda>(i, f). \<lparr>cc_id = i, cc_event_id = 1, cc_field_name = f, cc_status = OPEN,
     cc_version = 1, cc_last_modified_reason = INITIAL, cc_last_modified_note = None, cc_winning_claim_id = None,
     cc_resolved_at = None, cc_resolved_by = None, cc_created_at = 0, cc_updated_at = 0, cc_claim_ids = []\<rparr>)
     [(11, ''title''), (12, ''operator'')]\<rparr>"

lemma contested_count: "open_count contested_core e = (if e = 1 then 2 else 0)"
  by (simp add: open_count_def contested_core_def)

section \<open>Properties\<close>

text \<open>C38: in every reachable state of the signal queue, whatever detection passes and reviews interleave, there is one
  signal per dedupe key and one evidence row per link, evidence and reviews belong to existing signals, the version
  of a signal counts its reviews, and its status is the decision of the last one: no detection pass reopens or
  overrides a reviewed signal.\<close>

theorem argus_consistent: "argus_step\<^sup>*\<^sup>* empty_argus s \<Longrightarrow> argus_inv s"
  by (rule argus_system.reachable_inv) (rule refl)

theorem argus_consistent_witness: "argus_inv signalled \<and> length (ad_signals signalled) = 1"
  using argus_consistent [OF signalled_reached] signalled_signals by auto

text \<open>C39: a review that succeeds although other transactions committed any history of detections and reviews after it
  read the signal has the same result and effect as one made alone after them; nobody reviewed the signal in
  between, and the signal ends with this decision as the only new entry of its log.\<close>

theorem argus_review_serial:
  assumes "argus_step\<^sup>*\<^sup>* empty_argus s" and "argus_step\<^sup>*\<^sup>* s t"
    and "review_argus_signal (\<lambda>_. t) now inp s = Inr (u, s')"
  shows "review_argus_signal (\<lambda>x. x) now inp t = Inr (u, s')
    \<and> signal_reviews t (rv_signal_id inp) = signal_reviews s (rv_signal_id inp)
    \<and> signal_reviews s' (rv_signal_id inp) = signal_reviews s (rv_signal_id inp) @ [review_row now inp t]
    \<and> sg_status u = decision_to_status (rv_decision inp)"
proof -
  let ?i = "rv_signal_id inp"
  obtain row r where row: "signals_get ?i t = Some row" "sg_version row = rv_expected_version inp"
    and u: "u = reviewed now inp row" "s' = after_review now inp row t"
    and r: "signals_get ?i s = Some r" "sg_version r = rv_expected_version inp"
    using review_Inr [OF assms(3)] by metis
  have inv: "argus_inv s" "argus_inv t"
    using argus_system.reachable_inv [OF refl assms(1)] argus_system.steps_inv [OF assms(2)] by blast+
  have "length (signal_reviews t ?i) = length (signal_reviews s ?i)"
    using version_of_reviews [OF inv(1) r(1)] version_of_reviews [OF inv(2) row(1)] row(2) r(2) by simp
  then have same: "signal_reviews t ?i = signal_reviews s ?i"
    using reviews_grow [OF argus_steps_grow [OF assms(2) inv(1)], of ?i] by auto
  have "review_argus_signal (\<lambda>x. x) now inp t = Inr (u, s')" using review_run [OF row] row u by simp
  moreover have "signal_reviews s' ?i = signal_reviews t ?i @ [review_row now inp t]"
    unfolding u by (simp add: after_review_def signal_reviews_def review_row_def)
  ultimately show ?thesis using same u by (simp add: reviewed_def)
qed

theorem argus_review_serial_witness:
  "\<exists>u s'. review_argus_signal (\<lambda>_. signalled) 20 verdict signalled = Inr (u, s') \<and> sg_status u = SIG_DISMISSED
     \<and> review_argus_signal (\<lambda>x. x) 20 verdict signalled = Inr (u, s')"
proof -
  obtain r where "ad_signals signalled = [r]" "sg_id r = 1" "sg_version r = 1" using signalled_signals by blast
  then have r: "signals_get (rv_signal_id verdict) signalled = Some r" "sg_version r = rv_expected_version verdict"
    by (simp_all add: signals_get_def verdict_def)
  then have "review_argus_signal (\<lambda>_. signalled) 20 verdict signalled =
      Inr (reviewed 20 verdict r, after_review 20 verdict r signalled)" by (simp add: review_run [OF r])
  then show ?thesis using argus_review_serial [OF signalled_reached rtranclp.rtrancl_refl] by (fastforce simp: verdict_def)
qed

text \<open>C40: no contested record is overlooked: if a detection run includes the core store and at most as many records as
  its limit reach the threshold, then for each of them there is a signal at least as severe as its number of open
  conflicts asks for, with every open conflict linked as evidence.\<close>

theorem high_conflicts_signalled:
  assumes "run_argus_signal_detection now inp chronos hermes (Some d) s = Inr (result, s')" and "argus_inv s"
    and "di_include_atlas inp" and "2 \<le> di_high_conflict_threshold inp"
    and "di_high_conflict_threshold inp \<le> int (open_count d e)"
    and "card {e. di_high_conflict_threshold inp \<le> int (open_count d e)} \<le> nat (di_recent_limit inp)"
  shows "\<exists>r. conflict_signal d e (open_count d e) s' r"
proof -
  obtain rs rs' where rs: "pass_ok (empty_detection_result, s) rs"
    "rs' = (if di_include_atlas inp
      then detect_atlas (di_high_conflict_threshold inp) (nat (di_recent_limit inp)) now (Some d) rs else rs)"
    "s' = (if 0 < writes (fst rs') then snd rs' else s)"
    by (rule run_detection_passes [OF assms(1,2)]) (rule that)
  obtain hs where hs: "count_open_conflicts_per_event (di_high_conflict_threshold inp) (nat (di_recent_limit inp)) d = Inr hs"
    "(e, open_count d e) \<in> set hs"
    by (rule count_open_exact [OF assms(4,5,6)])
  have "rs' = fold (emit_high_conflict now (di_high_conflict_threshold inp) d) hs rs"
    using rs(2) hs(1) assms(3,4) by (simp add: detect_atlas_def)
  then have "0 < writes (fst rs') \<and> (\<exists>r. conflict_signal d e (open_count d e) (snd rs') r)"
    using rs(1) hs(2) by (intro high_conflicts_covered) (simp_all add: pass_ok_def)
  then show ?thesis using rs(3) by simp
qed

theorem high_conflicts_signalled_witness:
  "\<exists>result s' r. run_argus_signal_detection 10 (watch True) None None (Some contested_core) empty_argus = Inr (result, s')
     \<and> conflict_signal contested_core 1 2 s' r"
proof -
  obtain result s' where run: "run_argus_signal_detection 10 (watch True) None None (Some contested_core) empty_argus = Inr (result, s')"
    by (simp add: run_argus_signal_detection_def watch_def Let_def)
  have "{e. di_high_conflict_threshold (watch True) \<le> int (open_count contested_core e)} = {1}"
    by (auto simp: contested_count watch_def)
  then have "\<exists>r. conflict_signal contested_core 1 (open_count contested_core 1) s' r"
    by (intro high_conflicts_signalled [OF run argus_system.init_inv]) (simp_all add: watch_def contested_count)
  then show ?thesis using run by (auto simp: contested_count)
qed

end
