(* ===== verification/Spec2Isabelle.thy ===== *)
theory Spec2Isabelle
  imports Conflict_Lifecycle Outbox Reconciler Event_Identity Merge Source_Normalizer Ingestion_Complete
    Public_Pages Usage_Ledger Argus_Review
begin

text \<open>
  Atlas, the aviation safety platform under \<open>src/src/atlas\<close>, collects what several sources claim
  about accidents, keeps every claim, detects where sources contradict each other, lets curators
  decide, and publishes one projected record per accident.  This development models that core and
  proves what makes it correct.  All paths below are relative to \<open>src/src/atlas\<close>.

  The program.  A submission enters through \<open>IngestSourceData\<close>: it is validated, hashed and replayed
  if its run is known; otherwise it is normalised, stored as a snapshot, attached to an event (named
  explicitly, known from the source record, matched by identity, or new), written as claims that
  supersede the earlier claims of the same source record, and reconciled with the conflicts of the
  event.  An outbox row asks the worker to recompute the projection.  Curators resolve and reopen
  conflicts, merge duplicate events and decide duplicate reviews.  Rebuild and verification recompute
  projections from the claims.  Editors bring events to the public: a publication state moves through a
  review, publishing writes the page, its versions and its search and map documents, and the public reads
  serve them.  Beside the public record tenants keep private sources, claims, overlays and safety reports about
  the same events; their use is metered and rolled up per day for billing.  Argus watches the core and the two
  neighbouring engines and raises signals that analysts review.

  The state.  \<open>Store\<close> holds the tables as lists of rows in one record \<open>db\<close>, with a counter in place of
  \<open>uuid4\<close> that is above every identifier in use.  A transaction is a function from the store to
  \<open>Inr\<close> of a result and the new store, or to \<open>Inl\<close> of the exception, on which the unit of work rolls
  everything of the transaction away; \<open>commit\<close> is the identity.  \<open>now\<close> is the one clock
  reading of an operation.  The unique indexes the statements can violate raise \<open>IntegrityError\<close>.
  What other transactions commit while one waits is an argument: \<open>env\<close> before each conditional
  update of a retry loop, \<open>lock_env\<close> at the row locks of a merge, \<open>conc\<close> at the wait points of an
  ingestion, \<open>busy\<close> for rows skipped by \<open>SKIP LOCKED\<close>.  The publication tables are a record of their own,
  \<open>publication_db\<close>, with their own errors; the core tables are read there and never written, so they are an
  argument.  The same holds for the tables of the tenants, \<open>tenant_db\<close>, and of the signals, \<open>argus_db\<close>.

  The theories.
  \<^item> \<open>Atlas_Prelude\<close>: results with errors, insertion-ordered dictionaries, rows of tables and the
    lemmas the components share.
  \<^item> \<open>Py_Strings\<close>, \<open>Py_Float\<close>, \<open>Py_Dates\<close>, \<open>Py_Json\<close>: the parts of the standard library the sources use;
    floats are rationals rounded to binary64, with error bounds.
  \<^item> \<open>Interfaces\<close>: the contracts as locales.  \<open>versioned_row\<close> is optimistic locking, interpreted in
    \<open>Store\<close> on a conflict and in \<open>Argus_Review\<close> on the signals; \<open>versioned_table\<close> extends it with all statements
    that write to the row, interpreted in \<open>Store\<close> on the conflict table; \<open>invariant_system\<close> is reachability with
    an invariant, interpreted in \<open>Outbox\<close> on the interleaved steps of the workers, in \<open>Publication_Invariants\<close> on
    the editorial steps and in \<open>Argus_Review\<close> on detections and reviews.
    Further contracts stand where their clients are: \<open>separation\<close> (noninterference from unwinding conditions,
    in \<open>Separation\<close>, interpreted on the requests of tenants) and \<open>word_pattern\<close> (patterns of whole words, in
    \<open>Deidentification\<close>, interpreted on employee and tail numbers).
  \<^item> \<open>Atlas_Entities\<close>: \<open>domain/enums.py\<close>, \<open>domain/entities.py\<close>, \<open>domain/exceptions.py\<close>, \<open>domain/constants.py\<close>.
  \<^item> \<open>Store\<close>: the statements of \<open>infrastructure/db/repositories\<close> on sources, events, claims, conflicts and
    projections, the invariant \<open>store_inv\<close> (identifiers fresh and distinct, superseded claims point to
    their successor, one open conflict per field, resolved conflicts complete, activity numbered without
    gaps), that each statement keeps it, and that no conflict update is lost.
  \<^item> \<open>Claim_Values\<close>, \<open>Conflict_Detection\<close>: \<open>domain/services/conflict_detector.py\<close> and \<open>conflict_utils.py\<close>:
    the equality of values, in which NaN differs from itself as in Python, and that a conflict is raised
    exactly for cross-source disagreement.
  \<^item> \<open>Projection\<close>: \<open>winner_policy.py\<close>, \<open>completeness.py\<close>, \<open>projection_builder.py\<close>: every published value comes
    from a claim, a disputed field is marked, the choice is optimal and independent of the order of rows.
  \<^item> \<open>Reproject\<close>: \<open>use_cases/reproject_event.py\<close>, \<open>rebuild_all_projections.py\<close> and
    \<open>verify_projection_consistency.py\<close>: up-to-date whatever caused it, idempotent, once per outbox event
    also when it is delivered again; the rebuild visits
    every event and ends.
  \<^item> \<open>Conflict_Lifecycle\<close>: \<open>resolve_conflict.py\<close>, \<open>reopen_conflict.py\<close>, \<open>_conflict_modified.py\<close>: effect of a
    resolution on claims, conflict and projection, and the round trip of resolving and reopening.
  \<^item> \<open>Outbox\<close>: \<open>repositories/outbox.py\<close> and \<open>event_bus/outbox_worker.py\<close>: \<open>worker_step\<close> interleaves any
    number of workers; leases are fenced, attempts bounded, outcomes final, due rows fetched, failures
    scheduled and a fetched update delivered.
  \<^item> \<open>Reconciler\<close>, \<open>Reconcile_Invariants\<close>: \<open>ingestion/_conflict_reconciler.py\<close>: detected conflicts are opened,
    extended or reopened; stale winners are replaced and stale conflicts closed.
  \<^item> \<open>Event_Identity\<close>, \<open>Event_Matching\<close>, \<open>Identity_Resolution\<close>: \<open>repositories/identity.py\<close> and \<open>reviews.py\<close>,
    \<open>domain/services/event_matching.py\<close>, \<open>ingestion/_identity_index_updater.py\<close>, \<open>_event_resolution.py\<close> and
    \<open>_continuity.py\<close>: the walks to the surviving event agree, the SQL union of aliases equals the
    validator of the entity, and the matcher attaches exactly on one clear best candidate.
  \<^item> \<open>Merge\<close>: \<open>merge_duplicate_events.py\<close>, \<open>review_duplicate.py\<close>: claims move, conflicts are rebuilt, merge
    pointers stay a forest, reviews are decided once.
  \<^item> \<open>Source_Normalizer\<close>, \<open>Claim_Writer\<close>: \<open>domain/services/ingestion.py\<close>, \<open>ingestion/_claim_writer.py\<close>: normalised
    claims have the type of their field, and a write leaves one active claim per source record and field.
  \<^item> \<open>Ingestion\<close>, \<open>Ingestion_Complete\<close>: \<open>use_cases/ingest_source_data.py\<close>, \<open>ingestion/_idempotency.py\<close>,
    \<open>repositories/snapshots.py\<close> and \<open>ingestion.py\<close>: a retry is answered from the stored result without a
    write, and a completed ingestion leaves a consistent store with every disagreement an open conflict.
  \<^item> \<open>Keyset\<close>: the keyset pagination several listings share: a walk over the pages returns every row once.
  \<^item> \<open>Page_Slug\<close>, \<open>Publication\<close>, \<open>Publication_Invariants\<close>: \<open>domain/publication/slug.py\<close>, \<open>use_cases/editorial.py\<close>, the
    publication repositories and the search and map indexing they call: slugs are well formed and unique,
    public pages, publication states and index documents agree in every reachable store, a retracted page is
    final even when requests overlap, a published version was reviewed, concurrent edits are serialised and the rebuild of the search
    index is exact.
  \<^item> \<open>Public_Pages\<close>: \<open>use_cases/public_events.py\<close>: the evidence view explains every value of a page, the listing
    is exact, related pages are public, and which states the single-page read really serves.
  \<^item> \<open>Deidentification\<close>: \<open>application/services/deidentification.py\<close>, with the backtracking semantics of the regular
    expressions it uses: no employee number survives the scrub, a tail number can.
  \<^item> \<open>Tenancy\<close>, \<open>Tenant_Isolation\<close>: \<open>use_cases/tenancy.py\<close>, \<open>tenant_ingestion.py\<close>, \<open>metering.py\<close>,
    \<open>services/metering.py\<close> and their repositories: no tenant's answers or rows depend on what other tenants do,
    and usage events count claims, reports and finished runs exactly as long as requests do not overlap.
  \<^item> \<open>Usage_Ledger\<close>: the daily rollup as one exact update of a ledger, and the race that completes and bills an
    ingestion run twice.
  \<^item> \<open>Argus\<close>, \<open>Argus_Review\<close>: \<open>use_cases/run_argus_signal_detection.py\<close>, \<open>review_argus_signal.py\<close>,
    \<open>list_argus_signals.py\<close>, \<open>domain/services/argus_severity.py\<close>, \<open>argus_dedupe.py\<close> and \<open>repositories/argus.py\<close>:
    in every reachable store one signal stands for one finding and its status is the last decision, a
    successful review is serial, and a detection run overlooks no contested record.

  Arguments that stand for code outside the sources: the SHA-256 digest (\<open>digest\<close>, \<open>pf_sha256\<close>), the
  text of floats and containers (\<open>rep\<close>), \<open>datetime.fromisoformat\<close> (\<open>dt\<close>), \<open>isoformat\<close> of a snapshot's
  times, Pydantic's reading of a stored result (\<open>pf_validate\<close>), the text of an exception (\<open>str_exc\<close>) and
  the Echo run the worker starts (\<open>run_echo\<close>).  Hypotheses about them are premises of the properties.

  Bounds.  Retry loops run \<open>MAX_VERSION_RETRY\<close> = 5 times as in the sources.  The loop of the rebuild
  runs on fuel; one unit per event and batch is proved to be enough, and so is one per page and batch for
  the rebuild of the search index.  Walks along merge pointers end
  because they remember the events they have seen.

  Not modelled: lengths of text columns, the collation of equal sort keys, non-ASCII text, log messages
  and metrics, and the parts that do not feed the accident core: content
  management, tenant memberships, causality, the Echo matcher, the Hermes crawler, Orion and
  Chronos (Argus takes their rows as arguments), search and maps, read-only reports, the HTTP and command-line interfaces and the process set-up.
\<close>

end
